(* ===== verification/Prelude.thy ===== *)
theory Prelude
  imports Main "HOL-Library.Word"
begin

text \<open>
  Shared vocabulary of the development: the machine integer types of
  src/src/common_lib/header/common.h, the faults a C++ operation may end in
  (written as values, never as a missing equation), the sequencing operation
  for fallible code and the generic facts on lists, maps and words the
  component theories use.
\<close>

unbundle bit_operations_syntax

section \<open>Machine integers\<close>

type_synonym appByte = "8 word"
type_synonym appInt8 = "8 word"
type_synonym appInt16 = "16 word"
type_synonym appInt32 = "32 word"
type_synonym appInt = "32 word"
type_synonym appInt64 = "64 word"

section \<open>Faults and sequencing\<close>

text \<open>
  How a C++ operation can fail to return normally: an \<open>APP_ASSERT\<close> that
  aborts the process, a use of a null pointer, an access outside an array, a
  \<open>memcpy\<close> on overlapping ranges, a division by zero, a semaphore on which the calling thread
  blocks, a loop that never ends.
\<close>

datatype fault = Assert_Failed | Null_Deref | Out_Of_Bounds | Overlap | Div_By_Zero | Blocked | Diverges

type_synonym 'a res = "fault + 'a"

fun bind_res :: "'a res \<Rightarrow> ('a \<Rightarrow> 'b res) \<Rightarrow> 'b res" where
  "bind_res (Inl e) f = Inl e"
| "bind_res (Inr x) f = f x"

definition app_assert :: "bool \<Rightarrow> 'a res \<Rightarrow> 'a res" where
  "app_assert b r = (if b then r else Inl Assert_Failed)"

definition check :: "fault \<Rightarrow> bool \<Rightarrow> 'a res \<Rightarrow> 'a res" where
  "check e b r = (if b then r else Inl e)"

named_theorems res_simps "unfolding of the sequencing of fallible operations"

lemma bind_res_Inr_iff: "bind_res r f = Inr y \<longleftrightarrow> (\<exists>x. r = Inr x \<and> f x = Inr y)"
  by (cases r) simp_all

lemma bind_res_Inl_iff:
  "bind_res r f = Inl e \<longleftrightarrow> r = Inl e \<or> (\<exists>x. r = Inr x \<and> f x = Inl e)"
  by (cases r) simp_all

lemma bind_res_assoc: "bind_res (bind_res r f) g = bind_res r (\<lambda>x. bind_res (f x) g)"
  by (cases r) simp_all

lemma app_assert_Inr_iff [res_simps]: "app_assert b r = Inr x \<longleftrightarrow> b \<and> r = Inr x"
  by (simp add: app_assert_def)

lemma check_Inr_iff [res_simps]: "check e b r = Inr x \<longleftrightarrow> b \<and> r = Inr x"
  by (simp add: check_def)

lemma app_assert_True [simp]: "app_assert True r = r"
  by (simp add: app_assert_def)

lemma app_assert_False [simp]: "app_assert False r = Inl Assert_Failed"
  by (simp add: app_assert_def)

lemma check_True [simp]: "check e True r = r"
  by (simp add: check_def)

lemma check_False [simp]: "check e False r = Inl e"
  by (simp add: check_def)

lemma bind_resE:
  assumes "bind_res r f = Inr y"
  obtains x where "r = Inr x" "f x = Inr y"
  using assms by (auto simp: bind_res_Inr_iff)

lemmas bind_res_iffs = bind_res_Inr_iff bind_res_Inl_iff

text \<open>A loop over a list, and what it keeps.\<close>

fun do_all :: "('a \<Rightarrow> 's \<Rightarrow> 's res) \<Rightarrow> 'a list \<Rightarrow> 's \<Rightarrow> 's res" where
  "do_all f [] s = Inr s"
| "do_all f (x # xs) s = bind_res (f x s) (do_all f xs)"

lemma do_all_append: "do_all f (xs @ ys) s = bind_res (do_all f xs s) (do_all f ys)"
proof (induction xs arbitrary: s)
  case (Cons x xs)
  then show ?case by (cases "f x s") simp_all
qed simp

lemma do_all_inv:
  assumes "do_all f xs s = Inr s'" "P s" "\<And>x s s'. x \<in> set xs \<Longrightarrow> P s \<Longrightarrow> f x s = Inr s' \<Longrightarrow> P s'"
  shows "P s'"
  using assms
proof (induction xs arbitrary: s)
  case (Cons x xs)
  obtain s1 where s1: "f x s = Inr s1" "do_all f xs s1 = Inr s'" using Cons.prems(1) by (auto simp: bind_res_Inr_iff)
  have "P s1" by (rule Cons.prems(3) [OF _ Cons.prems(2) s1(1)]) simp
  then show ?case
  proof (rule Cons.IH [OF s1(2)])
    fix y t t'
    assume "y \<in> set xs" "P t" "f y t = Inr t'"
    then show "P t'" by (intro Cons.prems(3) [of y t t']) simp_all
  qed
qed simp

section \<open>Big-endian byte order\<close>

text \<open>
  \<open>htons\<close>, \<open>htonl\<close>, \<open>htobe64\<close> followed by a store, and the corresponding
  loads: a word as the list of its bytes, most significant first.
\<close>

definition be_bytes :: "nat \<Rightarrow> 'a::len word \<Rightarrow> appByte list" where
  "be_bytes n w = map (\<lambda>i. ucast (drop_bit (8 * (n - 1 - i)) w)) [0..<n]"

definition be_word :: "appByte list \<Rightarrow> 'a::len word" where
  "be_word bs = foldl (\<lambda>a b. push_bit 8 a OR ucast b) 0 bs"

lemma length_be_bytes [simp]: "length (be_bytes n w) = n"
  by (simp add: be_bytes_def)

lemma be_bytes_Suc: "be_bytes (Suc n) w = ucast (drop_bit (8 * n) w) # be_bytes n w"
  by (simp add: be_bytes_def upt_conv_Cons map_Suc_upt [symmetric] del: upt_Suc)

lemma foldl_be_bytes:
  fixes w a :: "'a::len word"
  shows "foldl (\<lambda>a b. push_bit 8 a OR ucast b) a (be_bytes n w)
           = push_bit (8 * n) a OR take_bit (8 * n) w"
proof (induction n arbitrary: a)
  case 0
  then show ?case by (simp add: be_bytes_def)
next
  case (Suc n)
  have "push_bit (8 * n) (push_bit 8 a OR ucast (ucast (drop_bit (8 * n) w) :: appByte))
          OR take_bit (8 * n) w
        = push_bit (8 * Suc n) a OR take_bit (8 * Suc n) w"
    by (rule bit_word_eqI) (auto simp: bit_simps algebra_simps)
  then show ?case by (simp add: be_bytes_Suc Suc.IH)
qed

lemma be_word_be_bytes:
  fixes w :: "'a::len word"
  assumes "LENGTH('a) \<le> 8 * n"
  shows "be_word (be_bytes n w) = w"
proof -
  have "take_bit (8 * n) w = w"
    using assms by (intro bit_word_eqI) (auto simp: bit_simps)
  then show ?thesis by (simp add: be_word_def foldl_be_bytes)
qed

section \<open>Words\<close>

lemma unat_of_nat_small: "n < 2 ^ LENGTH('a) \<Longrightarrow> unat (of_nat n :: 'a::len word) = n"
  by (simp add: unat_of_nat take_bit_eq_mod)

lemma unat_plus_1:
  fixes x :: appInt16
  assumes "unat x < 65535"
  shows "unat (x + 1) = Suc (unat x)"
proof -
  have "1 + x \<noteq> 0"
  proof
    assume "1 + x = 0"
    then have "x = - 1"
      by (simp add: add_eq_0_iff)
    moreover have "unat (- 1 :: appInt16) = 65535"
      by (simp add: unsigned_minus_1_eq_mask mask_eq_exp_minus_1)
    ultimately show False using assms by simp
  qed
  then show ?thesis
    using unatSuc [of x] by (simp add: add.commute)
qed

lemma len_of_32: "(2::nat) ^ LENGTH(32) = 2 ^ 32"
  by simp

text \<open>Sixteen-bit counters less than a full turn apart are equal only when the counts are.\<close>

lemma of_nat_eq16:
  assumes "(of_nat m :: appInt16) = of_nat n" "m < n + 65536" "n < m + 65536"
  shows "m = n"
proof -
  have "m mod 65536 = n mod 65536"
    using assms(1) by (simp add: word_of_nat_eq_iff take_bit_eq_mod)
  then have "n \<le> m \<Longrightarrow> 65536 dvd m - n" "m \<le> n \<Longrightarrow> 65536 dvd n - m"
    by (metis mod_eq_dvd_iff_nat)+
  then show ?thesis
    using assms(2,3) nat_dvd_not_less [of "m - n" 65536] nat_dvd_not_less [of "n - m" 65536]
    by (cases m n rule: linorder_cases) auto
qed

end
