(* ===== verification/Packet.thy ===== *)
theory Packet
  imports Prelude
begin

text \<open>
  The data model of src/src/TunnelLib/Packet.h and PacketPool.cc: the packet
  header, the optional headers, the packet itself, the header flags of
  CommonHeaders.hh, and the fresh packets the pool hands out (the program is
  compiled with \<open>-DNO_POOL\<close>, so the pool only counts its packets).  A null
  \<open>data\<close> pointer is \<open>None\<close>; the optional header list, linked through
  \<open>next\<close> in the code, is a list.
\<close>

section \<open>Constants\<close>

definition EMPTY_FINGER_PRINT :: appInt16 where "EMPTY_FINGER_PRINT = 0"
definition MAX_PACKET_DATA_SIZE :: nat where "MAX_PACKET_DATA_SIZE = 2048"
definition MAX_PACKET_SENT_DATA_SIZE :: nat where "MAX_PACKET_SENT_DATA_SIZE = 1300"
definition PACKET_HEADER_SIZE :: nat where "PACKET_HEADER_SIZE = 28"

text \<open>\<open>sizeof(PacketHeader)\<close>: 22 bytes of fields, padded to the alignment of \<open>sentTS\<close>.\<close>

definition sizeof_PacketHeader :: nat where "sizeof_PacketHeader = 32"

definition FLAG_ACK :: appInt16 where "FLAG_ACK = 1"
definition FLAG_DAT :: appInt16 where "FLAG_DAT = 2"
definition FLAG_SYN :: appInt16 where "FLAG_SYN = 4"
definition FLAG_FFN :: appInt16 where "FLAG_FFN = 8"
definition FLAG_CFN :: appInt16 where "FLAG_CFN = 16"
definition FLAG_FAC :: appInt16 where "FLAG_FAC = 32"
definition FLAG_CHS :: appInt16 where "FLAG_CHS = 64"
definition FLAG_CSN :: appInt16 where "FLAG_CSN = 128"
definition FLAG_CTR :: appInt16 where "FLAG_CTR = 256"
definition FLAG_CHF :: appInt16 where "FLAG_CHF = 512"
definition FLAG_IFC :: appInt16 where "FLAG_IFC = 1024"

lemmas flag_defs = FLAG_ACK_def FLAG_DAT_def FLAG_SYN_def FLAG_FFN_def FLAG_CFN_def
  FLAG_FAC_def FLAG_CHS_def FLAG_CSN_def FLAG_CTR_def FLAG_CHF_def FLAG_IFC_def

definition has_flag :: "appInt16 \<Rightarrow> appInt16 \<Rightarrow> bool" where
  "has_flag flag f \<longleftrightarrow> flag AND f \<noteq> 0"

section \<open>Optional headers\<close>

text \<open>
  The constructors follow the classes derived from
  \<open>PacketOptionalAbstractHeader\<close>; the first argument is \<open>pad_\<close>, which no
  constructor initialises.  The \<open>ReceiverInfo\<close> list of a read header is a list
  of pairs \<open>(flowId, readUpto)\<close>, with the separate counter \<open>count\<close>.
\<close>

datatype opt_header =
    PacketAckHeader (opt_pad: appInt8) (ack_flowId: appInt16) (ack_ackNo: appInt16)
  | PacketIpHeader (opt_pad: appInt8) (ip_ifcId: appInt8) (ip_ifcType: appInt8) (ip_ip: appInt32)
  | PacketNonceHeader (opt_pad: appInt8) (nonce_nonce: appInt64)
  | PacketIpChngHeader (opt_pad: appInt8) (chng_ifcId: appInt8) (chng_ifcInfo: appInt8)
  | PacketReadHeader (opt_pad: appInt8) (readerInfo: "(appInt16 \<times> appInt16) list") (read_count: appInt16)

fun opt_type :: "opt_header \<Rightarrow> appInt8" where
  "opt_type (PacketAckHeader _ _ _) = 1"
| "opt_type (PacketIpHeader _ _ _ _) = 2"
| "opt_type (PacketNonceHeader _ _) = 3"
| "opt_type (PacketIpChngHeader _ _ _) = 4"
| "opt_type (PacketReadHeader _ _ _) = 5"

text \<open>
  The virtual \<open>len()\<close>: the constructor stores the payload size plus four; the
  read header adds four for every entry in an \<open>appInt\<close> that is returned as an
  \<open>appInt16\<close>.
\<close>

fun opt_len :: "opt_header \<Rightarrow> appInt16" where
  "opt_len (PacketAckHeader _ _ _) = 4 + 4"
| "opt_len (PacketIpHeader _ _ _ _) = 6 + 4"
| "opt_len (PacketNonceHeader _ _) = 8 + 4"
| "opt_len (PacketIpChngHeader _ _ _) = 2 + 4"
| "opt_len (PacketReadHeader _ infos _) =
     ucast (foldl (\<lambda>l _. l + 4) (2 + 4 :: appInt) infos)"

definition new_read_header :: "appInt8 \<Rightarrow> opt_header" where
  "new_read_header pad = PacketReadHeader pad [] 0"

fun addInfo :: "opt_header \<Rightarrow> appInt16 \<Rightarrow> appInt16 \<Rightarrow> opt_header" where
  "addInfo (PacketReadHeader pad infos cnt) flowId readUp =
     PacketReadHeader pad ((flowId, readUp) # infos) (cnt + 1)"
| "addInfo h _ _ = h"

section \<open>Packets\<close>

record PacketHeader =
  h_version :: appInt8
  h_OHLen :: appInt8
  h_ifcsrc :: appInt8
  h_ifcdst :: appInt8
  h_flag :: appInt16
  h_seqNo :: appInt16
  h_ackNo :: appInt16
  h_window :: appInt16
  h_fingerPrint :: appInt16
  h_flowId :: appInt16
  h_flowSeqNo :: appInt16
  h_origAckNo :: appInt16
  h_padding :: appInt16
  h_sentTS :: appInt64

definition reinit_header :: PacketHeader where
  "reinit_header = \<lparr> h_version = 0, h_OHLen = 0, h_ifcsrc = 0, h_ifcdst = 0, h_flag = 0,
     h_seqNo = 0, h_ackNo = 0, h_window = 0, h_fingerPrint = 0, h_flowId = 0,
     h_flowSeqNo = 0, h_origAckNo = 0, h_padding = 0, h_sentTS = 0 \<rparr>"

text \<open>An IPv4 socket address: the address and the port.\<close>

type_synonym sockaddr_in = "appInt32 \<times> appInt16"

record Packet =
  p_capa :: appInt
  p_len :: appInt
  p_header :: PacketHeader
  p_data :: "appByte list option"
  p_accepted :: bool
  p_newFlow :: bool
  p_processed :: bool
  p_recvTS :: appInt64
  p_src_addr :: sockaddr_in
  p_dest_addr :: sockaddr_in
  p_optHeaders :: "opt_header list"

definition reInitHeader :: "Packet \<Rightarrow> Packet" where
  "reInitHeader pkt = pkt\<lparr> p_len := 0, p_header := reinit_header, p_accepted := False,
     p_newFlow := False, p_processed := False, p_recvTS := 0, p_optHeaders := [] \<rparr>"

definition new_Packet :: Packet where
  "new_Packet = \<lparr> p_capa = 0, p_len = 0, p_header = reinit_header, p_data = None,
     p_accepted = False, p_newFlow = False, p_processed = False, p_recvTS = 0,
     p_src_addr = (0, 0), p_dest_addr = (0, 0), p_optHeaders = [] \<rparr>"

text \<open>
  \<open>Packet::operator=\<close> keeps the target's own \<open>data\<close> and \<open>optHeaders\<close> and copies
  everything else; \<open>cloneWithData\<close> then copies \<open>len\<close> bytes into that buffer.
\<close>

definition cloneWithoutData :: "Packet \<Rightarrow> Packet \<Rightarrow> Packet" where
  "cloneWithoutData this pkt = pkt\<lparr> p_data := p_data this, p_optHeaders := p_optHeaders this \<rparr>"

definition cloneWithData :: "Packet \<Rightarrow> Packet \<Rightarrow> Packet res" where
  "cloneWithData this pkt =
     (let this' = cloneWithoutData this pkt; n = unat (p_len pkt) in
      if n = 0 then Inr this'
      else (case (p_data this', p_data pkt) of
        (Some dst, Some src) \<Rightarrow>
          check Out_Of_Bounds (n \<le> length src \<and> n \<le> length dst)
            (Inr (this'\<lparr> p_data := Some (take n src @ drop n dst) \<rparr>))
      | _ \<Rightarrow> Inl Null_Deref))"

section \<open>The packet pool\<close>

record PacketPool =
  circullarCnt :: int

definition new_PacketPool :: PacketPool where
  "new_PacketPool = \<lparr> circullarCnt = 0 \<rparr>"

definition getNewPacket :: "PacketPool \<Rightarrow> Packet \<times> PacketPool" where
  "getNewPacket pool = (reInitHeader new_Packet, pool\<lparr> circullarCnt := circullarCnt pool + 1 \<rparr>)"

text \<open>The contents of the fresh \<open>data\<close> array are the argument \<open>junk\<close>.\<close>

definition getNewPacketWithData :: "appByte list \<Rightarrow> PacketPool \<Rightarrow> Packet \<times> PacketPool" where
  "getNewPacketWithData junk pool =
     (let (pkt, pool') = getNewPacket pool; pkt' = reInitHeader pkt in
      if p_data pkt' = None
      then (pkt'\<lparr> p_data := Some (take MAX_PACKET_DATA_SIZE junk),
                  p_capa := of_nat MAX_PACKET_DATA_SIZE \<rparr>, pool')
      else (pkt', pool'))"

definition freePacket :: "Packet option \<Rightarrow> PacketPool \<Rightarrow> PacketPool res" where
  "freePacket p pool =
     app_assert (p \<noteq> None) (Inr (pool\<lparr> circullarCnt := circullarCnt pool - 1 \<rparr>))"

section \<open>Facts the other theories use\<close>

lemma foldl_plus4: "foldl (\<lambda>l _. l + 4) (a :: 'a::len word) xs = a + of_nat (4 * length xs)"
  by (induction xs arbitrary: a) (simp_all add: algebra_simps)

lemma reInitHeader_new [simp]: "reInitHeader new_Packet = new_Packet"
  by (simp add: reInitHeader_def new_Packet_def)

lemma getNewPacketWithData_simp:
  "getNewPacketWithData junk pool =
     (new_Packet\<lparr> p_data := Some (take MAX_PACKET_DATA_SIZE junk), p_capa := of_nat MAX_PACKET_DATA_SIZE \<rparr>,
      pool\<lparr> circullarCnt := circullarCnt pool + 1 \<rparr>)"
  by (simp add: getNewPacketWithData_def getNewPacket_def) (simp add: new_Packet_def)

lemma new_Packet_simps [simp]:
  "p_header new_Packet = reinit_header" "p_len new_Packet = 0" "p_optHeaders new_Packet = []"
  "p_data new_Packet = None"
  by (simp_all add: new_Packet_def)

end
