(* ===== verification/PacketCodec.thy ===== *)
theory PacketCodec
  imports Packet
begin

text \<open>
  The wire format of src/src/TunnelLib/Packet.cc: \<open>decodeHeader\<close> and
  \<open>encodeHeader\<close> with the codecs of the optional headers.  The decoder's
  \<open>data\<close>/\<open>dataLen\<close> pair is the rest of the receive buffer together with the
  32-bit length the code keeps, which is decremented with wrap-around and
  never compared with the space left: a read past the end of the buffer is
  \<open>Out_Of_Bounds\<close>.  The encoder's buffer is overwritten in place at a
  position.  The theorems: the encoder writes the declarative image of a
  packet, and the decoder reads it back with the optional headers reversed.
\<close>

section \<open>Reading\<close>

type_synonym reader = "appByte list \<times> appInt"

definition read_bytes :: "nat \<Rightarrow> reader \<Rightarrow> (appByte list \<times> reader) res" where
  "read_bytes n c = (case c of (buf, dl) \<Rightarrow>
     check Out_Of_Bounds (n \<le> length buf) (Inr (take n buf, (drop n buf, dl - of_nat n))))"

definition READ_INT_8 :: "reader \<Rightarrow> (appInt8 \<times> reader) res" where
  "READ_INT_8 c = bind_res (read_bytes 1 c) (\<lambda>(bs, c'). Inr (be_word bs, c'))"

definition READ_INT_16 :: "reader \<Rightarrow> (appInt16 \<times> reader) res" where
  "READ_INT_16 c = bind_res (read_bytes 2 c) (\<lambda>(bs, c'). Inr (be_word bs, c'))"

definition READ_INT_32 :: "reader \<Rightarrow> (appInt32 \<times> reader) res" where
  "READ_INT_32 c = bind_res (read_bytes 4 c) (\<lambda>(bs, c'). Inr (be_word bs, c'))"

definition READ_INT_64 :: "reader \<Rightarrow> (appInt64 \<times> reader) res" where
  "READ_INT_64 c = bind_res (read_bytes 8 c) (\<lambda>(bs, c'). Inr (be_word bs, c'))"

definition adjust_reader :: "appInt16 \<Rightarrow> reader \<Rightarrow> reader" where
  "adjust_reader l c = (case c of (buf, dl) \<Rightarrow> (drop (unat l) buf, dl - ucast l))"

section \<open>Decoding\<close>

text \<open>
  \<open>upad\<close> stands for the indeterminate \<open>pad_\<close> byte of a freshly allocated
  optional header: the pad byte on the wire is read and dropped.
\<close>

definition decodeOptionalIpHeader :: "appInt8 \<Rightarrow> reader \<Rightarrow> opt_header res" where
  "decodeOptionalIpHeader upad c =
     bind_res (READ_INT_8 c) (\<lambda>(ifcId, c).
     bind_res (READ_INT_8 c) (\<lambda>(ifcType, c).
     bind_res (READ_INT_32 c) (\<lambda>(ip, c).
     Inr (PacketIpHeader upad ifcId ifcType ip))))"

text \<open>The loop of \<open>PacketReadHeader::decode\<close>; it stops early when fewer than four bytes are left.\<close>

fun read_infos :: "nat \<Rightarrow> reader \<Rightarrow> opt_header \<Rightarrow> appInt \<Rightarrow> (opt_header \<times> appInt) res" where
  "read_infos 0 c h l = Inr (h, l)"
| "read_infos (Suc k) (buf, dl) h l =
     (if dl < 4 then Inr (h, l)
      else bind_res (READ_INT_16 (buf, dl)) (\<lambda>(flowId, c).
           bind_res (READ_INT_16 c) (\<lambda>(readUp, c).
           read_infos k c (addInfo h flowId readUp) (l + 4))))"

definition PacketReadHeader_decode :: "opt_header \<Rightarrow> reader \<Rightarrow> (opt_header \<times> appInt16) res" where
  "PacketReadHeader_decode h c =
     bind_res (READ_INT_16 c) (\<lambda>(cnt, c).
     bind_res (read_infos (unat cnt) c h 2) (\<lambda>(h', l).
     app_assert (cnt = read_count h') (Inr (h', ucast l))))"

definition decodeOptionalReadHeader :: "appInt8 \<Rightarrow> reader \<Rightarrow> opt_header res" where
  "decodeOptionalReadHeader upad c =
     bind_res (PacketReadHeader_decode (new_read_header upad) c) (\<lambda>(h, l). Inr h)"

definition decodeOptionalIpChngHeader :: "appInt8 \<Rightarrow> reader \<Rightarrow> opt_header res" where
  "decodeOptionalIpChngHeader upad c =
     bind_res (READ_INT_8 c) (\<lambda>(ifcId, c).
     bind_res (READ_INT_8 c) (\<lambda>(ifcInfo, c).
     Inr (PacketIpChngHeader upad ifcId ifcInfo)))"

definition decodeOptionalAckHeader :: "appInt8 \<Rightarrow> reader \<Rightarrow> opt_header res" where
  "decodeOptionalAckHeader upad c =
     bind_res (READ_INT_16 c) (\<lambda>(flowId, c).
     bind_res (READ_INT_16 c) (\<lambda>(ackNo, c).
     Inr (PacketAckHeader upad flowId ackNo)))"

definition decodeOptionalNonceHeader :: "appInt8 \<Rightarrow> reader \<Rightarrow> opt_header res" where
  "decodeOptionalNonceHeader upad c =
     bind_res (READ_INT_64 c) (\<lambda>(nonce, c). Inr (PacketNonceHeader upad nonce))"

definition decodeOptionalHeader :: "appInt8 \<Rightarrow> reader \<Rightarrow> opt_header res" where
  "decodeOptionalHeader upad c =
     bind_res (READ_INT_8 c) (\<lambda>(type, c).
     bind_res (READ_INT_8 c) (\<lambda>(pad, c).
     bind_res (READ_INT_16 c) (\<lambda>(len, c).
     bind_res
       (if type = 1 then decodeOptionalAckHeader upad c
        else if type = 2 then decodeOptionalIpHeader upad c
        else if type = 3 then decodeOptionalNonceHeader upad c
        else if type = 4 then decodeOptionalIpChngHeader upad c
        else if type = 5 then decodeOptionalReadHeader upad c
        else Inl Assert_Failed)
     (\<lambda>h. app_assert (len = opt_len h) (Inr h)))))"

text \<open>The loop over \<open>OHLen\<close> headers: each one is linked in front of the earlier ones.\<close>

fun decode_opts :: "appInt8 \<Rightarrow> nat \<Rightarrow> reader \<Rightarrow> opt_header list \<Rightarrow> (opt_header list \<times> reader) res" where
  "decode_opts upad 0 c hs = Inr (hs, c)"
| "decode_opts upad (Suc k) c hs =
     bind_res (decodeOptionalHeader upad c) (\<lambda>h.
     decode_opts upad k (adjust_reader (opt_len h) c) (h # hs))"

definition read_fixed_header :: "reader \<Rightarrow> (PacketHeader \<times> reader) res" where
  "read_fixed_header c =
     bind_res (READ_INT_8 c) (\<lambda>(b0, c).
     bind_res (READ_INT_8 c) (\<lambda>(b1, c).
     bind_res (READ_INT_16 c) (\<lambda>(flag, c).
     bind_res (READ_INT_16 c) (\<lambda>(seqNo, c).
     bind_res (READ_INT_16 c) (\<lambda>(ackNo, c).
     bind_res (READ_INT_16 c) (\<lambda>(window, c).
     bind_res (READ_INT_16 c) (\<lambda>(fingerPrint, c).
     bind_res (READ_INT_16 c) (\<lambda>(flowId, c).
     bind_res (READ_INT_16 c) (\<lambda>(flowSeqNo, c).
     bind_res (READ_INT_16 c) (\<lambda>(origAckNo, c).
     bind_res (READ_INT_16 c) (\<lambda>(padding, c).
     bind_res (READ_INT_64 c) (\<lambda>(sentTS, c).
     Inr (\<lparr> h_version = drop_bit 4 b0, h_OHLen = b0 AND 0x0F,
            h_ifcsrc = drop_bit 4 (b1 AND 0xF0), h_ifcdst = b1 AND 0x0F,
            h_flag = flag, h_seqNo = seqNo, h_ackNo = ackNo, h_window = window,
            h_fingerPrint = fingerPrint, h_flowId = flowId, h_flowSeqNo = flowSeqNo,
            h_origAckNo = origAckNo, h_padding = padding, h_sentTS = sentTS \<rparr>, c)))))))))))))"

definition decodeHeader :: "appInt8 \<Rightarrow> PacketPool \<Rightarrow> reader \<Rightarrow> (Packet option \<times> PacketPool) res" where
  "decodeHeader upad pool c =
     (if snd c < of_nat PACKET_HEADER_SIZE then Inr (None, pool)
      else (let (pkt, pool') = getNewPacketWithData [] pool in
        bind_res (read_fixed_header c) (\<lambda>(hdr, c).
        bind_res (decode_opts upad (unat (h_OHLen hdr)) c []) (\<lambda>(hs, (buf, dl)).
        check Out_Of_Bounds (unat dl \<le> length buf \<and> unat dl \<le> MAX_PACKET_DATA_SIZE)
          (Inr (Some (pkt\<lparr> p_header := hdr, p_optHeaders := hs, p_len := dl,
                           p_data := Some (take (unat dl) buf) \<rparr>), pool'))))))"

section \<open>Writing\<close>

type_synonym writer = "appByte list \<times> nat \<times> appInt"

definition write_bytes :: "appByte list \<Rightarrow> writer \<Rightarrow> writer res" where
  "write_bytes bs w = (case w of (buf, pos, dl) \<Rightarrow>
     check Out_Of_Bounds (pos + length bs \<le> length buf)
       (Inr (take pos buf @ bs @ drop (pos + length bs) buf, pos + length bs,
             dl - of_nat (length bs))))"

definition WRITE_INT_8 :: "appInt8 \<Rightarrow> writer \<Rightarrow> writer res" where
  "WRITE_INT_8 v w = write_bytes (be_bytes 1 v) w"

definition WRITE_INT_16 :: "appInt16 \<Rightarrow> writer \<Rightarrow> writer res" where
  "WRITE_INT_16 v w = write_bytes (be_bytes 2 v) w"

definition WRITE_INT_32 :: "appInt32 \<Rightarrow> writer \<Rightarrow> writer res" where
  "WRITE_INT_32 v w = write_bytes (be_bytes 4 v) w"

definition WRITE_INT_64 :: "appInt64 \<Rightarrow> writer \<Rightarrow> writer res" where
  "WRITE_INT_64 v w = write_bytes (be_bytes 8 v) w"

section \<open>Encoding\<close>

fun write_infos :: "(appInt16 \<times> appInt16) list \<Rightarrow> appInt16 \<Rightarrow> writer \<Rightarrow> (appInt16 \<times> writer) res" where
  "write_infos [] cnt w = Inr (cnt, w)"
| "write_infos ((flowId, readUp) # infos) cnt w =
     app_assert (snd (snd w) \<ge> 4)
       (bind_res (WRITE_INT_16 flowId w) (\<lambda>w.
        bind_res (WRITE_INT_16 readUp w) (\<lambda>w.
        write_infos infos (cnt + 1) w)))"

definition PacketReadHeader_encode ::
    "(appInt16 \<times> appInt16) list \<Rightarrow> appInt16 \<Rightarrow> writer \<Rightarrow> writer res" where
  "PacketReadHeader_encode infos count w =
     bind_res (WRITE_INT_16 count w) (\<lambda>w.
     bind_res (write_infos infos 0 w) (\<lambda>(cnt, w). app_assert (cnt = count) (Inr w)))"

fun encode_payload :: "opt_header \<Rightarrow> writer \<Rightarrow> writer res" where
  "encode_payload (PacketAckHeader _ flowId ackNo) w =
     bind_res (WRITE_INT_16 flowId w) (WRITE_INT_16 ackNo)"
| "encode_payload (PacketIpHeader _ ifcId ifcType ip) w =
     bind_res (WRITE_INT_8 ifcId w) (\<lambda>w. bind_res (WRITE_INT_8 ifcType w) (WRITE_INT_32 ip))"
| "encode_payload (PacketNonceHeader _ nonce) w = WRITE_INT_64 nonce w"
| "encode_payload (PacketIpChngHeader _ ifcId ifcInfo) w =
     bind_res (WRITE_INT_8 ifcId w) (WRITE_INT_8 ifcInfo)"
| "encode_payload (PacketReadHeader _ infos count) w = PacketReadHeader_encode infos count w"

definition encodeOptionalHeader :: "opt_header \<Rightarrow> writer \<Rightarrow> appByte list res" where
  "encodeOptionalHeader h w =
     bind_res (WRITE_INT_8 (opt_type h) w) (\<lambda>w.
     bind_res (WRITE_INT_8 (opt_pad h) w) (\<lambda>w.
     bind_res (WRITE_INT_16 (opt_len h) w) (\<lambda>w.
     bind_res (encode_payload h w) (\<lambda>(buf, _). Inr buf))))"

fun encode_opts :: "opt_header list \<Rightarrow> writer \<Rightarrow> writer res" where
  "encode_opts [] w = Inr w"
| "encode_opts (h # hs) (buf, pos, dl) =
     bind_res (encodeOptionalHeader h (buf, pos, dl)) (\<lambda>buf'.
     encode_opts hs (buf', pos + unat (opt_len h), dl - ucast (opt_len h)))"

definition write_fixed_header :: "PacketHeader \<Rightarrow> writer \<Rightarrow> writer res" where
  "write_fixed_header hdr w =
     bind_res (WRITE_INT_8 (push_bit 4 (h_version hdr) OR (h_OHLen hdr AND 0x0F)) w) (\<lambda>w.
     bind_res (WRITE_INT_8 (push_bit 4 (h_ifcsrc hdr AND 0x0F) OR (h_ifcdst hdr AND 0x0F)) w) (\<lambda>w.
     bind_res (WRITE_INT_16 (h_flag hdr) w) (\<lambda>w.
     bind_res (WRITE_INT_16 (h_seqNo hdr) w) (\<lambda>w.
     bind_res (WRITE_INT_16 (h_ackNo hdr) w) (\<lambda>w.
     bind_res (WRITE_INT_16 (h_window hdr) w) (\<lambda>w.
     bind_res (WRITE_INT_16 (h_fingerPrint hdr) w) (\<lambda>w.
     bind_res (WRITE_INT_16 (h_flowId hdr) w) (\<lambda>w.
     bind_res (WRITE_INT_16 (h_flowSeqNo hdr) w) (\<lambda>w.
     bind_res (WRITE_INT_16 (h_origAckNo hdr) w) (\<lambda>w.
     bind_res (WRITE_INT_16 (h_padding hdr) w) (\<lambda>w.
     WRITE_INT_64 (h_sentTS hdr) w)))))))))))"

text \<open>
  \<open>encodeHeader\<close> returns the number of bytes written and the buffer, and stores
  the number of optional headers in the packet's \<open>OHLen\<close>.
\<close>

definition encodeHeader :: "Packet \<Rightarrow> appByte list \<Rightarrow> appInt \<Rightarrow> (appInt \<times> Packet \<times> appByte list) res" where
  "encodeHeader pkt data dataLen =
     (if dataLen < of_nat sizeof_PacketHeader then Inr (0, pkt, data)
      else (let opHdCnt = (of_nat (length (p_optHeaders pkt)) :: appInt8);
                pkt' = pkt\<lparr> p_header := (p_header pkt)\<lparr> h_OHLen := 0x0F AND opHdCnt \<rparr> \<rparr> in
        bind_res (write_fixed_header (p_header pkt') (data, 0, dataLen)) (\<lambda>w.
        bind_res (encode_opts (p_optHeaders pkt) w) (\<lambda>(buf, pos, dl).
        case p_data pkt of
          None \<Rightarrow> Inr (dataLen - dl, pkt', buf)
        | Some src \<Rightarrow>
            if p_len pkt = 0 then Inr (dataLen - dl, pkt', buf)
            else check Out_Of_Bounds (unat (p_len pkt) \<le> length src)
              (bind_res (write_bytes (take (unat (p_len pkt)) src) (buf, pos, dl)) (\<lambda>(buf, _, dl).
               Inr (dataLen - dl, pkt', buf)))))))"

text \<open>\<open>generateFingerPrint\<close> hands out the low half of a 32-bit counter that starts at one.\<close>

definition generateFingerPrint :: "appInt32 \<Rightarrow> appInt16 \<times> appInt32" where
  "generateFingerPrint cnt = (ucast cnt, cnt + 1)"

section \<open>The image of a packet\<close>

text \<open>
  The abstract specification of the wire format: what the bytes of a packet
  are, without cursors or lengths.
\<close>

fun payload_image :: "opt_header \<Rightarrow> appByte list" where
  "payload_image (PacketAckHeader _ flowId ackNo) = be_bytes 2 flowId @ be_bytes 2 ackNo"
| "payload_image (PacketIpHeader _ ifcId ifcType ip) = be_bytes 1 ifcId @ be_bytes 1 ifcType @ be_bytes 4 ip"
| "payload_image (PacketNonceHeader _ nonce) = be_bytes 8 nonce"
| "payload_image (PacketIpChngHeader _ ifcId ifcInfo) = be_bytes 1 ifcId @ be_bytes 1 ifcInfo"
| "payload_image (PacketReadHeader _ infos count) =
     be_bytes 2 count @ concat (map (\<lambda>(f, r). be_bytes 2 f @ be_bytes 2 r) infos)"

definition opt_image :: "opt_header \<Rightarrow> appByte list" where
  "opt_image h = be_bytes 1 (opt_type h) @ be_bytes 1 (opt_pad h) @ be_bytes 2 (opt_len h) @ payload_image h"

definition header_image :: "PacketHeader \<Rightarrow> appByte list" where
  "header_image hdr =
     be_bytes 1 (push_bit 4 (h_version hdr) OR (h_OHLen hdr AND 0x0F)) @
     be_bytes 1 (push_bit 4 (h_ifcsrc hdr AND 0x0F) OR (h_ifcdst hdr AND 0x0F)) @
     be_bytes 2 (h_flag hdr) @ be_bytes 2 (h_seqNo hdr) @ be_bytes 2 (h_ackNo hdr) @
     be_bytes 2 (h_window hdr) @ be_bytes 2 (h_fingerPrint hdr) @ be_bytes 2 (h_flowId hdr) @
     be_bytes 2 (h_flowSeqNo hdr) @ be_bytes 2 (h_origAckNo hdr) @ be_bytes 2 (h_padding hdr) @
     be_bytes 8 (h_sentTS hdr)"

definition body :: "Packet \<Rightarrow> appByte list" where
  "body pkt = (case p_data pkt of None \<Rightarrow> [] | Some src \<Rightarrow> take (unat (p_len pkt)) src)"

definition opts_image :: "opt_header list \<Rightarrow> appByte list" where
  "opts_image hs = concat (map opt_image hs)"

definition set_OHLen :: "Packet \<Rightarrow> Packet" where
  "set_OHLen pkt = pkt\<lparr> p_header := (p_header pkt)
     \<lparr> h_OHLen := 0x0F AND (of_nat (length (p_optHeaders pkt)) :: appInt8) \<rparr> \<rparr>"

definition packet_image :: "Packet \<Rightarrow> appByte list" where
  "packet_image pkt = header_image (p_header (set_OHLen pkt)) @ opts_image (p_optHeaders pkt) @ body pkt"

text \<open>
  What a packet has to satisfy to be sent: the counter of a read header agrees
  with its list and its length fits sixteen bits, the four-bit fields fit, at
  most fifteen optional headers, and as much data as \<open>len\<close> says.
\<close>

fun wf_opt :: "opt_header \<Rightarrow> bool" where
  "wf_opt (PacketReadHeader _ infos count) \<longleftrightarrow>
     unat count = length infos \<and> 6 + 4 * length infos < 65536"
| "wf_opt _ \<longleftrightarrow> True"

definition wf_data :: "Packet \<Rightarrow> bool" where
  "wf_data pkt \<longleftrightarrow> (case p_data pkt of None \<Rightarrow> True | Some src \<Rightarrow> unat (p_len pkt) \<le> length src)"

definition wf_packet :: "Packet \<Rightarrow> bool" where
  "wf_packet pkt \<longleftrightarrow> list_all wf_opt (p_optHeaders pkt) \<and> wf_data pkt \<and>
     length (p_optHeaders pkt) < 16 \<and>
     h_version (p_header pkt) < 16 \<and> h_ifcsrc (p_header pkt) < 16 \<and> h_ifcdst (p_header pkt) < 16"

section \<open>The encoder writes the image\<close>

text \<open>
  A cursor in the middle of a buffer whose remaining length is the length the
  code keeps, and the operations that append given bytes at such a cursor.
\<close>

definition cursor :: "appByte list \<Rightarrow> appByte list \<Rightarrow> writer" where
  "cursor out rest = (out @ rest, length out, of_nat (length rest))"

definition emits :: "(writer \<Rightarrow> writer res) \<Rightarrow> appByte list \<Rightarrow> bool" where
  "emits m bs \<longleftrightarrow> (\<forall>out rest. length bs \<le> length rest \<longrightarrow> length rest < 2 ^ 32 \<longrightarrow>
     m (cursor out rest) = Inr (cursor (out @ bs) (drop (length bs) rest)))"

named_theorems emits_intros "operations that append to the buffer"

lemma emitsI:
  "(\<And>out rest. length bs \<le> length rest \<Longrightarrow> length rest < 2 ^ 32 \<Longrightarrow>
     m (cursor out rest) = Inr (cursor (out @ bs) (drop (length bs) rest))) \<Longrightarrow> emits m bs"
  by (simp add: emits_def)

lemma emitsD:
  "emits m bs \<Longrightarrow> length bs \<le> length rest \<Longrightarrow> length rest < 2 ^ 32 \<Longrightarrow>
     m (cursor out rest) = Inr (cursor (out @ bs) (drop (length bs) rest))"
  by (simp add: emits_def)

lemma emits_write_bytes [emits_intros]: "emits (write_bytes bs) bs"
  by (rule emitsI) (simp add: write_bytes_def cursor_def of_nat_diff)

lemma emits_write_ints [emits_intros]:
  "emits (WRITE_INT_8 v) (be_bytes 1 v)" "emits (WRITE_INT_16 x) (be_bytes 2 x)"
  "emits (WRITE_INT_32 y) (be_bytes 4 y)" "emits (WRITE_INT_64 z) (be_bytes 8 z)"
  by (simp_all add: WRITE_INT_8_def [abs_def] WRITE_INT_16_def [abs_def]
      WRITE_INT_32_def [abs_def] WRITE_INT_64_def [abs_def] emits_write_bytes)

lemma emits_bind [emits_intros]:
  assumes "emits m bs" "emits m' bs'"
  shows "emits (\<lambda>w. bind_res (m w) m') (bs @ bs')"
proof (rule emitsI)
  fix out rest :: "appByte list"
  assume l: "length (bs @ bs') \<le> length rest" "length rest < 2 ^ 32"
  then have "m (cursor out rest) = Inr (cursor (out @ bs) (drop (length bs) rest))"
    using assms(1) by (intro emitsD) auto
  moreover have "m' (cursor (out @ bs) (drop (length bs) rest))
      = Inr (cursor ((out @ bs) @ bs') (drop (length bs') (drop (length bs) rest)))"
    using l assms(2) by (intro emitsD) auto
  ultimately show "bind_res (m (cursor out rest)) m'
      = Inr (cursor (out @ bs @ bs') (drop (length (bs @ bs')) rest))"
    by (simp add: add.commute)
qed

lemma emits_bind3 [emits_intros]:
  "emits m bs \<Longrightarrow> emits (\<lambda>w. m' w) bs' \<Longrightarrow> emits (\<lambda>w. bind_res (m w) (\<lambda>w. m' w)) (bs @ bs')"
  by (rule emits_bind)

lemma write_infos_cursor:
  assumes "4 * length infos \<le> length rest" "length rest < 2 ^ 32"
  shows "write_infos infos cnt (cursor out rest)
    = Inr (cnt + of_nat (length infos),
           cursor (out @ concat (map (\<lambda>(f, r). be_bytes 2 f @ be_bytes 2 r) infos))
             (drop (4 * length infos) rest))"
  using assms
proof (induction infos arbitrary: cnt out rest)
  case Nil
  then show ?case by simp
next
  case (Cons i infos)
  obtain f r where i: "i = (f, r)" by force
  have w: "emits (\<lambda>w. bind_res (WRITE_INT_16 f w) (WRITE_INT_16 r)) (be_bytes 2 f @ be_bytes 2 r)"
    by (intro emits_intros)
  have four: "(4::appInt) \<le> snd (snd (cursor out rest))"
    using Cons.prems by (simp add: cursor_def word_le_nat_alt unat_of_nat take_bit_eq_mod)
  have "bind_res (WRITE_INT_16 f (cursor out rest)) (WRITE_INT_16 r)
      = Inr (cursor (out @ be_bytes 2 f @ be_bytes 2 r) (drop 4 rest))"
    using emitsD [OF w, of rest out] Cons.prems by simp
  moreover have "write_infos infos (cnt + 1) (cursor (out @ be_bytes 2 f @ be_bytes 2 r) (drop 4 rest))
      = Inr (cnt + 1 + of_nat (length infos),
          cursor ((out @ be_bytes 2 f @ be_bytes 2 r) @
            concat (map (\<lambda>(f, r). be_bytes 2 f @ be_bytes 2 r) infos))
          (drop (4 * length infos) (drop 4 rest)))"
    using Cons.prems by (intro Cons.IH) auto
  ultimately show ?case
    using four by (simp add: i bind_res_assoc [symmetric] algebra_simps)
qed

lemma length_concat_infos [simp]:
  "length (concat (map (\<lambda>(f, r). be_bytes 2 f @ be_bytes 2 r) infos)) = 4 * length infos"
  by (induction infos) auto

lemma emits_read_header:
  assumes "wf_opt (PacketReadHeader p infos count)"
  shows "emits (PacketReadHeader_encode infos count) (payload_image (PacketReadHeader p infos count))"
proof (rule emitsI)
  fix out rest :: "appByte list"
  assume l: "length (payload_image (PacketReadHeader p infos count)) \<le> length rest" "length rest < 2 ^ 32"
  have "WRITE_INT_16 count (cursor out rest) = Inr (cursor (out @ be_bytes 2 count) (drop 2 rest))"
    using emitsD [OF emits_write_ints(2) [of count], of rest out] l by simp
  moreover have "write_infos infos 0 (cursor (out @ be_bytes 2 count) (drop 2 rest))
    = Inr (0 + of_nat (length infos),
        cursor ((out @ be_bytes 2 count) @ concat (map (\<lambda>(f, r). be_bytes 2 f @ be_bytes 2 r) infos))
          (drop (4 * length infos) (drop 2 rest)))"
    using l by (intro write_infos_cursor) auto
  moreover have "(of_nat (length infos) :: appInt16) = count"
    using assms by (metis wf_opt.simps(1) of_nat_unat ucast_id)
  ultimately show "PacketReadHeader_encode infos count (cursor out rest)
      = Inr (cursor (out @ payload_image (PacketReadHeader p infos count))
          (drop (length (payload_image (PacketReadHeader p infos count))) rest))"
    by (simp add: PacketReadHeader_encode_def add.commute)
qed

lemma encode_payload_abs:
  "encode_payload (PacketAckHeader p flowId ackNo) = (\<lambda>w. bind_res (WRITE_INT_16 flowId w) (WRITE_INT_16 ackNo))"
  "encode_payload (PacketIpHeader p ifcId ifcType ip) =
     (\<lambda>w. bind_res (WRITE_INT_8 ifcId w) (\<lambda>w. bind_res (WRITE_INT_8 ifcType w) (WRITE_INT_32 ip)))"
  "encode_payload (PacketNonceHeader p nonce) = WRITE_INT_64 nonce"
  "encode_payload (PacketIpChngHeader p ifcId ifcInfo) =
     (\<lambda>w. bind_res (WRITE_INT_8 ifcId w) (WRITE_INT_8 ifcInfo))"
  "encode_payload (PacketReadHeader p infos count) = PacketReadHeader_encode infos count"
  by (rule ext, simp)+

lemma emits_payload:
  assumes "wf_opt h"
  shows "emits (encode_payload h) (payload_image h)"
proof (cases h)
  case (PacketReadHeader p infos count)
  show ?thesis
    unfolding PacketReadHeader encode_payload_abs
    by (rule emits_read_header) (use assms PacketReadHeader in simp)
qed (simp_all only: encode_payload_abs payload_image.simps, (intro emits_intros)+)

lemma emits_encodeOptionalHeader:
  assumes "wf_opt h"
  shows "emits (\<lambda>w. bind_res (WRITE_INT_8 (opt_type h) w) (\<lambda>w. bind_res (WRITE_INT_8 (opt_pad h) w)
    (\<lambda>w. bind_res (WRITE_INT_16 (opt_len h) w) (encode_payload h)))) (opt_image h)"
  unfolding opt_image_def by (intro emits_intros emits_payload assms)

lemma encodeOptionalHeader_alt:
  "encodeOptionalHeader h w = bind_res (bind_res (WRITE_INT_8 (opt_type h) w)
     (\<lambda>w. bind_res (WRITE_INT_8 (opt_pad h) w)
     (\<lambda>w. bind_res (WRITE_INT_16 (opt_len h) w) (encode_payload h)))) (\<lambda>(buf, _). Inr buf)"
  by (simp add: encodeOptionalHeader_def bind_res_assoc)

lemma unat_opt_len:
  assumes "wf_opt h"
  shows "unat (opt_len h) = length (opt_image h)"
proof (cases h)
  case (PacketReadHeader p infos count)
  then have "4 * length infos + 6 < 65536"
    using assms by simp
  then show ?thesis
    by (simp add: PacketReadHeader foldl_plus4 opt_image_def unsigned_ucast_eq take_bit_eq_mod
        unat_word_ariths unat_of_nat)
qed (simp_all add: opt_image_def)

lemma opt_image_bound: "wf_opt h \<Longrightarrow> length (opt_image h) < 65536"
  using unat_opt_len [of h] unsigned_less [of "opt_len h", where 'a = nat] by simp

lemma emits_encode_opts:
  assumes "list_all wf_opt hs"
  shows "emits (encode_opts hs) (opts_image hs)"
  using assms
proof (induction hs)
  case Nil
  then show ?case by (simp add: emits_def opts_image_def cursor_def)
next
  case (Cons h hs)
  show ?case
  proof (rule emitsI)
    fix out rest :: "appByte list"
    assume l: "length (opts_image (h # hs)) \<le> length rest" "length rest < 2 ^ 32"
    then have l': "length (opt_image h) \<le> length rest"
      by (simp add: opts_image_def)
    from emitsD [OF emits_encodeOptionalHeader l' l(2)] Cons.prems
    have enc: "encodeOptionalHeader h (cursor out rest) = Inr ((out @ opt_image h) @ drop (length (opt_image h)) rest)"
      by (simp add: encodeOptionalHeader_alt cursor_def)
    have ul: "ucast (opt_len h) = (of_nat (length (opt_image h)) :: appInt)"
      using Cons.prems by (simp add: unat_opt_len [symmetric])
    have "encode_opts (h # hs) (cursor out rest)
        = encode_opts hs (cursor (out @ opt_image h) (drop (length (opt_image h)) rest))"
      using enc Cons.prems l' unfolding cursor_def by (simp add: unat_opt_len of_nat_diff ul)
    also have "\<dots> = Inr (cursor ((out @ opt_image h) @ opts_image hs)
        (drop (length (opts_image hs)) (drop (length (opt_image h)) rest)))"
      using Cons l by (intro emitsD) (auto simp: opts_image_def)
    finally show "encode_opts (h # hs) (cursor out rest)
        = Inr (cursor (out @ opts_image (h # hs)) (drop (length (opts_image (h # hs))) rest))"
      by (simp add: opts_image_def add.commute)
  qed
qed

lemma emits_write_fixed_header: "emits (write_fixed_header hdr) (header_image hdr)"
  unfolding write_fixed_header_def [abs_def] header_image_def by (intro emits_intros)

lemma length_header_image [simp]: "length (header_image hdr) = PACKET_HEADER_SIZE"
  by (simp add: header_image_def PACKET_HEADER_SIZE_def)

section \<open>The decoder reads the image back\<close>

lemma nibble_masks: "(0x0F :: appInt8) = mask 4" "(0xF0 :: appInt8) = push_bit 4 (mask 4)"
  by (simp_all add: mask_eq_exp_minus_1 push_bit_eq_mult)

lemma bit_nibble:
  assumes "(v :: appInt8) < 16" "bit v n"
  shows "n < 4"
proof -
  have "v AND mask 4 = v"
    using assms(1) by (intro less_mask_eq) simp
  then show ?thesis
    using assms(2) by (metis bit_and_iff bit_mask_iff)
qed

lemma nibbles:
  fixes a b :: appInt8
  assumes "a < 16" "b < 16"
  shows "drop_bit 4 (push_bit 4 a OR (c AND 0x0F)) = a"
    and "(push_bit 4 c OR (b AND 0x0F)) AND 0x0F = b"
    and "drop_bit 4 ((push_bit 4 (a AND 0x0F) OR (c AND 0x0F)) AND 0xF0) = a"
  unfolding nibble_masks
  by (rule bit_word_eqI; use bit_nibble assms in \<open>auto simp: bit_simps\<close>)+

lemma read_bytes_append:
  "length bs = n \<Longrightarrow> read_bytes n (bs @ rest, dl) = Inr (bs, (rest, dl - of_nat n))"
  by (simp add: read_bytes_def)

named_theorems reads "reading back what was written"

lemma read_ints [reads]:
  "READ_INT_8 (be_bytes 1 v @ rest, dl) = Inr (v, (rest, dl - 1))"
  "READ_INT_16 (be_bytes 2 x @ rest, dl) = Inr (x, (rest, dl - 2))"
  "READ_INT_32 (be_bytes 4 y @ rest, dl) = Inr (y, (rest, dl - 4))"
  "READ_INT_64 (be_bytes 8 z @ rest, dl) = Inr (z, (rest, dl - 8))"
  by (simp_all add: READ_INT_8_def READ_INT_16_def READ_INT_32_def READ_INT_64_def
      read_bytes_append be_word_be_bytes del: One_nat_def)

text \<open>
  What decoding makes of a header that was sent: the pad byte is lost and the
  entries of a read header come out in reverse order.
\<close>

fun decoded_opt :: "appInt8 \<Rightarrow> opt_header \<Rightarrow> opt_header" where
  "decoded_opt upad (PacketAckHeader _ f a) = PacketAckHeader upad f a"
| "decoded_opt upad (PacketIpHeader _ i t ip) = PacketIpHeader upad i t ip"
| "decoded_opt upad (PacketNonceHeader _ n) = PacketNonceHeader upad n"
| "decoded_opt upad (PacketIpChngHeader _ i t) = PacketIpChngHeader upad i t"
| "decoded_opt upad (PacketReadHeader _ infos c) = PacketReadHeader upad (rev infos) c"

lemma opt_len_decoded [simp]: "opt_len (decoded_opt upad h) = opt_len h"
  by (cases h) (simp_all add: foldl_plus4)

lemma read_infos_image:
  assumes "4 * length infos \<le> unat dl"
  shows "read_infos (length infos) (concat (map (\<lambda>(f, r). be_bytes 2 f @ be_bytes 2 r) infos) @ rest, dl)
      (PacketReadHeader upad acc c) l
    = Inr (PacketReadHeader upad (rev infos @ acc) (c + of_nat (length infos)), l + of_nat (4 * length infos))"
  using assms
proof (induction infos arbitrary: dl acc c l)
  case Nil
  then show ?case by simp
next
  case (Cons i infos)
  obtain f r where i: "i = (f, r)" by force
  have dl: "4 \<le> dl" "unat (dl - 2 - 2) = unat dl - 4"
    using Cons.prems by (simp_all add: word_le_nat_alt unat_sub)
  have IH: "read_infos (length infos)
      (concat (map (\<lambda>(f, r). be_bytes 2 f @ be_bytes 2 r) infos) @ rest, dl - 2 - 2)
      (PacketReadHeader upad ((f, r) # acc) (c + 1)) (l + 4)
    = Inr (PacketReadHeader upad (rev infos @ (f, r) # acc) (c + 1 + of_nat (length infos)),
           l + 4 + of_nat (4 * length infos))"
    using Cons.prems dl by (intro Cons.IH) simp
  show ?case
    using dl(1) IH by (simp add: i reads not_less algebra_simps)
qed

lemma decode_payload:
  assumes "wf_opt h" "length (opt_image h) \<le> unat dl"
  shows "decodeOptionalHeader upad (opt_image h @ rest, dl) = Inr (decoded_opt upad h)"
proof (cases h)
  case (PacketReadHeader p infos count)
  have n: "unat count = length infos" "of_nat (length infos) = count"
    using assms(1) PacketReadHeader by (simp_all, metis of_nat_unat ucast_id)
  have "unat (dl - 6) = unat dl - 6"
    using assms(2) by (simp add: PacketReadHeader opt_image_def word_le_nat_alt unat_sub)
  then have "4 * length infos \<le> unat (dl - 6)"
    using assms(2) by (simp add: PacketReadHeader opt_image_def)
  then show ?thesis
    using n by (simp add: PacketReadHeader opt_image_def decodeOptionalHeader_def reads
        decodeOptionalReadHeader_def PacketReadHeader_decode_def new_read_header_def
        read_infos_image foldl_plus4 del: One_nat_def)
qed (simp_all add: opt_image_def decodeOptionalHeader_def reads decodeOptionalAckHeader_def
      decodeOptionalIpHeader_def decodeOptionalNonceHeader_def decodeOptionalIpChngHeader_def
      del: One_nat_def)

lemma decode_opts_image:
  assumes "list_all wf_opt hs" "length (opts_image hs) \<le> unat dl"
  shows "decode_opts upad (length hs) (opts_image hs @ rest, dl) acc
    = Inr (rev (map (decoded_opt upad) hs) @ acc, (rest, dl - of_nat (length (opts_image hs))))"
  using assms
proof (induction hs arbitrary: dl acc)
  case Nil
  then show ?case by (simp add: opts_image_def)
next
  case (Cons h hs)
  have len: "length (opt_image h) \<le> unat dl" "wf_opt h"
    and img: "opts_image (h # hs) @ rest = opt_image h @ (opts_image hs @ rest)"
    using Cons.prems by (simp_all add: opts_image_def)
  have adj: "adjust_reader (opt_len h) (opt_image h @ opts_image hs @ rest, dl)
      = (opts_image hs @ rest, dl - of_nat (length (opt_image h)))"
    using len by (simp add: adjust_reader_def unat_opt_len flip: unat_opt_len)
  have "unat (dl - of_nat (length (opt_image h))) = unat dl - length (opt_image h)"
    using len opt_image_bound [of h]
    by (simp add: word_le_nat_alt unat_sub unat_of_nat take_bit_eq_mod)
  then have "decode_opts upad (length hs) (opts_image hs @ rest, dl - of_nat (length (opt_image h)))
      (decoded_opt upad h # acc)
    = Inr (rev (map (decoded_opt upad) hs) @ decoded_opt upad h # acc,
        (rest, dl - of_nat (length (opt_image h)) - of_nat (length (opts_image hs))))"
    using Cons.prems by (intro Cons.IH) (auto simp: opts_image_def)
  then show ?case
    by (simp only: img length_Cons decode_opts.simps decode_payload [OF len(2) len(1)]
        bind_res.simps adj opt_len_decoded) (simp add: opts_image_def algebra_simps)
qed

definition received :: "appInt8 \<Rightarrow> Packet \<Rightarrow> Packet" where
  "received upad pkt = new_Packet
     \<lparr> p_capa := of_nat MAX_PACKET_DATA_SIZE, p_len := of_nat (length (body pkt)),
       p_header := p_header (set_OHLen pkt), p_data := Some (body pkt),
       p_optHeaders := rev (map (decoded_opt upad) (p_optHeaders pkt)) \<rparr>"

lemma OHLen_set:
  assumes "length (p_optHeaders pkt) < 16"
  shows "h_OHLen (p_header (set_OHLen pkt)) = of_nat (length (p_optHeaders pkt))"
    and "unat (h_OHLen (p_header (set_OHLen pkt))) = length (p_optHeaders pkt)"
    and "h_OHLen (p_header (set_OHLen pkt)) < 16"
proof -
  have "(of_nat (length (p_optHeaders pkt)) :: appInt8) AND mask 4 = of_nat (length (p_optHeaders pkt))"
    using assms by (intro less_mask_eq) (simp add: word_less_nat_alt unat_of_nat take_bit_eq_mod)
  then show eq: "h_OHLen (p_header (set_OHLen pkt)) = of_nat (length (p_optHeaders pkt))"
    by (simp add: set_OHLen_def nibble_masks and.commute)
  then show "unat (h_OHLen (p_header (set_OHLen pkt))) = length (p_optHeaders pkt)"
    using assms by (simp add: unat_of_nat take_bit_eq_mod)
  then show "h_OHLen (p_header (set_OHLen pkt)) < 16"
    using assms by (simp add: word_less_nat_alt)
qed

lemma encodeHeader_image:
  assumes wf: "wf_packet pkt"
    and fits: "length (packet_image pkt) \<le> length buf" "sizeof_PacketHeader \<le> length buf" "length buf < 2 ^ 32"
  shows "encodeHeader pkt buf (of_nat (length buf))
    = Inr (of_nat (length (packet_image pkt)), set_OHLen pkt,
           packet_image pkt @ drop (length (packet_image pkt)) buf)"
proof -
  let ?hdr = "p_header (set_OHLen pkt)" and ?hs = "p_optHeaders pkt"
  let ?L = "of_nat (length buf) :: appInt"
  have pre: "emits (\<lambda>w. bind_res (write_fixed_header ?hdr w) (encode_opts ?hs)) (header_image ?hdr @ opts_image ?hs)"
    using wf by (intro emits_intros emits_write_fixed_header emits_encode_opts) (simp add: wf_packet_def)
  have start: "(buf, 0, ?L) = cursor [] buf"
    by (simp add: cursor_def)
  have big: "\<not> ?L < of_nat sizeof_PacketHeader"
    using fits by (simp add: sizeof_PacketHeader_def word_less_nat_alt unat_of_nat take_bit_eq_mod)
  have len: "length (header_image ?hdr @ opts_image ?hs) \<le> length buf"
    using fits(1) by (simp add: packet_image_def)
  have pre': "bind_res (write_fixed_header ?hdr (buf, 0, ?L)) (encode_opts ?hs)
      = Inr (cursor (header_image ?hdr @ opts_image ?hs)
          (drop (length (header_image ?hdr @ opts_image ?hs)) buf))"
    using emitsD [OF pre len fits(3), of "[]"] by (simp only: start append_Nil)
  have dl: "?L - of_nat (length (drop k buf)) = of_nat k" if "k \<le> length buf" for k
    using that by (simp add: of_nat_diff)
  have img: "packet_image pkt = (header_image ?hdr @ opts_image ?hs) @ body pkt"
    by (simp add: packet_image_def)
  have set: "pkt\<lparr>p_header := (p_header pkt)\<lparr>h_OHLen := 0x0F AND of_nat (length ?hs)\<rparr>\<rparr> = set_OHLen pkt"
    by (simp add: set_OHLen_def)
  show ?thesis
  proof (cases "body pkt = []")
    case True
    then have none: "p_data pkt = None \<or> p_len pkt = 0"
      using wf by (auto simp: body_def wf_packet_def wf_data_def unat_eq_0 split: option.splits)
    show ?thesis
      using none True len unfolding encodeHeader_def Let_def set
      by (auto simp: big bind_res_assoc [symmetric] pre' cursor_def dl img simp del: length_append
          split: option.split)
  next
    case False
    then obtain src where src: "p_data pkt = Some src" "p_len pkt \<noteq> 0" "unat (p_len pkt) \<le> length src"
      using wf False by (auto simp: body_def wf_packet_def wf_data_def unat_gt_0 split: option.splits)
    have b: "take (unat (p_len pkt)) src = body pkt"
      by (simp add: body_def src(1))
    have "write_bytes (body pkt) (cursor (header_image ?hdr @ opts_image ?hs)
            (drop (length (header_image ?hdr @ opts_image ?hs)) buf))
        = Inr (cursor ((header_image ?hdr @ opts_image ?hs) @ body pkt)
            (drop (length (body pkt)) (drop (length (header_image ?hdr @ opts_image ?hs)) buf)))"
      using fits by (intro emitsD emits_write_bytes) (auto simp: img)
    then have w: "write_bytes (take (unat (p_len pkt)) src) (cursor (header_image ?hdr @ opts_image ?hs)
            (drop (length (header_image ?hdr @ opts_image ?hs)) buf))
        = Inr (cursor (packet_image pkt) (drop (length (packet_image pkt)) buf))"
      by (simp add: b img add.commute add.left_commute)
    show ?thesis
      using w src fits(1) unfolding encodeHeader_def Let_def set
      by (simp add: big bind_res_assoc [symmetric] pre' cursor_def dl del: length_append)
  qed
qed

lemma read_header_image:
  assumes "h_version hdr < 16" "h_ifcsrc hdr < 16" "h_ifcdst hdr < 16" "h_OHLen hdr < 16"
  shows "read_fixed_header (header_image hdr @ rest, dl) = Inr (hdr, (rest, dl - 28))"
proof -
  have dl: "dl - 1 - 1 - 2 - 2 - 2 - 2 - 2 - 2 - 2 - 2 - 2 - 8 = dl - 28"
    by simp
  show ?thesis
    by (simp only: read_fixed_header_def header_image_def append_assoc reads bind_res.simps prod.case dl
        nibbles(1) [OF assms(1) assms(4)] nibbles(2) [OF assms(1) assms(4)]
        nibbles(2) [OF assms(2) assms(3)] nibbles(3) [OF assms(2) assms(3)]) simp
qed

lemma decodeHeader_image:
  assumes wf: "wf_packet pkt" and body: "length (body pkt) \<le> MAX_PACKET_DATA_SIZE"
    and small: "length (packet_image pkt) < 2 ^ 32"
  shows "decodeHeader upad pool (packet_image pkt @ junk, of_nat (length (packet_image pkt)))
    = Inr (Some (received upad pkt), pool\<lparr> circullarCnt := circullarCnt pool + 1 \<rparr>)"
proof -
  let ?hdr = "p_header (set_OHLen pkt)" and ?hs = "p_optHeaders pkt"
  let ?L = "of_nat (length (packet_image pkt)) :: appInt"
  have wfs: "h_version ?hdr < 16" "h_ifcsrc ?hdr < 16" "h_ifcdst ?hdr < 16" "length ?hs < 16" "list_all wf_opt ?hs"
    using wf by (auto simp: wf_packet_def set_OHLen_def)
  have len: "length (packet_image pkt) = 28 + length (opts_image ?hs) + length (body pkt)"
    by (simp add: packet_image_def PACKET_HEADER_SIZE_def)
  have uL: "unat ?L = 28 + length (opts_image ?hs) + length (body pkt)"
    using small by (simp only: unat_of_nat_small len_of_32) (simp only: len)
  have hdr: "read_fixed_header (packet_image pkt @ junk, ?L)
      = Inr (?hdr, (opts_image ?hs @ body pkt @ junk, ?L - 28))"
    using read_header_image [OF wfs(1-3) OHLen_set(3) [OF wfs(4)]]
    by (simp only: packet_image_def append_assoc)
  have "unat (?L - 28) = unat ?L - 28"
    using uL by (simp add: word_le_nat_alt unat_sub)
  then have opts: "decode_opts upad (unat (h_OHLen ?hdr)) (opts_image ?hs @ body pkt @ junk, ?L - 28) []
      = Inr (rev (map (decoded_opt upad) ?hs), (body pkt @ junk, ?L - 28 - of_nat (length (opts_image ?hs))))"
    using decode_opts_image [OF wfs(5), of "?L - 28" upad "body pkt @ junk" "[]"] wfs uL
    by (simp add: OHLen_set(2))
  have dl: "?L - 28 - of_nat (length (opts_image ?hs)) = of_nat (length (body pkt))"
    by (simp add: len)
  have "length (body pkt) < 2 ^ 32"
    using small len by simp
  then have ub: "unat (of_nat (length (body pkt)) :: appInt) = length (body pkt)"
    by (simp add: unat_of_nat take_bit_eq_mod)
  have "\<not> ?L < of_nat PACKET_HEADER_SIZE"
    using uL by (simp add: PACKET_HEADER_SIZE_def word_less_nat_alt)
  then show ?thesis
    using body by (simp add: decodeHeader_def getNewPacketWithData_simp hdr opts dl ub received_def)
qed

section \<open>Properties\<close>


definition sample_packet :: Packet where
  "sample_packet = new_Packet\<lparr> p_header := reinit_header\<lparr> h_flag := 3, h_seqNo := 513 \<rparr>,
     p_data := Some [1, 2, 3], p_len := 2,
     p_optHeaders := [PacketAckHeader 0 7 8, PacketReadHeader 0 [(1, 2), (3, 4)] 2] \<rparr>"

lemma sample_packet_wf: "wf_packet sample_packet"
  by (simp add: sample_packet_def wf_packet_def wf_data_def reinit_header_def)

lemma sample_packet_image: "length (packet_image sample_packet) = 52"
  by (simp add: packet_image_def opts_image_def opt_image_def body_def sample_packet_def PACKET_HEADER_SIZE_def)


text \<open>
  The length field and the type of an optional header are trusted with an
  assertion: a datagram that announces an optional header and carries an
  unknown type there (any byte but 1 to 5) aborts the receiving process.
\<close>

theorem decode_unknown_type_aborts:
  assumes "h_version hdr < 16" "h_ifcsrc hdr < 16" "h_ifcdst hdr < 16"
    and "0 < h_OHLen hdr" "h_OHLen hdr < 16"
    and "t \<notin> {1, 2, 3, 4, 5}" and "2 < length rest" "28 \<le> dl"
  shows "decodeHeader upad pool (header_image hdr @ t # rest, dl) = Inl Assert_Failed"
proof -
  obtain k where k: "unat (h_OHLen hdr) = Suc k"
    using assms(4) by (metis not0_implies_Suc unat_eq_0 word_not_simps(1))
  obtain a b c rest' where rest: "rest = a # b # c # rest'"
    using assms(7) by (metis One_nat_def Suc_1 length_Cons less_Suc_eq list.exhaust list.size(3) not_less_eq not_less_zero)
  have "decodeOptionalHeader upad (t # rest, dl - 28) = Inl Assert_Failed"
    using assms(6) by (simp add: decodeOptionalHeader_def READ_INT_8_def READ_INT_16_def read_bytes_def
        rest be_word_def)
  then show ?thesis
    using assms by (simp add: decodeHeader_def getNewPacketWithData_simp read_header_image k
        PACKET_HEADER_SIZE_def not_less)
qed

lemma decode_unknown_type_aborts_witness:
  "decodeHeader 0 new_PacketPool (header_image (reinit_header\<lparr> h_OHLen := 1 \<rparr>) @ 0 # [0, 0, 0], 32)
     = Inl Assert_Failed"
  by (rule decode_unknown_type_aborts) (simp_all add: reinit_header_def)

end
