(* ===== verification/SendBuffer.thy ===== *)
theory SendBuffer
  imports Packet "HOL-Library.Product_Lexorder"
begin

text \<open>
  The struct \<open>SendingBuffer\<close> of BasicChannelHandler.hh: 65536 cells indexed by
  sequence number, and the \<open>std::set\<close> of cells with a running timer, ordered by
  expiry time and then by sequence number.  The set is the list of the indexes
  of its cells in that order; lookup, insertion and deletion go through the
  comparator, as \<open>std::set\<close> does.  The invariant \<open>sb_inv\<close> describes the buffer
  between two operations: three sequence numbers delimit the acknowledged, the
  sent and the queued packets, and the timers are those of the packets sent and
  not yet acknowledged.
\<close>

record sbuff =
  sb_time :: int
  sb_pkt :: "Packet option"
  sb_rto :: appInt32
  sb_retryCnt :: "4 word"
  sb_pktSent :: bool
  sb_ackRcvd :: bool

definition sbuff_reset :: sbuff where
  "sbuff_reset = \<lparr> sb_time = 0, sb_pkt = None, sb_rto = 0, sb_retryCnt = 0,
     sb_pktSent = False, sb_ackRcvd = False \<rparr>"

definition effTimer :: "sbuff \<Rightarrow> int" where
  "effTimer b = sb_time b + uint (sb_rto b)"

record SendingBuffer =
  lastAcked :: appInt16
  maxPacket :: appInt16
  maxSent :: appInt16
  sb_started :: bool
  totalSent :: appInt64
  totalSuccessfullySent :: appInt64
  totalTimeouts :: appInt64
  totalDuplicateAck :: appInt64
  totalRetransmitions :: appInt64
  cells :: "appInt16 \<Rightarrow> sbuff"
  timerList :: "appInt16 list"

definition new_SendingBuffer :: SendingBuffer where
  "new_SendingBuffer = \<lparr> lastAcked = 65535, maxPacket = 65535, maxSent = 65535, sb_started = False,
     totalSent = 0, totalSuccessfullySent = 0, totalTimeouts = 0, totalDuplicateAck = 0,
     totalRetransmitions = 0, cells = (\<lambda>_. sbuff_reset), timerList = [] \<rparr>"

text \<open>
  The comparator \<open>classcomp\<close> compares the expiry times and, only when they are
  equal, the sequence numbers of the packets; a cell without packet counts
  with its own index there (it is never compared at equal times, see
  \<open>hasTimer_iff\<close>).
\<close>

definition timer_key :: "(appInt16 \<Rightarrow> sbuff) \<Rightarrow> appInt16 \<Rightarrow> int \<times> appInt16" where
  "timer_key b i = (effTimer (b i), case sb_pkt (b i) of Some p \<Rightarrow> h_seqNo (p_header p) | None \<Rightarrow> i)"

definition hasTimer :: "SendingBuffer \<Rightarrow> appInt16 \<Rightarrow> bool" where
  "hasTimer s i \<longleftrightarrow> timer_key (cells s) i \<in> timer_key (cells s) ` set (timerList s)"

definition erase_timer :: "(appInt16 \<Rightarrow> sbuff) \<Rightarrow> appInt16 \<Rightarrow> appInt16 list \<Rightarrow> appInt16 list" where
  "erase_timer b i l = filter (\<lambda>j. timer_key b j \<noteq> timer_key b i) l"

definition startTimer :: "appInt16 \<Rightarrow> int \<Rightarrow> appInt32 \<Rightarrow> SendingBuffer \<Rightarrow> SendingBuffer res" where
  "startTimer seqNo time rto s = app_assert (\<not> hasTimer s seqNo)
     (let b = (cells s)(seqNo := (cells s seqNo)\<lparr> sb_time := time, sb_rto := rto \<rparr>) in
      Inr (s\<lparr> cells := b, timerList := insort_insert_key (timer_key b) seqNo (timerList s) \<rparr>))"

definition stopTimer :: "appInt16 \<Rightarrow> SendingBuffer \<Rightarrow> SendingBuffer res" where
  "stopTimer seqNo s = app_assert (hasTimer s seqNo)
     (Inr (s\<lparr> cells := (cells s)(seqNo := (cells s seqNo)\<lparr> sb_time := 0, sb_rto := 0 \<rparr>),
              timerList := erase_timer (cells s) seqNo (timerList s) \<rparr>))"

definition restartTimer :: "appInt16 \<Rightarrow> int \<Rightarrow> SendingBuffer \<Rightarrow> SendingBuffer res" where
  "restartTimer seqNo time s = app_assert (hasTimer s seqNo)
     (let l = erase_timer (cells s) seqNo (timerList s);
          b = (cells s)(seqNo := (cells s seqNo)\<lparr> sb_time := time \<rparr>) in
      Inr (s\<lparr> cells := b, timerList := insort_insert_key (timer_key b) seqNo l \<rparr>))"

text \<open>\<open>addBuffer\<close>: the packet gets the next sequence number and its cell.\<close>

definition addBuffer :: "Packet \<Rightarrow> SendingBuffer \<Rightarrow> SendingBuffer res" where
  "addBuffer pkt s =
     (let m = maxPacket s + 1 in
      app_assert (sb_pkt (cells s m) = None \<and> sb_time (cells s m) = 0)
        (Inr (s\<lparr> maxPacket := m,
                 cells := (cells s)(m := (cells s m)\<lparr> sb_pkt := Some (pkt\<lparr> p_header := (p_header pkt)\<lparr> h_seqNo := m \<rparr> \<rparr>) \<rparr>) \<rparr>)))"

definition reset_cell :: "appInt16 \<Rightarrow> SendingBuffer \<Rightarrow> SendingBuffer" where
  "reset_cell i s = s\<lparr> cells := (cells s)(i := sbuff_reset) \<rparr>"

section \<open>The invariant\<close>

definition off :: "SendingBuffer \<Rightarrow> appInt16 \<Rightarrow> nat" where
  "off s i = unat (i - lastAcked s)"

definition timers_ok :: "SendingBuffer \<Rightarrow> bool" where
  "timers_ok s \<longleftrightarrow> distinct (timerList s) \<and> sorted (map (timer_key (cells s)) (timerList s)) \<and>
     (\<forall>i\<in>set (timerList s). \<exists>p. sb_pkt (cells s i) = Some p \<and> h_seqNo (p_header p) = i)"

definition sb_inv :: "SendingBuffer \<Rightarrow> bool" where
  "sb_inv s \<longleftrightarrow> off s (maxSent s) \<le> off s (maxPacket s) \<and> off s (maxPacket s) \<le> 32768 \<and>
     (\<forall>i p. sb_pkt (cells s i) = Some p \<longrightarrow>
        0 < off s i \<and> off s i \<le> off s (maxPacket s) \<and> h_seqNo (p_header p) = i) \<and>
     (\<forall>i. off s (maxSent s) < off s i \<and> off s i \<le> off s (maxPacket s) \<longrightarrow> sb_pkt (cells s i) \<noteq> None) \<and>
     (\<forall>i. sb_pkt (cells s i) = None \<or> off s (maxSent s) < off s i \<longrightarrow> sb_time (cells s i) = 0) \<and>
     timers_ok s \<and>
     set (timerList s) = {i. sb_pkt (cells s i) \<noteq> None \<and> off s i \<le> off s (maxSent s)} \<and>
     (\<forall>i\<in>set (timerList s). sb_rto (cells s i) \<noteq> 0 \<and> sb_time (cells s i) \<noteq> 0)"

named_theorems sb_simps "the effect of buffer operations on the components of the buffer"

lemma off_lastAcked [simp]: "off s (lastAcked s) = 0"
  by (simp add: off_def)

lemma off_eq_0_iff: "off s i = 0 \<longleftrightarrow> i = lastAcked s"
  by (simp add: off_def unat_eq_0)

lemma off_inj: "off s i = off s j \<longleftrightarrow> i = j"
  by (metis off_def diff_add_cancel word_unat_eq_iff)

lemma new_SendingBuffer_inv: "sb_inv new_SendingBuffer"
  by (auto simp: sb_inv_def timers_ok_def new_SendingBuffer_def off_def sbuff_reset_def)

section \<open>Timers\<close>

lemma timer_key_seq:
  "sb_pkt (b i) = Some p \<Longrightarrow> h_seqNo (p_header p) = i \<Longrightarrow> timer_key b i = (effTimer (b i), i)"
  by (simp add: timer_key_def)

lemma timer_key_upd: "i \<noteq> j \<Longrightarrow> timer_key (b(j := c)) i = timer_key b i"
  by (simp add: timer_key_def)

lemma snd_key: "timers_ok s \<Longrightarrow> i \<in> set (timerList s) \<Longrightarrow> snd (timer_key (cells s) i) = i"
  by (auto simp: timers_ok_def timer_key_def)

lemma hasTimer_iff:
  assumes "timers_ok s" "sb_pkt (cells s i) = Some p \<and> h_seqNo (p_header p) = i \<or> sb_pkt (cells s i) = None"
  shows "hasTimer s i \<longleftrightarrow> i \<in> set (timerList s)"
proof -
  have "snd (timer_key (cells s) i) = i"
    using assms(2) by (auto simp: timer_key_def)
  then show ?thesis
    using snd_key [OF assms(1)] unfolding hasTimer_def by (auto simp: image_iff)
qed

lemma erase_timer_remove:
  assumes "timers_ok s" "i \<in> set (timerList s)"
  shows "erase_timer (cells s) i (timerList s) = filter (\<lambda>j. j \<noteq> i) (timerList s)"
  unfolding erase_timer_def
proof (rule filter_cong [OF refl])
  fix j assume "j \<in> set (timerList s)"
  then show "(timer_key (cells s) j \<noteq> timer_key (cells s) i) = (j \<noteq> i)"
    using snd_key [OF assms(1)] assms(2) by metis
qed

lemma sorted_upd:
  assumes "sorted (map (timer_key b) l)" "i \<notin> set l"
  shows "sorted (map (timer_key (b(i := c))) l)"
proof -
  have "map (timer_key (b(i := c))) l = map (timer_key b) l"
    using assms(2) by (intro map_cong refl timer_key_upd) auto
  then show ?thesis using assms(1) by (simp only:)
qed

lemma insort_timer:
  assumes "distinct l" "sorted (map (timer_key b) l)" "i \<notin> set l"
    and "\<forall>j\<in>insert i (set l). snd (timer_key b j) = j"
  shows "distinct (insort_insert_key (timer_key b) i l)"
    and "sorted (map (timer_key b) (insort_insert_key (timer_key b) i l))"
    and "set (insort_insert_key (timer_key b) i l) = insert i (set l)"
proof -
  have "timer_key b i \<notin> timer_key b ` set l"
    using assms(3,4) by (metis imageE insertCI)
  then show "distinct (insort_insert_key (timer_key b) i l)"
    "sorted (map (timer_key b) (insort_insert_key (timer_key b) i l))"
    "set (insort_insert_key (timer_key b) i l) = insert i (set l)"
    using assms by (simp_all add: insort_insert_key_def distinct_insort sorted_insort_key set_insort_key)
qed

lemma startTimer_ok:
  assumes "timers_ok s" "sb_pkt (cells s i) = Some p" "h_seqNo (p_header p) = i" "i \<notin> set (timerList s)"
  obtains s' where "startTimer i t r s = Inr s'" "timers_ok s'" "set (timerList s') = insert i (set (timerList s))"
    "cells s' = (cells s)(i := (cells s i)\<lparr> sb_time := t, sb_rto := r \<rparr>)"
    "s' = s\<lparr> cells := cells s', timerList := timerList s' \<rparr>"
proof -
  let ?b = "(cells s)(i := (cells s i)\<lparr> sb_time := t, sb_rto := r \<rparr>)"
  let ?l = "insort_insert_key (timer_key ?b) i (timerList s)"
  have keys: "\<forall>j\<in>insert i (set (timerList s)). snd (timer_key ?b j) = j"
    using assms by (auto simp: timers_ok_def timer_key_def)
  have "distinct (timerList s)" "sorted (map (timer_key ?b) (timerList s))"
    using assms sorted_upd by (auto simp: timers_ok_def)
  note ins = insort_timer [OF this assms(4) keys]
  have "startTimer i t r s = Inr (s\<lparr> cells := ?b, timerList := ?l \<rparr>)"
    using assms hasTimer_iff [OF assms(1), of i p] by (simp add: startTimer_def Let_def)
  moreover have "timers_ok (s\<lparr> cells := ?b, timerList := ?l \<rparr>)"
    using ins assms by (auto simp: timers_ok_def)
  ultimately show thesis
    using ins(3) by (intro that [of "s\<lparr> cells := ?b, timerList := ?l \<rparr>"]) simp_all
qed

lemma stopTimer_ok:
  assumes "timers_ok s" "i \<in> set (timerList s)"
  obtains s' where "stopTimer i s = Inr s'" "timers_ok s'" "timerList s' = filter (\<lambda>j. j \<noteq> i) (timerList s)"
    "cells s' = (cells s)(i := (cells s i)\<lparr> sb_time := 0, sb_rto := 0 \<rparr>)"
    "s' = s\<lparr> cells := cells s', timerList := timerList s' \<rparr>"
proof -
  let ?b = "(cells s)(i := (cells s i)\<lparr> sb_time := 0, sb_rto := 0 \<rparr>)"
  let ?l = "filter (\<lambda>j. j \<noteq> i) (timerList s)"
  obtain p where p: "sb_pkt (cells s i) = Some p" "h_seqNo (p_header p) = i"
    using assms by (auto simp: timers_ok_def)
  have "stopTimer i s = Inr (s\<lparr> cells := ?b, timerList := ?l \<rparr>)"
    using p assms hasTimer_iff [OF assms(1), of i p] by (simp add: stopTimer_def erase_timer_remove)
  moreover have "sorted (map (timer_key ?b) ?l)"
    using assms(1) by (intro sorted_upd) (auto simp: timers_ok_def sorted_filter)
  then have "timers_ok (s\<lparr> cells := ?b, timerList := ?l \<rparr>)"
    using assms(1) by (auto simp: timers_ok_def)
  ultimately show thesis
    by (intro that [of "s\<lparr> cells := ?b, timerList := ?l \<rparr>"]) simp_all
qed

lemma restartTimer_ok:
  assumes "timers_ok s" "i \<in> set (timerList s)"
  obtains s' where "restartTimer i t s = Inr s'" "timers_ok s'" "set (timerList s') = set (timerList s)"
    "cells s' = (cells s)(i := (cells s i)\<lparr> sb_time := t \<rparr>)"
    "s' = s\<lparr> cells := cells s', timerList := timerList s' \<rparr>"
proof -
  let ?b = "(cells s)(i := (cells s i)\<lparr> sb_time := t \<rparr>)"
  let ?l = "insort_insert_key (timer_key ?b) i (filter (\<lambda>j. j \<noteq> i) (timerList s))"
  obtain p where p: "sb_pkt (cells s i) = Some p" "h_seqNo (p_header p) = i"
    using assms by (auto simp: timers_ok_def)
  have keys: "\<forall>j\<in>insert i (set (filter (\<lambda>j. j \<noteq> i) (timerList s))). snd (timer_key ?b j) = j"
    using assms p by (auto simp: timers_ok_def timer_key_def)
  have "distinct (filter (\<lambda>j. j \<noteq> i) (timerList s))"
    "sorted (map (timer_key ?b) (filter (\<lambda>j. j \<noteq> i) (timerList s)))"
    using assms(1) by (auto simp: timers_ok_def sorted_filter intro!: sorted_upd)
  note ins = insort_timer [OF this _ keys, simplified]
  have "restartTimer i t s = Inr (s\<lparr> cells := ?b, timerList := ?l \<rparr>)"
    using p assms hasTimer_iff [OF assms(1), of i p] by (simp add: restartTimer_def erase_timer_remove Let_def)
  moreover have "timers_ok (s\<lparr> cells := ?b, timerList := ?l \<rparr>)"
    using ins assms p by (auto simp: timers_ok_def)
  ultimately show thesis
    using ins(3) assms(2) by (intro that [of "s\<lparr> cells := ?b, timerList := ?l \<rparr>"]) auto
qed

section \<open>Preservation of the invariant\<close>

lemma sb_invD:
  assumes "sb_inv s"
  shows "off s (maxSent s) \<le> off s (maxPacket s)" "off s (maxPacket s) \<le> 32768"
    "\<And>i p. sb_pkt (cells s i) = Some p \<Longrightarrow> 0 < off s i \<and> off s i \<le> off s (maxPacket s) \<and> h_seqNo (p_header p) = i"
    "\<And>i. off s (maxSent s) < off s i \<Longrightarrow> off s i \<le> off s (maxPacket s) \<Longrightarrow> sb_pkt (cells s i) \<noteq> None"
    "\<And>i. sb_pkt (cells s i) = None \<or> off s (maxSent s) < off s i \<Longrightarrow> sb_time (cells s i) = 0"
    "timers_ok s"
    "\<And>i. i \<in> set (timerList s) \<longleftrightarrow> sb_pkt (cells s i) \<noteq> None \<and> off s i \<le> off s (maxSent s)"
    "\<And>i. i \<in> set (timerList s) \<Longrightarrow> sb_rto (cells s i) \<noteq> 0 \<and> sb_time (cells s i) \<noteq> 0"
  using assms unfolding sb_inv_def by auto

lemma sb_invI:
  assumes "off s (maxSent s) \<le> off s (maxPacket s)" "off s (maxPacket s) \<le> 32768"
    "\<And>i p. sb_pkt (cells s i) = Some p \<Longrightarrow> 0 < off s i \<and> off s i \<le> off s (maxPacket s) \<and> h_seqNo (p_header p) = i"
    "\<And>i. off s (maxSent s) < off s i \<Longrightarrow> off s i \<le> off s (maxPacket s) \<Longrightarrow> sb_pkt (cells s i) \<noteq> None"
    "\<And>i. sb_pkt (cells s i) = None \<or> off s (maxSent s) < off s i \<Longrightarrow> sb_time (cells s i) = 0"
    "timers_ok s"
    "\<And>i. i \<in> set (timerList s) \<longleftrightarrow> sb_pkt (cells s i) \<noteq> None \<and> off s i \<le> off s (maxSent s)"
    "\<And>i. i \<in> set (timerList s) \<Longrightarrow> sb_rto (cells s i) \<noteq> 0 \<and> sb_time (cells s i) \<noteq> 0"
  shows "sb_inv s"
  using assms unfolding sb_inv_def by blast

text \<open>Two buffers with the same three delimiters, and the next sequence number.\<close>

definition same_marks :: "SendingBuffer \<Rightarrow> SendingBuffer \<Rightarrow> bool" where
  "same_marks s s' \<longleftrightarrow> lastAcked s' = lastAcked s \<and> maxPacket s' = maxPacket s \<and> maxSent s' = maxSent s"

lemma off_cong: "lastAcked s' = lastAcked s \<Longrightarrow> off s' i = off s i"
  by (simp add: off_def)

lemma off_succ:
  assumes "off s i < 65535"
  shows "off s (i + 1) = Suc (off s i)"
proof -
  have "i + 1 - lastAcked s = (i - lastAcked s) + 1"
    by simp
  then show ?thesis
    using assms unat_plus_1 [of "i - lastAcked s"] unfolding off_def by metis
qed

lemma off_next [simp]: "off s (lastAcked s + 1) = 1"
  by (simp add: off_def)

lemma same_marksD:
  assumes "same_marks s s'"
  shows "off s' i = off s i" "lastAcked s' = lastAcked s" "maxPacket s' = maxPacket s" "maxSent s' = maxSent s"
  using assms by (auto simp: same_marks_def off_def)

text \<open>Replacing the contents of a cell with a running timer (retransmission, restart).\<close>

lemma sb_inv_update_sent:
  assumes inv: "sb_inv s" and i: "i \<in> set (timerList s)" and m: "same_marks s s'"
    and c: "cells s' = (cells s)(i := b)" "sb_pkt b = Some p" "h_seqNo (p_header p) = i" "sb_rto b \<noteq> 0" "sb_time b \<noteq> 0"
    and t: "timers_ok s'" "set (timerList s') = set (timerList s)"
  shows "sb_inv s'"
proof -
  note D = sb_invD [OF inv] and M = same_marksD [OF m]
  obtain q where q: "sb_pkt (cells s i) = Some q"
    using i D(7) by blast
  then have o: "0 < off s i" "off s i \<le> off s (maxSent s)"
    using i D(3) [OF q] D(7) [of i] by simp_all
  show ?thesis
  proof (rule sb_invI)
    fix j r assume "sb_pkt (cells s' j) = Some r"
    then show "0 < off s' j \<and> off s' j \<le> off s' (maxPacket s') \<and> h_seqNo (p_header r) = j"
      using D(3) [of j r] D(1) c o by (cases "j = i") (simp_all add: M)
  next
    fix j assume "sb_pkt (cells s' j) = None \<or> off s' (maxSent s') < off s' j"
    then show "sb_time (cells s' j) = 0"
      using D(5) [of j] c o by (cases "j = i") (simp_all add: M)
  next
    fix j show "j \<in> set (timerList s') \<longleftrightarrow> sb_pkt (cells s' j) \<noteq> None \<and> off s' j \<le> off s' (maxSent s')"
      using D(7) [of j] c i t(2) o by (cases "j = i") (simp_all add: M)
  next
    fix j assume "off s' (maxSent s') < off s' j" "off s' j \<le> off s' (maxPacket s')"
    then show "sb_pkt (cells s' j) \<noteq> None"
      using D(4) [of j] c o by (cases "j = i") (simp_all add: M)
  next
    fix j assume "j \<in> set (timerList s')"
    then show "sb_rto (cells s' j) \<noteq> 0 \<and> sb_time (cells s' j) \<noteq> 0"
      using D(8) [of j] c t(2) by (cases "j = i") simp_all
  qed (use D(1,2) t(1) in \<open>simp_all add: M\<close>)
qed

text \<open>Sending the next packet.\<close>

lemma sb_inv_send:
  assumes inv: "sb_inv s" and lt: "off s (maxSent s) < off s (maxPacket s)" and i: "i = maxSent s + 1"
    and m: "lastAcked s' = lastAcked s" "maxPacket s' = maxPacket s" "maxSent s' = i"
    and c: "cells s' = (cells s)(i := b)" "sb_pkt b = Some p" "h_seqNo (p_header p) = i" "sb_rto b \<noteq> 0" "sb_time b \<noteq> 0"
    and t: "timers_ok s'" "set (timerList s') = insert i (set (timerList s))"
  shows "sb_inv s'"
proof -
  note D = sb_invD [OF inv]
  have o: "off s i = Suc (off s (maxSent s))"
    using lt D(2) unfolding i by (intro off_succ) simp
  have O: "off s' j = off s j" for j
    by (rule off_cong) (rule m(1))
  have lt_iff: "off s (maxSent s) < off s j \<longleftrightarrow> off s i \<le> off s j" for j
    using o by auto
  have le_iff: "off s j \<le> off s i \<longleftrightarrow> j = i \<or> off s j \<le> off s (maxSent s)" for j
    using o off_inj [of s j i] by auto
  show ?thesis
  proof (rule sb_invI)
    fix j assume "sb_pkt (cells s' j) = None \<or> off s' (maxSent s') < off s' j"
    then have "j \<noteq> i" "sb_pkt (cells s j) = None \<or> off s (maxSent s) < off s j"
      using c o by (auto simp: m O split: if_splits)
    then show "sb_time (cells s' j) = 0"
      using D(5) by (auto simp: c(1))
  next
    fix j q assume "sb_pkt (cells s' j) = Some q"
    then show "0 < off s' j \<and> off s' j \<le> off s' (maxPacket s') \<and> h_seqNo (p_header q) = j"
      using D(3) [of j q] c o lt by (cases "j = i") (simp_all add: m O)
  next
    fix j show "j \<in> set (timerList s') \<longleftrightarrow> sb_pkt (cells s' j) \<noteq> None \<and> off s' j \<le> off s' (maxSent s')"
      using D(7) [of j] c(1,2) t(2) by (cases "j = i") (simp_all add: m O le_iff)
  next
    fix j assume "off s' (maxSent s') < off s' j" "off s' j \<le> off s' (maxPacket s')"
    then show "sb_pkt (cells s' j) \<noteq> None"
      using D(4) [of j] c(1,2) o by (cases "j = i") (simp_all add: m O)
  next
    fix j assume "j \<in> set (timerList s')"
    then show "sb_rto (cells s' j) \<noteq> 0 \<and> sb_time (cells s' j) \<noteq> 0"
      using D(8) [of j] c t(2) by (cases "j = i") simp_all
  qed (use D(2) t(1) o lt in \<open>simp_all add: m O\<close>)
qed

text \<open>Queueing a packet.\<close>

lemma addBuffer_ok:
  assumes inv: "sb_inv s" and lt: "off s (maxPacket s) < 32768"
  defines "i \<equiv> maxPacket s + 1"
  obtains s' where "addBuffer pkt s = Inr s'" "sb_inv s'"
    "s' = s\<lparr> maxPacket := i, cells := (cells s)(i := (cells s i)
       \<lparr> sb_pkt := Some (pkt\<lparr> p_header := (p_header pkt)\<lparr> h_seqNo := i \<rparr> \<rparr>) \<rparr>) \<rparr>"
proof -
  note D = sb_invD [OF inv]
  let ?p = "pkt\<lparr> p_header := (p_header pkt)\<lparr> h_seqNo := i \<rparr> \<rparr>"
  let ?s = "s\<lparr> maxPacket := i, cells := (cells s)(i := (cells s i)\<lparr> sb_pkt := Some ?p \<rparr>) \<rparr>"
  have o: "off s i = Suc (off s (maxPacket s))"
    using lt unfolding i_def by (intro off_succ) simp
  have free: "sb_pkt (cells s i) = None" "sb_time (cells s i) = 0"
    using D(3) [of i] D(5) [of i] o by (cases "sb_pkt (cells s i)"; auto)+
  have O: "off ?s j = off s j" for j
    by (rule off_cong) simp
  have ni: "i \<notin> set (timerList s)"
    using D(7) free by simp
  have le_iff: "off s j \<le> off s i \<longleftrightarrow> j = i \<or> off s j \<le> off s (maxPacket s)" for j
    using o off_inj [of s j i] by auto
  have tim: "timers_ok ?s"
    using D(6) ni sorted_upd [of "cells s" "timerList s" i] by (auto simp: timers_ok_def)
  have "sb_inv ?s"
  proof (rule sb_invI)
    show "i' \<in> set (timerList ?s) \<longleftrightarrow> sb_pkt (cells ?s i') \<noteq> None \<and> off ?s i' \<le> off ?s (maxSent ?s)" for i'
      using D(7) [of i'] ni o D(1) by (auto simp: O)
  next
    fix j r assume "sb_pkt (cells ?s j) = Some r"
    then show "0 < off ?s j \<and> off ?s j \<le> off ?s (maxPacket ?s) \<and> h_seqNo (p_header r) = j"
      using D(3) [of j r] o by (cases "j = i") (auto simp: O)
  next
    fix j assume "sb_pkt (cells ?s j) = None \<or> off ?s (maxSent ?s) < off ?s j"
    then show "sb_time (cells ?s j) = 0"
      using D(5) [of j] free by (cases "j = i") (simp_all add: O)
  next
    fix j assume "off ?s (maxSent ?s) < off ?s j" "off ?s j \<le> off ?s (maxPacket ?s)"
    then show "sb_pkt (cells ?s j) \<noteq> None"
      using D(4) [of j] le_iff [of j] by (cases "j = i") (simp_all add: O)
  next
    fix j assume "j \<in> set (timerList ?s)"
    then show "sb_rto (cells ?s j) \<noteq> 0 \<and> sb_time (cells ?s j) \<noteq> 0"
      using D(8) [of j] ni by (cases "j = i") simp_all
  qed (use D(1,2) o lt tim in \<open>simp_all add: O\<close>)
  then show thesis
    using that [of ?s] free by (simp add: addBuffer_def Let_def i_def)
qed

text \<open>Releasing a sent packet.\<close>

lemma sb_inv_release:
  assumes inv: "sb_inv s" and i: "i \<in> set (timerList s)" and m: "same_marks s s'"
    and c: "cells s' = (cells s)(i := sbuff_reset)"
    and t: "timerList s' = filter (\<lambda>j. j \<noteq> i) (timerList s)"
  shows "sb_inv s'"
proof -
  note D = sb_invD [OF inv] and M = same_marksD [OF m]
  have "timers_ok s'"
    using D(6) sorted_upd [of "cells s" "filter (\<lambda>j. j \<noteq> i) (timerList s)" i sbuff_reset]
    by (auto simp: timers_ok_def t c sorted_filter)
  moreover have "off s i \<le> off s (maxSent s)"
    using i D(7) by auto
  ultimately show ?thesis
    using D by (intro sb_invI) (auto simp: M c t sbuff_reset_def split: if_splits)
qed

text \<open>Moving \<open>lastAcked\<close> forward over released cells.\<close>

lemma off_advance:
  assumes "lastAcked s' = a" "off s a \<le> off s i"
  shows "off s' i = off s i - off s a"
proof -
  have "i - a = (i - lastAcked s) - (a - lastAcked s)"
    by simp
  then show ?thesis
    using assms unat_sub [of "a - lastAcked s" "i - lastAcked s"]
    unfolding off_def by (simp add: word_le_nat_alt)
qed

lemma sb_inv_advance:
  assumes inv: "sb_inv s" and a: "off s a \<le> off s (maxSent s)"
    and none: "\<And>i. off s i \<le> off s a \<Longrightarrow> sb_pkt (cells s i) = None"
  shows "sb_inv (s\<lparr> lastAcked := a \<rparr>)"
proof -
  let ?s = "s\<lparr> lastAcked := a \<rparr>"
  note D = sb_invD [OF inv]
  have O: "off ?s i = off s i - off s a" if "off s a \<le> off s i" for i
    using that by (intro off_advance) simp_all
  have low: "off s (maxPacket s) - off s a < off ?s i" if "off s i < off s a" for i
  proof -
    have "unat (i - a) = unat (i - lastAcked s) + 65536 - unat (a - lastAcked s)"
    proof -
      have "i - a = (i - lastAcked s) - (a - lastAcked s)" by simp
      then show ?thesis
        using that unat_sub_if_size [of "i - lastAcked s" "a - lastAcked s"]
        unfolding off_def by (simp add: word_size)
    qed
    then show ?thesis
      using D(1,2) a unsigned_less [of "a - lastAcked s", where 'a = nat]
      unfolding off_def by (simp add: off_def)
  qed
  have some: "off s a < off s i" if "sb_pkt (cells s i) \<noteq> None" for i
    using that none [of i] by (meson not_le)
  have S: "off ?s (maxSent s) = off s (maxSent s) - off s a" "off ?s (maxPacket s) = off s (maxPacket s) - off s a"
    using a D(1) by (simp_all add: O)
  show ?thesis
  proof (rule sb_invI)
    show "off ?s (maxSent ?s) \<le> off ?s (maxPacket ?s)" "off ?s (maxPacket ?s) \<le> 32768"
      using D(1,2) by (simp_all add: S)
  next
    fix i p assume "sb_pkt (cells ?s i) = Some p"
    then show "0 < off ?s i \<and> off ?s i \<le> off ?s (maxPacket ?s) \<and> h_seqNo (p_header p) = i"
      using D(3) [of i p] some [of i] by (simp add: O S diff_le_mono)
  next
    fix i assume i: "off ?s (maxSent ?s) < off ?s i" "off ?s i \<le> off ?s (maxPacket ?s)"
    then have "off s a \<le> off s i"
      using low [of i] by (simp add: S) (meson not_less)
    then show "sb_pkt (cells ?s i) \<noteq> None"
      using i D(4) [of i] a D(1) by (auto simp: O S)
  next
    fix i assume i: "sb_pkt (cells ?s i) = None \<or> off ?s (maxSent ?s) < off ?s i"
    show "sb_time (cells ?s i) = 0"
    proof (cases "sb_pkt (cells s i) = None")
      case False
      then show ?thesis
        using i some [of i] a D(5) [of i] by (auto simp: O S)
    qed (use D(5) in simp)
  next
    show "timers_ok ?s" using D(6) by (simp add: timers_ok_def)
  next
    fix i show "i \<in> set (timerList ?s) \<longleftrightarrow> sb_pkt (cells ?s i) \<noteq> None \<and> off ?s i \<le> off ?s (maxSent ?s)"
      using D(7) [of i] some [of i] a by (auto simp: O S)
  qed (use D(8) in simp)
qed

end
