(* ===== verification/BitField.thy ===== *)
theory BitField
  imports Prelude
begin

text \<open>
  The bit set of src/src/util/BitField.hh, which the receiver of a channel uses
  to remember the sequence numbers that arrived out of order.  The locale
  \<open>bit_set\<close> states what the receiver relies on: reading back what was set and
  reset, and the loop that consumes a run of set bits.  It is interpreted on
  the byte array of the code, indexed by sixteen-bit sequence numbers.
\<close>

record BitField =
  bf_buffer :: "appByte list"
  bf_size :: appInt

definition offsetValue :: "appByte list" where
  "offsetValue = [0x80, 0x40, 0x20, 0x10, 0x08, 0x04, 0x02, 0x01]"

definition new_BitField :: "appInt \<Rightarrow> BitField" where
  "new_BitField asize = \<lparr> bf_buffer = replicate (unat ((asize + 7) div 8)) 0, bf_size = asize \<rparr>"

definition getBit :: "BitField \<Rightarrow> appInt \<Rightarrow> appByte res" where
  "getBit b pos = app_assert (pos < bf_size b)
     (let index = unat (pos div 8); offset = unat (pos mod 8) in
      check Out_Of_Bounds (index < length (bf_buffer b))
        (Inr (bf_buffer b ! index AND offsetValue ! offset)))"

definition setBit :: "BitField \<Rightarrow> appInt \<Rightarrow> BitField res" where
  "setBit b pos = app_assert (pos < bf_size b)
     (let index = unat (pos div 8); offset = unat (pos mod 8) in
      check Out_Of_Bounds (index < length (bf_buffer b))
        (Inr (b\<lparr> bf_buffer := (bf_buffer b)[index := bf_buffer b ! index OR offsetValue ! offset] \<rparr>)))"

definition resetBit :: "BitField \<Rightarrow> appInt \<Rightarrow> BitField res" where
  "resetBit b pos = app_assert (pos < bf_size b)
     (let index = unat (pos div 8); offset = unat (pos mod 8) in
      check Out_Of_Bounds (index < length (bf_buffer b))
        (Inr (b\<lparr> bf_buffer := (bf_buffer b)[index := bf_buffer b ! index AND NOT (offsetValue ! offset)] \<rparr>)))"

text \<open>The subscript operator asserts the bound and reads the bit.\<close>

definition BitField_nth :: "BitField \<Rightarrow> appInt \<Rightarrow> appByte res" where
  "BitField_nth b pos = app_assert (pos < bf_size b) (getBit b pos)"

section \<open>The interface\<close>

text \<open>
  The loop \<open>for(; getBit(e); e++) resetBit(e)\<close> over sequence numbers, with a
  bound on its number of rounds; 65537 rounds are always enough.
\<close>

fun drain :: "('b \<Rightarrow> appInt16 \<Rightarrow> bool res) \<Rightarrow> ('b \<Rightarrow> appInt16 \<Rightarrow> 'b res) \<Rightarrow> nat \<Rightarrow>
    'b \<Rightarrow> appInt16 \<Rightarrow> ('b \<times> appInt16) res" where
  "drain get reset 0 b e = Inl Diverges"
| "drain get reset (Suc n) b e =
     bind_res (get b e) (\<lambda>v.
       if v then bind_res (reset b e) (\<lambda>b'. drain get reset n b' (e + 1))
       else Inr (b, e))"

locale bit_set =
  fixes wf :: "'b \<Rightarrow> bool"
    and get :: "'b \<Rightarrow> appInt16 \<Rightarrow> bool res"
    and set_bit :: "'b \<Rightarrow> appInt16 \<Rightarrow> 'b res"
    and reset :: "'b \<Rightarrow> appInt16 \<Rightarrow> 'b res"
  assumes get_total: "wf b \<Longrightarrow> \<exists>v. get b p = Inr v"
    and set_law: "wf b \<Longrightarrow> \<exists>b'. set_bit b p = Inr b' \<and> wf b' \<and>
          (\<forall>q. get b' q = (if q = p then Inr True else get b q))"
    and reset_law: "wf b \<Longrightarrow> \<exists>b'. reset b p = Inr b' \<and> wf b' \<and>
          (\<forall>q. get b' q = (if q = p then Inr False else get b q))"
begin

definition members :: "'b \<Rightarrow> appInt16 set" where
  "members b = {p. get b p = Inr True}"

lemma get_members: "wf b \<Longrightarrow> get b p = Inr (p \<in> members b)"
  using get_total [of b p] by (auto simp: members_def)

lemma set_members:
  assumes "wf b"
  obtains b' where "set_bit b p = Inr b'" "wf b'" "members b' = insert p (members b)"
proof -
  obtain b' where b': "set_bit b p = Inr b'" "wf b'" "\<forall>q. get b' q = (if q = p then Inr True else get b q)"
    using set_law [OF assms, of p] by blast
  then have "members b' = insert p (members b)"
    by (auto simp: members_def)
  with b' show thesis by (rule_tac that)
qed

lemma reset_members:
  assumes "wf b"
  obtains b' where "reset b p = Inr b'" "wf b'" "members b' = members b - {p}"
proof -
  obtain b' where b': "reset b p = Inr b'" "wf b'" "\<forall>q. get b' q = (if q = p then Inr False else get b q)"
    using reset_law [OF assms, of p] by blast
  then have "members b' = members b - {p}"
    by (auto simp: members_def)
  with b' show thesis by (rule_tac that)
qed

lemma drain_run:
  assumes "wf b" "k < n" and run: "\<And>j. j < k \<Longrightarrow> e + of_nat j \<in> members b"
    and stop: "e + of_nat k \<notin> members b" and small: "k \<le> 2 ^ 16"
  shows "\<exists>b'. drain get reset n b e = Inr (b', e + of_nat k) \<and> wf b' \<and>
     members b' = members b - {e + of_nat j | j. j < k}"
  using assms
proof (induction k arbitrary: n b e)
  case 0
  then obtain m where "n = Suc m" by (cases n) auto
  with 0 show ?case by (auto simp: get_members)
next
  case (Suc k)
  then obtain m where n: "n = Suc m" "k < m" by (cases n) auto
  obtain b1 where b1: "reset b e = Inr b1" "wf b1" "members b1 = members b - {e}"
    using reset_members [OF Suc.prems(1)] .
  have e: "e \<in> members b"
    using Suc.prems(3) [of 0] by simp
  have in1: "e + 1 + of_nat j \<in> members b1" if "j < k" for j
  proof -
    have "e + of_nat (Suc j) \<in> members b" using that Suc.prems(3) [of "Suc j"] by simp
    moreover have "of_nat (Suc j) \<noteq> (0 :: appInt16)"
    proof -
      have "unat (of_nat (Suc j) :: appInt16) = Suc j"
        using that Suc.prems(5) by (intro unat_of_nat_small) simp
      then show ?thesis by (metis nat.distinct(1) unat_0)
    qed
    ultimately show ?thesis by (simp add: b1 algebra_simps)
  qed
  have out1: "e + 1 + of_nat k \<notin> members b1"
    using Suc.prems(4) by (simp add: b1 algebra_simps)
  obtain b' where b': "drain get reset m b1 (e + 1) = Inr (b', e + 1 + of_nat k)" "wf b'"
      "members b' = members b1 - {e + 1 + of_nat j | j. j < k}"
    using Suc.IH [OF b1(2) n(2) in1 out1] Suc.prems(5) by auto
  have run: "drain get reset n b e = Inr (b', e + of_nat (Suc k))"
    using b'(1) e by (simp add: n(1) get_members [OF Suc.prems(1)] b1(1) add.assoc)
  have S: "{e + of_nat j | j. j < Suc k} = insert e {e + 1 + of_nat j | j. j < k}"
  proof -
    have "{e + of_nat j | j. j < Suc k} = (\<lambda>j. e + of_nat j) ` {..<Suc k}"
      by auto
    also have "\<dots> = insert e ((\<lambda>j. e + 1 + of_nat j) ` {..<k})"
      by (simp add: lessThan_Suc_eq_insert_0 image_image add.assoc)
    also have "(\<lambda>j. e + 1 + of_nat j) ` {..<k} = {e + 1 + of_nat j | j. j < k}"
      by auto
    finally show ?thesis .
  qed
  have mem: "members b' = members b - {e + of_nat j | j. j < Suc k}"
    unfolding S b'(3) b1(3) by (rule Diff_insert2 [symmetric])
  show ?case
    by (rule exI [of _ b'], intro conjI run mem b'(2))
qed

end

section \<open>The byte array provides the interface\<close>

text \<open>
  The receiver indexes with an \<open>appInt16\<close>, widened to \<open>appInt\<close>, and tests the
  returned byte for zero.
\<close>

definition bf_get :: "BitField \<Rightarrow> appInt16 \<Rightarrow> bool res" where
  "bf_get b p = bind_res (getBit b (ucast p)) (\<lambda>v. Inr (v \<noteq> 0))"

definition bf_set :: "BitField \<Rightarrow> appInt16 \<Rightarrow> BitField res" where
  "bf_set b p = setBit b (ucast p)"

definition bf_reset :: "BitField \<Rightarrow> appInt16 \<Rightarrow> BitField res" where
  "bf_reset b p = resetBit b (ucast p)"

definition wf_BitField :: "BitField \<Rightarrow> bool" where
  "wf_BitField b \<longleftrightarrow> bf_size b = 65536 \<and> length (bf_buffer b) = 8192"

lemma cases8: "(k :: nat) < 8 \<Longrightarrow> k \<in> {0, 1, 2, 3, 4, 5, 6, 7}"
  by auto

lemma offset_bit: "o1 < 8 \<Longrightarrow> o2 < 8 \<Longrightarrow> (offsetValue ! o1 AND offsetValue ! o2 = 0) = (o1 \<noteq> o2)"
  using cases8 [of o1] cases8 [of o2] by (auto simp: offsetValue_def)

lemma pos_split:
  fixes p :: appInt16
  defines "q \<equiv> ucast p :: appInt"
  shows "q < 65536" "unat (q div 8) = unat p div 8" "unat (q mod 8) = unat p mod 8"
    "unat p div 8 < 8192" "unat p mod 8 < 8"
proof -
  have p: "unat p < 65536"
    using unsigned_less [of p, where 'a = nat] by simp
  have q: "unat q = unat p"
    using p by (simp add: q_def unsigned_ucast_eq take_bit_eq_mod)
  show "q < 65536"
    using p q by (simp add: word_less_nat_alt)
  show "unat (q div 8) = unat p div 8" "unat (q mod 8) = unat p mod 8"
    using q by (simp_all add: unat_div unat_mod)
  show "unat p div 8 < 8192" "unat p mod 8 < 8"
    using p by simp_all
qed

lemma bf_ops:
  assumes "wf_BitField b"
  shows "bf_get b p = Inr (bf_buffer b ! (unat p div 8) AND offsetValue ! (unat p mod 8) \<noteq> 0)"
    and "bf_set b p = Inr (b\<lparr> bf_buffer := (bf_buffer b)
      [unat p div 8 := bf_buffer b ! (unat p div 8) OR offsetValue ! (unat p mod 8)] \<rparr>)"
    and "bf_reset b p = Inr (b\<lparr> bf_buffer := (bf_buffer b)
      [unat p div 8 := bf_buffer b ! (unat p div 8) AND NOT (offsetValue ! (unat p mod 8))] \<rparr>)"
  using assms pos_split [of p]
  by (simp_all add: bf_get_def bf_set_def bf_reset_def getBit_def setBit_def resetBit_def wf_BitField_def Let_def)

lemma same_pos: "unat (q :: appInt16) div 8 = unat p div 8 \<Longrightarrow> unat q mod 8 = unat p mod 8 \<Longrightarrow> q = p"
  by (metis div_mult_mod_eq word_unat_eq_iff)

lemma offset_nonzero: "k < 8 \<Longrightarrow> offsetValue ! k \<noteq> 0"
  using offset_bit [of k k] by auto

lemma offset_or: "o1 < 8 \<Longrightarrow> o2 < 8 \<Longrightarrow>
    ((x OR offsetValue ! o1) AND offsetValue ! o2 = 0) = (o1 \<noteq> o2 \<and> x AND offsetValue ! o2 = 0)"
  using offset_bit [of o1 o2] by (auto simp: bit.conj_disj_distrib2 or_eq_0_iff)

lemma offset_and_not: "o1 < 8 \<Longrightarrow> o2 < 8 \<Longrightarrow>
    ((x AND NOT (offsetValue ! o1)) AND offsetValue ! o2 = 0) = (o1 = o2 \<or> x AND offsetValue ! o2 = 0)"
proof -
  assume o: "o1 < 8" "o2 < 8"
  have "NOT (offsetValue ! o1) AND offsetValue ! o2 = (if o1 = o2 then 0 else offsetValue ! o2)"
    using cases8 [OF o(1)] cases8 [OF o(2)] by (auto simp: offsetValue_def)
  then show ?thesis
    by (simp add: and.assoc)
qed

interpretation bf: bit_set wf_BitField bf_get bf_set bf_reset
proof
  fix b p
  assume wf: "wf_BitField b"
  show "\<exists>v. bf_get b p = Inr v"
    by (simp add: bf_ops [OF wf])
  let ?s = "b\<lparr> bf_buffer := (bf_buffer b)[unat p div 8 := bf_buffer b ! (unat p div 8) OR offsetValue ! (unat p mod 8)] \<rparr>"
  let ?r = "b\<lparr> bf_buffer := (bf_buffer b)[unat p div 8 := bf_buffer b ! (unat p div 8) AND NOT (offsetValue ! (unat p mod 8))] \<rparr>"
  have wfs: "wf_BitField ?s" "wf_BitField ?r"
    using wf by (simp_all add: wf_BitField_def)
  have len: "unat p div 8 < length (bf_buffer b)"
    using wf pos_split [of p] by (simp add: wf_BitField_def)
  have "bf_get ?s q = (if q = p then Inr True else bf_get b q)" for q
    using len same_pos [of q p] pos_split(5) [of p] pos_split(5) [of q] offset_nonzero [of "unat p mod 8"]
    by (auto simp: bf_ops [OF wf] bf_ops [OF wfs(1)] nth_list_update offset_or)
  then show "\<exists>b'. bf_set b p = Inr b' \<and> wf_BitField b' \<and> (\<forall>q. bf_get b' q = (if q = p then Inr True else bf_get b q))"
    using wfs by (simp add: bf_ops [OF wf])
  have "bf_get ?r q = (if q = p then Inr False else bf_get b q)" for q
    using len same_pos [of q p] pos_split(5) [of p] pos_split(5) [of q] offset_nonzero [of "unat p mod 8"]
    by (auto simp: bf_ops [OF wf] bf_ops [OF wfs(2)] nth_list_update offset_and_not)
  then show "\<exists>b'. bf_reset b p = Inr b' \<and> wf_BitField b' \<and> (\<forall>q. bf_get b' q = (if q = p then Inr False else bf_get b q))"
    using wfs by (simp add: bf_ops [OF wf])
qed

lemma new_BitField_wf: "wf_BitField (new_BitField 65536)"
  by (simp add: wf_BitField_def new_BitField_def)

lemma new_BitField_members: "bf.members (new_BitField 65536) = {}"
proof -
  have "bf_get (new_BitField 65536) p = Inr False" for p
    using pos_split(4) [of p] by (simp add: bf_ops(1) [OF new_BitField_wf]) (simp add: new_BitField_def)
  then show ?thesis by (simp add: bf.members_def)
qed

end
