(* ===== verification/RecvWindow.thy ===== *)
theory RecvWindow
  imports BitField
begin

text \<open>
  The struct \<open>ReceivingBuffer\<close> of BasicChannelHandler.hh and what
  \<open>pktRecv\<close> does to it when a sequence number inside the window arrives: test
  and set its bit, then advance \<open>expectedSeq\<close> over the run of received numbers,
  clearing their bits.  The specification numbers packets without wrap-around:
  a set \<open>R\<close> of received ordinals and the first missing ordinal \<open>E\<close>; the
  buffer represents them modulo 65536.
\<close>

record ReceivingBuffer =
  expectedSeq :: appInt16
  maxRecvd :: appInt16
  recvStarted :: bool
  rbuf :: BitField

definition new_ReceivingBuffer :: ReceivingBuffer where
  "new_ReceivingBuffer = \<lparr> expectedSeq = 0, maxRecvd = 65535, recvStarted = False,
     rbuf = new_BitField 65536 \<rparr>"

text \<open>Result: whether the number is new, and the buffer.\<close>

definition accept_seq :: "appInt16 \<Rightarrow> ReceivingBuffer \<Rightarrow> (bool \<times> ReceivingBuffer) res" where
  "accept_seq seqNo rb =
     bind_res (bf_get (rbuf rb) seqNo) (\<lambda>old.
     bind_res (bf_set (rbuf rb) seqNo) (\<lambda>b.
     bind_res (drain bf_get bf_reset 65537 b (expectedSeq rb)) (\<lambda>(b', expSeq).
     Inr (\<not> old, rb\<lparr> rbuf := b', expectedSeq := expSeq \<rparr>))))"

section \<open>The specification\<close>

definition recv_rel :: "nat \<Rightarrow> nat set \<Rightarrow> ReceivingBuffer \<Rightarrow> bool" where
  "recv_rel E R rb \<longleftrightarrow> wf_BitField (rbuf rb) \<and> expectedSeq rb = of_nat E \<and>
     {..<E} \<subseteq> R \<and> E \<notin> R \<and> R \<subseteq> {..<E + 32768} \<and>
     bf.members (rbuf rb) = of_nat ` {n \<in> R. E < n}"

definition first_missing :: "nat set \<Rightarrow> nat" where
  "first_missing R = (LEAST n. n \<notin> R)"

lemma recv_rel_new: "recv_rel 0 {} new_ReceivingBuffer"
  by (simp add: recv_rel_def new_ReceivingBuffer_def new_BitField_wf new_BitField_members)

lemma first_missing_props:
  assumes "finite R"
  shows "first_missing R \<notin> R" "m < first_missing R \<Longrightarrow> m \<in> R"
proof -
  obtain n where "n \<notin> R"
    using assms ex_new_if_finite [OF infinite_UNIV_nat] by blast
  then show "first_missing R \<notin> R"
    unfolding first_missing_def by (rule LeastI)
  show "m < first_missing R \<Longrightarrow> m \<in> R"
    unfolding first_missing_def using not_less_Least by blast
qed

lemma first_missing_eq: "{..<E} \<subseteq> R \<Longrightarrow> E \<notin> R \<Longrightarrow> first_missing R = E"
  unfolding first_missing_def by (rule Least_equality) (auto simp: not_less [symmetric])

lemma of_nat_word16_eq:
  assumes "(of_nat m :: appInt16) = of_nat n" "m < n + 65536" "n < m + 65536"
  shows "m = n"
proof -
  have "m mod 65536 = n mod 65536"
    using assms(1) by (simp add: word_of_nat_eq_iff take_bit_eq_mod)
  then have "n \<le> m \<Longrightarrow> 65536 dvd m - n" "m \<le> n \<Longrightarrow> 65536 dvd n - m"
    by (metis mod_eq_dvd_iff_nat)+
  then show ?thesis
    using assms(2,3) nat_dvd_not_less [of "m - n" 65536] nat_dvd_not_less [of "n - m" 65536]
    by (cases m n rule: linorder_cases) auto
qed

text \<open>
  The refinement: a number \<open>d < 32768\<close> ahead of \<open>expectedSeq\<close> stands for the
  ordinal \<open>E + d\<close>; it is reported as new exactly if that ordinal was not
  received before, and the buffer then represents the set with it.
\<close>

lemma accept_seq_refines:
  assumes rel: "recv_rel E R rb" and d: "unat (seqNo - expectedSeq rb) < 32768"
    and n: "n = E + unat (seqNo - expectedSeq rb)"
  obtains rb' where "accept_seq seqNo rb = Inr (n \<notin> R, rb')"
    "recv_rel (first_missing (insert n R)) (insert n R) rb'"
    "maxRecvd rb' = maxRecvd rb" "recvStarted rb' = recvStarted rb"
proof -
  let ?R = "insert n R" let ?E = "first_missing ?R"
  have wf: "wf_BitField (rbuf rb)" and exp: "expectedSeq rb = of_nat E" and below: "{..<E} \<subseteq> R"
    and E: "E \<notin> R" and win: "R \<subseteq> {..<E + 32768}"
    and mem: "bf.members (rbuf rb) = of_nat ` {n \<in> R. E < n}"
    using rel by (auto simp: recv_rel_def)
  have "finite ?R"
    using finite_subset [OF win] by simp
  note fm = first_missing_props [OF this]
  have seq: "seqNo = of_nat n"
  proof -
    have "of_nat n = of_nat E + (of_nat (unat (seqNo - expectedSeq rb)) :: appInt16)"
      by (simp add: n)
    also have "\<dots> = seqNo"
      by (simp add: exp)
    finally show ?thesis by simp
  qed
  have nb: "E \<le> n" "n < E + 32768"
    using d n by simp_all
  have EE: "E \<le> ?E" "?E \<le> E + 32768"
  proof -
    show "E \<le> ?E"
      using fm(1) below by (metis insertCI lessThan_iff not_le subsetD)
    show "?E \<le> E + 32768"
      using fm(2) [of "E + 32768"] win nb by (auto simp: not_le [symmetric])
  qed
  have inj: "m = k" if "(of_nat m :: appInt16) = of_nat k" "E \<le> m" "m \<le> E + 32768" "E \<le> k" "k \<le> E + 32768" for m k
    using that by (intro of_nat_word16_eq) auto
  have new: "seqNo \<in> bf.members (rbuf rb) \<longleftrightarrow> n \<in> R"
    using nb win inj [of n] E unfolding mem seq by (auto simp: le_less)
  obtain b where b: "bf_set (rbuf rb) seqNo = Inr b" "wf_BitField b"
      "bf.members b = insert seqNo (bf.members (rbuf rb))"
    using bf.set_members [OF wf] .
  have bm: "bf.members b = of_nat ` {m \<in> ?R. E < m \<or> m = n}"
    using nb unfolding b(3) mem seq by auto
  obtain k where k: "?E = E + k" "k \<le> 32768"
    using EE by (metis le_add_diff_inverse nat_add_left_cancel_le)
  have run: "expectedSeq rb + of_nat j \<in> bf.members b" if "j < k" for j
  proof -
    have "E + j \<in> ?R" using that k fm(2) by simp
    then show ?thesis
      using E unfolding bm exp by (cases "j = 0") (auto intro!: image_eqI [of _ _ "E + j"])
  qed
  have stop: "expectedSeq rb + of_nat k \<notin> bf.members b"
  proof
    assume "expectedSeq rb + of_nat k \<in> bf.members b"
    then obtain m where m: "(of_nat m :: appInt16) = of_nat (E + k)" "m \<in> ?R" "E \<le> m"
      using nb unfolding bm exp by auto
    then have "m = E + k"
      using win nb k by (intro inj) auto
    then show False using m(2) fm(1) k(1) by simp
  qed
  obtain b' where b': "drain bf_get bf_reset 65537 b (expectedSeq rb) = Inr (b', expectedSeq rb + of_nat k)"
      "wf_BitField b'" "bf.members b' = bf.members b - {expectedSeq rb + of_nat j | j. j < k}"
    using bf.drain_run [OF b(2), of k 65537 "expectedSeq rb"] k run stop by auto
  have rest: "bf.members b' = of_nat ` {m \<in> ?R. ?E < m}"
  proof (intro equalityI subsetI)
    fix q assume "q \<in> bf.members b'"
    then have q: "q \<in> of_nat ` {m \<in> ?R. E < m \<or> m = n}" and nq: "\<forall>j<k. q \<noteq> of_nat (E + j)"
      unfolding b'(3) bm exp by auto
    from q obtain m where m: "q = of_nat m" "m \<in> ?R" "E \<le> m"
      using nb by auto
    have "\<not> m < E + k"
      using nq m by (metis le_Suc_ex nat_add_left_cancel_less)
    moreover have "m \<noteq> E + k" using m(2) fm(1) k(1) by metis
    ultimately show "q \<in> of_nat ` {m \<in> ?R. ?E < m}" using m k by auto
  next
    fix q assume "q \<in> (of_nat :: nat \<Rightarrow> appInt16) ` {m \<in> ?R. ?E < m}"
    then obtain m where m: "q = of_nat m" "m \<in> ?R" "E + k < m" using k by auto
    have "q \<noteq> of_nat (E + j)" if "j < k" for j
      using inj [of m "E + j"] that m k win nb by auto
    then show "q \<in> bf.members b'"
      using m unfolding b'(3) bm exp by auto
  qed
  have "recv_rel ?E ?R (rb\<lparr> rbuf := b', expectedSeq := expectedSeq rb + of_nat k \<rparr>)"
    unfolding recv_rel_def using b'(2) rest fm win nb EE(1) by (auto simp: k(1) exp)
  moreover have "accept_seq seqNo rb = Inr (n \<notin> R, rb\<lparr> rbuf := b', expectedSeq := expectedSeq rb + of_nat k \<rparr>)"
    using new by (simp add: accept_seq_def bf.get_members [OF wf] b(1) b'(1))
  ultimately show thesis
    using that by simp
qed

end
