(* ===== verification/Float32.thy ===== *)
theory Float32
  imports Prelude Complex_Main
begin

text \<open>
  The \<open>float\<close> arithmetic of the congestion control.  A \<open>float\<close> is the rational
  number it denotes; every single-precision operation is the exact operation
  followed by \<open>fl32\<close>, rounding to a 24-bit significand, ties to even (the
  values of the program stay far from overflow and from the subnormal range).
  \<open>trunc\<close> is the conversion of a floating point value to an integer.
\<close>

fun bits :: "nat \<Rightarrow> nat" where
  "bits n = (if n = 0 then 0 else Suc (bits (n div 2)))"

declare bits.simps [simp del]

definition pow2 :: "int \<Rightarrow> rat" where
  "pow2 e = (if 0 \<le> e then 2 ^ nat e else 1 / 2 ^ nat (- e))"

definition round_half_even :: "rat \<Rightarrow> int" where
  "round_half_even y = (let f = \<lfloor>y\<rfloor>; r = y - of_int f in
     if r < 1 / 2 \<or> (r = 1 / 2 \<and> even f) then f else f + 1)"

definition fl32_exp :: "rat \<Rightarrow> int" where
  "fl32_exp x = (case quotient_of x of (p, q) \<Rightarrow>
     let e = int (bits (nat p)) - int (bits (nat q)) - 24 in
     if pow2 (e + 24) \<le> x then e + 1 else e)"

definition fl32 :: "rat \<Rightarrow> rat" where
  "fl32 x = (if x = 0 then 0
     else let a = \<bar>x\<bar>; e = fl32_exp a; m = of_int (round_half_even (a * pow2 (- e))) * pow2 e in
       if x < 0 then - m else m)"

definition trunc :: "rat \<Rightarrow> int" where
  "trunc x = (if 0 \<le> x then \<lfloor>x\<rfloor> else - \<lfloor>- x\<rfloor>)"

lemma pow2_pos [simp]: "0 < pow2 e"
  by (simp add: pow2_def)

lemma round_half_even_nonneg: "0 \<le> y \<Longrightarrow> 0 \<le> round_half_even y"
  by (simp add: round_half_even_def Let_def)

lemma fl32_nonneg: "0 \<le> x \<Longrightarrow> 0 \<le> fl32 x"
  by (auto simp: fl32_def Let_def intro!: mult_nonneg_nonneg round_half_even_nonneg less_imp_le [OF pow2_pos])

lemma fl32_0 [simp]: "fl32 0 = 0"
  by (simp add: fl32_def)

lemma trunc_nonneg: "0 \<le> x \<Longrightarrow> 0 \<le> trunc x"
  by (simp add: trunc_def)

lemma trunc_of_int [simp]: "trunc (of_int n) = n"
  by (simp add: trunc_def flip: of_int_minus)

lemma trunc_less: "0 \<le> x \<Longrightarrow> x < of_int n \<Longrightarrow> trunc x < n"
  by (simp add: trunc_def floor_less_iff)

lemma trunc_ge: "of_int n \<le> x \<Longrightarrow> 0 \<le> n \<Longrightarrow> n \<le> trunc x"
  by (simp add: trunc_def le_floor_iff order_trans [of 0 "of_int n"])

end
