(* ===== verification/Channel.thy ===== *)
theory Channel
  imports SendBuffer RecvWindow Float32
begin

text \<open>
  What the channel handlers share: the state of \<open>ChannelHandler\<close> and
  \<open>BasicChannelHandler\<close> (src/src/TunnelLib/ChannelHandler), sending through the
  interface, the window tests, the congestion window and the round trip
  estimate.  A handler acts on the rest of the program through its output
  \<open>ch_out\<close>, a list of events in order; what it reads from outside is the
  argument \<open>env\<close> of its operations.  Operations run under the handler's locks
  and are atomic here; only \<open>sendSeqLock\<close>, which the code can leave locked, is
  part of the state.
\<close>

section \<open>State\<close>

datatype sender_status =
  SLOW_START | CONG_AVOIDANCE | FAST_RETRANSMIT | FAST_RECOVERY | MULTI_RECOVERY | TIME_OUT

datatype cwnd_update_type = MULTIPLICATIVE_INCREASE | ADDITIVE_INCREASE | SET_TO_ONE | SET_TO rat

text \<open>
  Calls that leave the handler: a packet given to the network, the scheduler's
  \<open>notifyDeadChannel\<close> (with the packets it collects), \<open>readyToSend\<close> and
  \<open>notifyFreeCell\<close>, the parent's \<open>recvAck\<close>, \<open>recvProcPacket\<close> and
  \<open>sendPacketTo\<close>, and the job \<open>forwardPacketsToIfcScheduler\<close> given to the
  parent's worker.
\<close>

datatype chan_event =
    Ev_Send Packet
  | Ev_DeadChannel appInt "Packet list"
  | Ev_ReadyToSend appInt appInt
  | Ev_FreeCell appInt
  | Ev_RecvAck appInt16 appInt16 appInt16
  | Ev_ProcPacket Packet
  | Ev_Forward Packet
  | Ev_ForwardJob

text \<open>
  The environment of an operation: the clock in microseconds, the result of
  handing a packet to the interface, the parent's fingerprint and receiver
  status.
\<close>

record env =
  e_now :: int
  e_net :: "Packet \<Rightarrow> int"
  e_fingerPrint :: appInt16
  e_status :: "opt_header option"

definition ERROR_NETWORK_CLOSED :: int where "ERROR_NETWORK_CLOSED = 8"
definition TIMER_SECOND_IN_US :: int where "TIMER_SECOND_IN_US = 1000000"
definition MAX_CONG_WINDOW :: rat where "MAX_CONG_WINDOW = 32768"
definition INITIAL_SSTHRESH :: appInt16 where "INITIAL_SSTHRESH = 200"

text \<open>The constants \<open>G\<close>, \<open>alpha\<close> and \<open>beta\<close> of the handler.\<close>

definition rtt_G :: int where "rtt_G = 200000"
definition rtt_alpha :: rat where "rtt_alpha = 1 / 8"
definition rtt_beta :: rat where "rtt_beta = 1 / 4"

text \<open>
  \<open>ch_registered\<close> says that the scheduler's slot \<open>channelHandlers[id]\<close> still
  holds this channel, which decides what \<open>notifyDeadChannel\<close> does.
\<close>

record chan =
  ch_id :: appInt
  ch_ifcSrc :: appInt8
  ch_ifcDst :: appInt8
  ch_registered :: bool
  ch_out :: "chan_event list"
  recieverBuff :: ReceivingBuffer
  senderBuffer :: SendingBuffer
  senderWindow :: appInt16
  cwnd :: rat
  duplicateCount :: appInt16
  ssthresh :: appInt16
  recover :: appInt16
  rtt :: int
  srtt :: int
  rto :: int
  rttvar :: int
  ch_status :: sender_status
  sendSeqLocked :: bool
  closed :: bool
  deadChannel :: bool
  started :: bool

text \<open>The constructor: \<open>id_ = (ifcSrc << 4) | (ifcDst & 0x0f)\<close>.\<close>

definition chan_id :: "appInt8 \<Rightarrow> appInt8 \<Rightarrow> appInt" where
  "chan_id ifcSrc ifcDst = push_bit 4 (ucast ifcSrc) OR ucast (ifcDst AND 0x0f)"

definition init_chan :: "appInt8 \<Rightarrow> appInt8 \<Rightarrow> chan" where
  "init_chan ifcSrc ifcDst = \<lparr> ch_id = chan_id ifcSrc ifcDst, ch_ifcSrc = ifcSrc, ch_ifcDst = ifcDst,
     ch_registered = False, ch_out = [], recieverBuff = new_ReceivingBuffer,
     senderBuffer = new_SendingBuffer, senderWindow = 1, cwnd = 1, duplicateCount = 0,
     ssthresh = INITIAL_SSTHRESH, recover = 0, rtt = 0, srtt = 0, rto = TIMER_SECOND_IN_US,
     rttvar = 0, ch_status = SLOW_START, sendSeqLocked = False, closed = False,
     deadChannel = False, started = False \<rparr>"

definition emit :: "chan_event \<Rightarrow> 'a chan_scheme \<Rightarrow> 'a chan_scheme" where
  "emit e c = c\<lparr> ch_out := ch_out c @ [e] \<rparr>"

definition upd_sb :: "(SendingBuffer \<Rightarrow> SendingBuffer) \<Rightarrow> 'a chan_scheme \<Rightarrow> 'a chan_scheme" where
  "upd_sb f c = c\<lparr> senderBuffer := f (senderBuffer c) \<rparr>"

definition res_sb :: "(SendingBuffer \<Rightarrow> SendingBuffer res) \<Rightarrow> 'a chan_scheme \<Rightarrow> 'a chan_scheme res" where
  "res_sb f c = bind_res (f (senderBuffer c)) (\<lambda>s. Inr (c\<lparr> senderBuffer := s \<rparr>))"

section \<open>Sending through the interface\<close>

text \<open>
  \<open>ChannelHandler::send\<close>.  When the interface reports that the network is down,
  the scheduler takes the channel's undelivered packets, by the virtual
  \<open>getUndeliveredPackets\<close> passed as \<open>und\<close>, and empties the slot; an empty slot
  makes the call a no-op.
\<close>

definition notifyDead ::
    "('a chan_scheme \<Rightarrow> (Packet list \<times> 'a chan_scheme) res) \<Rightarrow> 'a chan_scheme \<Rightarrow> 'a chan_scheme res" where
  "notifyDead und c =
     (if \<not> ch_registered c then Inr c
      else bind_res (und c) (\<lambda>(pkts, c').
        Inr (emit (Ev_DeadChannel (ch_id c) pkts) (c'\<lparr> ch_registered := False \<rparr>))))"

definition mark_ifc :: "'a chan_scheme \<Rightarrow> Packet \<Rightarrow> Packet" where
  "mark_ifc c pkt = pkt\<lparr> p_header := (p_header pkt)\<lparr> h_ifcsrc := ch_ifcSrc c, h_ifcdst := ch_ifcDst c \<rparr> \<rparr>"

definition ch_send ::
    "('a chan_scheme \<Rightarrow> (Packet list \<times> 'a chan_scheme) res) \<Rightarrow> env \<Rightarrow> Packet \<Rightarrow> 'a chan_scheme \<Rightarrow>
       (int \<times> 'a chan_scheme) res" where
  "ch_send und env pkt c =
     (let pkt' = mark_ifc c pkt; ret = e_net env pkt'; c' = emit (Ev_Send pkt') c in
      if ret = - ERROR_NETWORK_CLOSED
      then bind_res (notifyDead und c') (\<lambda>c''. Inr (ret, c''))
      else Inr (ret, c'))"

text \<open>\<open>ChannelHandler::freePacket\<close>: acknowledge a data packet to the parent, then free it.\<close>

definition ch_freePacket :: "Packet \<Rightarrow> 'a chan_scheme \<Rightarrow> 'a chan_scheme" where
  "ch_freePacket pkt c =
     (if has_flag (h_flag (p_header pkt)) FLAG_DAT
      then emit (Ev_RecvAck (h_fingerPrint (p_header pkt)) (h_flowId (p_header pkt)) (h_flowSeqNo (p_header pkt))) c
      else c)"

text \<open>\<open>sendFreeCellNotification\<close>: the parent is a scheduler.\<close>

definition sendFreeCellNotification :: "'a chan_scheme \<Rightarrow> 'a chan_scheme" where
  "sendFreeCellNotification c = emit (Ev_FreeCell (ch_id c)) c"

section \<open>Windows\<close>

text \<open>\<open>(appInt16)(cwnd + 0.5)\<close>: the sum is a \<open>double\<close> and exact.\<close>

definition cwnd16 :: "'a chan_scheme \<Rightarrow> appInt16" where
  "cwnd16 c = of_int (trunc (cwnd c + 1 / 2))"

definition cansend :: "'a chan_scheme \<Rightarrow> bool" where
  "cansend c =
     (let wnd = (if senderWindow c < cwnd16 c then senderWindow c else cwnd16 c);
          pktcnt = maxSent (senderBuffer c) - lastAcked (senderBuffer c) in
      pktcnt < wnd)"

definition haveCell :: "'a chan_scheme \<Rightarrow> bool" where
  "haveCell c =
     (if deadChannel c \<or> closed c \<or> \<not> started c then False
      else let wnd = (if senderWindow c < cwnd16 c then senderWindow c else cwnd16 c);
               pktcnt = maxPacket (senderBuffer c) - lastAcked (senderBuffer c) in
           unat pktcnt < unat wnd * 2)"

definition getSenderWindowSize :: "'a chan_scheme \<Rightarrow> appInt16" where
  "getSenderWindowSize c = of_int (trunc (cwnd c))"

text \<open>\<open>updateCwnd\<close>: the new value, clamped to \<open>[1, MAX_CONG_WINDOW]\<close>.\<close>

fun cwnd_step :: "cwnd_update_type \<Rightarrow> rat \<Rightarrow> rat" where
  "cwnd_step MULTIPLICATIVE_INCREASE w = fl32 (w + 1)"
| "cwnd_step ADDITIVE_INCREASE w = fl32 (w + fl32 (1 / w))"
| "cwnd_step SET_TO_ONE w = 1"
| "cwnd_step (SET_TO v) w = v"

definition clamp_cwnd :: "rat \<Rightarrow> rat" where
  "clamp_cwnd w = (let w' = (if w > MAX_CONG_WINDOW then MAX_CONG_WINDOW else w) in
     if w' < 1 then 1 else w')"

definition updateCwnd :: "cwnd_update_type \<Rightarrow> 'a chan_scheme \<Rightarrow> 'a chan_scheme" where
  "updateCwnd type c = c\<lparr> cwnd := clamp_cwnd (cwnd_step type (cwnd c)) \<rparr>"

section \<open>Round trip time\<close>

definition APP_MAX :: "int \<Rightarrow> int \<Rightarrow> int" where
  "APP_MAX x y = (if x > y then x else y)"

definition APP_ABS :: "int \<Rightarrow> int" where
  "APP_ABS x = (if x < 0 then - x else x)"

text \<open>
  The estimator: the products and sums with \<open>alpha\<close> and \<open>beta\<close> are computed in
  single precision, the operands converted to \<open>float\<close> first.
\<close>

definition smooth :: "rat \<Rightarrow> int \<Rightarrow> int \<Rightarrow> int" where
  "smooth a old new = trunc (fl32 (fl32 ((1 - a) * fl32 (of_int old)) + fl32 (a * fl32 (of_int new))))"

definition rtt_step :: "int \<Rightarrow> 'a chan_scheme \<Rightarrow> 'a chan_scheme" where
  "rtt_step r c =
     (if srtt c = 0 then
        c\<lparr> rtt := r, srtt := r, rttvar := trunc (of_int r / 2),
           rto := r + APP_MAX rtt_G (4 * trunc (of_int r / 2)) \<rparr>
      else let v = smooth rtt_beta (rttvar c) (APP_ABS (srtt c - r));
               s = smooth rtt_alpha (srtt c) r in
        c\<lparr> rtt := r, rttvar := v, srtt := s, rto := s + APP_MAX rtt_G (4 * v) \<rparr>)"

section \<open>Facts about windows and estimates\<close>

lemma clamp_cwnd_bounds: "1 \<le> clamp_cwnd w" "clamp_cwnd w \<le> MAX_CONG_WINDOW"
  by (simp_all add: clamp_cwnd_def Let_def MAX_CONG_WINDOW_def)

definition cwnd_ok :: "'a chan_scheme \<Rightarrow> bool" where
  "cwnd_ok c \<longleftrightarrow> 1 \<le> cwnd c \<and> cwnd c \<le> MAX_CONG_WINDOW"

lemma updateCwnd_ok [simp]: "cwnd_ok (updateCwnd t c)"
  by (simp add: cwnd_ok_def updateCwnd_def clamp_cwnd_bounds)

lemma trunc_half_bounds:
  assumes "cwnd_ok c"
  shows "1 \<le> trunc (cwnd c + 1 / 2)" "trunc (cwnd c + 1 / 2) \<le> 32768"
proof -
  show "1 \<le> trunc (cwnd c + 1 / 2)"
    using assms by (intro trunc_ge) (auto simp: cwnd_ok_def)
  have "trunc (cwnd c + 1 / 2) < 32769"
    using assms by (intro trunc_less) (auto simp: cwnd_ok_def MAX_CONG_WINDOW_def)
  then show "trunc (cwnd c + 1 / 2) \<le> 32768" by simp
qed

lemma cwnd16_bounds:
  assumes "cwnd_ok c"
  shows "1 \<le> unat (cwnd16 c)" "unat (cwnd16 c) \<le> 32768"
proof -
  note b = trunc_half_bounds [OF assms]
  then have "uint (cwnd16 c) = trunc (cwnd c + 1 / 2)"
    by (simp add: cwnd16_def unsigned_of_int take_bit_eq_mod)
  then show "1 \<le> unat (cwnd16 c)" "unat (cwnd16 c) \<le> 32768"
    using b by (simp_all add: unat_eq_nat_uint nat_le_iff le_nat_iff)
qed

text \<open>The state of the estimator: no negative value, and a timeout of at least \<open>G\<close>.\<close>

definition rtt_ok :: "'a chan_scheme \<Rightarrow> bool" where
  "rtt_ok c \<longleftrightarrow> 0 \<le> srtt c \<and> 0 \<le> rttvar c \<and> rtt_G \<le> rto c"

lemma smooth_nonneg: "0 \<le> a \<Longrightarrow> a \<le> 1 \<Longrightarrow> 0 \<le> old \<Longrightarrow> 0 \<le> new \<Longrightarrow> 0 \<le> smooth a old new"
  unfolding smooth_def
  by (intro trunc_nonneg fl32_nonneg add_nonneg_nonneg mult_nonneg_nonneg) auto

lemma rtt_step_ok:
  assumes "rtt_ok c" "0 \<le> r"
  shows "rtt_ok (rtt_step r c)"
proof (cases "srtt c = 0")
  case True
  have "0 \<le> trunc (of_int r / 2)"
    using assms by (intro trunc_nonneg) simp
  then show ?thesis
    using True assms by (simp add: rtt_step_def rtt_ok_def APP_MAX_def)
next
  case False
  have "0 \<le> smooth rtt_beta (rttvar c) (APP_ABS (srtt c - r))"
    "0 \<le> smooth rtt_alpha (srtt c) r"
    using assms by (auto intro!: smooth_nonneg simp: rtt_ok_def rtt_beta_def rtt_alpha_def APP_ABS_def)
  then show ?thesis
    using False by (simp add: rtt_step_def rtt_ok_def APP_MAX_def Let_def)
qed

lemma rto_word:
  assumes "rtt_ok c" "rto c < 15 * TIMER_SECOND_IN_US"
  shows "uint (of_int (rto c) :: appInt32) = rto c" "(of_int (rto c) :: appInt32) \<noteq> 0"
proof -
  show u: "uint (of_int (rto c) :: appInt32) = rto c"
    using assms by (simp add: rtt_ok_def rtt_G_def TIMER_SECOND_IN_US_def unsigned_of_int take_bit_eq_mod)
  then show "(of_int (rto c) :: appInt32) \<noteq> 0"
    using assms by (auto simp: rtt_ok_def rtt_G_def)
qed

lemma init_chan_ok: "cwnd_ok (init_chan s d)" "rtt_ok (init_chan s d)" "sb_inv (senderBuffer (init_chan s d))"
  "recv_rel 0 {} (recieverBuff (init_chan s d))"
  by (simp_all add: cwnd_ok_def rtt_ok_def init_chan_def MAX_CONG_WINDOW_def rtt_G_def TIMER_SECOND_IN_US_def
      new_SendingBuffer_inv recv_rel_new)

end
