(* ===== verification/BasicChannel.thy ===== *)
theory BasicChannel
  imports Channel
begin

text \<open>
  \<open>BasicChannelHandler\<close> itself (src/src/TunnelLib/ChannelHandler/
  BasicChannelHandler.cc), the handler the others derive from.  Its operations
  call \<open>sendSeq\<close> and \<open>ackRecv\<close> through the virtual table, so those two are
  arguments here (\<open>sq\<close> and \<open>ackr\<close>); a handler that inherits an operation
  passes its own.  The handler does not implement \<open>getUndeliveredPackets\<close>: the
  one it inherits from \<open>ChannelHandler\<close> asserts.
\<close>

section \<open>Sending\<close>

definition base_getUndelivered :: "'a chan_scheme \<Rightarrow> (Packet list \<times> 'a chan_scheme) res" where
  "base_getUndelivered c = Inl Assert_Failed"

definition b_sendSeq :: "env \<Rightarrow> appInt16 \<Rightarrow> 'a chan_scheme \<Rightarrow> (int \<times> 'a chan_scheme) res" where
  "b_sendSeq env seq c =
     (if sendSeqLocked c then Inl Blocked
      else case sb_pkt (cells (senderBuffer c) seq) of
        None \<Rightarrow> Inl Null_Deref
      | Some pkt \<Rightarrow>
          app_assert (seq = h_seqNo (p_header pkt))
            (let pkt1 = pkt\<lparr> p_header := (p_header pkt)\<lparr> h_sentTS := of_int (e_now env) \<rparr> \<rparr>;
                 c1 = upd_sb (\<lambda>s. s\<lparr> cells := (cells s)(seq := (cells s seq)
                        \<lparr> sb_pkt := Some (mark_ifc c pkt1) \<rparr>) \<rparr>) c in
             bind_res (ch_send base_getUndelivered env pkt1 c1) (\<lambda>(ret, c2).
             bind_res (res_sb (startTimer seq (e_now env) (of_int (rto c))) c2) (\<lambda>c3.
             Inr (ret, c3)))))"

type_synonym 'a send_seq = "env \<Rightarrow> appInt16 \<Rightarrow> 'a chan_scheme \<Rightarrow> (int \<times> 'a chan_scheme) res"

text \<open>\<open>sendNew\<close>: the first argument of the loop is the number of packets queued and not sent.\<close>

fun b_send_loop :: "'a send_seq \<Rightarrow> env \<Rightarrow> nat \<Rightarrow> appInt16 \<Rightarrow> appInt16 \<Rightarrow> 'a chan_scheme \<Rightarrow>
    (appInt16 \<times> 'a chan_scheme) res" where
  "b_send_loop sq env 0 sntCnt cnt c = Inr (sntCnt, c)"
| "b_send_loop sq env (Suc unsent) sntCnt cnt c =
     (if cansend c \<and> sntCnt < cnt then
        bind_res (sq env (maxSent (senderBuffer c) + 1) c) (\<lambda>(_, c').
        b_send_loop sq env unsent (sntCnt + 1) cnt
          (upd_sb (\<lambda>s. s\<lparr> maxSent := maxSent s + 1, totalSent := totalSent s + 1 \<rparr>) c'))
      else Inr (sntCnt, c))"

definition b_sendNew :: "'a send_seq \<Rightarrow> env \<Rightarrow> appInt16 \<Rightarrow> 'a chan_scheme \<Rightarrow> (appInt16 \<times> 'a chan_scheme) res" where
  "b_sendNew sq env cnt c =
     (let unsent = maxPacket (senderBuffer c) - maxSent (senderBuffer c) in
      b_send_loop sq env (unat unsent) 0 cnt c)"

text \<open>
  \<open>sendPacket\<close>: only the first packet of an idle channel is sent from here;
  later ones wait for an acknowledgement.
\<close>

definition b_sendPacket :: "'a send_seq \<Rightarrow> env \<Rightarrow> Packet \<Rightarrow> 'a chan_scheme \<Rightarrow> (int \<times> 'a chan_scheme) res" where
  "b_sendPacket sq env pkt c =
     (if closed c then Inr (- 9, c)
      else if deadChannel c then Inr (- 6, c)
      else if \<not> started c \<and> h_flag (p_header pkt) OR FLAG_CSN = 0 then Inr (- 3, c)
      else if lastAcked (senderBuffer c) = maxPacket (senderBuffer c) then
        (let pkt1 = pkt\<lparr> p_header := (p_header pkt)\<lparr> h_flag := h_flag (p_header pkt) OR FLAG_CHS \<rparr> \<rparr>;
             c1 = upd_sb (\<lambda>s. s\<lparr> sb_started := True \<rparr>) c in
         bind_res (res_sb (addBuffer pkt1) c1) (\<lambda>c2.
         bind_res (b_sendNew sq env 1 c2) (\<lambda>(_, c3). Inr (0, c3))))
      else
        (let x = maxPacket (senderBuffer c) - lastAcked (senderBuffer c) in
         if unat x \<ge> 65536 div 2 then Inr (- 1, c)
         else bind_res (res_sb (addBuffer pkt) c) (\<lambda>c2. Inr (0, c2))))"

text \<open>\<open>startUp\<close> is \<open>sendCSNPacket\<close>.\<close>

definition b_startUp :: "'a send_seq \<Rightarrow> env \<Rightarrow> 'a chan_scheme \<Rightarrow> 'a chan_scheme res" where
  "b_startUp sq env c =
     (let pkt = new_Packet\<lparr> p_header := reinit_header\<lparr> h_flag := FLAG_DAT OR FLAG_CHS,
                             h_fingerPrint := e_fingerPrint env \<rparr> \<rparr> in
      bind_res (b_sendPacket sq env pkt c) (\<lambda>(_, c'). Inr c'))"

text \<open>
  \<open>waitToMoreSpace\<close>: a \<open>ConditionalWait\<close> remembers no notification, so the
  caller blocks whenever there is no cell, until a later acknowledgement.
\<close>

definition b_waitToMoreSpace :: "'a chan_scheme \<Rightarrow> 'a chan_scheme res" where
  "b_waitToMoreSpace c = (if \<not> haveCell c then Inl Blocked else Inr c)"

definition b_shutDown :: "'a chan_scheme \<Rightarrow> 'a chan_scheme" where
  "b_shutDown c = c\<lparr> closed := True \<rparr>"

section \<open>Receiving\<close>

definition b_sendAck :: "env \<Rightarrow> Packet \<Rightarrow> appInt16 \<Rightarrow> 'a chan_scheme \<Rightarrow> 'a chan_scheme res" where
  "b_sendAck env origPkt ackno c =
     (let oh = p_header origPkt;
          hdr = reinit_header\<lparr> h_ackNo := ackno, h_flag := FLAG_ACK, h_flowId := h_flowId oh,
            h_fingerPrint := h_fingerPrint oh, h_window := 32768, h_sentTS := h_sentTS oh,
            h_origAckNo := h_seqNo oh \<rparr> in
      bind_res (ch_send base_getUndelivered env (new_Packet\<lparr> p_header := hdr \<rparr>) c) (\<lambda>(_, c'). Inr c'))"

text \<open>The bit of the number is set without a look at its old value.\<close>

definition b_accept_seq :: "appInt16 \<Rightarrow> ReceivingBuffer \<Rightarrow> ReceivingBuffer res" where
  "b_accept_seq seqNo rb =
     bind_res (bf_set (rbuf rb) seqNo) (\<lambda>b.
     bind_res (drain bf_get bf_reset 65537 b (expectedSeq rb)) (\<lambda>(b', expSeq).
     Inr (rb\<lparr> rbuf := b', expectedSeq := expSeq \<rparr>)))"

definition b_pktRecv :: "env \<Rightarrow> Packet \<Rightarrow> 'a chan_scheme \<Rightarrow> (int \<times> Packet \<times> 'a chan_scheme) res" where
  "b_pktRecv env pkt c =
     (let flag = h_flag (p_header pkt); seq = h_seqNo (p_header pkt) in
      if \<not> recvStarted (recieverBuff c) \<and> \<not> has_flag flag FLAG_CHS then Inr (0, pkt, c)
      else
        (let c1 = (if has_flag flag FLAG_CHS
                   then c\<lparr> recieverBuff := (recieverBuff c)\<lparr> recvStarted := True \<rparr> \<rparr> else c);
             rb = recieverBuff c1;
             normalizedSeqNo = seq - expectedSeq rb;
             normalizedMaxRecv = maxRecvd rb - expectedSeq rb in
         if unat normalizedSeqNo < 65536 div 2 then
           bind_res (b_accept_seq seq rb) (\<lambda>rb'.
           bind_res (b_sendAck env pkt (expectedSeq rb' - 1) (c1\<lparr> recieverBuff := rb' \<rparr>)) (\<lambda>c2.
           Inr (0, pkt\<lparr> p_accepted := True \<rparr>,
                if normalizedSeqNo > normalizedMaxRecv
                then c2\<lparr> recieverBuff := (recieverBuff c2)\<lparr> maxRecvd := seq \<rparr> \<rparr> else c2)))
         else if normalizedSeqNo > 49152 then
           bind_res (b_sendAck env pkt (expectedSeq rb - 1) c1) (\<lambda>c2. Inr (0, pkt, c2))
         else Inr (0, pkt, c1)))"

definition validatePacket :: "Packet \<Rightarrow> 'a chan_scheme \<Rightarrow> Packet" where
  "validatePacket pkt c =
     (let normalizedSeqNo = h_seqNo (p_header pkt) - expectedSeq (recieverBuff c) in
      if has_flag (h_flag (p_header pkt)) FLAG_DAT \<and> unat normalizedSeqNo < 65536 div 2
      then pkt\<lparr> p_accepted := True \<rparr> else pkt)"

type_synonym 'a ack_recv = "env \<Rightarrow> Packet \<Rightarrow> 'a chan_scheme \<Rightarrow> (int \<times> 'a chan_scheme) res"

definition b_recv :: "'a ack_recv \<Rightarrow> env \<Rightarrow> Packet \<Rightarrow> 'a chan_scheme \<Rightarrow> (int \<times> Packet \<times> 'a chan_scheme) res" where
  "b_recv ackr env pkt c =
     (let c1 = (if h_window (p_header pkt) \<noteq> 0 then c\<lparr> senderWindow := h_window (p_header pkt) \<rparr> else c);
          c2 = c1\<lparr> started := True \<rparr> in
      bind_res (if has_flag (h_flag (p_header pkt)) FLAG_ACK
                then bind_res (ackr env pkt c2) (\<lambda>(_, c'). Inr c') else Inr c2) (\<lambda>c3.
      if has_flag (h_flag (p_header pkt)) FLAG_DAT
      then bind_res (b_pktRecv env pkt c3) (\<lambda>(_, pkt', c4). Inr (0, pkt', c4))
      else Inr (0, pkt, c3)))"

section \<open>Acknowledgements\<close>

definition b_updateRtt :: "env \<Rightarrow> Packet \<Rightarrow> 'a chan_scheme \<Rightarrow> 'a chan_scheme" where
  "b_updateRtt env pkt c = rtt_step (e_now env - sint (h_sentTS (p_header pkt))) c"

text \<open>
  What an acknowledgement number is, relative to \<open>lastAcked\<close>: new, partial
  (during recovery), a duplicate, the last one with nothing in flight, or
  outside the window.
\<close>

datatype ack_kind = Ack_New | Ack_Partial | Ack_Duplicate | Ack_Idle | Ack_Outside

definition note_kind :: "ack_kind \<Rightarrow> 'a chan_scheme \<Rightarrow> 'a chan_scheme" where
  "note_kind k c = (if k = Ack_New then c\<lparr> ch_status := SLOW_START, recover := 0 \<rparr> else c)"

definition count_dup :: "SendingBuffer \<Rightarrow> SendingBuffer" where
  "count_dup s = s\<lparr> totalDuplicateAck := totalDuplicateAck s + 1, totalRetransmitions := totalRetransmitions s + 1 \<rparr>"

definition drop_count :: "('a \<times> 'c) res \<Rightarrow> 'c res" where
  "drop_count r = bind_res r (\<lambda>(_, c). Inr c)"

definition b_ack_kind :: "'a chan_scheme \<Rightarrow> appInt16 \<Rightarrow> ack_kind" where
  "b_ack_kind c normalisedackno =
     (if normalisedackno > 0 \<and> unat normalisedackno \<le> 65536 div 2 then
        (if ch_status c = FAST_RECOVERY \<and> normalisedackno < recover c then Ack_Partial else Ack_New)
      else if normalisedackno = 0 then
        (if lastAcked (senderBuffer c) \<noteq> maxSent (senderBuffer c) then Ack_Duplicate else Ack_Idle)
      else Ack_Outside)"

text \<open>The loop over the newly acknowledged cells: every one must hold a packet.\<close>

fun b_release_acked :: "nat \<Rightarrow> appInt16 \<Rightarrow> 'a chan_scheme \<Rightarrow> 'a chan_scheme res" where
  "b_release_acked 0 i c = Inr c"
| "b_release_acked (Suc n) i c =
     bind_res (res_sb (stopTimer i) c) (\<lambda>c1.
     case sb_pkt (cells (senderBuffer c1) i) of
       None \<Rightarrow> Inl Null_Deref
     | Some p \<Rightarrow> b_release_acked n (i + 1) (upd_sb (reset_cell i) (ch_freePacket p c1)))"

fun b_restart_range :: "nat \<Rightarrow> appInt16 \<Rightarrow> int \<Rightarrow> 'a chan_scheme \<Rightarrow> 'a chan_scheme res" where
  "b_restart_range 0 i t c = Inr c"
| "b_restart_range (Suc n) i t c =
     bind_res (res_sb (restartTimer i t) c) (b_restart_range n (i + 1) t)"

text \<open>The first steps of a new or partial acknowledgement of \<open>n\<close> packets, up to the loop.\<close>

definition b_advance :: "env \<Rightarrow> Packet \<Rightarrow> 'a chan_scheme \<Rightarrow> 'a chan_scheme" where
  "b_advance env pkt c =
     (let c1 = upd_sb (\<lambda>s. s\<lparr> lastAcked := h_ackNo (p_header pkt) \<rparr>) c in
      (b_updateRtt env pkt (sendFreeCellNotification c1))\<lparr> duplicateCount := 0 \<rparr>)"

definition b_grow_window :: "'a chan_scheme \<Rightarrow> 'a chan_scheme" where
  "b_grow_window c =
     (if cwnd c \<le> of_int (uint (ssthresh c))
      then (updateCwnd MULTIPLICATIVE_INCREASE c)\<lparr> ch_status := SLOW_START \<rparr>
      else (updateCwnd ADDITIVE_INCREASE c)\<lparr> ch_status := CONG_AVOIDANCE \<rparr>)"

definition b_ack_new :: "'a send_seq \<Rightarrow> env \<Rightarrow> Packet \<Rightarrow> appInt16 \<Rightarrow> 'a chan_scheme \<Rightarrow> 'a chan_scheme res" where
  "b_ack_new sq env pkt n c =
     (let acked = lastAcked (senderBuffer c) + 1 in
      bind_res (b_release_acked (unat n) acked (b_advance env pkt c)) (\<lambda>c1.
      drop_count (b_sendNew sq env (push_bit 1 n) (b_grow_window c1))))"

definition b_ack_partial :: "'a send_seq \<Rightarrow> env \<Rightarrow> Packet \<Rightarrow> appInt16 \<Rightarrow> 'a chan_scheme \<Rightarrow> 'a chan_scheme res" where
  "b_ack_partial sq env pkt n c =
     (let acked = lastAcked (senderBuffer c) + 1 in
      bind_res (b_release_acked (unat n) acked (b_advance env pkt c)) (\<lambda>c1.
      let r = recover c1 - n; acked = lastAcked (senderBuffer c1) + 1 in
      bind_res (b_restart_range (unat r) acked (e_now env) (c1\<lparr> recover := r \<rparr>)) (\<lambda>c2.
      bind_res (drop_count (b_sendNew sq env 1 c2)) (\<lambda>c3.
      Inr (updateCwnd (SET_TO (fl32 (fl32 (cwnd c3 - of_int (uint n)) + 1))) c3)))))"

text \<open>The third duplicate: retransmit the first unacknowledged packet, halve the window.\<close>

definition b_enter_recovery :: "'a chan_scheme \<Rightarrow> 'a chan_scheme" where
  "b_enter_recovery c =
     (if ch_status c \<noteq> FAST_RECOVERY then
        (let flightSize = maxSent (senderBuffer c) - lastAcked (senderBuffer c);
             t = of_int (APP_MAX (uint flightSize div 2) 2);
             c' = updateCwnd (SET_TO (of_int (uint t) + 3)) (c\<lparr> recover := flightSize, ssthresh := t \<rparr>) in
         if ch_status c' = CONG_AVOIDANCE \<or> ch_status c' = SLOW_START
         then c'\<lparr> ch_status := FAST_RECOVERY \<rparr> else c')
      else c)"

definition b_ack_duplicate :: "'a send_seq \<Rightarrow> env \<Rightarrow> 'a chan_scheme \<Rightarrow> 'a chan_scheme res" where
  "b_ack_duplicate sq env c0 =
     (let c = c0\<lparr> duplicateCount := duplicateCount c0 + 1 \<rparr> in
      if duplicateCount c = 3 then
        (let nextPktSeq = lastAcked (senderBuffer c) + 1 in
         bind_res (res_sb (stopTimer nextPktSeq) c) (\<lambda>c1.
         bind_res (sq env nextPktSeq c1) (\<lambda>(_, c2).
         Inr (upd_sb count_dup (b_enter_recovery c2)))))
      else drop_count (b_sendNew sq env 1
             (if ch_status c = FAST_RECOVERY then updateCwnd MULTIPLICATIVE_INCREASE c else c)))"

definition b_ackRecv :: "'a send_seq \<Rightarrow> env \<Rightarrow> Packet \<Rightarrow> 'a chan_scheme \<Rightarrow> (int \<times> 'a chan_scheme) res" where
  "b_ackRecv sq env pkt c =
     (let n = h_ackNo (p_header pkt) - lastAcked (senderBuffer c) in
      if \<not> sb_started (senderBuffer c) then Inr (0, c)
      else let k = b_ack_kind c n; c1 = note_kind k c in
        if k = Ack_Outside then Inr (- 1, c1)
        else
          (let c2 = upd_sb (\<lambda>s. s\<lparr> totalSuccessfullySent := totalSuccessfullySent s + ucast n \<rparr>) c1 in
           bind_res (case k of
               Ack_New \<Rightarrow> b_ack_new sq env pkt n c2
             | Ack_Partial \<Rightarrow> b_ack_partial sq env pkt n c2
             | Ack_Duplicate \<Rightarrow> b_ack_duplicate sq env c2
             | _ \<Rightarrow> Inr c2) (\<lambda>c3. Inr (0, c3))))"

section \<open>Timeouts\<close>

text \<open>
  One visit of the loop to the first timer: the result says whether the loop
  goes on and whether a packet was retransmitted.  The fourth timeout of the
  packet with number 0 declares the channel dead and gives the worker the job
  to forward its packets.
\<close>

definition b_timeout_visit :: "'a send_seq \<Rightarrow> env \<Rightarrow> int \<Rightarrow> appInt16 \<Rightarrow> 'a chan_scheme \<Rightarrow>
    (bool \<times> bool \<times> 'a chan_scheme) res" where
  "b_timeout_visit sq env now i c =
     (let s = senderBuffer c in
      case sb_pkt (cells s i) of
        None \<Rightarrow> Inl Null_Deref
      | Some p \<Rightarrow>
          let seq = h_seqNo (p_header p) in
          if sb_time (cells s i) \<noteq> 0 \<and> effTimer (cells s i) \<le> now then
            if seq = 0 \<and> sb_retryCnt (cells s seq) > 2
            then Inr (False, False, emit Ev_ForwardJob (c\<lparr> deadChannel := True \<rparr>))
            else
              bind_res (res_sb (stopTimer seq) c) (\<lambda>c1.
              bind_res (sq env seq c1) (\<lambda>(_, c2).
              Inr (True, True, upd_sb (\<lambda>s. s\<lparr> cells := (cells s)(seq := (cells s seq)
                     \<lparr> sb_retryCnt := sb_retryCnt (cells s seq) + 1 \<rparr>),
                 totalRetransmitions := totalRetransmitions s + 1, totalTimeouts := totalTimeouts s + 1 \<rparr>) c2)))
          else Inr (False, False, c))"

fun b_timeout_loop :: "nat \<Rightarrow> 'a send_seq \<Rightarrow> env \<Rightarrow> int \<Rightarrow> bool \<Rightarrow> 'a chan_scheme \<Rightarrow> (bool \<times> 'a chan_scheme) res" where
  "b_timeout_loop 0 sq env now occ c = Inl Diverges"
| "b_timeout_loop (Suc n) sq env now occ c =
     (case timerList (senderBuffer c) of
        [] \<Rightarrow> Inr (occ, c)
      | i # _ \<Rightarrow>
          bind_res (b_timeout_visit sq env now i c) (\<lambda>(again, sent, c').
            if again then b_timeout_loop n sq env now (occ \<or> sent) c' else Inr (occ \<or> sent, c')))"

definition b_timeoutEvent :: "nat \<Rightarrow> 'a send_seq \<Rightarrow> env \<Rightarrow> int \<Rightarrow> 'a chan_scheme \<Rightarrow> (int \<times> 'a chan_scheme) res" where
  "b_timeoutEvent fuel sq env now c =
     (if closed c \<or> deadChannel c then Inr (0, c)
      else bind_res (b_timeout_loop fuel sq env now False c) (\<lambda>(occ, c').
        if occ then
          let t = (of_int (trunc (cwnd c' / 2)) :: appInt16) in
          Inr (0, updateCwnd SET_TO_ONE (c'\<lparr> ssthresh := (if t < 2 then 2 else t) \<rparr>))
        else Inr (0, c')))"

section \<open>Forwarding the packets of a dead channel\<close>

text \<open>
  \<open>forwardPacketsToIfcScheduler\<close>: every packet from \<open>lastAcked + 1\<close> on is taken
  out of its cell and given to the scheduler, except the channel's own.
\<close>

fun forward_loop :: "nat \<Rightarrow> appInt16 \<Rightarrow> 'a chan_scheme \<Rightarrow> 'a chan_scheme" where
  "forward_loop 0 i c = c"
| "forward_loop (Suc n) i c =
     (case sb_pkt (cells (senderBuffer c) i) of
        None \<Rightarrow> forward_loop n (i + 1) c
      | Some pkt \<Rightarrow>
          let c' = upd_sb (reset_cell i) c in
          forward_loop n (i + 1)
            (if has_flag (h_flag (p_header pkt)) FLAG_CSN then c' else emit (Ev_Forward pkt) c'))"

definition forwardPackets :: "'a chan_scheme \<Rightarrow> 'a chan_scheme" where
  "forwardPackets c =
     (let s = senderBuffer c in
      forward_loop (unat (maxPacket s - lastAcked s)) (lastAcked s + 1)
        (upd_sb (\<lambda>s. s\<lparr> timerList := [] \<rparr>) c))"

end
