(* ===== verification/SackChannel.thy ===== *)
theory SackChannel
  imports BasicChannel
begin

text \<open>
  \<open>SackNewRenoChannelHandler\<close> adds two indexes to the state of the basic
  handler.  This theory has that state and the parts of the acknowledgement
  handler it shares with \<open>NewChannelHandler\<close>: the classification of an
  acknowledgement number and the search of multi-recovery.
\<close>

record sack_chan = chan +
  multiRecoverIndex :: appInt16
  recoverIndex :: appInt16

definition init_sack_chan :: "appInt8 \<Rightarrow> appInt8 \<Rightarrow> sack_chan" where
  "init_sack_chan ifcSrc ifcDst =
     chan.extend ((init_chan ifcSrc ifcDst)\<lparr> ssthresh := 16384 \<rparr>) \<lparr> multiRecoverIndex = 0, recoverIndex = 0 \<rparr>"

text \<open>The classification of an acknowledgement number, with multi-recovery.\<close>

definition ack_kind :: "'a chan_scheme \<Rightarrow> appInt16 \<Rightarrow> ack_kind" where
  "ack_kind c normalisedackno =
     (if normalisedackno > 0 \<and> unat normalisedackno \<le> 65536 div 2 then
        (if (ch_status c = FAST_RECOVERY \<or> ch_status c = MULTI_RECOVERY) \<and> normalisedackno < recover c
         then Ack_Partial else Ack_New)
      else if normalisedackno = 0 then
        (if lastAcked (senderBuffer c) \<noteq> maxSent (senderBuffer c) then Ack_Duplicate else Ack_Idle)
      else Ack_Outside)"

text \<open>
  The search \<open>for(; buf[i].pkt_ == NULL and i <= recoverIndex; i++)\<close>.  The index
  wraps around, so after 65536 rounds it is back where it started and the loop
  never ends.
\<close>

fun search_unacked :: "nat \<Rightarrow> SendingBuffer \<Rightarrow> appInt16 \<Rightarrow> appInt16 \<Rightarrow> appInt16 res" where
  "search_unacked 0 s i r = Inl Diverges"
| "search_unacked (Suc n) s i r =
     (if sb_pkt (cells s i) = None \<and> i \<le> r then search_unacked n s (i + 1) r else Inr i)"

lemma search_unacked_result:
  "search_unacked n s i r = Inr j \<Longrightarrow> sb_pkt (cells s j) \<noteq> None \<or> r < j"
  by (induction n s i r rule: search_unacked.induct) (auto split: if_splits)

end
