(* ===== verification/NewChannel.thy ===== *)
theory NewChannel
  imports SackChannel
begin

text \<open>
  \<open>NewChannelHandler\<close>, the channel handler the program uses by default
  (src/src/TunnelLib/ChannelHandler/NewChannelHandler.cc): sending and
  retransmission, the two receive queues and their thread, acknowledgements,
  timeouts and the closing handshake.
\<close>

section \<open>State\<close>

text \<open>Semaphores are their counts; the receive queues are the lists of their packets.\<close>

record new_channel = sack_chan +
  chStopThread :: bool
  dataRecvQueue :: "Packet list"
  ackRecvQueue :: "Packet list"
  waitToDie :: nat
  waitForPacket :: nat
  ackedSentUpto :: appInt16
  lastAckSent :: int
  lastRecvPkt :: Packet
  shutDownLock :: nat
  shutDownSent :: bool
  shutDownRecv :: bool
  shutDownSentRecv :: bool
  outgoingAckCount :: appInt8
  ackHeaderLL :: "opt_header option"

definition SEND_CONTROL_AFTER :: appInt8 where "SEND_CONTROL_AFTER = 60"

definition init_new_channel :: "env \<Rightarrow> appInt8 \<Rightarrow> appInt8 \<Rightarrow> new_channel" where
  "init_new_channel env ifcSrc ifcDst = sack_chan.extend (init_sack_chan ifcSrc ifcDst)
     \<lparr> chStopThread = False, dataRecvQueue = [], ackRecvQueue = [], waitToDie = 0, waitForPacket = 0,
       ackedSentUpto = 65535, lastAckSent = e_now env, lastRecvPkt = new_Packet, shutDownLock = 0,
       shutDownSent = False, shutDownRecv = False, shutDownSentRecv = False,
       outgoingAckCount = 0, ackHeaderLL = None \<rparr>"

section \<open>Sending\<close>

text \<open>\<open>getUndeliveredPackets\<close>: collect the packets after \<open>lastAcked\<close>, resetting their cells.\<close>

fun collect_undelivered :: "nat \<Rightarrow> appInt16 \<Rightarrow> (appInt16 \<Rightarrow> sbuff) \<Rightarrow> Packet list \<times> (appInt16 \<Rightarrow> sbuff)" where
  "collect_undelivered 0 i b = ([], b)"
| "collect_undelivered (Suc n) i b =
     (case sb_pkt (b i) of
        None \<Rightarrow> collect_undelivered n (i + 1) b
      | Some pkt \<Rightarrow>
          (let (pkts, b') = collect_undelivered n (i + 1) (b(i := sbuff_reset)) in
           (if has_flag (h_flag (p_header pkt)) FLAG_CSN then pkts else pkt # pkts, b')))"

definition getUndeliveredPackets :: "new_channel \<Rightarrow> (Packet list \<times> new_channel) res" where
  "getUndeliveredPackets c =
     (let s = senderBuffer c;
          (pkts, b) = collect_undelivered (unat (maxPacket s - lastAcked s)) (lastAcked s + 1) (cells s) in
      Inr (pkts, c\<lparr> senderBuffer := s\<lparr> timerList := [], cells := b \<rparr> \<rparr>))"

text \<open>
  \<open>sendSeq\<close> (re)sends the packet of a cell and starts its timer; when the cell
  is empty it returns \<open>-42\<close> with \<open>sendSeqLock\<close> still held.
\<close>

definition sendSeq :: "env \<Rightarrow> appInt16 \<Rightarrow> new_channel \<Rightarrow> (int \<times> new_channel) res" where
  "sendSeq env seq c =
     (if sendSeqLocked c then Inl Blocked
      else case sb_pkt (cells (senderBuffer c) seq) of
        None \<Rightarrow> Inr (- 42, c\<lparr> sendSeqLocked := True \<rparr>)
      | Some pkt \<Rightarrow>
          app_assert (seq = h_seqNo (p_header pkt))
            (let pkt1 = pkt\<lparr> p_header := (p_header pkt)\<lparr> h_sentTS := of_int (e_now env) \<rparr> \<rparr>;
                 c1 = upd_sb (\<lambda>s. s\<lparr> cells := (cells s)(seq := (cells s seq)
                        \<lparr> sb_pkt := Some (mark_ifc c pkt1), sb_pktSent := True \<rparr>) \<rparr>) c in
             bind_res (ch_send getUndeliveredPackets env pkt1 c1) (\<lambda>(ret, c2).
             bind_res (res_sb (startTimer seq (e_now env) (of_int (rto c))) c2) (\<lambda>c3.
             Inr (ret, c3)))))"

text \<open>\<open>sendNext\<close>: the first argument is the number of packets queued and not sent.\<close>

fun send_loop :: "env \<Rightarrow> nat \<Rightarrow> appInt16 \<Rightarrow> appInt16 \<Rightarrow> new_channel \<Rightarrow> (appInt16 \<times> new_channel) res" where
  "send_loop env 0 sntCnt cnt c = Inr (sntCnt, c)"
| "send_loop env (Suc unsent) sntCnt cnt c =
     (if cansend c \<and> sntCnt < cnt then
        bind_res (sendSeq env (maxSent (senderBuffer c) + 1) c) (\<lambda>(_, c').
        send_loop env unsent (sntCnt + 1) cnt
          (upd_sb (\<lambda>s. s\<lparr> maxSent := maxSent s + 1, totalSent := totalSent s + 1 \<rparr>) c'))
      else Inr (sntCnt, c))"

definition sendNext :: "env \<Rightarrow> appInt16 \<Rightarrow> new_channel \<Rightarrow> (appInt16 \<times> new_channel) res" where
  "sendNext env cnt c =
     (let unsent = maxPacket (senderBuffer c) - maxSent (senderBuffer c) in
      send_loop env (unat unsent) 0 cnt c)"

definition sendNew :: "env \<Rightarrow> appInt16 \<Rightarrow> new_channel \<Rightarrow> (appInt16 \<times> new_channel) res" where
  "sendNew env cnt c = sendNext env cnt c"

definition sendPacket :: "env \<Rightarrow> Packet \<Rightarrow> new_channel \<Rightarrow> (int \<times> new_channel) res" where
  "sendPacket env pkt c =
     (if closed c then Inr (- 9, c)
      else if deadChannel c then Inr (- 6, c)
      else if \<not> started c \<and> h_flag (p_header pkt) OR FLAG_CSN = 0 then Inr (- 3, c)
      else if lastAcked (senderBuffer c) = maxPacket (senderBuffer c) then
        (let pkt1 = pkt\<lparr> p_header := (p_header pkt)\<lparr> h_flag := h_flag (p_header pkt) OR FLAG_CHS \<rparr> \<rparr>;
             c1 = upd_sb (\<lambda>s. s\<lparr> sb_started := True \<rparr>) c in
         bind_res (res_sb (addBuffer pkt1) c1) (\<lambda>c2.
         bind_res (sendNew env 1 c2) (\<lambda>(_, c3). Inr (0, c3))))
      else
        (let x = maxPacket (senderBuffer c) - lastAcked (senderBuffer c) in
         if unat x \<ge> 65536 div 2 then Inr (- 1, c)
         else bind_res (res_sb (addBuffer pkt) c) (\<lambda>c2.
              bind_res (sendNew env 1 c2) (\<lambda>(_, c3). Inr (0, c3)))))"

definition spaceInCwnd :: "'a chan_scheme \<Rightarrow> bool" where
  "spaceInCwnd c =
     (if deadChannel c \<or> closed c \<or> \<not> started c then False
      else let pktcnt = maxPacket (senderBuffer c) - lastAcked (senderBuffer c) in pktcnt < cwnd16 c)"

definition getRTT :: "'a chan_scheme \<Rightarrow> int" where
  "getRTT c = srtt c"

section \<open>Start, shutdown\<close>

text \<open>\<open>startUp\<close> starts the thread, which first sends the channel's opening packet.\<close>

definition sendCSNPacket :: "env \<Rightarrow> new_channel \<Rightarrow> new_channel res" where
  "sendCSNPacket env c =
     (let pkt = new_Packet\<lparr> p_header := reinit_header\<lparr> h_flag := FLAG_DAT OR FLAG_CHS,
                             h_fingerPrint := e_fingerPrint env \<rparr> \<rparr> in
      bind_res (sendPacket env pkt c) (\<lambda>(_, c'). Inr c'))"

definition initShutdown :: "env \<Rightarrow> new_channel \<Rightarrow> new_channel res" where
  "initShutdown env c =
     (if shutDownSent c then Inr c
      else let pkt = new_Packet\<lparr> p_data := Some [], p_capa := of_nat MAX_PACKET_DATA_SIZE,
                 p_header := reinit_header\<lparr> h_fingerPrint := e_fingerPrint env, h_flag := FLAG_DAT OR FLAG_CHF \<rparr> \<rparr> in
        bind_res (sendPacket env pkt c) (\<lambda>(_, c').
        Inr (c'\<lparr> shutDownSent := True, shutDownLock := shutDownLock c' + 1, closed := True \<rparr>)))"

definition shutDown_complete :: "new_channel \<Rightarrow> bool" where
  "shutDown_complete c \<longleftrightarrow> shutDownRecv c \<and> shutDownSent c \<and> shutDownSentRecv c"

text \<open>The waiting loop of \<open>shutDown\<close>: the semaphore is consumed until the handshake is complete.\<close>

fun wait_shutDown :: "nat \<Rightarrow> new_channel \<Rightarrow> new_channel res" where
  "wait_shutDown n c =
     (if shutDown_complete c then Inr (c\<lparr> shutDownLock := n \<rparr>)
      else case n of 0 \<Rightarrow> Inl Blocked | Suc m \<Rightarrow> wait_shutDown m c)"

definition shutDown :: "env \<Rightarrow> new_channel \<Rightarrow> new_channel res" where
  "shutDown env c = bind_res (initShutdown env c) (\<lambda>c'. wait_shutDown (shutDownLock c') c')"

definition markDeadChannel :: "new_channel \<Rightarrow> new_channel" where
  "markDeadChannel c = c\<lparr> deadChannel := True, chStopThread := True, waitForPacket := waitForPacket c + 1 \<rparr>"

section \<open>Receiving\<close>

definition sendAck :: "env \<Rightarrow> Packet \<Rightarrow> appInt16 \<Rightarrow> new_channel \<Rightarrow> new_channel res" where
  "sendAck env origPkt ackno c =
     (let oh = p_header origPkt;
          hdr = reinit_header\<lparr> h_ackNo := ackno, h_flag := FLAG_ACK, h_flowId := h_flowId oh,
            h_fingerPrint := h_fingerPrint oh, h_window := 32768, h_sentTS := h_sentTS oh,
            h_origAckNo := h_seqNo oh \<rparr>;
          n = outgoingAckCount c + 1;
          c1 = (if n > SEND_CONTROL_AFTER
                then c\<lparr> outgoingAckCount := 0, ackHeaderLL := e_status env \<rparr>
                else c\<lparr> outgoingAckCount := n \<rparr>);
          (pkt, c2) = (case ackHeaderLL c1 of
              None \<Rightarrow> (new_Packet\<lparr> p_header := hdr \<rparr>, c1)
            | Some h \<Rightarrow> (new_Packet\<lparr> p_header := hdr\<lparr> h_flag := h_flag hdr OR FLAG_CTR \<rparr>, p_optHeaders := [h] \<rparr>,
                         c1\<lparr> ackHeaderLL := None \<rparr>)) in
      bind_res (ch_send getUndeliveredPackets env pkt c2) (\<lambda>(_, c3).
      Inr (c3\<lparr> ackedSentUpto := ackno \<rparr>)))"

definition pktRecv :: "env \<Rightarrow> Packet \<Rightarrow> new_channel \<Rightarrow> (int \<times> Packet \<times> new_channel) res" where
  "pktRecv env pkt c =
     (let flag = h_flag (p_header pkt); seq = h_seqNo (p_header pkt) in
      if \<not> recvStarted (recieverBuff c) \<and> \<not> has_flag flag FLAG_CHS then Inr (- 1, pkt, c)
      else
        (let c1 = (if has_flag flag FLAG_CHS
                   then c\<lparr> recieverBuff := (recieverBuff c)\<lparr> recvStarted := True \<rparr>, started := True \<rparr> else c);
             rb = recieverBuff c1;
             normalizedSeqNo = seq - expectedSeq rb;
             normalizedMaxRecv = maxRecvd rb - expectedSeq rb;
             c2 = c1\<lparr> lastRecvPkt := cloneWithoutData (lastRecvPkt c1) pkt \<rparr> in
         bind_res
           (if has_flag flag FLAG_CHF
            then bind_res (if \<not> shutDownSent c2 then initShutdown env (c2\<lparr> shutDownRecv := True \<rparr>)
                           else Inr (c2\<lparr> shutDownRecv := True \<rparr>))
                   (\<lambda>c'. Inr (c'\<lparr> shutDownLock := shutDownLock c' + 1 \<rparr>))
            else Inr c2) (\<lambda>c3.
         if unat normalizedSeqNo < 65536 div 2 then
           bind_res (accept_seq seq (recieverBuff c3)) (\<lambda>(isnew, rb').
           (let pkt' = (if isnew then pkt\<lparr> p_accepted := True \<rparr> else pkt) in
            bind_res (sendAck env pkt' (expectedSeq rb' - 1) (c3\<lparr> recieverBuff := rb' \<rparr>)) (\<lambda>c4.
            Inr (0, pkt', if normalizedSeqNo > normalizedMaxRecv
                          then c4\<lparr> recieverBuff := (recieverBuff c4)\<lparr> maxRecvd := seq \<rparr> \<rparr> else c4))))
         else if normalizedSeqNo > 49152 then
           bind_res (sendAck env pkt (expectedSeq rb - 1) c3) (\<lambda>c4. Inr (0, pkt, c4))
         else Inr (0, pkt, c3))))"

text \<open>\<open>pktRecv()\<close> empties the data queue and hands every packet to the parent.\<close>

fun pktRecv_list :: "env \<Rightarrow> Packet list \<Rightarrow> new_channel \<Rightarrow> new_channel res" where
  "pktRecv_list env [] c = Inr c"
| "pktRecv_list env (pkt # pkts) c =
     bind_res (pktRecv env pkt c) (\<lambda>(_, pkt', c').
     pktRecv_list env pkts (emit (Ev_ProcPacket (pkt'\<lparr> p_processed := True \<rparr>)) c'))"

definition pktRecv_queue :: "env \<Rightarrow> new_channel \<Rightarrow> new_channel res" where
  "pktRecv_queue env c = pktRecv_list env (dataRecvQueue c) (c\<lparr> dataRecvQueue := [] \<rparr>)"

text \<open>
  \<open>recv\<close> copies a packet into the queues; the data array is handed over and
  replaced by a fresh one, whose contents are the argument \<open>junk\<close>.
\<close>

definition recv :: "env \<Rightarrow> appByte list \<Rightarrow> Packet \<Rightarrow> new_channel \<Rightarrow> int \<times> Packet \<times> new_channel" where
  "recv env junk pkt c =
     (let fresh = fst (getNewPacketWithData junk new_PacketPool);
          flag = h_flag (p_header pkt);
          (pkt1, c1) =
            (if has_flag flag FLAG_ACK then
               (let pkt1 = pkt\<lparr> p_recvTS := of_int (e_now env) \<rparr>; o1 = h_origAckNo (p_header pkt);
                    c1 = c\<lparr> ackRecvQueue := ackRecvQueue c @ [cloneWithoutData fresh pkt1] \<rparr>;
                    c2 = (if sb_pktSent (cells (senderBuffer c1) o1)
                          then upd_sb (\<lambda>s. s\<lparr> cells := (cells s)(o1 := (cells s o1)\<lparr> sb_ackRcvd := True \<rparr>) \<rparr>) c1
                          else c1) in
                (pkt1, c2\<lparr> waitForPacket := waitForPacket c2 + 1 \<rparr>))
             else (pkt, c));
          (pkt2, c2) =
            (if has_flag flag FLAG_DAT then
               (pkt1\<lparr> p_data := p_data fresh, p_len := 0 \<rparr>,
                c1\<lparr> dataRecvQueue := dataRecvQueue c1 @ [(cloneWithoutData fresh pkt1)\<lparr> p_data := p_data pkt1 \<rparr>],
                     waitForPacket := waitForPacket c1 + 1 \<rparr>)
             else (pkt1, c1)) in
      (0, pkt2\<lparr> p_processed := False, p_accepted := False \<rparr>, c2))"

section \<open>Acknowledgements\<close>

definition updateCwnd_new :: "cwnd_update_type \<Rightarrow> new_channel \<Rightarrow> new_channel" where
  "updateCwnd_new type c =
     (let startedWith = (of_int (trunc (cwnd c + 1 / 2)) :: appInt);
          c' = updateCwnd type c;
          endedWith = (of_int (trunc (cwnd c' + 1 / 2)) :: appInt) in
      if endedWith > startedWith then emit (Ev_ReadyToSend (ch_id c) (endedWith - startedWith)) c' else c')"

definition updateRtt :: "env \<Rightarrow> Packet \<Rightarrow> new_channel \<Rightarrow> new_channel res" where
  "updateRtt env pkt c =
     (let sentTime = sint (h_sentTS (p_header pkt)) in
      if sentTime = 0 then Inr c
      else let r = (if p_recvTS pkt \<noteq> 0 then sint (p_recvTS pkt) - sentTime else e_now env - sentTime);
               c' = rtt_step r c in
           app_assert (rto c' < 15 * TIMER_SECOND_IN_US) (Inr c'))"

text \<open>Stop the timer of a cell, acknowledge and free its packet and reset the cell.\<close>

definition release_cell :: "appInt16 \<Rightarrow> Packet \<Rightarrow> new_channel \<Rightarrow> new_channel res" where
  "release_cell i pkt c =
     bind_res (res_sb (stopTimer i) c) (\<lambda>c1. Inr (upd_sb (reset_cell i) (ch_freePacket pkt c1)))"

text \<open>The packet \<open>origAckNo\<close> this acknowledgement was sent for, when it lies ahead.\<close>

definition release_orig :: "Packet \<Rightarrow> new_channel \<Rightarrow> new_channel res" where
  "release_orig pkt c =
     (let o1 = h_origAckNo (p_header pkt) in
      case sb_pkt (cells (senderBuffer c) o1) of
        None \<Rightarrow> Inr c
      | Some p \<Rightarrow> if h_ackNo (p_header pkt) \<noteq> o1 then release_cell o1 p c else Inr c)"

text \<open>The loop over the newly acknowledged cells, from \<open>i\<close> on.\<close>

fun release_acked :: "nat \<Rightarrow> appInt16 \<Rightarrow> new_channel \<Rightarrow> new_channel res" where
  "release_acked 0 i c = Inr c"
| "release_acked (Suc n) i c =
     (case sb_pkt (cells (senderBuffer c) i) of
        None \<Rightarrow> release_acked n (i + 1) c
      | Some p \<Rightarrow>
          bind_res (res_sb (stopTimer i) c) (\<lambda>c1.
          let c2 = (if shutDownSent c1 \<and> has_flag (h_flag (p_header p)) FLAG_CHF
                    then c1\<lparr> shutDownSentRecv := True, shutDownLock := shutDownLock c1 + 1 \<rparr> else c1) in
          release_acked n (i + 1) (upd_sb (reset_cell i) (ch_freePacket p c2))))"

fun restart_range :: "nat \<Rightarrow> appInt16 \<Rightarrow> int \<Rightarrow> new_channel \<Rightarrow> new_channel res" where
  "restart_range 0 i t c = Inr c"
| "restart_range (Suc n) i t c =
     (if sb_pkt (cells (senderBuffer c) i) = None then restart_range n (i + 1) t c
      else bind_res (res_sb (restartTimer i t) c) (restart_range n (i + 1) t))"

text \<open>The first steps of a new or partial acknowledgement of \<open>n\<close> packets.\<close>

definition advance_acked :: "env \<Rightarrow> Packet \<Rightarrow> appInt16 \<Rightarrow> new_channel \<Rightarrow> new_channel res" where
  "advance_acked env pkt n c =
     (let acked = lastAcked (senderBuffer c) + 1;
          c1 = upd_sb (\<lambda>s. s\<lparr> lastAcked := h_ackNo (p_header pkt) \<rparr>) c in
      bind_res (updateRtt env pkt c1) (\<lambda>c2.
      release_acked (unat n) acked (c2\<lparr> duplicateCount := 0 \<rparr>)))"

definition grow_window :: "new_channel \<Rightarrow> new_channel" where
  "grow_window c =
     (if cwnd c \<le> of_int (uint (ssthresh c))
      then (updateCwnd_new MULTIPLICATIVE_INCREASE c)\<lparr> ch_status := SLOW_START \<rparr>
      else (updateCwnd_new ADDITIVE_INCREASE c)\<lparr> ch_status := CONG_AVOIDANCE \<rparr>)"

definition ack_new :: "env \<Rightarrow> Packet \<Rightarrow> appInt16 \<Rightarrow> new_channel \<Rightarrow> new_channel res" where
  "ack_new env pkt n c =
     bind_res (advance_acked env pkt n c) (\<lambda>c1.
     drop_count (sendNew env (push_bit 1 n) (grow_window c1)))"

definition ack_partial :: "env \<Rightarrow> Packet \<Rightarrow> appInt16 \<Rightarrow> new_channel \<Rightarrow> new_channel res" where
  "ack_partial env pkt n c =
     bind_res (advance_acked env pkt n c) (\<lambda>c1.
     let r = recover c1 - n; acked = lastAcked (senderBuffer c1) + 1 in
     bind_res (restart_range (unat r) acked (e_now env) (c1\<lparr> recover := r \<rparr>)) (\<lambda>c2.
     if ch_status c2 = FAST_RECOVERY then
       bind_res (res_sb (stopTimer acked) (c2\<lparr> ch_status := MULTI_RECOVERY, multiRecoverIndex := acked + 1 \<rparr>)) (\<lambda>c3.
       bind_res (sendSeq env acked c3) (\<lambda>(_, c4).
       Inr (upd_sb count_dup (c4\<lparr> duplicateCount := 3 \<rparr>))))
     else
       bind_res (drop_count (sendNew env 1 c2)) (\<lambda>c3.
       Inr (updateCwnd_new (SET_TO (fl32 (fl32 (cwnd c3 - of_int (uint n)) + 1))) c3))))"

definition ack_duplicate :: "env \<Rightarrow> new_channel \<Rightarrow> new_channel res" where
  "ack_duplicate env c0 =
     (let c = c0\<lparr> duplicateCount := duplicateCount c0 + 1 \<rparr>; s = senderBuffer c in
      if ch_status c = MULTI_RECOVERY then
        bind_res (search_unacked 65536 s (multiRecoverIndex c) (recoverIndex c)) (\<lambda>i.
        let c1 = c\<lparr> multiRecoverIndex := i \<rparr> in
        if i \<le> recoverIndex c1 \<and> sb_pkt (cells s i) = None then
          bind_res (res_sb (stopTimer i) c1) (\<lambda>c2.
          bind_res (sendSeq env i c2) (\<lambda>(_, c3).
          Inr (upd_sb count_dup (c3\<lparr> multiRecoverIndex := i + 1 \<rparr>))))
        else drop_count (sendNew env 1 (updateCwnd_new MULTIPLICATIVE_INCREASE c1)))
      else if duplicateCount c = 3 then
        (let nextPktSeq = lastAcked s + 1 in
         bind_res (res_sb (stopTimer nextPktSeq) c) (\<lambda>c1.
         bind_res (sendSeq env nextPktSeq c1) (\<lambda>(_, c2).
         let s2 = senderBuffer c2; flightSize = maxSent s2 - lastAcked s2;
             c3 = (if ch_status c2 \<noteq> FAST_RECOVERY then
                     (let t = of_int (APP_MAX (uint flightSize div 2) 2);
                          c' = updateCwnd_new (SET_TO (of_int (uint t) + 3))
                                 (c2\<lparr> recover := flightSize, recoverIndex := maxSent s2, ssthresh := t \<rparr>) in
                      if ch_status c' = CONG_AVOIDANCE \<or> ch_status c' = SLOW_START
                      then c'\<lparr> ch_status := FAST_RECOVERY \<rparr> else c')
                   else c2) in
         Inr (upd_sb count_dup c3))))
      else drop_count (sendNew env 1
             (if ch_status c = FAST_RECOVERY then updateCwnd_new MULTIPLICATIVE_INCREASE c else c)))"

definition ackRecv :: "env \<Rightarrow> Packet \<Rightarrow> new_channel \<Rightarrow> (int \<times> new_channel) res" where
  "ackRecv env pkt c0 =
     (let c = (if h_window (p_header pkt) \<noteq> 0 then c0\<lparr> senderWindow := h_window (p_header pkt) \<rparr> else c0);
          n = h_ackNo (p_header pkt) - lastAcked (senderBuffer c) in
      if \<not> sb_started (senderBuffer c) then Inr (0, c)
      else let k = ack_kind c n; c1 = note_kind k c in
        if k = Ack_Outside then Inr (- 1, c1)
        else
          bind_res (release_orig pkt c1) (\<lambda>c2.
          let c3 = upd_sb (\<lambda>s. s\<lparr> totalSuccessfullySent := totalSuccessfullySent s + ucast n \<rparr>) c2 in
          bind_res (case k of
              Ack_New \<Rightarrow> ack_new env pkt n c3
            | Ack_Partial \<Rightarrow> ack_partial env pkt n c3
            | Ack_Duplicate \<Rightarrow> ack_duplicate env c3
            | _ \<Rightarrow> Inr c3) (\<lambda>c4. Inr (0, c4))))"

text \<open>
  \<open>ackRecv()\<close> empties the acknowledgement queue: it first finds the largest
  acknowledgement number (relative to \<open>lastAcked\<close>), then processes the packets
  that carry it or that acknowledge a packet beyond it, and drops the others.
\<close>

fun max_ack :: "appInt16 \<Rightarrow> Packet list \<Rightarrow> appInt16 \<times> appInt16 \<Rightarrow> appInt16 \<times> appInt16" where
  "max_ack la [] m = m"
| "max_ack la (pkt # pkts) (maxAck, nmax) =
     (let n = h_ackNo (p_header pkt) - la in
      max_ack la pkts (if n > nmax then (h_ackNo (p_header pkt), n) else (maxAck, nmax)))"

fun ackRecv_list :: "env \<Rightarrow> appInt16 \<Rightarrow> appInt16 \<Rightarrow> Packet list \<Rightarrow> new_channel \<Rightarrow> new_channel res" where
  "ackRecv_list env maxAck nmax [] c = Inr c"
| "ackRecv_list env maxAck nmax (pkt # pkts) c =
     (let o1 = h_origAckNo (p_header pkt) - lastAcked (senderBuffer c) in
      if h_ackNo (p_header pkt) = maxAck \<or> o1 > nmax
      then bind_res (ackRecv env pkt c) (\<lambda>(_, c'). ackRecv_list env maxAck nmax pkts c')
      else ackRecv_list env maxAck nmax pkts c)"

definition ackRecv_queue :: "env \<Rightarrow> new_channel \<Rightarrow> new_channel res" where
  "ackRecv_queue env c =
     (let la = lastAcked (senderBuffer c);
          (maxAck, nmax) = max_ack la (ackRecvQueue c) (la, 0) in
      bind_res (ackRecv_list env maxAck nmax (ackRecvQueue c) (c\<lparr> ackRecvQueue := [] \<rparr>)) (\<lambda>c1.
      let c2 = (if shutDownSentRecv c1 then c1\<lparr> shutDownLock := shutDownLock c1 + 1 \<rparr> else c1) in
      Inr (emit (Ev_ReadyToSend (ch_id c2) (ucast (lastAcked (senderBuffer c2) - la))) c2)))"

section \<open>Timeouts\<close>

text \<open>
  One visit of the loop of \<open>timeoutEvent\<close> to the first timer: the result says
  whether the loop goes on and whether a packet was retransmitted.
\<close>

definition timeout_dead :: "new_channel \<Rightarrow> new_channel res" where
  "timeout_dead c =
     bind_res (notifyDead getUndeliveredPackets (c\<lparr> deadChannel := True, chStopThread := True \<rparr>)) (\<lambda>c'.
     Inr (c'\<lparr> waitForPacket := waitForPacket c' + 1 \<rparr>))"

definition timeout_resend :: "env \<Rightarrow> appInt16 \<Rightarrow> new_channel \<Rightarrow> new_channel res" where
  "timeout_resend env seq c =
     bind_res (res_sb (stopTimer seq) c) (\<lambda>c1.
     bind_res (sendSeq env seq c1) (\<lambda>(_, c2).
     Inr (upd_sb (\<lambda>s. s\<lparr> cells := (cells s)(seq := (cells s seq)\<lparr> sb_retryCnt := sb_retryCnt (cells s seq) + 1 \<rparr>),
        totalRetransmitions := totalRetransmitions s + 1, totalTimeouts := totalTimeouts s + 1 \<rparr>) c2)))"

definition timeout_visit :: "env \<Rightarrow> int \<Rightarrow> appInt16 \<Rightarrow> new_channel \<Rightarrow> (bool \<times> bool \<times> new_channel) res" where
  "timeout_visit env now i c =
     (let s = senderBuffer c in
      case sb_pkt (cells s i) of
        None \<Rightarrow> Inl Null_Deref
      | Some p \<Rightarrow>
          let seq = h_seqNo (p_header p); b = cells s seq in
          if sb_time (cells s i) \<noteq> 0 \<and> effTimer (cells s i) \<le> now then
            if sb_ackRcvd b then
              bind_res (res_sb (restartTimer seq now) c) (\<lambda>c'. Inr (True, False, c'))
            else case sb_pkt b of
              None \<Rightarrow> Inl Null_Deref
            | Some q \<Rightarrow>
                let c1 = (if sb_retryCnt b > 2 \<and> has_flag (h_flag (p_header q)) FLAG_CHF
                          then c\<lparr> shutDownSentRecv := True, shutDownLock := shutDownLock c + 1 \<rparr> else c) in
                if seq = 0 \<and> sb_retryCnt b > 2
                then bind_res (timeout_dead c1) (\<lambda>c'. Inr (False, False, c'))
                else bind_res (timeout_resend env seq c1) (\<lambda>c'. Inr (True, True, c'))
          else Inr (False, False, c))"

fun timeout_loop :: "nat \<Rightarrow> env \<Rightarrow> int \<Rightarrow> bool \<Rightarrow> new_channel \<Rightarrow> (bool \<times> new_channel) res" where
  "timeout_loop 0 env now occ c = Inl Diverges"
| "timeout_loop (Suc n) env now occ c =
     (case timerList (senderBuffer c) of
        [] \<Rightarrow> Inr (occ, c)
      | i # _ \<Rightarrow>
          bind_res (timeout_visit env now i c) (\<lambda>(again, sent, c').
            if again then timeout_loop n env now (occ \<or> sent) c' else Inr (occ \<or> sent, c')))"

text \<open>\<open>now\<close> is the time of the event; the clock \<open>e_now\<close> is read later.\<close>

definition timeoutEvent :: "nat \<Rightarrow> env \<Rightarrow> int \<Rightarrow> new_channel \<Rightarrow> (int \<times> new_channel) res" where
  "timeoutEvent fuel env now c =
     (if shutDown_complete c \<or> deadChannel c then Inr (0, c)
      else bind_res (timeout_loop fuel env now False c) (\<lambda>(occ, c').
        if occ then
          let t = (of_int (trunc (cwnd c' / 2)) :: appInt16) in
          Inr (0, updateCwnd_new SET_TO_ONE (c'\<lparr> ssthresh := (if t < 2 then 2 else t) \<rparr>))
        else Inr (0, c')))"

section \<open>The thread\<close>

text \<open>One round of the loop of \<open>run\<close>: the result says whether the thread goes on.\<close>

definition run_round :: "env \<Rightarrow> new_channel \<Rightarrow> (bool \<times> new_channel) res" where
  "run_round env c =
     (if waitForPacket c = 0 then Inl Blocked
      else let c1 = c\<lparr> waitForPacket := waitForPacket c - 1 \<rparr> in
        if ackRecvQueue c1 = [] \<and> dataRecvQueue c1 = [] \<and> \<not> chStopThread c1 then Inr (True, c1)
        else if chStopThread c1 then Inr (False, c1\<lparr> waitToDie := waitToDie c1 + 1 \<rparr>)
        else
          bind_res (if dataRecvQueue c1 \<noteq> [] then pktRecv_queue env c1 else Inr c1) (\<lambda>c2.
          bind_res (if ackRecvQueue c2 \<noteq> [] then ackRecv_queue env c2 else Inr c2) (\<lambda>c3.
          Inr (True, c3))))"

end
