(* ===== verification/NewChannelSend.thy ===== *)
theory NewChannelSend
  imports NewChannel
begin

text \<open>
  Correctness of the sending side of \<open>NewChannelHandler\<close>: the invariant of a
  live channel and its preservation by \<open>sendPacket\<close>, \<open>sendNext\<close> and the
  timeout loop, the window, the order in which packets leave, and the
  termination of the timeout loop.  The network is up when the interface does
  not report \<open>ERROR_NETWORK_CLOSED\<close>; the clock counts microseconds of the epoch
  and is positive.
\<close>

definition net_up :: "env \<Rightarrow> bool" where
  "net_up env \<longleftrightarrow> (\<forall>p. e_net env p \<noteq> - ERROR_NETWORK_CLOSED) \<and> 0 < e_now env"

definition chan_inv :: "new_channel \<Rightarrow> bool" where
  "chan_inv c \<longleftrightarrow> sb_inv (senderBuffer c) \<and> cwnd_ok c \<and> rtt_ok c \<and>
     rto c < 15 * TIMER_SECOND_IN_US \<and> \<not> sendSeqLocked c"

text \<open>The state changes only in the send buffer, the output and the shutdown signals.\<close>

definition frame :: "new_channel \<Rightarrow> new_channel \<Rightarrow> bool" where
  "frame c c' \<longleftrightarrow> c' = c\<lparr> senderBuffer := senderBuffer c', ch_out := ch_out c',
     shutDownSentRecv := shutDownSentRecv c', shutDownLock := shutDownLock c' \<rparr>"

lemma frame_refl [simp]: "frame c c"
  by (simp add: frame_def)

lemma frame_trans: "frame c d \<Longrightarrow> frame d e \<Longrightarrow> frame c e"
  unfolding frame_def by (erule ssubst)+ simp

lemma frameD:
  assumes "frame c c'"
  shows "cwnd c' = cwnd c" "senderWindow c' = senderWindow c" "rto c' = rto c" "srtt c' = srtt c"
    "rttvar c' = rttvar c" "sendSeqLocked c' = sendSeqLocked c" "ch_id c' = ch_id c"
    "ch_ifcSrc c' = ch_ifcSrc c" "ch_ifcDst c' = ch_ifcDst c" "ch_registered c' = ch_registered c"
    "recieverBuff c' = recieverBuff c" "ch_status c' = ch_status c" "recover c' = recover c"
    "duplicateCount c' = duplicateCount c" "ssthresh c' = ssthresh c" "closed c' = closed c"
    "deadChannel c' = deadChannel c" "started c' = started c" "shutDownSent c' = shutDownSent c"
    "recoverIndex c' = recoverIndex c" "multiRecoverIndex c' = multiRecoverIndex c"
  by (subst assms [unfolded frame_def], simp)+

lemma frame_upd_sb [simp]: "frame c (upd_sb f c)"
  by (simp add: frame_def upd_sb_def)

lemma upd_sb_simps [simp]:
  "senderBuffer (upd_sb f c) = f (senderBuffer c)" "ch_out (upd_sb f c) = ch_out c"
  by (simp_all add: upd_sb_def)

lemma frame_cwnd_ok: "frame c c' \<Longrightarrow> cwnd_ok c' = cwnd_ok c"
  by (simp add: cwnd_ok_def frameD)

lemma frame_inv: "frame c c' \<Longrightarrow> chan_inv c \<Longrightarrow> sb_inv (senderBuffer c') \<Longrightarrow> chan_inv c'"
  by (simp add: chan_inv_def cwnd_ok_def rtt_ok_def frameD)

section \<open>Sending one packet\<close>

definition stamped :: "env \<Rightarrow> new_channel \<Rightarrow> Packet \<Rightarrow> Packet" where
  "stamped env c p = mark_ifc c (p\<lparr> p_header := (p_header p)\<lparr> h_sentTS := of_int (e_now env) \<rparr> \<rparr>)"

lemma stamped_seq [simp]: "h_seqNo (p_header (stamped env c p)) = h_seqNo (p_header p)"
  by (simp add: stamped_def mark_ifc_def)

lemma mark_mark [simp]: "mark_ifc c (stamped env c p) = stamped env c p"
  by (simp add: stamped_def mark_ifc_def)

lemma stamped_senderBuffer [simp]: "stamped env (c\<lparr> senderBuffer := x \<rparr>) p = stamped env c p"
  by (simp add: stamped_def mark_ifc_def)

definition sent_cell :: "env \<Rightarrow> new_channel \<Rightarrow> sbuff \<Rightarrow> Packet \<Rightarrow> sbuff" where
  "sent_cell env c b p = b\<lparr> sb_pkt := Some (stamped env c p), sb_pktSent := True,
     sb_time := e_now env, sb_rto := of_int (rto c) \<rparr>"

lemma sent_cell_simps [simp]:
  "sb_pkt (sent_cell env c b p) = Some (stamped env c p)" "sb_time (sent_cell env c b p) = e_now env"
  "sb_rto (sent_cell env c b p) = of_int (rto c)" "sb_retryCnt (sent_cell env c b p) = sb_retryCnt b"
  "sb_ackRcvd (sent_cell env c b p) = sb_ackRcvd b"
  by (simp_all add: sent_cell_def)

lemma sendSeq_ok:
  assumes "\<not> sendSeqLocked c" "timers_ok (senderBuffer c)" "net_up env"
    and p: "sb_pkt (cells (senderBuffer c) i) = Some p" "h_seqNo (p_header p) = i"
    and i: "i \<notin> set (timerList (senderBuffer c))"
  obtains ret c' where "sendSeq env i c = Inr (ret, c')" "frame c c'"
    "same_marks (senderBuffer c) (senderBuffer c')" "timers_ok (senderBuffer c')"
    "set (timerList (senderBuffer c')) = insert i (set (timerList (senderBuffer c)))"
    "cells (senderBuffer c') = (cells (senderBuffer c))(i := sent_cell env c (cells (senderBuffer c) i) p)"
    "ch_out c' = ch_out c @ [Ev_Send (stamped env c p)]"
    "sb_started (senderBuffer c') = sb_started (senderBuffer c)"
proof -
  let ?s = "senderBuffer c" and ?q = "stamped env c p"
  let ?s1 = "?s\<lparr> cells := (cells ?s)(i := (cells ?s i)\<lparr> sb_pkt := Some ?q, sb_pktSent := True \<rparr>) \<rparr>"
  have t1: "timers_ok ?s1"
    using assms(2) i sorted_upd [of "cells ?s" "timerList ?s" i] by (auto simp: timers_ok_def)
  obtain s' where s': "startTimer i (e_now env) (of_int (rto c)) ?s1 = Inr s'" "timers_ok s'"
      "set (timerList s') = insert i (set (timerList ?s1))"
      "cells s' = (cells ?s1)(i := (cells ?s1 i)\<lparr> sb_time := e_now env, sb_rto := of_int (rto c) \<rparr>)"
      "s' = ?s1\<lparr> cells := cells s', timerList := timerList s' \<rparr>"
    using startTimer_ok [OF t1, of i ?q] p i by auto
  have marks: "same_marks ?s s'" "sb_started s' = sb_started ?s"
    by (subst s'(5), simp add: same_marks_def)+
  have net: "e_net env ?q \<noteq> - ERROR_NETWORK_CLOSED"
    using assms(3) by (simp add: net_up_def)
  let ?c' = "c\<lparr> senderBuffer := s', ch_out := ch_out c @ [Ev_Send ?q] \<rparr>"
  have mark1: "mark_ifc (upd_sb f c) x = mark_ifc c x" for f x
    by (simp add: mark_ifc_def upd_sb_def)
  have send: "sendSeq env i c = Inr (e_net env ?q, ?c')"
    using assms(1) p net s'(1)
    by (simp add: sendSeq_def ch_send_def Let_def mark1 stamped_def [symmetric])
      (simp add: res_sb_def upd_sb_def emit_def)
  show thesis
    by (rule that [OF send]) (use s' marks in \<open>simp_all add: frame_def sent_cell_def\<close>)
qed

text \<open>The loop body of \<open>sendNext\<close>: send the packet after \<open>maxSent\<close> and advance.\<close>

definition bump_sent :: "SendingBuffer \<Rightarrow> SendingBuffer" where
  "bump_sent s = s\<lparr> maxSent := maxSent s + 1, totalSent := totalSent s + 1 \<rparr>"

lemma bump_sent_simps [simp]:
  "lastAcked (bump_sent s) = lastAcked s" "maxPacket (bump_sent s) = maxPacket s"
  "maxSent (bump_sent s) = maxSent s + 1" "cells (bump_sent s) = cells s"
  "timerList (bump_sent s) = timerList s" "sb_started (bump_sent s) = sb_started s"
  by (simp_all add: bump_sent_def)

definition queued :: "SendingBuffer \<Rightarrow> appInt16 \<Rightarrow> Packet" where
  "queued s i = the (sb_pkt (cells s i))"

lemma send_one:
  assumes inv: "chan_inv c" and up: "net_up env"
    and more: "off (senderBuffer c) (maxSent (senderBuffer c)) < off (senderBuffer c) (maxPacket (senderBuffer c))"
  defines "i \<equiv> maxSent (senderBuffer c) + 1"
  obtains ret c' where "sendSeq env i c = Inr (ret, c')" "chan_inv (upd_sb bump_sent c')"
    "frame c c'" "same_marks (senderBuffer c) (senderBuffer c')"
    "cells (senderBuffer c') = (cells (senderBuffer c))(i := sent_cell env c (cells (senderBuffer c) i) (queued (senderBuffer c) i))"
    "ch_out c' = ch_out c @ [Ev_Send (stamped env c (queued (senderBuffer c) i))]"
    "sb_started (senderBuffer c') = sb_started (senderBuffer c)"
proof -
  let ?s = "senderBuffer c"
  have inv': "sb_inv ?s" and unl: "\<not> sendSeqLocked c"
    using inv by (simp_all add: chan_inv_def)
  note D = sb_invD [OF inv']
  have o: "off ?s i = Suc (off ?s (maxSent ?s))"
    using more D(2) unfolding i_def by (intro off_succ) simp
  then obtain p where p: "sb_pkt (cells ?s i) = Some p"
    using D(4) [of i] more by auto
  have seq: "h_seqNo (p_header p) = i" and ni: "i \<notin> set (timerList ?s)"
    using D(3) [OF p] D(7) [of i] o by simp_all
  have q: "queued ?s i = p"
    by (simp add: queued_def p)
  obtain ret c' where c': "sendSeq env i c = Inr (ret, c')" "frame c c'" "same_marks ?s (senderBuffer c')"
      "timers_ok (senderBuffer c')" "set (timerList (senderBuffer c')) = insert i (set (timerList ?s))"
      "cells (senderBuffer c') = (cells ?s)(i := sent_cell env c (cells ?s i) p)"
      "ch_out c' = ch_out c @ [Ev_Send (stamped env c p)]"
      "sb_started (senderBuffer c') = sb_started ?s"
    using sendSeq_ok [OF unl D(6) up p seq ni] .
  have rto: "(of_int (rto c) :: appInt32) \<noteq> 0" "e_now env \<noteq> 0"
    using inv up rto_word(2) [of c] by (simp_all add: chan_inv_def net_up_def)
  have "sb_inv (bump_sent (senderBuffer c'))"
  proof (rule sb_inv_send [OF inv' more, where i = i and p = "stamped env c p"
        and b = "sent_cell env c (cells ?s i) p"])
    show "i = maxSent ?s + 1" by (simp add: i_def)
    show "timers_ok (bump_sent (senderBuffer c'))"
      using c'(4) by (simp add: bump_sent_def timers_ok_def)
  qed (use same_marksD [OF c'(3)] c'(5,6) seq rto in \<open>simp_all add: bump_sent_def i_def\<close>)
  then have "chan_inv (upd_sb bump_sent c')"
    by (intro frame_inv [OF frame_trans [OF c'(2) frame_upd_sb] inv]) simp
  with c' show thesis
    using that by (simp add: q)
qed

section \<open>The send loop\<close>

text \<open>The smaller of the peer's window and the congestion window.\<close>

definition send_wnd :: "'a chan_scheme \<Rightarrow> nat" where
  "send_wnd c = min (unat (senderWindow c)) (unat (cwnd16 c))"

lemma cansend_iff: "cansend c \<longleftrightarrow> off (senderBuffer c) (maxSent (senderBuffer c)) < send_wnd c"
  by (auto simp: cansend_def send_wnd_def off_def Let_def word_less_nat_alt min_def)

lemma frame_send_wnd: "frame c c' \<Longrightarrow> send_wnd c' = send_wnd c"
  by (simp add: send_wnd_def cwnd16_def frameD)

definition unstamp :: "Packet \<Rightarrow> Packet" where
  "unstamp p = p\<lparr> p_header := (p_header p)\<lparr> h_sentTS := 0, h_ifcsrc := 0, h_ifcdst := 0 \<rparr> \<rparr>"

lemma unstamp_stamped [simp]: "unstamp (stamped env c p) = unstamp p"
  by (simp add: unstamp_def stamped_def mark_ifc_def)

text \<open>The packet of a cell, up to the fields that sending fills in.\<close>

definition contents :: "new_channel \<Rightarrow> appInt16 \<Rightarrow> Packet option" where
  "contents c i = map_option unstamp (sb_pkt (cells (senderBuffer c) i))"

text \<open>The packets a run of the loop sends, \<open>n\<close> of them from number \<open>i\<close> on, as they leave.\<close>

fun departures :: "env \<Rightarrow> new_channel \<Rightarrow> nat \<Rightarrow> appInt16 \<Rightarrow> chan_event list" where
  "departures env c 0 i = []"
| "departures env c (Suc n) i =
     Ev_Send (stamped env c (queued (senderBuffer c) i)) # departures env c n (i + 1)"

lemma length_departures [simp]: "length (departures env c n i) = n"
  by (induction n arbitrary: i) simp_all

lemma departures_sends: "\<exists>ps. departures env c n i = map Ev_Send ps"
proof (induction n arbitrary: i)
  case (Suc n)
  obtain ps where "departures env c n (i + 1) = map Ev_Send ps" using Suc.IH by blast
  then have "departures env c (Suc n) i = map Ev_Send (stamped env c (queued (senderBuffer c) i) # ps)" by simp
  then show ?case by blast
qed simp

definition in_flight :: "new_channel \<Rightarrow> nat" where
  "in_flight c = off (senderBuffer c) (maxSent (senderBuffer c))"

definition backlog :: "new_channel \<Rightarrow> nat" where
  "backlog c = off (senderBuffer c) (maxPacket (senderBuffer c)) - in_flight c"

lemma departures_cong:
  assumes "\<And>j. j < n \<Longrightarrow> queued (senderBuffer c') (i + of_nat j) = queued (senderBuffer c) (i + of_nat j)"
    and "ch_ifcSrc c' = ch_ifcSrc c" "ch_ifcDst c' = ch_ifcDst c"
  shows "departures env c' n i = departures env c n i"
  using assms(1)
proof (induction n arbitrary: i)
  case (Suc n)
  have "stamped env c' p = stamped env c p" for p
    using assms(2,3) by (simp add: stamped_def mark_ifc_def)
  moreover have "departures env c' n (i + 1) = departures env c n (i + 1)"
    using Suc.prems [of "Suc _"] by (intro Suc.IH) (simp add: add.assoc)
  ultimately show ?case
    using Suc.prems [of 0] by simp
qed simp

lemma backlog_unat:
  assumes "chan_inv c"
  shows "backlog c = unat (maxPacket (senderBuffer c) - maxSent (senderBuffer c))"
proof -
  let ?s = "senderBuffer c"
  have "maxPacket ?s - maxSent ?s = (maxPacket ?s - lastAcked ?s) - (maxSent ?s - lastAcked ?s)"
    by simp
  then show ?thesis
    using sb_invD(1) [of ?s] assms unat_sub [of "maxSent ?s - lastAcked ?s" "maxPacket ?s - lastAcked ?s"]
    by (simp add: backlog_def in_flight_def off_def chan_inv_def word_le_nat_alt)
qed

text \<open>
  What the loop does: it sends \<open>m\<close> packets in order of their numbers and stops
  when the window is full, the backlog empty or \<open>cnt\<close> packets sent.
\<close>

lemma send_loop_ok:
  assumes "chan_inv c" "net_up env" "backlog c = n" "unat cnt - unat k = room" "unat k \<le> unat cnt"
  shows "\<exists>m c'. send_loop env n k cnt c = Inr (k + of_nat m, c') \<and> chan_inv c' \<and> frame c c' \<and>
     m = min n (min room (send_wnd c - in_flight c)) \<and>
     in_flight c' = in_flight c + m \<and> backlog c' = n - m \<and>
     lastAcked (senderBuffer c') = lastAcked (senderBuffer c) \<and>
     maxPacket (senderBuffer c') = maxPacket (senderBuffer c) \<and>
     maxSent (senderBuffer c') = maxSent (senderBuffer c) + of_nat m \<and>
     sb_started (senderBuffer c') = sb_started (senderBuffer c) \<and>
     (\<forall>i. contents c' i = contents c i) \<and>
     ch_out c' = ch_out c @ departures env c m (maxSent (senderBuffer c) + 1)"
  using assms
proof (induction n arbitrary: c k room)
  case 0
  then show ?case by (intro exI [of _ 0] exI [of _ c]) simp
next
  case (Suc n)
  let ?s = "senderBuffer c"
  show ?case
  proof (cases "cansend c \<and> k < cnt")
    case False
    then have "room = 0 \<or> send_wnd c - in_flight c = 0"
      using Suc.prems(4,5) by (auto simp: cansend_iff in_flight_def word_less_nat_alt)
    then have "min (Suc n) (min room (send_wnd c - in_flight c)) = 0" by auto
    then show ?thesis
      using False Suc.prems by (intro exI [of _ 0] exI [of _ c]) auto
  next
    case True
    have more: "off ?s (maxSent ?s) < off ?s (maxPacket ?s)"
      using Suc.prems(3) by (simp add: backlog_def in_flight_def)
    obtain ret c1 where c1: "sendSeq env (maxSent ?s + 1) c = Inr (ret, c1)" "chan_inv (upd_sb bump_sent c1)"
        "frame c c1" "same_marks ?s (senderBuffer c1)"
        "cells (senderBuffer c1) = (cells ?s)(maxSent ?s + 1 := sent_cell env c (cells ?s (maxSent ?s + 1)) (queued ?s (maxSent ?s + 1)))"
        "ch_out c1 = ch_out c @ [Ev_Send (stamped env c (queued ?s (maxSent ?s + 1)))]"
        "sb_started (senderBuffer c1) = sb_started ?s"
      using send_one [OF Suc.prems(1,2) more] .
    let ?c = "upd_sb bump_sent c1"
    note M = same_marksD [OF c1(4)]
    have S: "lastAcked (senderBuffer ?c) = lastAcked ?s" "maxPacket (senderBuffer ?c) = maxPacket ?s"
      "maxSent (senderBuffer ?c) = maxSent ?s + 1" "cells (senderBuffer ?c) = cells (senderBuffer c1)"
      "ch_out ?c = ch_out c1" "sb_started (senderBuffer ?c) = sb_started ?s" "frame c ?c"
      using M c1(7) frame_trans [OF c1(3)] by simp_all
    have inf: "in_flight ?c = Suc (in_flight c)"
      using more sb_invD(2) [of ?s] Suc.prems(1) off_succ [of ?s "maxSent ?s"]
      by (simp add: in_flight_def chan_inv_def off_def M)
    have bl: "backlog ?c = n"
      using Suc.prems(3) inf by (simp add: backlog_def off_def M)
    have k1: "unat (k + 1) = Suc (unat k)"
      using True unsigned_less [of cnt, where 'a = nat] by (intro unat_plus_1) (simp add: word_less_nat_alt)
    have room: "unat cnt - unat (k + 1) = room - 1" "unat (k + 1) \<le> unat cnt"
      using True Suc.prems(4) by (simp_all add: k1 word_less_nat_alt)
    obtain m c' where IH: "send_loop env n (k + 1) cnt ?c = Inr (k + 1 + of_nat m, c')" "chan_inv c'" "frame ?c c'"
        "m = min n (min (room - 1) (send_wnd ?c - in_flight ?c))" "in_flight c' = in_flight ?c + m"
        "backlog c' = n - m" "lastAcked (senderBuffer c') = lastAcked (senderBuffer ?c)"
        "maxPacket (senderBuffer c') = maxPacket (senderBuffer ?c)"
        "maxSent (senderBuffer c') = maxSent (senderBuffer ?c) + of_nat m"
        "sb_started (senderBuffer c') = sb_started (senderBuffer ?c)"
        "\<forall>i. contents c' i = contents ?c i"
        "ch_out c' = ch_out ?c @ departures env ?c m (maxSent (senderBuffer ?c) + 1)"
      using Suc.IH [OF c1(2) Suc.prems(2) bl room] by blast
    have wnd: "in_flight c < send_wnd c" "0 < room"
      using True Suc.prems(4) by (auto simp: cansend_iff in_flight_def word_less_nat_alt)
    have mm: "Suc m = min (Suc n) (min room (send_wnd c - in_flight c))"
      using wnd IH(4) by (simp add: inf frame_send_wnd [OF S(7)]) linarith
    have dep: "departures env ?c m (maxSent ?s + 1 + 1) = departures env c m (maxSent ?s + 1 + 1)"
    proof (rule departures_cong)
      fix j assume j: "j < m"
      have "m \<le> 32768"
        using mm Suc.prems(1,3) sb_invD(2) [of ?s] by (simp add: chan_inv_def backlog_def)
      then have "unat (of_nat (Suc j) :: appInt16) = Suc j"
        using j by (intro unat_of_nat_small) simp
      then have "(of_nat (Suc j) :: appInt16) \<noteq> 0"
        by (metis nat.distinct(1) unat_0)
      moreover have "maxSent ?s + 1 + 1 + of_nat j = maxSent ?s + 1 + of_nat (Suc j)"
        by (simp add: algebra_simps)
      ultimately have "maxSent ?s + 1 + 1 + of_nat j \<noteq> maxSent ?s + 1"
        by (simp only: add_cancel_left_right not_False_eq_True)
      then show "queued (senderBuffer ?c) (maxSent ?s + 1 + 1 + of_nat j) = queued ?s (maxSent ?s + 1 + 1 + of_nat j)"
        by (simp add: queued_def c1(5))
    qed (use S(7) in \<open>simp_all add: frameD\<close>)
    obtain p where p: "sb_pkt (cells ?s (maxSent ?s + 1)) = Some p"
      using sb_invD(4) [of ?s "maxSent ?s + 1"] Suc.prems(1) more off_succ [of ?s "maxSent ?s"] sb_invD(2) [of ?s]
      by (auto simp: chan_inv_def)
    have none: "contents ?c i = contents c i" for i
      using p by (auto simp: contents_def c1(5) queued_def)
    have bump: "(\<lambda>s. s\<lparr> maxSent := maxSent s + 1, totalSent := totalSent s + 1 \<rparr>) = bump_sent"
      by (simp add: bump_sent_def fun_eq_iff)
    have run: "send_loop env (Suc n) k cnt c = Inr (k + of_nat (Suc m), c')"
      using True IH(1) by (simp add: c1(1) bump add.assoc)
    show ?thesis
    proof (intro exI conjI)
      show "send_loop env (Suc n) k cnt c = Inr (k + of_nat (Suc m), c')" by (rule run)
      show "frame c c'" using frame_trans [OF S(7) IH(3)] .
      show "in_flight c' = in_flight c + Suc m" "backlog c' = Suc n - Suc m"
        "lastAcked (senderBuffer c') = lastAcked ?s" "maxPacket (senderBuffer c') = maxPacket ?s"
        "sb_started (senderBuffer c') = sb_started ?s"
        using IH(5-8,10) M c1(7) inf by simp_all
      show "maxSent (senderBuffer c') = maxSent ?s + of_nat (Suc m)"
        using IH(9) M by simp
      show "\<forall>i. contents c' i = contents c i"
        using IH(11) none by simp
      show "ch_out c' = ch_out c @ departures env c (Suc m) (maxSent ?s + 1)"
        using IH(12) dep M c1(6) by simp
    qed (use IH(2) mm in simp_all)
  qed
qed

lemma sendNext_ok:
  fixes cnt :: appInt16
  assumes "chan_inv c" "net_up env"
  defines "m \<equiv> min (backlog c) (min (unat cnt) (send_wnd c - in_flight c))"
  obtains c' where "sendNext env cnt c = Inr (of_nat m, c')" "chan_inv c'" "frame c c'"
    "in_flight c' = in_flight c + m" "backlog c' = backlog c - m"
    "lastAcked (senderBuffer c') = lastAcked (senderBuffer c)"
    "maxPacket (senderBuffer c') = maxPacket (senderBuffer c)"
    "maxSent (senderBuffer c') = maxSent (senderBuffer c) + of_nat m"
    "sb_started (senderBuffer c') = sb_started (senderBuffer c)"
    "\<And>i. contents c' i = contents c i"
    "ch_out c' = ch_out c @ departures env c m (maxSent (senderBuffer c) + 1)"
  using send_loop_ok [OF assms(1,2) refl, of cnt 0 "unat cnt"]
  by (auto simp: sendNext_def m_def backlog_unat [OF assms(1), symmetric] Let_def)

section \<open>What leaves\<close>

text \<open>
  Every packet that left since \<open>c\<close> is one that its cell still holds, under its
  number, and counts as sent.
\<close>

definition sends_ok :: "new_channel \<Rightarrow> new_channel \<Rightarrow> bool" where
  "sends_ok c c' \<longleftrightarrow> (\<exists>es. ch_out c' = ch_out c @ es \<and> (\<forall>p. Ev_Send p \<in> set es \<longrightarrow>
     contents c' (h_seqNo (p_header p)) = Some (unstamp p) \<and>
     off (senderBuffer c') (h_seqNo (p_header p)) \<le> in_flight c'))"

lemma sends_ok_silent:
  "ch_out c' = ch_out c @ es \<Longrightarrow> (\<And>p. Ev_Send p \<notin> set es) \<Longrightarrow> sends_ok c c'"
  by (auto simp: sends_ok_def)

text \<open>The acknowledgements passed to the parent.\<close>

fun recv_acks :: "chan_event list \<Rightarrow> (appInt16 \<times> appInt16 \<times> appInt16) list" where
  "recv_acks [] = []"
| "recv_acks (Ev_RecvAck fp f s # es) = (fp, f, s) # recv_acks es"
| "recv_acks (_ # es) = recv_acks es"

lemma recv_acks_append [simp]: "recv_acks (xs @ ys) = recv_acks xs @ recv_acks ys"
  by (induction xs rule: recv_acks.induct) simp_all

text \<open>No packet left.\<close>

definition silent :: "new_channel \<Rightarrow> new_channel \<Rightarrow> bool" where
  "silent c c' \<longleftrightarrow> (\<exists>es. ch_out c' = ch_out c @ es \<and> (\<forall>p. Ev_Send p \<notin> set es))"

lemma silent_same: "ch_out c' = ch_out c \<Longrightarrow> silent c c'"
  by (auto simp: silent_def)

lemma silent_trans: "silent c d \<Longrightarrow> silent d e \<Longrightarrow> silent c e"
  unfolding silent_def by (elim exE conjE) (rule exI, rule conjI, simp, simp)

lemma silent_sends_ok: "silent c d \<Longrightarrow> sends_ok c d"
  by (auto simp: silent_def intro: sends_ok_silent)

lemma silent_then: "silent c d \<Longrightarrow> sends_ok d e \<Longrightarrow> sends_ok c e"
  unfolding silent_def sends_ok_def by (elim exE conjE) (rule exI, rule conjI, simp, auto)

lemma sends_ok_same: "ch_out c' = ch_out c \<Longrightarrow> sends_ok c c'"
  by (rule sends_ok_silent [of _ _ "[]"]) simp_all

lemma sends_ok_one:
  assumes "ch_out c' = ch_out c @ [Ev_Send p]" "contents c' (h_seqNo (p_header p)) = Some (unstamp p)"
    and "off (senderBuffer c') (h_seqNo (p_header p)) \<le> in_flight c'"
  shows "sends_ok c c'"
  using assms unfolding sends_ok_def by (intro exI [of _ "[Ev_Send p]"]) simp

lemma sends_ok_trans:
  assumes "sends_ok c d" "sends_ok d e" "\<And>i. contents e i = contents d i"
    and "lastAcked (senderBuffer e) = lastAcked (senderBuffer d)" "in_flight d \<le> in_flight e"
  shows "sends_ok c e"
proof -
  obtain xs ys where "ch_out d = ch_out c @ xs" "ch_out e = ch_out d @ ys"
      "\<forall>p. Ev_Send p \<in> set xs \<longrightarrow> contents d (h_seqNo (p_header p)) = Some (unstamp p) \<and>
        off (senderBuffer d) (h_seqNo (p_header p)) \<le> in_flight d"
      "\<forall>p. Ev_Send p \<in> set ys \<longrightarrow> contents e (h_seqNo (p_header p)) = Some (unstamp p) \<and>
        off (senderBuffer e) (h_seqNo (p_header p)) \<le> in_flight e"
    using assms(1,2) by (auto simp: sends_ok_def)
  moreover have "off (senderBuffer e) i = off (senderBuffer d) i" for i using assms(4) by (rule off_cong)
  ultimately show ?thesis
    using assms(3,5) unfolding sends_ok_def by (intro exI [of _ "xs @ ys"]) auto
qed

lemma departures_sent:
  assumes "chan_inv c" "n \<le> k" "off (senderBuffer c) i + k \<le> Suc (off (senderBuffer c) (maxPacket (senderBuffer c)))"
    and "in_flight c < off (senderBuffer c) i" "Ev_Send p \<in> set (departures env c n i)"
  shows "contents c (h_seqNo (p_header p)) = Some (unstamp p) \<and> off (senderBuffer c) (h_seqNo (p_header p)) < off (senderBuffer c) i + k"
  using assms(2-)
proof (induction n arbitrary: i k)
  case (Suc n)
  let ?s = "senderBuffer c"
  have inv: "sb_inv ?s" using assms(1) by (simp add: chan_inv_def)
  note D = sb_invD [OF inv]
  have "off ?s i \<le> off ?s (maxPacket ?s)" using Suc.prems(1,2) by simp
  then obtain q where q: "sb_pkt (cells ?s i) = Some q"
    using D(4) [of i] Suc.prems(3) by (auto simp: in_flight_def)
  have o: "off ?s (i + 1) = Suc (off ?s i)"
    using \<open>off ?s i \<le> _\<close> D(2) by (intro off_succ) simp
  consider "p = stamped env c (queued ?s i)" | "Ev_Send p \<in> set (departures env c n (i + 1))"
    using Suc.prems(4) by auto
  then show ?case
  proof cases
    case 1
    then show ?thesis using q D(3) [OF q] Suc.prems(1) by (simp add: queued_def contents_def)
  next
    case 2
    have "n \<le> k - 1" "off ?s (i + 1) + (k - 1) = off ?s i + k" using Suc.prems(1) o by auto
    then show ?thesis using Suc.IH [of "k - 1" "i + 1"] Suc.prems(2,3) 2 o by auto
  qed
qed simp

lemma sendNext_sends_ok:
  assumes "chan_inv c" "m \<le> backlog c" "in_flight c' = in_flight c + m" "lastAcked (senderBuffer c') = lastAcked (senderBuffer c)"
    and "\<And>i. contents c' i = contents c i" "ch_out c' = ch_out c @ departures env c m (maxSent (senderBuffer c) + 1)"
  shows "sends_ok c c'"
proof (cases "m = 0")
  case True
  then show ?thesis using assms(6) by (intro sends_ok_same) simp
next
  case False
  let ?s = "senderBuffer c"
  have inv: "sb_inv ?s" using assms(1) by (simp add: chan_inv_def)
  note D = sb_invD [OF inv]
  have o: "off ?s (maxSent ?s + 1) = Suc (in_flight c)"
    using False assms(2) D(2) unfolding in_flight_def by (intro off_succ) (simp add: backlog_def in_flight_def)
  have b: "off ?s (maxSent ?s + 1) + m \<le> Suc (off ?s (maxPacket ?s))"
    using assms(2) False unfolding o by (simp add: backlog_def)
  have O: "off (senderBuffer c') i = off ?s i" for i using assms(4) by (rule off_cong)
  show ?thesis
    unfolding sends_ok_def
  proof (intro exI conjI allI impI)
    fix p assume "Ev_Send p \<in> set (departures env c m (maxSent ?s + 1))"
    from departures_sent [OF assms(1) le_refl b _ this] o
    show "contents c' (h_seqNo (p_header p)) = Some (unstamp p)"
      "off (senderBuffer c') (h_seqNo (p_header p)) \<le> in_flight c'"
      by (simp_all add: assms(3,5) O)
  qed (rule assms(6))
qed

lemma sendNext_quietly:
  assumes "chan_inv c" "net_up env"
  obtains m c' where "sendNext env cnt c = Inr (of_nat m, c')" "chan_inv c'" "frame c c'" "in_flight c \<le> in_flight c'"
    "lastAcked (senderBuffer c') = lastAcked (senderBuffer c)" "maxPacket (senderBuffer c') = maxPacket (senderBuffer c)"
    "\<And>i. contents c' i = contents c i" "ch_out c' = ch_out c @ departures env c m (maxSent (senderBuffer c) + 1)"
    "sends_ok c c'"
proof -
  let ?m = "min (backlog c) (min (unat cnt) (send_wnd c - in_flight c))"
  obtain c' where c': "sendNext env cnt c = Inr (of_nat ?m, c')" "chan_inv c'" "frame c c'" "in_flight c' = in_flight c + ?m"
      "lastAcked (senderBuffer c') = lastAcked (senderBuffer c)" "maxPacket (senderBuffer c') = maxPacket (senderBuffer c)"
      "\<And>i. contents c' i = contents c i" "ch_out c' = ch_out c @ departures env c ?m (maxSent (senderBuffer c) + 1)"
    using sendNext_ok [OF assms, of cnt] by metis
  have "?m \<le> backlog c" by simp
  from sendNext_sends_ok [OF assms(1) this c'(4,5,7,8)] show thesis
    using that [OF c'(1-3) _ c'(5-8)] c'(4) by simp
qed

section \<open>Properties of sending\<close>

text \<open>
  C10: \<open>sendNext\<close> sends the queued packets strictly in the order of their
  sequence numbers, as many as the count, the backlog and the window (the
  smaller of the receiver's window and the congestion window) allow, never
  more; what is in flight afterwards is within the window whenever something
  was sent, the channel's invariant holds again and no cell loses its packet.
\<close>

theorem sendNext_window_and_order:
  assumes "chan_inv c" "net_up env"
  shows "\<exists>m c'. sendNext env cnt c = Inr (of_nat m, c') \<and> chan_inv c' \<and>
     m = min (backlog c) (min (unat cnt) (send_wnd c - in_flight c)) \<and>
     in_flight c' = in_flight c + m \<and> (0 < m \<longrightarrow> in_flight c' \<le> send_wnd c) \<and>
     (\<forall>i. contents c' i = contents c i) \<and>
     ch_out c' = ch_out c @ departures env c m (maxSent (senderBuffer c) + 1)"
proof -
  obtain c' where "sendNext env cnt c = Inr (of_nat (min (backlog c) (min (unat cnt) (send_wnd c - in_flight c))), c')"
      "chan_inv c'" "in_flight c' = in_flight c + min (backlog c) (min (unat cnt) (send_wnd c - in_flight c))"
      "\<And>i. contents c' i = contents c i"
      "ch_out c' = ch_out c @ departures env c (min (backlog c) (min (unat cnt) (send_wnd c - in_flight c)))
         (maxSent (senderBuffer c) + 1)"
    using sendNext_ok [OF assms, of cnt] by metis
  then show ?thesis
    by (intro exI conjI) (assumption | simp | linarith)+
qed

definition unacked :: "new_channel \<Rightarrow> nat" where
  "unacked c = off (senderBuffer c) (maxPacket (senderBuffer c))"

definition env0 :: env where
  "env0 = \<lparr> e_now = 1000, e_net = (\<lambda>_. 0), e_fingerPrint = 7, e_status = None \<rparr>"

lemma net_up_env0: "net_up env0"
  by (simp add: net_up_def env0_def ERROR_NETWORK_CLOSED_def)

lemma init_new_channel_inv: "chan_inv (init_new_channel env s d)"
proof -
  have "sb_inv (senderBuffer (init_new_channel env s d))"
    using new_SendingBuffer_inv
    by (simp add: init_new_channel_def init_sack_chan_def init_chan_def chan.defs sack_chan.defs)
  then show ?thesis
    by (simp add: chan_inv_def cwnd_ok_def rtt_ok_def init_new_channel_def init_sack_chan_def init_chan_def
        chan.defs sack_chan.defs MAX_CONG_WINDOW_def rtt_G_def TIMER_SECOND_IN_US_def)
qed

lemma sendNext_window_and_order_witness:
  "\<exists>m c'. sendNext env0 5 (init_new_channel env0 1 2) = Inr (of_nat m, c') \<and> chan_inv c' \<and>
     m = min (backlog (init_new_channel env0 1 2))
           (min (unat (5 :: appInt16)) (send_wnd (init_new_channel env0 1 2) - in_flight (init_new_channel env0 1 2))) \<and>
     in_flight c' = in_flight (init_new_channel env0 1 2) + m \<and>
     (0 < m \<longrightarrow> in_flight c' \<le> send_wnd (init_new_channel env0 1 2)) \<and>
     (\<forall>i. contents c' i = contents (init_new_channel env0 1 2) i) \<and>
     ch_out c' = ch_out (init_new_channel env0 1 2) @
       departures env0 (init_new_channel env0 1 2) m (maxSent (senderBuffer (init_new_channel env0 1 2)) + 1)"
  by (rule sendNext_window_and_order [OF init_new_channel_inv net_up_env0])

text \<open>The packet as it lies in its cell: numbered, and marked when it opens a burst.\<close>

definition enqueued :: "new_channel \<Rightarrow> Packet \<Rightarrow> Packet" where
  "enqueued c pkt = pkt\<lparr> p_header := (p_header pkt)
     \<lparr> h_flag := (if unacked c = 0 then h_flag (p_header pkt) OR FLAG_CHS else h_flag (p_header pkt)),
       h_seqNo := maxPacket (senderBuffer c) + 1 \<rparr> \<rparr>"

lemma has_CSN: "(flag :: appInt16) OR FLAG_CSN \<noteq> 0"
  by (simp add: FLAG_CSN_def or_eq_0_iff)

lemma sb_inv_started: "sb_inv (s\<lparr> sb_started := b \<rparr>) = sb_inv s"
  by (simp add: sb_inv_def off_def timers_ok_def)

text \<open>Queue a packet and try to send one.\<close>

lemma enqueue_ok:
  assumes inv: "chan_inv c" and up: "net_up env" and room: "unacked c < 32768"
  shows "\<exists>c3. bind_res (res_sb (addBuffer pkt) c) (\<lambda>c2. bind_res (sendNew env 1 c2) (\<lambda>(_, c3). Inr (0 :: int, c3))) = Inr (0, c3) \<and>
    chan_inv c3 \<and> frame c c3 \<and> unacked c3 = Suc (unacked c) \<and>
    maxPacket (senderBuffer c3) = maxPacket (senderBuffer c) + 1 \<and>
    in_flight c3 = in_flight c + min 1 (send_wnd c - in_flight c) \<and>
    (\<forall>i. contents c3 i = (if i = maxPacket (senderBuffer c) + 1
        then Some (unstamp (pkt\<lparr> p_header := (p_header pkt)\<lparr> h_seqNo := maxPacket (senderBuffer c) + 1 \<rparr> \<rparr>))
        else contents c i)) \<and>
    sb_started (senderBuffer c3) = sb_started (senderBuffer c) \<and>
    (\<exists>ps. ch_out c3 = ch_out c @ map Ev_Send ps) \<and> sends_ok c c3 \<and>
    lastAcked (senderBuffer c3) = lastAcked (senderBuffer c) \<and>
    length (ch_out c3) = length (ch_out c) + min 1 (send_wnd c - in_flight c)"
proof -
  let ?s = "senderBuffer c" and ?m = "maxPacket (senderBuffer c) + 1"
  have inv': "sb_inv ?s" using inv by (simp add: chan_inv_def)
  have lt: "off ?s (maxPacket ?s) < 32768" using room by (simp add: unacked_def)
  obtain s1 where s1: "addBuffer pkt ?s = Inr s1" "sb_inv s1"
      "s1 = ?s\<lparr> maxPacket := ?m, cells := (cells ?s)(?m := (cells ?s ?m)
         \<lparr> sb_pkt := Some (pkt\<lparr> p_header := (p_header pkt)\<lparr> h_seqNo := ?m \<rparr> \<rparr>) \<rparr>) \<rparr>"
    using addBuffer_ok [OF inv' lt] .
  let ?c2 = "c\<lparr> senderBuffer := s1 \<rparr>"
  have fr: "frame c ?c2" by (simp add: frame_def)
  have inv2: "chan_inv ?c2"
    using frame_inv [OF fr inv] s1(2) by simp
  have o: "off s1 i = off ?s i" for i
    by (rule off_cong) (simp add: s1(3))
  have infl: "in_flight ?c2 = in_flight c"
    by (simp add: in_flight_def o) (simp add: s1(3))
  have un: "unacked ?c2 = Suc (unacked c)"
    using lt off_succ [of ?s "maxPacket ?s"] by (simp add: unacked_def o) (simp add: s1(3))
  have "in_flight c \<le> unacked c"
    using sb_invD(1) [OF inv'] by (simp add: in_flight_def unacked_def)
  then have bl: "backlog ?c2 = Suc (unacked c) - in_flight c" "0 < backlog ?c2"
    using un infl by (simp_all add: backlog_def unacked_def)
  have m: "min (backlog ?c2) (min (unat (1 :: appInt16)) (send_wnd ?c2 - in_flight ?c2)) = min 1 (send_wnd c - in_flight c)"
    using bl(2) infl frame_send_wnd [OF fr] by simp
  obtain c3 where c3: "sendNext env 1 ?c2 = Inr (of_nat (min 1 (send_wnd c - in_flight c)), c3)" "chan_inv c3" "frame ?c2 c3"
    "in_flight c3 = in_flight ?c2 + min 1 (send_wnd c - in_flight c)"
    "lastAcked (senderBuffer c3) = lastAcked (senderBuffer ?c2)"
    "maxPacket (senderBuffer c3) = maxPacket (senderBuffer ?c2)"
    "sb_started (senderBuffer c3) = sb_started (senderBuffer ?c2)"
    "\<And>i. contents c3 i = contents ?c2 i"
    "ch_out c3 = ch_out ?c2 @ departures env ?c2 (min 1 (send_wnd c - in_flight c)) (maxSent (senderBuffer ?c2) + 1)"
    using sendNext_ok [OF inv2 up, of 1] unfolding m by metis
  obtain ps where ps: "ch_out c3 = ch_out c @ map Ev_Send ps"
    using c3(9) departures_sends by fastforce
  have "sends_ok ?c2 c3"
    using bl(2) by (intro sendNext_sends_ok [OF inv2 _ c3(4,5,8,9)]) (auto simp: min_def)
  then have so: "sends_ok c c3" by (simp add: sends_ok_def)
  show ?thesis
  proof (intro exI conjI)
    show "sends_ok c c3" by (rule so)
    show "ch_out c3 = ch_out c @ map Ev_Send ps" by (rule ps)
    show "bind_res (res_sb (addBuffer pkt) c) (\<lambda>c2. bind_res (sendNew env 1 c2) (\<lambda>(_, c3). Inr (0 :: int, c3))) = Inr (0, c3)"
      by (simp add: res_sb_def s1(1) sendNew_def c3(1))
    show "frame c c3" by (rule frame_trans [OF fr c3(3)])
    show "unacked c3 = Suc (unacked c)"
      using un c3(5,6) by (simp add: unacked_def off_def)
    show "\<forall>i. contents c3 i = (if i = ?m then Some (unstamp (pkt\<lparr> p_header := (p_header pkt)\<lparr> h_seqNo := ?m \<rparr> \<rparr>))
        else contents c i)"
      using c3(8) by (simp add: s1(3) contents_def)
  qed (use c3 infl in \<open>simp_all add: s1(3)\<close>)
qed

text \<open>As \<open>frame\<close>: nothing that other operations look at changes beyond the buffer.\<close>

definition frame_start :: "new_channel \<Rightarrow> new_channel \<Rightarrow> bool" where
  "frame_start c c' \<longleftrightarrow> ch_id c' = ch_id c \<and> ch_registered c' = ch_registered c \<and> closed c' = closed c \<and>
     deadChannel c' = deadChannel c \<and> started c' = started c \<and> srtt c' = srtt c \<and> cwnd c' = cwnd c \<and>
     recieverBuff c' = recieverBuff c \<and> ch_ifcSrc c' = ch_ifcSrc c \<and> ch_ifcDst c' = ch_ifcDst c"

lemma frame_frame_start: "frame c c' \<Longrightarrow> frame_start c c'"
  by (simp add: frame_start_def frameD)

lemma sendPacket_full:
  assumes "chan_inv c" "net_up env"
  shows "\<exists>r c'. sendPacket env pkt c = Inr (r, c') \<and> chan_inv c' \<and>
     r = (if closed c then - 9 else if deadChannel c then - 6 else if 32768 \<le> unacked c then - 1 else 0) \<and>
     (r \<noteq> 0 \<longrightarrow> c' = c) \<and> (\<exists>ps. ch_out c' = ch_out c @ map Ev_Send ps) \<and> frame_start c c' \<and>
     sends_ok c c' \<and> lastAcked (senderBuffer c') = lastAcked (senderBuffer c) \<and> recover c' = recover c \<and>
     (r = 0 \<longrightarrow> length (ch_out c') = length (ch_out c) + min 1 (send_wnd c - in_flight c)) \<and>
     (r = 0 \<longrightarrow> maxPacket (senderBuffer c') = maxPacket (senderBuffer c) + 1 \<and> unacked c' = Suc (unacked c) \<and>
        sb_started (senderBuffer c') = (sb_started (senderBuffer c) \<or> unacked c = 0) \<and>
        in_flight c' = in_flight c + min 1 (send_wnd c - in_flight c) \<and>
        (\<forall>i. contents c' i = (if i = maxPacket (senderBuffer c) + 1 then Some (unstamp (enqueued c pkt)) else contents c i)))"
proof -
  let ?s = "senderBuffer c"
  have empty: "lastAcked ?s = maxPacket ?s \<longleftrightarrow> unacked c = 0"
    by (auto simp: unacked_def off_eq_0_iff)
  have x: "unat (maxPacket ?s - lastAcked ?s) = unacked c"
    by (simp add: unacked_def off_def)
  consider "closed c \<or> deadChannel c \<or> 32768 \<le> unacked c"
    | "\<not> closed c" "\<not> deadChannel c" "unacked c = 0"
    | "\<not> closed c" "\<not> deadChannel c" "0 < unacked c" "unacked c < 32768"
    by linarith
  then show ?thesis
  proof cases
    case 1
    then show ?thesis
      using assms by (auto simp: sendPacket_def has_CSN empty x Let_def frame_start_def sends_ok_same intro!: exI [of _ "[] :: Packet list"])
  next
    case 2
    let ?c = "upd_sb (\<lambda>s. s\<lparr> sb_started := True \<rparr>) c"
    let ?p = "pkt\<lparr> p_header := (p_header pkt)\<lparr> h_flag := h_flag (p_header pkt) OR FLAG_CHS \<rparr> \<rparr>"
    have inv1: "chan_inv ?c"
      using assms(1) by (intro frame_inv [OF frame_upd_sb]) (auto simp: chan_inv_def sb_inv_started)
    have same: "unacked ?c = unacked c" "in_flight ?c = in_flight c" "contents ?c = contents c" "send_wnd ?c = send_wnd c"
      by (simp_all add: unacked_def in_flight_def off_def contents_def fun_eq_iff send_wnd_def cwnd16_def upd_sb_def)
    have "unacked ?c < 32768" using 2 same by simp
    obtain c3 where c3: "bind_res (res_sb (addBuffer ?p) ?c) (\<lambda>c2. bind_res (sendNew env 1 c2) (\<lambda>(_, c3). Inr (0 :: int, c3))) = Inr (0, c3)"
      "chan_inv c3" "frame ?c c3" "unacked c3 = Suc (unacked ?c)"
      "maxPacket (senderBuffer c3) = maxPacket (senderBuffer ?c) + 1"
      "in_flight c3 = in_flight ?c + min 1 (send_wnd ?c - in_flight ?c)"
      "\<forall>i. contents c3 i = (if i = maxPacket (senderBuffer ?c) + 1
        then Some (unstamp (?p\<lparr> p_header := (p_header ?p)\<lparr> h_seqNo := maxPacket (senderBuffer ?c) + 1 \<rparr> \<rparr>))
        else contents ?c i)" "sb_started (senderBuffer c3) = sb_started (senderBuffer ?c)"
      "\<exists>ps. ch_out c3 = ch_out ?c @ map Ev_Send ps" "sends_ok ?c c3" "lastAcked (senderBuffer c3) = lastAcked (senderBuffer ?c)"
      "length (ch_out c3) = length (ch_out ?c) + min 1 (send_wnd ?c - in_flight ?c)"
      using enqueue_ok [OF inv1 assms(2) \<open>unacked ?c < 32768\<close>, of ?p] by blast
    have so: "sends_ok c c3" using c3(10) by (simp add: sends_ok_def)
    have run: "sendPacket env pkt c = Inr (0, c3)"
      using 2 c3(1) by (simp add: sendPacket_def has_CSN empty Let_def)
    show ?thesis
      by (rule exI [of _ 0], rule exI [of _ c3]) (use 2 run c3(2,4-9,11,12) so frame_frame_start [OF frame_trans [OF frame_upd_sb c3(3)]] frameD(13) [OF frame_trans [OF frame_upd_sb c3(3)]] in \<open>simp add: same enqueued_def\<close>)
  next
    case 3
    obtain c3 where c3: "bind_res (res_sb (addBuffer pkt) c) (\<lambda>c2. bind_res (sendNew env 1 c2) (\<lambda>(_, c3). Inr (0 :: int, c3))) = Inr (0, c3)"
      "chan_inv c3" "frame c c3" "unacked c3 = Suc (unacked c)" "maxPacket (senderBuffer c3) = maxPacket ?s + 1"
      "in_flight c3 = in_flight c + min 1 (send_wnd c - in_flight c)"
      "\<forall>i. contents c3 i = (if i = maxPacket ?s + 1
        then Some (unstamp (pkt\<lparr> p_header := (p_header pkt)\<lparr> h_seqNo := maxPacket ?s + 1 \<rparr> \<rparr>))
        else contents c i)" "sb_started (senderBuffer c3) = sb_started ?s"
      "\<exists>ps. ch_out c3 = ch_out c @ map Ev_Send ps" "sends_ok c c3" "lastAcked (senderBuffer c3) = lastAcked ?s"
      "length (ch_out c3) = length (ch_out c) + min 1 (send_wnd c - in_flight c)"
      using enqueue_ok [OF assms(1,2) 3(4), of pkt] by blast
    have run: "sendPacket env pkt c = Inr (0, c3)"
      using 3 c3(1) by (simp add: sendPacket_def has_CSN empty x Let_def)
    show ?thesis
      by (rule exI [of _ 0], rule exI [of _ c3]) (use 3 run c3(2,4-12) frame_frame_start [OF c3(3)] frameD(13) [OF c3(3)] in \<open>simp add: enqueued_def\<close>)
  qed
qed

lemma sendPacket_ok:
  assumes "chan_inv c" "net_up env"
  shows "\<exists>r c'. sendPacket env pkt c = Inr (r, c') \<and> chan_inv c' \<and>
     r = (if closed c then - 9 else if deadChannel c then - 6 else if 32768 \<le> unacked c then - 1 else 0) \<and>
     (r \<noteq> 0 \<longrightarrow> c' = c) \<and> (\<exists>ps. ch_out c' = ch_out c @ map Ev_Send ps) \<and> frame_start c c' \<and>
     (r = 0 \<longrightarrow> maxPacket (senderBuffer c') = maxPacket (senderBuffer c) + 1 \<and> unacked c' = Suc (unacked c) \<and>
        sb_started (senderBuffer c') = (sb_started (senderBuffer c) \<or> unacked c = 0) \<and>
        in_flight c' = in_flight c + min 1 (send_wnd c - in_flight c) \<and>
        (\<forall>i. contents c' i = (if i = maxPacket (senderBuffer c) + 1 then Some (unstamp (enqueued c pkt)) else contents c i)))"
  using sendPacket_full [OF assms, of pkt] by (elim exE conjE) (intro exI conjI; assumption)

text \<open>
  C11: \<open>sendPacket\<close> rejects a packet only when the channel is closed (\<open>-9\<close>) or
  dead (\<open>-6\<close>) or when 32768 packets are unacknowledged (\<open>-1\<close>), leaving the
  channel as it was.  Otherwise it returns 0 with the packet queued last under
  the next sequence number (carrying \<open>FLAG_CHS\<close> when nothing was outstanding),
  all other packets in place, at most one packet more in flight and that only
  within the window.  The result \<open>-3\<close> for a channel that has not started never
  occurs, because the test ORs the flag in instead of masking it.
\<close>

theorem sendPacket_correct:
  assumes "chan_inv c" "net_up env"
  shows "\<exists>r c'. sendPacket env pkt c = Inr (r, c') \<and> chan_inv c' \<and>
     r = (if closed c then - 9 else if deadChannel c then - 6 else if 32768 \<le> unacked c then - 1 else 0) \<and>
     (r \<noteq> 0 \<longrightarrow> c' = c) \<and> (\<exists>ps. ch_out c' = ch_out c @ map Ev_Send ps) \<and> frame_start c c' \<and>
     (r = 0 \<longrightarrow> maxPacket (senderBuffer c') = maxPacket (senderBuffer c) + 1 \<and> unacked c' = Suc (unacked c) \<and>
        sb_started (senderBuffer c') = (sb_started (senderBuffer c) \<or> unacked c = 0) \<and>
        in_flight c' = in_flight c + min 1 (send_wnd c - in_flight c) \<and>
        (\<forall>i. contents c' i = (if i = maxPacket (senderBuffer c) + 1 then Some (unstamp (enqueued c pkt)) else contents c i)))"
  by (rule sendPacket_ok [OF assms])

lemma sendPacket_correct_witness:
  "\<exists>r c'. sendPacket env0 new_Packet (init_new_channel env0 1 2) = Inr (r, c') \<and> chan_inv c' \<and> r = 0 \<and>
     maxPacket (senderBuffer c') = 0"
proof -
  have "unacked (init_new_channel env0 1 2) = 0" "\<not> closed (init_new_channel env0 1 2)"
    "\<not> deadChannel (init_new_channel env0 1 2)" "maxPacket (senderBuffer (init_new_channel env0 1 2)) + 1 = 0"
    by (simp_all add: unacked_def off_def init_new_channel_def init_sack_chan_def init_chan_def
        chan.defs sack_chan.defs new_SendingBuffer_def)
  then show ?thesis
    using sendPacket_correct [OF init_new_channel_inv net_up_env0, of new_Packet env0 1 2] by auto
qed

end
