(* ===== verification/NewChannelTimeout.thy ===== *)
theory NewChannelTimeout
  imports NewChannelSend
begin

text \<open>
  The timeout loop of \<open>NewChannelHandler\<close> ends, on a live channel, after at
  most one visit per expired timer, because a visit re-arms the timer beyond
  the time of the event: the retransmission timeout is at least \<open>G\<close>.  It
  retransmits exactly the packets whose timer had expired and whose
  acknowledgement was not already waiting in the queue, each once.
\<close>

definition expired :: "SendingBuffer \<Rightarrow> int \<Rightarrow> appInt16 set" where
  "expired s now = {i \<in> set (timerList s). sb_time (cells s i) \<noteq> 0 \<and> effTimer (cells s i) \<le> now}"

definition due :: "SendingBuffer \<Rightarrow> int \<Rightarrow> appInt16 set" where
  "due s now = {i \<in> expired s now. \<not> sb_ackRcvd (cells s i)}"

text \<open>The sequence numbers of the packets in a list of events.\<close>

fun sent_seqs :: "chan_event list \<Rightarrow> appInt16 list" where
  "sent_seqs [] = []"
| "sent_seqs (Ev_Send p # es) = h_seqNo (p_header p) # sent_seqs es"
| "sent_seqs (_ # es) = sent_seqs es"

lemma sent_seqs_append [simp]: "sent_seqs (xs @ ys) = sent_seqs xs @ sent_seqs ys"
  by (induction xs rule: sent_seqs.induct) simp_all

lemma first_not_expired:
  assumes "timers_ok s" "timerList s = i # l" "now < effTimer (cells s i)"
  shows "expired s now = {}"
proof -
  have "effTimer (cells s i) \<le> effTimer (cells s j)" if "j \<in> set (timerList s)" for j
  proof (cases "j = i")
    case False
    then have "j \<in> set l" using that assms(2) by simp
    then have "timer_key (cells s) i \<le> timer_key (cells s) j"
      using assms(1,2) by (simp add: timers_ok_def)
    then show ?thesis by (auto simp: timer_key_def less_eq_prod_def)
  qed simp
  then show ?thesis
    using assms(3) by (fastforce simp: expired_def)
qed

text \<open>A visit that re-arms the timer of cell \<open>i\<close> beyond \<open>now\<close>.\<close>

lemma expired_rearm:
  assumes "set (timerList s') = set (timerList s)" "cells s' = (cells s)(i := b)" "i \<in> expired s now"
    and "now < effTimer b"
  shows "expired s' now = expired s now - {i}" "due s' now = due s now - {i}"
proof -
  have "j \<in> expired s' now \<longleftrightarrow> j \<in> expired s now - {i}" for j
    using assms by (cases "j = i") (auto simp: expired_def)
  then show "expired s' now = expired s now - {i}" by blast
  then show "due s' now = due s now - {i}"
    using assms(2) by (auto simp: due_def)
qed

lemma restart_visit:
  assumes inv: "chan_inv c" and i: "i \<in> expired (senderBuffer c) now" and now: "0 < now"
  obtains c' where "res_sb (restartTimer i now) c = Inr c'" "chan_inv c'" "frame c c'" "ch_out c' = ch_out c"
    "expired (senderBuffer c') now = expired (senderBuffer c) now - {i}"
    "due (senderBuffer c') now = due (senderBuffer c) now - {i}"
    "same_marks (senderBuffer c) (senderBuffer c')" "\<forall>j. contents c' j = contents c j"
proof -
  let ?s = "senderBuffer c"
  have inv': "sb_inv ?s" using inv by (simp add: chan_inv_def)
  note D = sb_invD [OF inv']
  have it: "i \<in> set (timerList ?s)" using i by (simp add: expired_def)
  then obtain p where p: "sb_pkt (cells ?s i) = Some p" "h_seqNo (p_header p) = i"
    using D(3,7) by blast
  obtain s' where s': "restartTimer i now ?s = Inr s'" "timers_ok s'" "set (timerList s') = set (timerList ?s)"
      "cells s' = (cells ?s)(i := (cells ?s i)\<lparr> sb_time := now \<rparr>)"
      "s' = ?s\<lparr> cells := cells s', timerList := timerList s' \<rparr>"
    using restartTimer_ok [OF D(6) it] .
  let ?b = "(cells ?s i)\<lparr> sb_time := now \<rparr>" and ?c = "c\<lparr> senderBuffer := s' \<rparr>"
  have m: "same_marks ?s s'"
    by (subst s'(5)) (simp add: same_marks_def)
  have "uint (sb_rto (cells ?s i)) \<noteq> 0"
    using D(8) [OF it] by (simp add: uint_0_iff)
  then have eff: "now < effTimer ?b"
    by (simp add: effTimer_def order_less_le)
  have "sb_inv s'"
    by (rule sb_inv_update_sent [OF inv' it m s'(4), of p]) (use p D(8) [OF it] s'(2,3) now in simp_all)
  moreover have fr: "frame c ?c" by (simp add: frame_def)
  ultimately have "chan_inv ?c" using frame_inv [OF fr inv] by simp
  moreover have "contents ?c j = contents c j" for j
    by (simp add: contents_def s'(4))
  ultimately show thesis
    using that [of ?c] s'(1) fr m expired_rearm [OF s'(3,4) i eff] by (simp add: res_sb_def)
qed

lemma resend_core:
  assumes inv: "chan_inv c" and up: "net_up env" and it: "i \<in> set (timerList (senderBuffer c))"
  obtains c1 ret c2 p b where "res_sb (stopTimer i) c = Inr c1" "sendSeq env i c1 = Inr (ret, c2)"
    "chan_inv c2" "frame c c2" "same_marks (senderBuffer c) (senderBuffer c2)"
    "cells (senderBuffer c2) = (cells (senderBuffer c))(i := sent_cell env c b p)"
    "sb_pkt (cells (senderBuffer c) i) = Some p" "h_seqNo (p_header p) = i"
    "set (timerList (senderBuffer c2)) = set (timerList (senderBuffer c))"
    "ch_out c2 = ch_out c @ [Ev_Send (stamped env c p)]"
    "sb_started (senderBuffer c2) = sb_started (senderBuffer c)"
proof -
  let ?s = "senderBuffer c"
  have inv': "sb_inv ?s" and unl: "\<not> sendSeqLocked c" using inv by (simp_all add: chan_inv_def)
  note D = sb_invD [OF inv']
  obtain p where p: "sb_pkt (cells ?s i) = Some p" "h_seqNo (p_header p) = i"
    using it D(3,7) by blast
  obtain s1 where s1: "stopTimer i ?s = Inr s1" "timers_ok s1" "timerList s1 = filter (\<lambda>j. j \<noteq> i) (timerList ?s)"
      "cells s1 = (cells ?s)(i := (cells ?s i)\<lparr> sb_time := 0, sb_rto := 0 \<rparr>)"
      "s1 = ?s\<lparr> cells := cells s1, timerList := timerList s1 \<rparr>"
    using stopTimer_ok [OF D(6) it] .
  let ?c1 = "c\<lparr> senderBuffer := s1 \<rparr>"
  have unl1: "\<not> sendSeqLocked ?c1" and ok1: "timers_ok (senderBuffer ?c1)"
    and p1: "sb_pkt (cells (senderBuffer ?c1) i) = Some p" and ni: "i \<notin> set (timerList (senderBuffer ?c1))"
    using unl s1 p by simp_all
  obtain ret c2 where c2': "sendSeq env i ?c1 = Inr (ret, c2)" "frame ?c1 c2"
      "same_marks (senderBuffer ?c1) (senderBuffer c2)" "timers_ok (senderBuffer c2)"
      "set (timerList (senderBuffer c2)) = insert i (set (timerList (senderBuffer ?c1)))"
      "cells (senderBuffer c2) = (cells (senderBuffer ?c1))(i := sent_cell env ?c1 (cells (senderBuffer ?c1) i) p)"
      "ch_out c2 = ch_out ?c1 @ [Ev_Send (stamped env ?c1 p)]"
      "sb_started (senderBuffer c2) = sb_started (senderBuffer ?c1)"
    using sendSeq_ok [OF unl1 ok1 up p1 p(2) ni] .
  note c2 = c2' [simplified]
  have marks1: "same_marks ?s s1" "sb_started s1 = sb_started ?s"
    by (subst s1(5), simp add: same_marks_def)+
  then have m: "same_marks ?s (senderBuffer c2)"
    using c2(3) by (simp add: same_marks_def)
  have sent: "sent_cell env ?c1 b p = sent_cell env c b p" for b
    by (simp add: sent_cell_def)
  have cells2: "cells (senderBuffer c2) = (cells ?s)(i := sent_cell env c (cells s1 i) p)"
    by (simp add: c2(6) s1(4) sent)
  have timers2: "set (timerList (senderBuffer c2)) = set (timerList ?s)"
    using it by (auto simp: c2(5) s1(3))
  have r: "rtt_ok c" "rto c < 15 * TIMER_SECOND_IN_US"
    using inv by (simp_all add: chan_inv_def)
  have "sb_inv (senderBuffer c2)"
    by (rule sb_inv_update_sent [OF inv' it m cells2, of "stamped env c p"])
      (use p rto_word(2) [OF r] c2(4) timers2 up in \<open>simp_all add: net_up_def\<close>)
  moreover have fr: "frame c c2"
    by (rule frame_trans [OF _ c2(2)]) (simp add: frame_def)
  ultimately have "chan_inv c2"
    by (rule_tac frame_inv [OF _ inv])
  then show thesis
    using that [of ?c1 ret c2] fr m cells2 timers2 p s1(1) c2(1,7,8) marks1(2) by (simp add: res_sb_def)
qed

lemma sb_inv_retry:
  assumes "sb_inv s" "i \<in> set (timerList s)"
  shows "sb_inv (s\<lparr> cells := (cells s)(i := (cells s i)\<lparr> sb_retryCnt := r \<rparr>),
      totalRetransmitions := a, totalTimeouts := b \<rparr>)" (is "sb_inv ?s")
proof -
  note D = sb_invD [OF assms(1)]
  obtain p where p: "sb_pkt (cells s i) = Some p" "h_seqNo (p_header p) = i"
    using assms(2) D(3,7) by blast
  have key: "timer_key (cells ?s) = timer_key (cells s)"
    by (auto simp: timer_key_def effTimer_def fun_eq_iff)
  have tok: "timers_ok ?s"
    using D(6) unfolding timers_ok_def key by auto
  show ?thesis
    by (rule sb_inv_update_sent [OF assms, where p = p and b = "(cells s i)\<lparr> sb_retryCnt := r \<rparr>"])
      (use p D(8) [OF assms(2)] tok in \<open>simp_all add: same_marks_def\<close>)
qed

lemma resend_visit:
  assumes inv: "chan_inv c" and up: "net_up env" and i: "i \<in> expired (senderBuffer c) now" and now: "now \<le> e_now env"
  obtains c' where "timeout_resend env i c = Inr c'" "chan_inv c'" "frame c c'"
    "\<exists>p. ch_out c' = ch_out c @ [Ev_Send p] \<and> h_seqNo (p_header p) = i"
    "expired (senderBuffer c') now = expired (senderBuffer c) now - {i}"
    "due (senderBuffer c') now = due (senderBuffer c) now - {i}"
    "same_marks (senderBuffer c) (senderBuffer c')" "\<forall>j. contents c' j = contents c j" "sends_ok c c'"
proof -
  let ?s = "senderBuffer c"
  have it: "i \<in> set (timerList ?s)" using i by (simp add: expired_def)
  obtain c1 ret c2 p b0 where c2: "res_sb (stopTimer i) c = Inr c1" "sendSeq env i c1 = Inr (ret, c2)"
      "chan_inv c2" "frame c c2" "same_marks ?s (senderBuffer c2)"
      "cells (senderBuffer c2) = (cells ?s)(i := sent_cell env c b0 p)"
      "sb_pkt (cells ?s i) = Some p" "h_seqNo (p_header p) = i"
      "set (timerList (senderBuffer c2)) = set (timerList ?s)"
      "ch_out c2 = ch_out c @ [Ev_Send (stamped env c p)]"
      "sb_started (senderBuffer c2) = sb_started ?s"
    using resend_core [OF inv up it] .
  let ?f = "\<lambda>s. s\<lparr> cells := (cells s)(i := (cells s i)\<lparr> sb_retryCnt := sb_retryCnt (cells s i) + 1 \<rparr>),
      totalRetransmitions := totalRetransmitions s + 1, totalTimeouts := totalTimeouts s + 1 \<rparr>"
  let ?b = "(sent_cell env c b0 p)\<lparr> sb_retryCnt := sb_retryCnt b0 + 1 \<rparr>"
  let ?c3 = "upd_sb ?f c2"
  have cells3: "cells (senderBuffer ?c3) = (cells ?s)(i := ?b)"
    by (simp add: c2(6))
  have timers3: "set (timerList (senderBuffer ?c3)) = set (timerList ?s)"
    by (simp add: c2(9))
  have r: "rtt_ok c" "rto c < 15 * TIMER_SECOND_IN_US"
    using inv by (simp_all add: chan_inv_def)
  have eff: "now < effTimer ?b"
    using now rto_word(1) [OF r] r(1) by (simp add: effTimer_def rtt_ok_def rtt_G_def)
  have "sb_inv (senderBuffer ?c3)"
    using c2(3,9) it sb_inv_retry [of "senderBuffer c2" i] by (simp add: chan_inv_def)
  then have "chan_inv ?c3"
    by (intro frame_inv [OF frame_upd_sb c2(3)])
  moreover have "contents ?c3 j = contents c j" for j
    using c2(7) by (auto simp: contents_def cells3 simp del: upd_sb_simps)
  moreover have "timeout_resend env i c = Inr ?c3"
    by (simp add: timeout_resend_def c2(1,2))
  moreover have "same_marks ?s (senderBuffer ?c3)"
    using c2(5) by (simp add: same_marks_def)
  moreover have "sends_ok c ?c3"
  proof (rule sends_ok_one)
    show "ch_out ?c3 = ch_out c @ [Ev_Send (stamped env c p)]" using c2(10) by simp
    show "contents ?c3 (h_seqNo (p_header (stamped env c p))) = Some (unstamp (stamped env c p))"
      by (simp add: contents_def c2(8) cells3 del: upd_sb_simps)
    have "off ?s i \<le> off ?s (maxSent ?s)"
      using inv it sb_invD(7) [of ?s i] by (simp add: chan_inv_def)
    then show "off (senderBuffer ?c3) (h_seqNo (p_header (stamped env c p))) \<le> in_flight ?c3"
      using same_marksD [OF \<open>same_marks ?s (senderBuffer ?c3)\<close>] by (simp add: in_flight_def c2(8) del: upd_sb_simps)
  qed
  ultimately show thesis
    using that [of ?c3] frame_trans [OF c2(4) frame_upd_sb] expired_rearm [OF timers3 cells3 i eff] c2(8,10) by simp
qed

section \<open>The loop\<close>

text \<open>The effect of a run of the loop that leaves the channel alive.\<close>

definition resent :: "int \<Rightarrow> new_channel \<Rightarrow> new_channel \<Rightarrow> bool" where
  "resent now c c' \<longleftrightarrow> chan_inv c' \<and> frame c c' \<and> same_marks (senderBuffer c) (senderBuffer c') \<and>
     (\<forall>j. contents c' j = contents c j) \<and> expired (senderBuffer c') now = {} \<and>
     sends_ok c c' \<and> recv_acks (ch_out c') = recv_acks (ch_out c) \<and>
     (\<exists>es. ch_out c' = ch_out c @ es \<and> distinct (sent_seqs es) \<and> set (sent_seqs es) = due (senderBuffer c) now)"

lemma timeout_dead_total:
  obtains c' where "timeout_dead c = Inr c'" "deadChannel c'"
proof (cases "ch_registered c")
  case True
  obtain pkts b where "collect_undelivered (unat (maxPacket (senderBuffer c) - lastAcked (senderBuffer c)))
      (lastAcked (senderBuffer c) + 1) (cells (senderBuffer c)) = (pkts, b)"
    by force
  with True show thesis
    using that by (simp add: timeout_dead_def notifyDead_def getUndeliveredPackets_def Let_def emit_def)
next
  case False
  then show thesis
    using that by (simp add: timeout_dead_def notifyDead_def)
qed

definition signal_CHF :: "appInt16 \<Rightarrow> new_channel \<Rightarrow> new_channel" where
  "signal_CHF i c = (let b = cells (senderBuffer c) i in
     if sb_retryCnt b > 2 \<and> has_flag (h_flag (p_header (the (sb_pkt b)))) FLAG_CHF
     then c\<lparr> shutDownSentRecv := True, shutDownLock := shutDownLock c + 1 \<rparr> else c)"

lemma signal_CHF_simps [simp]:
  "senderBuffer (signal_CHF i c) = senderBuffer c" "ch_out (signal_CHF i c) = ch_out c" "frame c (signal_CHF i c)"
  by (simp_all add: signal_CHF_def Let_def frame_def)

lemma visit_cases:
  assumes inv: "chan_inv c" and hd: "timerList (senderBuffer c) = i # l"
  shows "timeout_visit env now i c =
    (let b = cells (senderBuffer c) i in
     if i \<notin> expired (senderBuffer c) now then Inr (False, False, c)
     else if sb_ackRcvd b then bind_res (res_sb (restartTimer i now) c) (\<lambda>c'. Inr (True, False, c'))
     else if i = 0 \<and> sb_retryCnt b > 2
       then bind_res (timeout_dead (signal_CHF i c)) (\<lambda>c'. Inr (False, False, c'))
     else bind_res (timeout_resend env i (signal_CHF i c)) (\<lambda>c'. Inr (True, True, c')))"
proof -
  have inv': "sb_inv (senderBuffer c)" using inv by (simp add: chan_inv_def)
  have "i \<in> set (timerList (senderBuffer c))" by (simp add: hd)
  then obtain p where "sb_pkt (cells (senderBuffer c) i) = Some p" "h_seqNo (p_header p) = i"
    using sb_invD(3,7) [OF inv'] by blast
  then show ?thesis
    by (cases "i = 0") (simp_all add: timeout_visit_def Let_def expired_def hd signal_CHF_def)
qed

lemma timeout_loop_ok:
  assumes "chan_inv c" "net_up env" "0 < now" "now \<le> e_now env"
    and "card (expired (senderBuffer c) now) < fuel"
  shows "\<exists>occ' c'. timeout_loop fuel env now occ c = Inr (occ', c') \<and>
    (deadChannel c' \<or> (resent now c c' \<and> (occ' \<longleftrightarrow> occ \<or> due (senderBuffer c) now \<noteq> {})))"
  using assms(1,5)
proof (induction fuel arbitrary: c occ)
  case 0
  then show ?case by simp
next
  case (Suc n)
  let ?s = "senderBuffer c"
  have fin: "finite (expired ?s now)" by (simp add: expired_def)
  have tok: "timers_ok ?s" using Suc.prems(1) sb_invD(6) by (simp add: chan_inv_def)
  have stop: ?case if "expired ?s now = {}" "timeout_loop (Suc n) env now occ c = Inr (occ, c)"
    using that Suc.prems(1) by (auto simp: resent_def due_def same_marks_def sends_ok_same)
  have go: ?case
    if run: "timeout_loop (Suc n) env now occ c = timeout_loop n env now (occ \<or> sent) c1"
      and c1: "chan_inv c1" "frame c c1" "expired (senderBuffer c1) now = expired ?s now - {i}"
        "due (senderBuffer c1) now = due ?s now - {i}" "same_marks ?s (senderBuffer c1)"
        "\<And>j. contents c1 j = contents c j" "sends_ok c c1"
      and es: "ch_out c1 = ch_out c @ es1" "sent_seqs es1 = (if sent then [i] else [])" "recv_acks es1 = []"
      and i: "i \<in> expired ?s now" "sent \<longleftrightarrow> i \<in> due ?s now" for c1 sent i es1
  proof -
    have "card (expired (senderBuffer c1) now) < n"
      using Suc.prems(2) i(1) fin card_Diff1_less [OF fin i(1)] by (simp add: c1(3))
    then obtain occ' c' where IH: "timeout_loop n env now (occ \<or> sent) c1 = Inr (occ', c')"
        "deadChannel c' \<or> (resent now c1 c' \<and> (occ' \<longleftrightarrow> (occ \<or> sent) \<or> due (senderBuffer c1) now \<noteq> {}))"
      using Suc.IH [OF c1(1)] by blast
    have res: "resent now c c'" if r: "resent now c1 c'"
    proof -
      obtain es where e: "ch_out c' = ch_out c1 @ es" "distinct (sent_seqs es)"
          "set (sent_seqs es) = due (senderBuffer c1) now"
        using r by (auto simp: resent_def)
      have "distinct (sent_seqs (es1 @ es))" "set (sent_seqs (es1 @ es)) = due ?s now"
        using e es(2) i(2) c1(4) by auto
      moreover have "ch_out c' = ch_out c @ (es1 @ es)"
        using e(1) es(1) by simp
      moreover have "same_marks ?s (senderBuffer c')"
        using r c1(5) by (simp add: resent_def same_marks_def)
      moreover have "sends_ok c c'"
        using r by (intro sends_ok_trans [OF c1(7)]) (auto simp: resent_def in_flight_def same_marks_def off_def)
      moreover have "recv_acks (ch_out c') = recv_acks (ch_out c)"
        using r es by (simp add: resent_def)
      ultimately show ?thesis
        using r c1(2,6) unfolding resent_def by (metis frame_trans)
    qed
    show ?thesis
      using IH res i(2) c1(4) run by auto
  qed
  show ?case
  proof (cases "timerList ?s")
    case Nil
    then show ?thesis by (intro stop) (simp_all add: expired_def)
  next
    case (Cons i l)
    note visit = visit_cases [OF Suc.prems(1) Cons, of env now, unfolded Let_def]
    show ?thesis
    proof (cases "i \<in> expired ?s now")
      case False
      moreover have "sb_time (cells ?s i) \<noteq> 0"
        using Suc.prems(1) sb_invD(8) [of ?s i] by (simp add: chan_inv_def Cons)
      ultimately have "now < effTimer (cells ?s i)"
        by (auto simp: expired_def Cons)
      then have "expired ?s now = {}"
        by (rule first_not_expired [OF tok Cons])
      then show ?thesis
        by (rule stop) (simp add: Cons visit \<open>i \<notin> expired ?s now\<close>)
    next
      case True
      show ?thesis
      proof (cases "sb_ackRcvd (cells ?s i)")
        case True
        obtain c1 where c1: "res_sb (restartTimer i now) c = Inr c1" "chan_inv c1" "frame c c1" "ch_out c1 = ch_out c"
            "expired (senderBuffer c1) now = expired ?s now - {i}" "due (senderBuffer c1) now = due ?s now - {i}"
            "same_marks ?s (senderBuffer c1)" "\<forall>j. contents c1 j = contents c j"
          using restart_visit [OF Suc.prems(1) \<open>i \<in> expired ?s now\<close> assms(3)] .
        show ?thesis
          by (rule go [of False c1 i "[]"])
            (use c1 True \<open>i \<in> expired ?s now\<close> in \<open>simp_all add: Cons visit due_def sends_ok_same\<close>)
      next
        case False
        note F = False
        show ?thesis
        proof (cases "i = 0 \<and> sb_retryCnt (cells ?s i) > 2")
          case True
          obtain c1 where "timeout_dead (signal_CHF i c) = Inr c1" "deadChannel c1"
            by (rule timeout_dead_total)
          then have "timeout_visit env now i c = Inr (False, False, c1)"
            using True F \<open>i \<in> expired ?s now\<close> unfolding visit by auto
          then have "timeout_loop (Suc n) env now occ c = Inr (occ, c1)"
            by (simp add: Cons)
          then show ?thesis using \<open>deadChannel c1\<close> by blast
        next
          case False
          have inv1: "chan_inv (signal_CHF i c)"
            using frame_inv [OF signal_CHF_simps(3) Suc.prems(1)] Suc.prems(1) by (simp add: chan_inv_def)
          have ex1: "i \<in> expired (senderBuffer (signal_CHF i c)) now"
            using \<open>i \<in> expired ?s now\<close> by simp
          obtain c1 where c1: "timeout_resend env i (signal_CHF i c) = Inr c1" "chan_inv c1" "frame (signal_CHF i c) c1"
              "\<exists>p. ch_out c1 = ch_out (signal_CHF i c) @ [Ev_Send p] \<and> h_seqNo (p_header p) = i"
              "expired (senderBuffer c1) now = expired (senderBuffer (signal_CHF i c)) now - {i}"
              "due (senderBuffer c1) now = due (senderBuffer (signal_CHF i c)) now - {i}"
              "same_marks (senderBuffer (signal_CHF i c)) (senderBuffer c1)"
              "\<forall>j. contents c1 j = contents (signal_CHF i c) j" "sends_ok (signal_CHF i c) c1"
            using resend_visit [OF inv1 assms(2) ex1 assms(4)] .
          obtain p where p: "ch_out c1 = ch_out c @ [Ev_Send p]" "h_seqNo (p_header p) = i"
            using c1(4) by auto
          have run: "timeout_loop (Suc n) env now occ c = timeout_loop n env now (occ \<or> True) c1"
          proof -
            have "timeout_visit env now i c = Inr (True, True, c1)"
              using \<open>i \<in> expired ?s now\<close> F False c1(1) unfolding visit by auto
            then show ?thesis by (simp add: Cons)
          qed
          show ?thesis
            by (rule go [of True c1 i "[Ev_Send p]", OF run c1(2) frame_trans [OF signal_CHF_simps(3) c1(3)]])
              (use c1(5-9) p F \<open>i \<in> expired ?s now\<close> in \<open>simp_all add: due_def contents_def sends_ok_def\<close>)
        qed
      qed
    qed
  qed
qed

section \<open>Property\<close>

lemma sent_seqs_Send: "Ev_Send p \<in> set es \<Longrightarrow> \<exists>i is. sent_seqs es = i # is"
  by (induction es rule: sent_seqs.induct) auto

lemma timeoutEvent_ok:
  assumes "chan_inv c" "net_up env" "0 < now" "now \<le> e_now env"
    and "\<not> shutDown_complete c" "\<not> deadChannel c"
    and "length (timerList (senderBuffer c)) < fuel"
  shows "\<exists>c'. timeoutEvent fuel env now c = Inr (0, c') \<and>
    (deadChannel c' \<or>
     chan_inv c' \<and> expired (senderBuffer c') now = {} \<and> (\<forall>i. contents c' i = contents c i) \<and>
     same_marks (senderBuffer c) (senderBuffer c') \<and>
     sends_ok c c' \<and> recv_acks (ch_out c') = recv_acks (ch_out c) \<and> recover c' = recover c \<and> recieverBuff c' = recieverBuff c \<and>
     (\<exists>es. ch_out c' = ch_out c @ es \<and> distinct (sent_seqs es) \<and>
           set (sent_seqs es) = due (senderBuffer c) now) \<and>
     (due (senderBuffer c) now \<noteq> {} \<longrightarrow> cwnd c' = 1 \<and> 2 \<le> ssthresh c'))"
proof -
  have "card (expired (senderBuffer c) now) \<le> card (set (timerList (senderBuffer c)))"
    by (intro card_mono) (auto simp: expired_def)
  also have "\<dots> \<le> length (timerList (senderBuffer c))" by (rule card_length)
  finally have "card (expired (senderBuffer c) now) < fuel"
    using assms(7) by simp
  then obtain occ c1 where run: "timeout_loop fuel env now False c = Inr (occ, c1)"
    and c1: "deadChannel c1 \<or> (resent now c c1 \<and> (occ \<longleftrightarrow> due (senderBuffer c) now \<noteq> {}))"
    using timeout_loop_ok [OF assms(1-4), of fuel False] by auto
  define t where "t = (of_int (trunc (cwnd c1 / 2)) :: appInt16)"
  define c2 where "c2 = c1\<lparr> ssthresh := (if t < 2 then 2 else t) \<rparr>"
  have upd: "updateCwnd_new SET_TO_ONE c2 = c2\<lparr> cwnd := 1, ch_out := ch_out (updateCwnd_new SET_TO_ONE c2) \<rparr>"
    "\<exists>es. ch_out (updateCwnd_new SET_TO_ONE c2) = ch_out c1 @ es \<and> sent_seqs es = []"
    "recv_acks (ch_out (updateCwnd_new SET_TO_ONE c2)) = recv_acks (ch_out c1)"
    by (simp_all add: updateCwnd_new_def updateCwnd_def clamp_cwnd_def MAX_CONG_WINDOW_def emit_def Let_def c2_def)
  have final: "timeoutEvent fuel env now c = Inr (0, if occ then updateCwnd_new SET_TO_ONE c2 else c1)"
    using assms(5,6) run by (simp add: timeoutEvent_def c2_def t_def Let_def)
  let ?c' = "if occ then updateCwnd_new SET_TO_ONE c2 else c1"
  have same: "senderBuffer ?c' = senderBuffer c1" "deadChannel ?c' = deadChannel c1"
    by (subst upd, simp add: c2_def)+
  show ?thesis
  proof (cases "deadChannel c1")
    case True
    then show ?thesis using final same(2) by blast
  next
    case False
    then have res: "resent now c c1" and occ: "occ \<longleftrightarrow> due (senderBuffer c) now \<noteq> {}"
      using c1 by auto
    have "chan_inv ?c'"
      using res by (subst upd) (simp add: resent_def chan_inv_def cwnd_ok_def rtt_ok_def c2_def MAX_CONG_WINDOW_def)
    moreover obtain es where es: "ch_out c1 = ch_out c @ es" "distinct (sent_seqs es)"
        "set (sent_seqs es) = due (senderBuffer c) now"
      using res by (auto simp: resent_def)
    have "\<exists>es. ch_out ?c' = ch_out c @ es \<and> distinct (sent_seqs es) \<and> set (sent_seqs es) = due (senderBuffer c) now"
    proof (cases occ)
      case True
      obtain es' where "ch_out (updateCwnd_new SET_TO_ONE c2) = ch_out c1 @ es'" "sent_seqs es' = []"
        using upd(2) by blast
      then show ?thesis using es True by (intro exI [of _ "es @ es'"]) simp
    qed (use es in auto)
    moreover have "due (senderBuffer c) now \<noteq> {} \<longrightarrow> cwnd ?c' = 1 \<and> 2 \<le> ssthresh ?c'"
      using occ by (subst (1 2) upd) (auto simp: c2_def not_less)
    moreover have "sends_ok c ?c'"
    proof (rule sends_ok_trans)
      show "sends_ok c c1" using res by (simp add: resent_def)
      obtain es' where es': "ch_out ?c' = ch_out c1 @ es'" "sent_seqs es' = []"
        using upd(2) by (cases occ) auto
      have "Ev_Send p \<notin> set es'" for p using es'(2) sent_seqs_Send by fastforce
      then show "sends_ok c1 ?c'" by (rule sends_ok_silent [OF es'(1)])
    qed (simp_all only: contents_def in_flight_def same(1) le_refl)
    moreover have "recv_acks (ch_out ?c') = recv_acks (ch_out c)"
      using res upd(3) by (simp add: resent_def)
    moreover have keep: "recover (updateCwnd_new t x) = recover x" "recieverBuff (updateCwnd_new t x) = recieverBuff x"
      for t and x :: new_channel
      by (simp_all add: updateCwnd_new_def updateCwnd_def emit_def Let_def)
    have fr: "frame c c1" using res by (simp add: resent_def)
    moreover have "recover ?c' = recover c" "recieverBuff ?c' = recieverBuff c"
      by (simp_all add: keep c2_def frameD(11,13) [OF fr])
    moreover have "expired (senderBuffer ?c') now = {}" "\<forall>i. contents ?c' i = contents c i"
      "same_marks (senderBuffer c) (senderBuffer ?c')"
      using res unfolding resent_def contents_def same(1) by blast+
    ultimately show ?thesis
      using final by (intro exI [of _ ?c'] conjI disjI2) assumption+
  qed
qed


text \<open>A channel that has one packet in flight, sent at time 1000.\<close>

definition sample_sent :: new_channel where
  "sample_sent = snd (projr (sendPacket env0 new_Packet (init_new_channel env0 1 2)))"

definition env1 :: env where
  "env1 = env0\<lparr> e_now := 2000000 \<rparr>"

lemma sample_sent_ok: "chan_inv sample_sent" "\<not> shutDown_complete sample_sent" "\<not> deadChannel sample_sent"
  "in_flight sample_sent = 1"
proof -
  let ?i = "init_new_channel env0 1 2"
  let ?c = "upd_sb (\<lambda>s. s\<lparr> sb_started := True \<rparr>) ?i"
  let ?p = "new_Packet\<lparr> p_header := (p_header new_Packet)\<lparr> h_flag := h_flag (p_header new_Packet) OR FLAG_CHS \<rparr> \<rparr>"
  note inits = init_new_channel_def init_sack_chan_def init_chan_def chan.defs sack_chan.defs
  have s: "senderBuffer ?i = new_SendingBuffer" "\<not> closed ?i" "\<not> deadChannel ?i" "\<not> shutDownSent ?i"
    "cwnd ?i = 1" "senderWindow ?i = 1"
    by (simp_all add: inits)
  have inv: "chan_inv ?c"
    using init_new_channel_inv [of env0 1 2]
    by (intro frame_inv [OF frame_upd_sb]) (auto simp: chan_inv_def sb_inv_started)
  have room: "unacked ?c = 0" "in_flight ?c = 0"
    by (simp_all add: unacked_def in_flight_def off_def s new_SendingBuffer_def)
  have "trunc (3 / 2) = 1" by code_simp
  then have "cwnd16 ?c = 1" by (simp add: cwnd16_def upd_sb_def s)
  then have wnd: "send_wnd ?c = 1"
    by (simp add: send_wnd_def upd_sb_def s)
  obtain c3 where c3: "bind_res (res_sb (addBuffer ?p) ?c) (\<lambda>c2. bind_res (sendNew env0 1 c2) (\<lambda>(_, c3). Inr (0 :: int, c3))) = Inr (0, c3)"
      "chan_inv c3" "frame ?c c3" "in_flight c3 = in_flight ?c + min 1 (send_wnd ?c - in_flight ?c)"
    using enqueue_ok [OF inv net_up_env0, of ?p] room by auto
  have "sendPacket env0 new_Packet ?i = Inr (0, c3)"
    using c3(1) by (simp add: sendPacket_def s has_CSN Let_def) (simp add: new_SendingBuffer_def)
  then have eq: "sample_sent = c3" by (simp add: sample_sent_def)
  have fr: "frame ?i c3" by (rule frame_trans [OF frame_upd_sb c3(3)])
  show "chan_inv sample_sent" "\<not> shutDown_complete sample_sent" "\<not> deadChannel sample_sent" "in_flight sample_sent = 1"
    using c3(2,4) s room wnd unfolding eq by (simp_all add: shutDown_complete_def frameD [OF fr])
qed


end
