(* ===== verification/NewChannelAck.thy ===== *)
theory NewChannelAck
  imports NewChannelTimeout
begin

text \<open>
  Acknowledgements in \<open>NewChannelHandler\<close>.  An acknowledgement that a correct
  receiver can have sent moves \<open>lastAcked\<close> to its number, releases exactly the
  cells up to it and the selectively acknowledged one, tells the parent of the
  released data packets in order, keeps the invariant and never trips an
  assertion.  An acknowledgement of packets that were queued and not yet sent
  aborts the process, and a stale one hides the fresh ones of its batch.
\<close>

section \<open>Acknowledgements passed to the parent\<close>

definition data_ack :: "Packet option \<Rightarrow> (appInt16 \<times> appInt16 \<times> appInt16) list" where
  "data_ack po = (case po of None \<Rightarrow> [] | Some p \<Rightarrow>
     if has_flag (h_flag (p_header p)) FLAG_DAT
     then [(h_fingerPrint (p_header p), h_flowId (p_header p), h_flowSeqNo (p_header p))] else [])"

text \<open>The acknowledgements due for \<open>n\<close> cells from \<open>i\<close> on.\<close>

fun acks_from :: "(appInt16 \<Rightarrow> Packet option) \<Rightarrow> nat \<Rightarrow> appInt16 \<Rightarrow> (appInt16 \<times> appInt16 \<times> appInt16) list" where
  "acks_from P 0 i = []"
| "acks_from P (Suc n) i = data_ack (P i) @ acks_from P n (i + 1)"

section \<open>Steps that release nothing\<close>

definition quiet :: "new_channel \<Rightarrow> new_channel \<Rightarrow> bool" where
  "quiet c c' \<longleftrightarrow> chan_inv c' \<and> contents c' = contents c \<and>
     lastAcked (senderBuffer c') = lastAcked (senderBuffer c) \<and>
     maxPacket (senderBuffer c') = maxPacket (senderBuffer c) \<and>
     in_flight c \<le> in_flight c' \<and> recv_acks (ch_out c') = recv_acks (ch_out c) \<and> sends_ok c c'"

lemma quiet_refl: "chan_inv c \<Longrightarrow> quiet c c"
  by (simp add: quiet_def sends_ok_same)

lemma quiet_trans: "quiet c d \<Longrightarrow> quiet d e \<Longrightarrow> quiet c e"
  unfolding quiet_def by (auto intro: sends_ok_trans)

lemma quiet_inv: "quiet c c' \<Longrightarrow> chan_inv c'"
  by (simp add: quiet_def)

lemma recv_acks_departures [simp]: "recv_acks (departures env c n i) = []"
  by (induction n arbitrary: i) simp_all

lemma sendNew_quiet:
  assumes "chan_inv c" "net_up env"
  obtains c' where "drop_count (sendNew env cnt c) = Inr c'" "quiet c c'" "frame c c'"
proof -
  obtain m c' where c': "sendNext env cnt c = Inr (of_nat m, c')" "chan_inv c'" "frame c c'" "in_flight c \<le> in_flight c'"
      "lastAcked (senderBuffer c') = lastAcked (senderBuffer c)" "maxPacket (senderBuffer c') = maxPacket (senderBuffer c)"
      "\<forall>i. contents c' i = contents c i" "ch_out c' = ch_out c @ departures env c m (maxSent (senderBuffer c) + 1)"
      "sends_ok c c'"
    by (rule sendNext_quietly [OF assms, of cnt]) blast
  show thesis
    by (rule that [of c']) (use c' in \<open>simp_all add: quiet_def sendNew_def drop_count_def fun_eq_iff\<close>)
qed

lemma resend_quiet:
  assumes "chan_inv c" "net_up env" "i \<in> set (timerList (senderBuffer c))"
  obtains c1 ret c2 where "res_sb (stopTimer i) c = Inr c1" "sendSeq env i c1 = Inr (ret, c2)" "quiet c c2" "frame c c2"
proof -
  obtain c1 ret c2 p b where c2: "res_sb (stopTimer i) c = Inr c1" "sendSeq env i c1 = Inr (ret, c2)"
      "chan_inv c2" "frame c c2" "same_marks (senderBuffer c) (senderBuffer c2)"
      "cells (senderBuffer c2) = (cells (senderBuffer c))(i := sent_cell env c b p)"
      "sb_pkt (cells (senderBuffer c) i) = Some p" "h_seqNo (p_header p) = i"
      "set (timerList (senderBuffer c2)) = set (timerList (senderBuffer c))"
      "ch_out c2 = ch_out c @ [Ev_Send (stamped env c p)]"
      "sb_started (senderBuffer c2) = sb_started (senderBuffer c)"
    using resend_core [OF assms] .
  have ct: "contents c2 = contents c"
    using c2(7) by (auto simp: contents_def c2(6))
  have "off (senderBuffer c) i \<le> in_flight c"
    using assms(1,3) sb_invD(7) [of "senderBuffer c" i] by (simp add: chan_inv_def in_flight_def)
  then have "sends_ok c c2"
    using same_marksD [OF c2(5)] c2(7,8)
    by (intro sends_ok_one [OF c2(10)]) (simp_all add: ct in_flight_def, simp add: contents_def)
  then have "quiet c c2"
    using c2(3,5,10) same_marksD [OF c2(5)] ct by (simp add: quiet_def in_flight_def)
  then show thesis using that c2 by metis
qed

lemma quiet_fields [simp]:
  "quiet c (c\<lparr> recover := a \<rparr>) = chan_inv c" "quiet c (c\<lparr> ch_status := b \<rparr>) = chan_inv c"
  "quiet c (c\<lparr> duplicateCount := d \<rparr>) = chan_inv c" "quiet c (c\<lparr> multiRecoverIndex := e \<rparr>) = chan_inv c"
  "quiet c (c\<lparr> recoverIndex := e \<rparr>) = chan_inv c" "quiet c (c\<lparr> ssthresh := e \<rparr>) = chan_inv c"
  "quiet c (c\<lparr> senderWindow := e \<rparr>) = chan_inv c"
  by (simp_all add: quiet_def chan_inv_def cwnd_ok_def rtt_ok_def contents_def fun_eq_iff in_flight_def sends_ok_same)

lemma chan_inv_fields [simp]:
  "chan_inv (c\<lparr> recover := a \<rparr>) = chan_inv c" "chan_inv (c\<lparr> ch_status := b \<rparr>) = chan_inv c"
  "chan_inv (c\<lparr> duplicateCount := d \<rparr>) = chan_inv c" "chan_inv (c\<lparr> multiRecoverIndex := e \<rparr>) = chan_inv c"
  "chan_inv (c\<lparr> recoverIndex := e \<rparr>) = chan_inv c" "chan_inv (c\<lparr> ssthresh := e \<rparr>) = chan_inv c"
  "chan_inv (c\<lparr> senderWindow := e \<rparr>) = chan_inv c"
  by (simp_all add: chan_inv_def cwnd_ok_def rtt_ok_def)

text \<open>Statistics do not matter.\<close>

lemma sb_inv_counters:
  "sb_inv (count_dup s) = sb_inv s"
  "sb_inv (s\<lparr> totalSuccessfullySent := a \<rparr>) = sb_inv s"
  by (simp_all add: count_dup_def sb_inv_def off_def timers_ok_def)

lemma quiet_count:
  assumes "chan_inv c"
  shows "quiet c (upd_sb count_dup c)" "quiet c (upd_sb (\<lambda>s. s\<lparr> totalSuccessfullySent := f s \<rparr>) c)"
  using assms frame_inv [OF frame_upd_sb assms, of count_dup]
    frame_inv [OF frame_upd_sb assms, of "\<lambda>s. s\<lparr> totalSuccessfullySent := f s \<rparr>"]
  by (simp_all add: quiet_def contents_def fun_eq_iff in_flight_def off_def chan_inv_def sb_inv_counters sends_ok_same)
    (simp_all add: count_dup_def)

lemma updateCwnd_new_props:
  "senderBuffer (updateCwnd_new t c) = senderBuffer c" "rto (updateCwnd_new t c) = rto c"
  "srtt (updateCwnd_new t c) = srtt c" "rttvar (updateCwnd_new t c) = rttvar c"
  "sendSeqLocked (updateCwnd_new t c) = sendSeqLocked c" "recover (updateCwnd_new t c) = recover c"
  "cwnd (updateCwnd_new t c) = clamp_cwnd (cwnd_step t (cwnd c))"
  "recv_acks (ch_out (updateCwnd_new t c)) = recv_acks (ch_out c)"
  "ch_status (updateCwnd_new t c) = ch_status c" "ssthresh (updateCwnd_new t c) = ssthresh c"
  by (simp_all add: updateCwnd_new_def updateCwnd_def emit_def Let_def)

lemma updateCwnd_silent: "silent c (updateCwnd_new t c)"
  unfolding silent_def by (simp add: updateCwnd_new_def updateCwnd_def emit_def Let_def)

lemma quiet_updateCwnd: "chan_inv c \<Longrightarrow> quiet c (updateCwnd_new t c)"
  by (simp add: quiet_def silent_sends_ok updateCwnd_silent chan_inv_def cwnd_ok_def rtt_ok_def updateCwnd_new_props clamp_cwnd_bounds
      contents_def fun_eq_iff in_flight_def)

lemma restart_range_quiet:
  assumes "chan_inv c" "0 < t"
    and "0 < off (senderBuffer c) i" "off (senderBuffer c) i + n \<le> Suc (in_flight c)"
  shows "\<exists>c'. restart_range n i t c = Inr c' \<and> quiet c c' \<and> frame c c'"
  using assms
proof (induction n arbitrary: i c)
  case 0
  then show ?case by (simp add: quiet_refl)
next
  case (Suc n)
  let ?s = "senderBuffer c"
  have inv': "sb_inv ?s" using Suc.prems by (simp add: chan_inv_def)
  note D = sb_invD [OF inv']
  have "off ?s i < 65535" using Suc.prems(4) D(1,2) by (simp add: in_flight_def)
  then have o: "off ?s (i + 1) = Suc (off ?s i)" by (rule off_succ)
  show ?case
  proof (cases "sb_pkt (cells ?s i) = None")
    case True
    then show ?thesis
      using Suc.IH [OF Suc.prems(1,2), of "i + 1"] Suc.prems(4) o by simp
  next
    case False
    then have it: "i \<in> set (timerList ?s)"
      using D(7) [of i] Suc.prems(4) by (simp add: in_flight_def)
    obtain p where p: "sb_pkt (cells ?s i) = Some p" "h_seqNo (p_header p) = i"
      using False D(3) by blast
    obtain s' where s': "restartTimer i t ?s = Inr s'" "timers_ok s'" "set (timerList s') = set (timerList ?s)"
        "cells s' = (cells ?s)(i := (cells ?s i)\<lparr> sb_time := t \<rparr>)"
        "s' = ?s\<lparr> cells := cells s', timerList := timerList s' \<rparr>"
      using restartTimer_ok [OF D(6) it] .
    have m: "same_marks ?s s'" by (subst s'(5)) (simp add: same_marks_def)
    have "sb_inv s'"
      by (rule sb_inv_update_sent [OF inv' it m s'(4), of p]) (use p D(8) [OF it] s'(2,3) Suc.prems(2) in simp_all)
    moreover have fr: "frame c (c\<lparr> senderBuffer := s' \<rparr>)" by (simp add: frame_def)
    ultimately have "chan_inv (c\<lparr> senderBuffer := s' \<rparr>)"
      using frame_inv [OF fr Suc.prems(1)] by simp
    then have q: "quiet c (c\<lparr> senderBuffer := s' \<rparr>)"
      using same_marksD [OF m] by (simp add: quiet_def contents_def fun_eq_iff s'(4) in_flight_def sends_ok_same)
    obtain c' where c': "restart_range n (i + 1) t (c\<lparr> senderBuffer := s' \<rparr>) = Inr c'"
        "quiet (c\<lparr> senderBuffer := s' \<rparr>) c'" "frame (c\<lparr> senderBuffer := s' \<rparr>) c'"
      using Suc.IH [OF quiet_inv [OF q] Suc.prems(2), of "i + 1"] Suc.prems(4) o same_marksD [OF m]
      by (auto simp: in_flight_def)
    then show ?thesis
      using False quiet_trans [OF q c'(2)] frame_trans [OF fr c'(3)] by (auto simp: res_sb_def s'(1))
  qed
qed

section \<open>Releasing cells\<close>

text \<open>The buffer seen with an earlier \<open>lastAcked\<close>.\<close>

definition view :: "appInt16 \<Rightarrow> new_channel \<Rightarrow> SendingBuffer" where
  "view la c = (senderBuffer c)\<lparr> lastAcked := la \<rparr>"

lemma view_simps [simp]:
  "cells (view la c) = cells (senderBuffer c)" "timerList (view la c) = timerList (senderBuffer c)"
  "maxSent (view la c) = maxSent (senderBuffer c)" "maxPacket (view la c) = maxPacket (senderBuffer c)"
  "lastAcked (view la c) = la" "timers_ok (view la c) = timers_ok (senderBuffer c)"
  by (simp_all add: view_def timers_ok_def)

lemma view_self [simp]: "view (lastAcked (senderBuffer c)) c = senderBuffer c"
  by (simp add: view_def)

lemma recv_acks_free [simp]: "recv_acks (ch_out (ch_freePacket p c)) = recv_acks (ch_out c) @ data_ack (Some p)"
  by (simp add: ch_freePacket_def data_ack_def emit_def)

lemma free_simps [simp]: "senderBuffer (ch_freePacket p c) = senderBuffer c" "frame c (ch_freePacket p c)"
  by (simp_all add: ch_freePacket_def emit_def frame_def)

text \<open>Stop the timer of one cell, free its packet, reset the cell.\<close>

lemma release_one:
  assumes inv: "sb_inv (view la c)" and i: "sb_pkt (cells (senderBuffer c) i) = Some p"
    and sent: "off (view la c) i \<le> off (view la c) (maxSent (senderBuffer c))"
    and fr: "\<And>x. frame x (g x)" and buf: "\<And>x. senderBuffer (g x) = senderBuffer x"
    and out: "\<And>x. ch_out (g x) = ch_out x"
  obtains c1 c' where "res_sb (stopTimer i) c = Inr c1" "c' = upd_sb (reset_cell i) (ch_freePacket p (g c1))"
    "sb_inv (view la c')" "frame c c'" "lastAcked (senderBuffer c') = lastAcked (senderBuffer c)"
    "same_marks (view la c) (view la c')" "cells (senderBuffer c') = (cells (senderBuffer c))(i := sbuff_reset)"
    "recv_acks (ch_out c') = recv_acks (ch_out c) @ data_ack (Some p)"
    "sb_started (senderBuffer c') = sb_started (senderBuffer c)" "silent c c'"
proof -
  let ?s = "senderBuffer c"
  note D = sb_invD [OF inv]
  have it: "i \<in> set (timerList ?s)"
    using D(7) [of i] i sent by simp
  have tok: "timers_ok ?s" using D(6) by simp
  obtain s1 where s1: "stopTimer i ?s = Inr s1" "timers_ok s1" "timerList s1 = filter (\<lambda>j. j \<noteq> i) (timerList ?s)"
      "cells s1 = (cells ?s)(i := (cells ?s i)\<lparr> sb_time := 0, sb_rto := 0 \<rparr>)"
      "s1 = ?s\<lparr> cells := cells s1, timerList := timerList s1 \<rparr>"
    using stopTimer_ok [OF tok it] .
  have m1: "lastAcked s1 = lastAcked ?s" "maxSent s1 = maxSent ?s" "maxPacket s1 = maxPacket ?s"
    "sb_started s1 = sb_started ?s"
    by (subst s1(5), simp)+
  let ?c1 = "c\<lparr> senderBuffer := s1 \<rparr>"
  let ?c' = "upd_sb (reset_cell i) (ch_freePacket p (g ?c1))"
  have sb': "senderBuffer ?c' = reset_cell i s1" by (simp add: buf)
  have m: "same_marks (view la c) (view la ?c')"
    using m1 by (simp add: same_marks_def sb' reset_cell_def del: upd_sb_simps)
  have cells': "cells (senderBuffer ?c') = (cells ?s)(i := sbuff_reset)"
    by (simp add: sb' reset_cell_def s1(4) del: upd_sb_simps)
  have "sb_inv (view la ?c')"
    by (rule sb_inv_release [OF inv, of i]) (use it m cells' s1(3) in \<open>simp_all add: sb' reset_cell_def del: upd_sb_simps\<close>)
  moreover have "frame c ?c'"
    by (rule frame_trans [OF _ frame_trans [OF fr frame_trans [OF free_simps(2) frame_upd_sb]]]) (simp add: frame_def)
  moreover have "silent c ?c'"
    by (simp add: silent_def ch_freePacket_def emit_def out)
  ultimately show thesis
    using that [of ?c1 ?c'] m cells' s1(1) m1 by (simp add: res_sb_def reset_cell_def out buf)
qed

definition signal_acked :: "Packet \<Rightarrow> new_channel \<Rightarrow> new_channel" where
  "signal_acked p c1 = (if shutDownSent c1 \<and> has_flag (h_flag (p_header p)) FLAG_CHF
     then c1\<lparr> shutDownSentRecv := True, shutDownLock := shutDownLock c1 + 1 \<rparr> else c1)"

lemma signal_acked_simps:
  "frame x (signal_acked p x)" "senderBuffer (signal_acked p x) = senderBuffer x" "ch_out (signal_acked p x) = ch_out x"
  by (simp_all add: signal_acked_def frame_def)

lemma same_marks_trans: "same_marks a b \<Longrightarrow> same_marks b c \<Longrightarrow> same_marks a c"
  by (simp add: same_marks_def)

lemma acks_from_cong:
  "(\<And>j. j < n \<Longrightarrow> P (i + of_nat j) = Q (i + of_nat j)) \<Longrightarrow> acks_from P n i = acks_from Q n i"
proof (induction n arbitrary: i)
  case (Suc n)
  have "acks_from P n (i + 1) = acks_from Q n (i + 1)"
    using Suc.prems [of "Suc _"] by (intro Suc.IH) (simp add: add.assoc)
  then show ?case using Suc.prems [of 0] by simp
qed simp

definition pkts_of :: "new_channel \<Rightarrow> appInt16 \<Rightarrow> Packet option" where
  "pkts_of c i = sb_pkt (cells (senderBuffer c) i)"

lemma release_acked_ok:
  assumes "sb_inv (view la c)" "0 < off (view la c) i"
    and "off (view la c) i + n \<le> Suc (off (view la c) (maxSent (senderBuffer c)))"
  shows "\<exists>c'. release_acked n i c = Inr c' \<and> sb_inv (view la c') \<and> frame c c' \<and>
    lastAcked (senderBuffer c') = lastAcked (senderBuffer c) \<and> same_marks (view la c) (view la c') \<and>
    (\<forall>j. pkts_of c' j = (if off (view la c) i \<le> off (view la c) j \<and> off (view la c) j < off (view la c) i + n
                         then None else pkts_of c j)) \<and>
    sb_started (senderBuffer c') = sb_started (senderBuffer c) \<and>
    recv_acks (ch_out c') = recv_acks (ch_out c) @ acks_from (pkts_of c) n i \<and> silent c c'"
  using assms
proof (induction n arbitrary: i c)
  case 0
  then show ?case by (auto simp: same_marks_def silent_same)
next
  case (Suc n)
  let ?o = "off (view la c)"
  note D = sb_invD [OF Suc.prems(1)]
  have "?o i < 65535" using Suc.prems(3) D(1,2) by simp
  then have o1: "?o (i + 1) = Suc (?o i)" by (rule off_succ)
  show ?case
  proof (cases "sb_pkt (cells (senderBuffer c) i)")
    case None
    obtain c' where "release_acked n (i + 1) c = Inr c'" "sb_inv (view la c')" "frame c c'"
        "lastAcked (senderBuffer c') = lastAcked (senderBuffer c)" "same_marks (view la c) (view la c')"
        "\<forall>j. pkts_of c' j = (if ?o (i + 1) \<le> ?o j \<and> ?o j < ?o (i + 1) + n then None else pkts_of c j)"
        "sb_started (senderBuffer c') = sb_started (senderBuffer c)"
        "recv_acks (ch_out c') = recv_acks (ch_out c) @ acks_from (pkts_of c) n (i + 1)" "silent c c'"
      using Suc.IH [OF Suc.prems(1), of "i + 1"] Suc.prems(3) o1 by auto
    moreover have "pkts_of c j = None" if "?o i = ?o j" for j
      using that None off_inj [of "view la c" i j] by (simp add: pkts_of_def)
    ultimately show ?thesis
      using None by (intro exI [of _ c'])
        (auto simp: o1 data_ack_def pkts_of_def [of c i] le_less Suc_le_eq)
  next
    case (Some p)
    have sent: "?o i \<le> ?o (maxSent (senderBuffer c))" using Suc.prems(3) by simp
    obtain c1 c2 where c2: "res_sb (stopTimer i) c = Inr c1" "c2 = upd_sb (reset_cell i) (ch_freePacket p (signal_acked p c1))"
        "sb_inv (view la c2)" "frame c c2" "lastAcked (senderBuffer c2) = lastAcked (senderBuffer c)"
        "same_marks (view la c) (view la c2)" "cells (senderBuffer c2) = (cells (senderBuffer c))(i := sbuff_reset)"
        "recv_acks (ch_out c2) = recv_acks (ch_out c) @ data_ack (Some p)"
        "sb_started (senderBuffer c2) = sb_started (senderBuffer c)" "silent c c2"
      using release_one [OF Suc.prems(1) Some sent signal_acked_simps] .
    note M = same_marksD [OF c2(6)]
    have P2: "pkts_of c2 j = (if j = i then None else pkts_of c j)" for j
      by (simp add: pkts_of_def c2(7) sbuff_reset_def)
    obtain c' where c': "release_acked n (i + 1) c2 = Inr c'" "sb_inv (view la c')" "frame c2 c'"
        "lastAcked (senderBuffer c') = lastAcked (senderBuffer c2)" "same_marks (view la c2) (view la c')"
        "\<forall>j. pkts_of c' j = (if ?o (i + 1) \<le> ?o j \<and> ?o j < ?o (i + 1) + n then None else pkts_of c2 j)"
        "sb_started (senderBuffer c') = sb_started (senderBuffer c2)"
        "recv_acks (ch_out c') = recv_acks (ch_out c2) @ acks_from (pkts_of c2) n (i + 1)" "silent c2 c'"
      using Suc.IH [OF c2(3), of "i + 1"] Suc.prems(3) o1 M(1,4) by (auto simp: M(1))
    have acks: "acks_from (pkts_of c2) n (i + 1) = acks_from (pkts_of c) n (i + 1)"
    proof (rule acks_from_cong)
      fix j assume j: "j < n"
      have "n \<le> 65535" using Suc.prems(3) D(1,2) by simp
      then have "unat (of_nat (Suc j) :: appInt16) = Suc j"
        using j by (intro unat_of_nat_small) simp
      then have "(of_nat (Suc j) :: appInt16) \<noteq> 0"
        by (metis nat.distinct(1) unat_0)
      moreover have "i + 1 + of_nat j = i + of_nat (Suc j)" by (simp add: algebra_simps)
      ultimately have "i + 1 + of_nat j \<noteq> i"
        by (simp only: add_cancel_left_right not_False_eq_True)
      then show "pkts_of c2 (i + 1 + of_nat j) = pkts_of c (i + 1 + of_nat j)"
        by (simp add: P2)
    qed
    have run: "release_acked (Suc n) i c = Inr c'"
      using Some c2(1) c'(1) by (simp add: c2(2) signal_acked_def)
    have P: "pkts_of c' j = (if ?o i \<le> ?o j \<and> ?o j < ?o i + Suc n then None else pkts_of c j)" for j
      using c'(6) off_inj [of "view la c" i j] by (auto simp: P2 o1 le_less Suc_le_eq)
    show ?thesis
      by (intro exI [of _ c'] conjI allI run c'(2) P frame_trans [OF c2(4) c'(3)] same_marks_trans [OF c2(6) c'(5)]
          silent_trans [OF c2(10) c'(9)])
        (use c'(4,7,8) c2(5,8,9) acks Some in \<open>simp_all add: pkts_of_def [of c i]\<close>)
  qed
qed

section \<open>Advancing \<open>lastAcked\<close>\<close>

text \<open>The round trip sample of an acknowledgement, and when the estimator accepts it.\<close>

definition rtt_sample :: "env \<Rightarrow> Packet \<Rightarrow> int" where
  "rtt_sample env pkt = (if p_recvTS pkt \<noteq> 0 then sint (p_recvTS pkt) else e_now env) - sint (h_sentTS (p_header pkt))"

definition rtt_sample_ok :: "env \<Rightarrow> Packet \<Rightarrow> new_channel \<Rightarrow> bool" where
  "rtt_sample_ok env pkt c \<longleftrightarrow> sint (h_sentTS (p_header pkt)) \<noteq> 0 \<longrightarrow>
     0 \<le> rtt_sample env pkt \<and> rto (rtt_step (rtt_sample env pkt) c) < 15 * TIMER_SECOND_IN_US"

text \<open>Only the estimator's fields change.\<close>

definition rtt_only :: "new_channel \<Rightarrow> new_channel \<Rightarrow> bool" where
  "rtt_only c c' \<longleftrightarrow> c' = c\<lparr> rtt := rtt c', srtt := srtt c', rto := rto c', rttvar := rttvar c' \<rparr>"

lemma rtt_onlyD:
  assumes "rtt_only c c'"
  shows "senderBuffer c' = senderBuffer c" "ch_out c' = ch_out c" "sendSeqLocked c' = sendSeqLocked c"
    "cwnd c' = cwnd c" "recover c' = recover c" "ch_status c' = ch_status c"
  by (subst assms [unfolded rtt_only_def], simp)+

lemma rtt_step_only: "rtt_only c (rtt_step r c)"
  by (cases "srtt c = 0") (simp_all add: rtt_only_def rtt_step_def Let_def)

lemma rto_rtt_step: "srtt c' = srtt c \<Longrightarrow> rttvar c' = rttvar c \<Longrightarrow> rto (rtt_step r c') = rto (rtt_step r c)"
  by (cases "srtt c = 0") (simp_all add: rtt_step_def Let_def)

lemma updateRtt_ok:
  assumes "rtt_ok c" "rto c < 15 * TIMER_SECOND_IN_US" "rtt_sample_ok env pkt c"
  obtains c' where "updateRtt env pkt c = Inr c'" "rtt_ok c'" "rto c' < 15 * TIMER_SECOND_IN_US" "rtt_only c c'"
proof (cases "sint (h_sentTS (p_header pkt)) = 0")
  case True
  have "updateRtt env pkt c = Inr c" using True by (simp add: updateRtt_def)
  then show thesis
    using that [of c] assms(1,2) by (simp add: rtt_only_def)
next
  case False
  have s: "0 \<le> rtt_sample env pkt" "rto (rtt_step (rtt_sample env pkt) c) < 15 * TIMER_SECOND_IN_US"
    using False assms(3) by (simp_all add: rtt_sample_ok_def)
  have u: "updateRtt env pkt c = Inr (rtt_step (rtt_sample env pkt) c)"
    using False s(2) by (auto simp: updateRtt_def rtt_sample_def Let_def)
  show thesis
    by (rule that [OF u rtt_step_ok [OF assms(1) s(1)] s(2) rtt_step_only])
qed

definition acked_to :: "appInt16 \<Rightarrow> new_channel \<Rightarrow> new_channel \<Rightarrow> bool" where
  "acked_to a c c' \<longleftrightarrow> chan_inv c' \<and> lastAcked (senderBuffer c') = a \<and>
     maxPacket (senderBuffer c') = maxPacket (senderBuffer c) \<and>
     (\<forall>i. contents c' i = (if off (senderBuffer c) i \<le> off (senderBuffer c) a then None else contents c i)) \<and>
     recv_acks (ch_out c') = recv_acks (ch_out c) @
       acks_from (pkts_of c) (off (senderBuffer c) a) (lastAcked (senderBuffer c) + 1) \<and> sends_ok c c' \<and>
     in_flight c \<le> off (senderBuffer c) a + in_flight c'"

lemma acked_quiet: "acked_to a c d \<Longrightarrow> quiet d e \<Longrightarrow> acked_to a c e"
  unfolding acked_to_def quiet_def by (auto intro: sends_ok_trans le_trans)

definition rec_ok :: "new_channel \<Rightarrow> bool" where
  "rec_ok c \<longleftrightarrow> unat (recover c) \<le> in_flight c"

lemma contents_pkts: "contents c i = map_option unstamp (pkts_of c i)"
  by (simp add: contents_def pkts_of_def)

lemma advance_acked_ok:
  assumes inv: "chan_inv c" and smp: "rtt_sample_ok env pkt c"
    and a: "a = h_ackNo (p_header pkt)" "n = a - lastAcked (senderBuffer c)"
    and valid: "off (senderBuffer c) a \<le> in_flight c"
  obtains c' where "advance_acked env pkt n c = Inr c'" "acked_to a c c'"
    "maxSent (senderBuffer c') = maxSent (senderBuffer c)" "in_flight c' = in_flight c - unat n"
    "recover c' = recover c" "ch_status c' = ch_status c"
    "\<forall>i. pkts_of c' i = (if off (senderBuffer c) i \<le> off (senderBuffer c) a then None else pkts_of c i)"
proof -
  let ?s = "senderBuffer c" and ?la = "lastAcked (senderBuffer c)"
  have inv': "sb_inv ?s" using inv by (simp add: chan_inv_def)
  have n: "unat n = off ?s a" by (simp add: a off_def)
  let ?c1 = "upd_sb (\<lambda>s. s\<lparr> lastAcked := a \<rparr>) c"
  have r: "rtt_ok ?c1" "rto ?c1 < 15 * TIMER_SECOND_IN_US"
    using inv by (simp_all add: chan_inv_def rtt_ok_def upd_sb_def)
  have "rto (rtt_step x ?c1) = rto (rtt_step x c)" for x
    by (rule rto_rtt_step) (simp_all add: upd_sb_def)
  then have smp1: "rtt_sample_ok env pkt ?c1"
    using smp by (simp add: rtt_sample_ok_def)
  obtain c2 where c2: "updateRtt env pkt ?c1 = Inr c2" "rtt_ok c2" "rto c2 < 15 * TIMER_SECOND_IN_US" "rtt_only ?c1 c2"
    using updateRtt_ok [OF r smp1] .
  note O = rtt_onlyD [OF c2(4)]
  let ?c3 = "c2\<lparr> duplicateCount := 0 \<rparr>"
  have v3: "view ?la ?c3 = ?s" and la3: "lastAcked (senderBuffer ?c3) = a" and p3: "pkts_of ?c3 = pkts_of c"
    and o3: "ch_out ?c3 = ch_out c"
    by (simp_all add: O view_def pkts_of_def fun_eq_iff)
  have "sb_inv (view ?la ?c3)" "0 < off (view ?la ?c3) (?la + 1)"
    "off (view ?la ?c3) (?la + 1) + unat n \<le> Suc (off (view ?la ?c3) (maxSent (senderBuffer ?c3)))"
    unfolding v3 using inv' valid by (simp_all add: n in_flight_def O)
  from release_acked_ok [OF this] obtain c' where c': "release_acked (unat n) (?la + 1) ?c3 = Inr c'"
      "sb_inv (view ?la c')" "frame ?c3 c'" "lastAcked (senderBuffer c') = a" "same_marks ?s (view ?la c')"
      "\<forall>j. pkts_of c' j = (if 1 \<le> off ?s j \<and> off ?s j < 1 + off ?s a then None else pkts_of c j)"
      "recv_acks (ch_out c') = recv_acks (ch_out c) @ acks_from (pkts_of c) (off ?s a) (?la + 1)" "silent ?c3 c'"
    unfolding v3 la3 p3 o3 n by auto
  note M = same_marksD [OF c'(5)]
  have P: "pkts_of c' i = (if off ?s i \<le> off ?s a then None else pkts_of c i)" for i
  proof (cases "off ?s i = 0")
    case True
    then have "pkts_of c i = None"
      using sb_invD(3) [OF inv', of i] by (cases "pkts_of c i") (auto simp: pkts_of_def)
    then show ?thesis using c'(6) by simp
  next
    case False
    then show ?thesis using c'(6) by (auto simp: less_Suc_eq_le)
  qed
  have eq: "(view ?la c')\<lparr> lastAcked := a \<rparr> = senderBuffer c'"
    by (simp add: view_def flip: c'(4))
  have "sb_inv ((view ?la c')\<lparr> lastAcked := a \<rparr>)"
  proof (rule sb_inv_advance [OF c'(2)])
    show "off (view ?la c') a \<le> off (view ?la c') (maxSent (view ?la c'))"
      using valid M by (simp add: in_flight_def)
    fix i assume "off (view ?la c') i \<le> off (view ?la c') a"
    then show "sb_pkt (cells (view ?la c') i) = None"
      using P [of i] by (simp add: M pkts_of_def)
  qed
  then have sb: "sb_inv (senderBuffer c')" by (simp only: eq)
  have "chan_inv c'"
    using sb c2(2,3) inv unfolding chan_inv_def
    by (simp add: frameD [OF c'(3)] cwnd_ok_def rtt_ok_def O) (simp add: upd_sb_def)
  moreover have infl: "in_flight c' = in_flight c - unat n"
    using off_advance [of "senderBuffer c'" a ?s "maxSent ?s"] valid c'(4) M(4) by (simp add: in_flight_def n)
  ultimately have inv2: "chan_inv c'" and infl2: "in_flight c' = in_flight c - unat n" by simp_all
  have run: "advance_acked env pkt n c = Inr c'"
    using c2(1) c'(1) by (simp add: advance_acked_def a(1) [symmetric])
  have "sends_ok c c'"
    using silent_sends_ok [OF silent_trans [OF silent_same c'(8)]] o3 by simp
  then have "acked_to a c c'"
    using inv2 c'(4,7) M(3) P infl2 by (simp add: acked_to_def contents_pkts n)
  moreover have "maxSent (senderBuffer c') = maxSent ?s" using M(4) by simp
  moreover have "recover c' = recover c" "ch_status c' = ch_status c"
    using frameD [OF c'(3)] O(5,6) by (simp_all add: upd_sb_def)
  ultimately show thesis
    using that run infl2 P by blast
qed

section \<open>The packet the acknowledgement was sent for\<close>

lemma rtt_sample_ok_cong: "srtt c' = srtt c \<Longrightarrow> rttvar c' = rttvar c \<Longrightarrow> rtt_sample_ok env pkt c' = rtt_sample_ok env pkt c"
  using rto_rtt_step [of c' c "rtt_sample env pkt"] by (simp add: rtt_sample_ok_def)

lemma release_orig_ok:
  assumes inv: "chan_inv c" and sent: "pkts_of c o1 \<noteq> None \<Longrightarrow> off (senderBuffer c) o1 \<le> in_flight c"
    and o1: "o1 = h_origAckNo (p_header pkt)" "a = h_ackNo (p_header pkt)"
  obtains c' where "release_orig pkt c = Inr c'" "chan_inv c'" "frame c c'"
    "same_marks (senderBuffer c) (senderBuffer c')"
    "pkts_of c' = (if a = o1 then pkts_of c else (pkts_of c)(o1 := None))"
    "sb_started (senderBuffer c') = sb_started (senderBuffer c)"
    "recv_acks (ch_out c') = recv_acks (ch_out c) @ (if a = o1 then [] else data_ack (pkts_of c o1))" "silent c c'"
proof (cases "pkts_of c o1 = None \<or> a = o1")
  case True
  then have "release_orig pkt c = Inr c"
    unfolding release_orig_def Let_def o1(1) [symmetric] o1(2) [symmetric]
    by (auto simp: pkts_of_def split: option.split)
  moreover have "pkts_of c = (if a = o1 then pkts_of c else (pkts_of c)(o1 := None))"
    using True by (auto simp: fun_eq_iff)
  moreover have "recv_acks (ch_out c) = recv_acks (ch_out c) @ (if a = o1 then [] else data_ack (pkts_of c o1))"
    using True by (auto simp: data_ack_def)
  moreover have "same_marks (senderBuffer c) (senderBuffer c)" by (simp add: same_marks_def)
  ultimately show thesis
    using that [of c] inv frame_refl silent_same [of c c] by presburger
next
  case False
  then obtain p where p: "sb_pkt (cells (senderBuffer c) o1) = Some p"
    by (auto simp: pkts_of_def)
  have si: "sb_inv (view (lastAcked (senderBuffer c)) c)" using inv by (simp add: chan_inv_def)
  have sn: "off (view (lastAcked (senderBuffer c)) c) o1
      \<le> off (view (lastAcked (senderBuffer c)) c) (maxSent (senderBuffer c))"
    using sent False by (simp add: in_flight_def)
  have g: "frame x (id x)" "senderBuffer (id x) = senderBuffer x" "ch_out (id x) = ch_out x" for x :: new_channel
    by simp_all
  obtain c1 c' where c': "res_sb (stopTimer o1) c = Inr c1" "c' = upd_sb (reset_cell o1) (ch_freePacket p (id c1))"
      "sb_inv (view (lastAcked (senderBuffer c)) c')" "frame c c'" "lastAcked (senderBuffer c') = lastAcked (senderBuffer c)"
      "same_marks (view (lastAcked (senderBuffer c)) c) (view (lastAcked (senderBuffer c)) c')"
      "cells (senderBuffer c') = (cells (senderBuffer c))(o1 := sbuff_reset)"
      "recv_acks (ch_out c') = recv_acks (ch_out c) @ data_ack (Some p)"
      "sb_started (senderBuffer c') = sb_started (senderBuffer c)" "silent c c'"
    using release_one [OF si p sn g] .
  have v: "view (lastAcked (senderBuffer c)) c' = senderBuffer c'"
    using view_self [of c'] by (simp add: c'(5))
  show thesis
  proof (rule that [of c'])
    show "release_orig pkt c = Inr c'"
      using False p c'(1,2) by (simp add: release_orig_def release_cell_def o1 Let_def pkts_of_def)
    show "chan_inv c'" using frame_inv [OF c'(4) inv] c'(3) by (simp add: v)
    show "same_marks (senderBuffer c) (senderBuffer c')" using c'(6) by (simp add: v)
    show "pkts_of c' = (if a = o1 then pkts_of c else (pkts_of c)(o1 := None))"
      using False by (auto simp: pkts_of_def fun_eq_iff c'(7) sbuff_reset_def)
    show "recv_acks (ch_out c') = recv_acks (ch_out c) @ (if a = o1 then [] else data_ack (pkts_of c o1))"
      using False c'(8) p by (simp add: pkts_of_def)
  qed (use c'(4,9,10) in simp_all)
qed

section \<open>New, partial and duplicate acknowledgements\<close>

lemma quiet_rec_ok: "quiet c c' \<Longrightarrow> recover c' = recover c \<Longrightarrow> rec_ok c \<Longrightarrow> rec_ok c'"
  by (simp add: quiet_def rec_ok_def)

lemma quiet_status: "quiet c d \<Longrightarrow> quiet c (d\<lparr> ch_status := b \<rparr>)"
  by (rule quiet_trans [of c d]) (simp_all add: quiet_inv)

lemma grow_window_quiet: "chan_inv c \<Longrightarrow> quiet c (grow_window c) \<and> recover (grow_window c) = recover c"
  by (simp add: grow_window_def updateCwnd_new_props quiet_status quiet_updateCwnd)

lemma ack_new_ok:
  assumes inv: "chan_inv c" "net_up env" and smp: "rtt_sample_ok env pkt c"
    and a: "a = h_ackNo (p_header pkt)" "n = a - lastAcked (senderBuffer c)"
    and valid: "off (senderBuffer c) a \<le> in_flight c" and rec: "recover c = 0"
  shows "\<exists>c'. ack_new env pkt n c = Inr c' \<and> acked_to a c c' \<and> rec_ok c'"
proof -
  obtain c1 where c1: "advance_acked env pkt n c = Inr c1" "acked_to a c c1" "recover c1 = recover c"
    using advance_acked_ok [OF inv(1) smp a valid] by metis
  have i1: "chan_inv c1" using c1(2) by (simp add: acked_to_def)
  note g = grow_window_quiet [OF i1]
  obtain c2 where c2: "drop_count (sendNew env (push_bit 1 n) (grow_window c1)) = Inr c2"
      "quiet (grow_window c1) c2" "frame (grow_window c1) c2"
    using sendNew_quiet [of "grow_window c1" env "push_bit 1 n"] g inv(2) quiet_inv by metis
  have "rec_ok c2" using rec g c1(3) frameD(13) [OF c2(3)] by (simp add: rec_ok_def)
  then show ?thesis
    using acked_quiet [OF c1(2) quiet_trans [OF conjunct1 [OF g] c2(2)]] c1(1) c2(1)
    by (simp add: ack_new_def)
qed

text \<open>The search of multi-recovery ends when some cell is occupied.\<close>

lemma search_unacked_total:
  assumes "sb_pkt (cells s j) \<noteq> None" "unat (j - i) < n"
  shows "\<exists>k. search_unacked n s i r = Inr k"
  using assms(2)
proof (induction n arbitrary: i)
  case (Suc n)
  show ?case
  proof (cases "i = j")
    case True
    then show ?thesis using assms(1) by (intro exI [of _ i]) auto
  next
    case False
    have "j - i \<noteq> 0" using False by simp
    then have "unat (j - (i + 1)) = unat (j - i) - 1"
      using unat_minus_one [of "j - i"] by (simp add: diff_diff_eq)
    moreover have "0 < unat (j - i)" using \<open>j - i \<noteq> 0\<close> by (simp add: unat_gt_0)
    ultimately have "unat (j - (i + 1)) < n" using Suc.prems by linarith
    then show ?thesis using Suc.IH by simp
  qed
qed simp

lemma flightSize: "unat (maxSent (senderBuffer c) - lastAcked (senderBuffer c)) = in_flight c"
  by (simp add: in_flight_def off_def)

lemma count_dup_quiet:
  "chan_inv c \<Longrightarrow> quiet c (upd_sb count_dup c) \<and> recover (upd_sb count_dup c) = recover c"
  using quiet_count(1) by (simp add: upd_sb_def)

text \<open>The head of the window, whose cell is occupied, can be resent.\<close>

lemma head_timer:
  assumes "chan_inv c" "pkts_of c (lastAcked (senderBuffer c) + 1) \<noteq> None"
    and "lastAcked (senderBuffer c) \<noteq> maxSent (senderBuffer c)"
  shows "lastAcked (senderBuffer c) + 1 \<in> set (timerList (senderBuffer c))"
proof -
  have inv: "sb_inv (senderBuffer c)" using assms(1) by (simp add: chan_inv_def)
  have "off (senderBuffer c) (maxSent (senderBuffer c)) \<noteq> 0"
    using assms(3) by (simp add: off_eq_0_iff)
  then show ?thesis
    using sb_invD(7) [OF inv, of "lastAcked (senderBuffer c) + 1"] assms(2) by (simp add: pkts_of_def)
qed

lemma ack_duplicate_ok:
  assumes inv: "chan_inv c0" "net_up env" and rec: "rec_ok c0"
    and head: "pkts_of c0 (lastAcked (senderBuffer c0) + 1) \<noteq> None"
      "lastAcked (senderBuffer c0) \<noteq> maxSent (senderBuffer c0)"
  shows "\<exists>c'. ack_duplicate env c0 = Inr c' \<and> quiet c0 c' \<and> rec_ok c'"
proof -
  define c where "c = c0\<lparr> duplicateCount := duplicateCount c0 + 1 \<rparr>"
  have c: "chan_inv c" "quiet c0 c" "rec_ok c" "senderBuffer c = senderBuffer c0"
    using inv rec by (simp_all add: c_def rec_ok_def in_flight_def)
  have new: "\<exists>c'. drop_count (sendNew env 1 d) = Inr c' \<and> quiet c0 c' \<and> rec_ok c'"
    if q: "quiet c0 d" "rec_ok d" for d
  proof -
    obtain c' where "drop_count (sendNew env 1 d) = Inr c'" "quiet d c'" "frame d c'"
      using sendNew_quiet [OF quiet_inv [OF q(1)] inv(2)] .
    then show ?thesis
      using quiet_trans [OF q(1)] quiet_rec_ok [OF _ frameD(13) q(2)] by blast
  qed
  consider (multi) "ch_status c = MULTI_RECOVERY"
    | (fast) "ch_status c \<noteq> MULTI_RECOVERY" "duplicateCount c = 3"
    | (other) "ch_status c \<noteq> MULTI_RECOVERY" "duplicateCount c \<noteq> 3" by blast
  then show ?thesis
  proof cases
    case multi
    have "unat (lastAcked (senderBuffer c0) + 1 - multiRecoverIndex c) < 65536"
      using unsigned_less [where 'a = nat and w = "lastAcked (senderBuffer c0) + 1 - multiRecoverIndex c"] by simp
    then obtain i where i: "search_unacked 65536 (senderBuffer c) (multiRecoverIndex c) (recoverIndex c) = Inr i"
      using search_unacked_total head(1) by (metis c(4) pkts_of_def)
    have dead: "\<not> (i \<le> recoverIndex c \<and> sb_pkt (cells (senderBuffer c) i) = None)"
      using search_unacked_result [OF i] by auto
    let ?d = "updateCwnd_new MULTIPLICATIVE_INCREASE (c\<lparr> multiRecoverIndex := i \<rparr>)"
    have d: "quiet c ?d" "recover ?d = recover c"
      using quiet_trans [OF _ quiet_updateCwnd] c(1) by (simp_all add: updateCwnd_new_props)
    have "ack_duplicate env c0 = drop_count (sendNew env 1 ?d)"
      using multi i dead unfolding ack_duplicate_def Let_def c_def [symmetric] by auto
    then show ?thesis
      using new [OF quiet_trans [OF c(2) d(1)] quiet_rec_ok [OF d c(3)]] by simp
  next
    case fast
    let ?h = "lastAcked (senderBuffer c) + 1"
    have "?h \<in> set (timerList (senderBuffer c))"
      using head_timer [OF inv(1) head] by (simp add: c(4))
    then obtain c1 ret c2 where r: "res_sb (stopTimer ?h) c = Inr c1" "sendSeq env ?h c1 = Inr (ret, c2)"
        "quiet c c2" "frame c c2"
      using resend_quiet [OF c(1) inv(2)] by metis
    let ?f = "maxSent (senderBuffer c2) - lastAcked (senderBuffer c2)"
    let ?t = "of_int (APP_MAX (uint ?f div 2) 2) :: appInt16"
    define d where "d = updateCwnd_new (SET_TO (of_int (uint ?t) + 3))
      (c2\<lparr> recover := ?f, recoverIndex := maxSent (senderBuffer c2), ssthresh := ?t \<rparr>)"
    define c3 where "c3 = (if ch_status c2 \<noteq> FAST_RECOVERY
      then if ch_status d = CONG_AVOIDANCE \<or> ch_status d = SLOW_START then d\<lparr> ch_status := FAST_RECOVERY \<rparr> else d
      else c2)"
    have i2: "chan_inv c2" by (rule quiet_inv [OF r(3)])
    have qd: "quiet c2 d"
      unfolding d_def
      by (rule quiet_trans [OF _ quiet_updateCwnd], rule quiet_trans [of _ "c2\<lparr> recover := ?f \<rparr>"],
          simp_all add: i2, rule quiet_trans [of _ "c2\<lparr> recover := ?f, recoverIndex := maxSent (senderBuffer c2) \<rparr>"])
        (simp_all add: i2)
    have "recover d = ?f" by (simp add: d_def updateCwnd_new_props)
    then have "rec_ok d" using qd by (simp add: rec_ok_def flightSize quiet_def)
    moreover have "rec_ok c2" using quiet_rec_ok [OF r(3) frameD(13) [OF r(4)] c(3)] .
    ultimately have c3: "quiet c2 c3" "rec_ok c3"
      using qd i2 by (auto simp: c3_def quiet_status quiet_refl rec_ok_def in_flight_def)
    note cd = count_dup_quiet [OF quiet_inv [OF c3(1)]]
    have "ack_duplicate env c0 = Inr (upd_sb count_dup c3)"
      using fast r(1,2) unfolding ack_duplicate_def Let_def c_def [symmetric] by (simp add: c3_def d_def Let_def)
    then show ?thesis
      using quiet_trans [OF c(2) quiet_trans [OF r(3) quiet_trans [OF c3(1) conjunct1 [OF cd]]]]
        quiet_rec_ok [OF conjunct1 [OF cd] conjunct2 [OF cd] c3(2)] by blast
  next
    case other
    let ?d = "if ch_status c = FAST_RECOVERY then updateCwnd_new MULTIPLICATIVE_INCREASE c else c"
    have d: "quiet c ?d" "recover ?d = recover c"
      using c(1) by (simp_all add: quiet_updateCwnd quiet_refl updateCwnd_new_props)
    have "ack_duplicate env c0 = drop_count (sendNew env 1 ?d)"
      using other unfolding ack_duplicate_def Let_def c_def [symmetric] by simp
    then show ?thesis
      using new [OF quiet_trans [OF c(2) d(1)] quiet_rec_ok [OF d c(3)]] by simp
  qed
qed

lemma ack_partial_ok:
  assumes inv: "chan_inv c" "net_up env" and smp: "rtt_sample_ok env pkt c"
    and a: "a = h_ackNo (p_header pkt)" "n = a - lastAcked (senderBuffer c)"
    and valid: "off (senderBuffer c) a \<le> in_flight c" and rec: "rec_ok c" "n < recover c"
    and head: "pkts_of c (a + 1) \<noteq> None"
  shows "\<exists>c'. ack_partial env pkt n c = Inr c' \<and> acked_to a c c' \<and> rec_ok c'"
proof -
  let ?s = "senderBuffer c"
  have n: "unat n = off ?s a" by (simp add: a off_def)
  obtain c1 where c1: "advance_acked env pkt n c = Inr c1" "acked_to a c c1" "recover c1 = recover c"
      "maxSent (senderBuffer c1) = maxSent ?s" "in_flight c1 = in_flight c - unat n"
      "\<forall>i. pkts_of c1 i = (if off ?s i \<le> off ?s a then None else pkts_of c i)"
    using advance_acked_ok [OF inv(1) smp a valid] by metis
  have i1: "chan_inv c1" and la1: "lastAcked (senderBuffer c1) = a" using c1(2) by (simp_all add: acked_to_def)
  define r where "r = recover c - n"
  have r: "unat r = unat (recover c) - unat n"
    using rec(2) by (simp add: r_def unat_sub order_less_imp_le)
  have lt: "off ?s a < in_flight c" "0 < unat r"
    using rec by (simp_all add: n [symmetric] rec_ok_def word_less_nat_alt r)
  have ri: "unat r \<le> in_flight c1" using rec(1) by (simp add: r c1(5) rec_ok_def)
  have "sb_inv ?s" using inv(1) by (simp add: chan_inv_def)
  then have "off ?s (a + 1) = Suc (off ?s a)"
    using lt(1) sb_invD(1,2) [of ?s] by (intro off_succ) (simp add: in_flight_def)
  then have head1: "pkts_of c1 (lastAcked (senderBuffer c1) + 1) \<noteq> None"
    using c1(6) head by (simp add: la1)
  have ms: "lastAcked (senderBuffer c1) \<noteq> maxSent (senderBuffer c1)"
    using lt(1) by (auto simp: la1 c1(4) in_flight_def)
  then have "0 < in_flight c1"
    using off_eq_0_iff [of "senderBuffer c1" "maxSent (senderBuffer c1)"] unfolding in_flight_def by (metis gr_zeroI)
  let ?c1 = "c1\<lparr> recover := r \<rparr>" and ?h = "lastAcked (senderBuffer c1) + 1"
  have t0: "0 < e_now env" using inv(2) by (simp add: net_up_def)
  have "\<exists>c2. restart_range (unat r) ?h (e_now env) ?c1 = Inr c2 \<and> quiet ?c1 c2 \<and> frame ?c1 c2"
    using i1 t0 ri by (intro restart_range_quiet) (simp_all add: in_flight_def)
  then obtain c2 where c2: "restart_range (unat r) ?h (e_now env) ?c1 = Inr c2" "quiet ?c1 c2" "frame ?c1 c2"
    by blast
  have q2: "quiet c1 c2" using quiet_trans [OF _ c2(2)] i1 by simp
  have rec2: "recover c2 = r" using frameD(13) [OF c2(3)] by simp
  have ok2: "rec_ok c2" using ri q2 by (simp add: rec_ok_def rec2 quiet_def)
  have run: "ack_partial env pkt n c = (if ch_status c2 = FAST_RECOVERY then
       bind_res (res_sb (stopTimer ?h) (c2\<lparr> ch_status := MULTI_RECOVERY, multiRecoverIndex := ?h + 1 \<rparr>)) (\<lambda>c3.
       bind_res (sendSeq env ?h c3) (\<lambda>(_, c4). Inr (upd_sb count_dup (c4\<lparr> duplicateCount := 3 \<rparr>))))
     else bind_res (drop_count (sendNew env 1 c2)) (\<lambda>c3.
       Inr (updateCwnd_new (SET_TO (fl32 (fl32 (cwnd c3 - of_int (uint n)) + 1))) c3)))"
    using c2(1) by (simp add: ack_partial_def c1(1) c1(3) r_def [symmetric] Let_def)
  have "\<exists>c'. ack_partial env pkt n c = Inr c' \<and> quiet c2 c' \<and> recover c' = recover c2"
  proof (cases "ch_status c2 = FAST_RECOVERY")
    case True
    let ?d = "c2\<lparr> ch_status := MULTI_RECOVERY, multiRecoverIndex := ?h + 1 \<rparr>"
    have i2: "chan_inv c2" by (rule quiet_inv [OF q2])
    have qd: "quiet c2 ?d" by (rule quiet_trans [of _ "c2\<lparr> ch_status := MULTI_RECOVERY \<rparr>"]) (simp_all add: i2)
    have "in_flight c2 \<noteq> 0"
      using q2 \<open>0 < in_flight c1\<close> by (simp add: quiet_def)
    then have "maxSent (senderBuffer c2) \<noteq> lastAcked (senderBuffer c2)"
      using off_lastAcked [of "senderBuffer c2"] unfolding in_flight_def by metis
    moreover have "contents c2 ?h \<noteq> None"
      using q2 head1 by (auto simp: quiet_def contents_pkts [of c1])
    then have "pkts_of c2 ?h \<noteq> None" by (simp add: contents_pkts)
    ultimately have "?h \<in> set (timerList (senderBuffer ?d))"
      using head_timer [OF i2] q2 by (simp add: quiet_def)
    then obtain c3 ret c4 where c4: "res_sb (stopTimer ?h) ?d = Inr c3" "sendSeq env ?h c3 = Inr (ret, c4)"
        "quiet ?d c4" "frame ?d c4"
      using resend_quiet [OF quiet_inv [OF qd] inv(2)] by metis
    let ?e = "c4\<lparr> duplicateCount := 3 \<rparr>"
    have qe: "quiet c4 ?e" using quiet_inv [OF c4(3)] by simp
    note cd = count_dup_quiet [OF quiet_inv [OF qe]]
    have "ack_partial env pkt n c = Inr (upd_sb count_dup ?e)"
      using True c4(1,2) by (simp add: run)
    moreover have "quiet c2 (upd_sb count_dup ?e)"
      by (rule quiet_trans [OF qd quiet_trans [OF c4(3) quiet_trans [OF qe conjunct1 [OF cd]]]])
    moreover have "recover (upd_sb count_dup ?e) = recover c2"
      using conjunct2 [OF cd] frameD(13) [OF c4(4)] by simp
    ultimately show ?thesis by blast
  next
    case False
    obtain c3 where c3: "drop_count (sendNew env 1 c2) = Inr c3" "quiet c2 c3" "frame c2 c3"
      using sendNew_quiet [OF quiet_inv [OF q2] inv(2)] .
    then show ?thesis
      using False quiet_trans [OF c3(2) quiet_updateCwnd [OF quiet_inv [OF c3(2)]]] frameD(13) [OF c3(3)]
      by (simp add: run updateCwnd_new_props)
  qed
  then show ?thesis
    using acked_quiet [OF c1(2)] quiet_trans [OF q2] quiet_rec_ok [OF _ _ ok2] by metis
qed

section \<open>Acknowledgements of a correct receiver\<close>

text \<open>
  What a correct receiver can acknowledge: a number among those sent, for a
  packet that was sent, and the packet after the number is one it has not got.
\<close>

definition honest_ack :: "new_channel \<Rightarrow> Packet \<Rightarrow> bool" where
  "honest_ack c pkt \<longleftrightarrow>
     (let s = senderBuffer c; a = h_ackNo (p_header pkt); o1 = h_origAckNo (p_header pkt) in
      off s a \<le> in_flight c \<and> (pkts_of c o1 \<noteq> None \<longrightarrow> off s o1 \<le> in_flight c) \<and>
      (a \<noteq> maxSent s \<longrightarrow> pkts_of c (a + 1) \<noteq> None \<and> o1 \<noteq> a + 1))"

text \<open>The data packets an acknowledgement releases, in the order the parent learns of them.\<close>

definition acks_due :: "new_channel \<Rightarrow> Packet \<Rightarrow> (appInt16 \<times> appInt16 \<times> appInt16) list" where
  "acks_due c pkt =
     (let s = senderBuffer c; a = h_ackNo (p_header pkt); o1 = h_origAckNo (p_header pkt) in
      if a = o1 then acks_from (pkts_of c) (off s a) (lastAcked s + 1)
      else data_ack (pkts_of c o1) @ acks_from ((pkts_of c)(o1 := None)) (off s a) (lastAcked s + 1))"

lemma ackRecv_honest_step:
  assumes inv: "chan_inv c0" "rec_ok c0" "net_up env" and st: "sb_started (senderBuffer c0)"
    and hon: "honest_ack c0 pkt" and smp: "rtt_sample_ok env pkt c0"
  obtains k c3 c4 where "ackRecv env pkt c0 = bind_res (case k of
       Ack_New \<Rightarrow> ack_new env pkt (h_ackNo (p_header pkt) - lastAcked (senderBuffer c0)) c3
     | Ack_Partial \<Rightarrow> ack_partial env pkt (h_ackNo (p_header pkt) - lastAcked (senderBuffer c0)) c3
     | Ack_Duplicate \<Rightarrow> ack_duplicate env c3 | _ \<Rightarrow> Inr c3) (\<lambda>c4. Inr (0, c4))"
    "k = ack_kind c0 (h_ackNo (p_header pkt) - lastAcked (senderBuffer c0))" "k \<noteq> Ack_Outside"
    "chan_inv c3" "rec_ok c3" "rtt_sample_ok env pkt c3" "same_marks (senderBuffer c0) (senderBuffer c3)"
    "recover c3 = (if k = Ack_New then 0 else recover c0)"
    "pkts_of c3 = (if h_ackNo (p_header pkt) = h_origAckNo (p_header pkt) then pkts_of c0
       else (pkts_of c0)(h_origAckNo (p_header pkt) := None))"
    "recv_acks (ch_out c3) = recv_acks (ch_out c0) @
       (if h_ackNo (p_header pkt) = h_origAckNo (p_header pkt) then [] else data_ack (pkts_of c0 (h_origAckNo (p_header pkt))))"
    "silent c0 c3"
proof -
  let ?w = "h_window (p_header pkt)" and ?a = "h_ackNo (p_header pkt)" and ?o = "h_origAckNo (p_header pkt)"
  let ?n = "?a - lastAcked (senderBuffer c0)"
  define c where "c = (if ?w \<noteq> 0 then c0\<lparr> senderWindow := ?w \<rparr> else c0)"
  define k where "k = ack_kind c0 ?n"
  define c1 where "c1 = note_kind k c"
  have c: "senderBuffer c = senderBuffer c0" "ch_out c = ch_out c0" "ack_kind c ?n = k"
    by (simp_all add: c_def k_def ack_kind_def)
  have c1: "senderBuffer c1 = senderBuffer c0" "ch_out c1 = ch_out c0" "chan_inv c1" "srtt c1 = srtt c0"
    "rttvar c1 = rttvar c0" "recover c1 = (if k = Ack_New then 0 else recover c0)"
    using inv(1) by (simp_all add: c1_def note_kind_def c_def)
  have p1: "pkts_of c1 = pkts_of c0" by (simp add: pkts_of_def fun_eq_iff c1(1))
  have "unat ?n \<le> 32768"
    using hon inv(1) sb_invD(1,2) [of "senderBuffer c0"]
    by (simp add: honest_ack_def Let_def chan_inv_def in_flight_def) (simp add: off_def)
  then have k: "k \<noteq> Ack_Outside"
    by (auto simp: k_def ack_kind_def word_gt_0)
  obtain c2 where c2: "release_orig pkt c1 = Inr c2" "chan_inv c2" "frame c1 c2"
      "same_marks (senderBuffer c1) (senderBuffer c2)"
      "pkts_of c2 = (if ?a = ?o then pkts_of c1 else (pkts_of c1)(?o := None))"
      "sb_started (senderBuffer c2) = sb_started (senderBuffer c1)"
      "recv_acks (ch_out c2) = recv_acks (ch_out c1) @ (if ?a = ?o then [] else data_ack (pkts_of c1 ?o))" "silent c1 c2"
    by (rule release_orig_ok [OF c1(3) _ refl refl, of pkt])
      (use hon in \<open>auto simp: honest_ack_def Let_def p1 c1(1) in_flight_def\<close>)
  let ?c3 = "upd_sb (\<lambda>s. s\<lparr> totalSuccessfullySent := totalSuccessfullySent s + ucast ?n \<rparr>) c2"
  note F = frameD [OF c2(3)]
  have m3: "same_marks (senderBuffer c0) (senderBuffer ?c3)"
    using c2(4) by (simp add: same_marks_def c1(1))
  note M = same_marksD [OF m3]
  have inv3: "chan_inv ?c3" using quiet_inv [OF quiet_count(2) [OF c2(2)]] .
  have rec3: "recover ?c3 = (if k = Ack_New then 0 else recover c0)"
    using F(13) c1(6) by (simp add: upd_sb_def)
  have ok3: "rec_ok ?c3"
    using inv(2) by (simp add: rec_ok_def rec3 in_flight_def M del: upd_sb_simps)
  have "srtt ?c3 = srtt c0" "rttvar ?c3 = rttvar c0"
    using F(4,5) c1(4,5) by (simp_all add: upd_sb_def)
  then have smp3: "rtt_sample_ok env pkt ?c3"
    using smp rtt_sample_ok_cong by blast
  have p3: "pkts_of ?c3 = (if ?a = ?o then pkts_of c0 else (pkts_of c0)(?o := None))"
  proof -
    have "pkts_of ?c3 = pkts_of c2" by (simp add: pkts_of_def fun_eq_iff)
    then show ?thesis using c2(5) by (simp add: p1)
  qed
  have run: "ackRecv env pkt c0 = bind_res (case k of
       Ack_New \<Rightarrow> ack_new env pkt ?n ?c3 | Ack_Partial \<Rightarrow> ack_partial env pkt ?n ?c3
     | Ack_Duplicate \<Rightarrow> ack_duplicate env ?c3 | _ \<Rightarrow> Inr ?c3) (\<lambda>c4. Inr (0, c4))"
    using st k c2(1) unfolding ackRecv_def Let_def c_def [symmetric]
    by (simp only: c(1,3) c1_def [symmetric] if_False bind_res.simps not_True_eq_False)
  show thesis
    by (rule that [OF run k_def k inv3 ok3 smp3 m3 rec3 p3]) (use c2(7,8) c1(2) in \<open>simp_all add: p1 silent_def\<close>)
qed

lemma ackRecv_honest_ok:
  assumes "chan_inv c" "rec_ok c" "net_up env" "sb_started (senderBuffer c)"
    and "honest_ack c pkt" "rtt_sample_ok env pkt c"
  shows "\<exists>c'. ackRecv env pkt c = Inr (0, c') \<and> chan_inv c' \<and> rec_ok c' \<and>
     lastAcked (senderBuffer c') = h_ackNo (p_header pkt) \<and>
     maxPacket (senderBuffer c') = maxPacket (senderBuffer c) \<and>
     (\<forall>i. contents c' i =
        (if off (senderBuffer c) i \<le> off (senderBuffer c) (h_ackNo (p_header pkt)) \<or> i = h_origAckNo (p_header pkt)
         then None else contents c i)) \<and>
     recv_acks (ch_out c') = recv_acks (ch_out c) @ acks_due c pkt \<and> sends_ok c c' \<and>
     in_flight c \<le> off (senderBuffer c) (h_ackNo (p_header pkt)) + in_flight c'"
proof -
  let ?a = "h_ackNo (p_header pkt)" and ?o = "h_origAckNo (p_header pkt)" and ?s = "senderBuffer c"
  let ?n = "?a - lastAcked ?s"
  obtain k c3 where k: "ackRecv env pkt c = bind_res (case k of
       Ack_New \<Rightarrow> ack_new env pkt ?n c3 | Ack_Partial \<Rightarrow> ack_partial env pkt ?n c3
     | Ack_Duplicate \<Rightarrow> ack_duplicate env c3 | _ \<Rightarrow> Inr c3) (\<lambda>c4. Inr (0, c4))"
    "k = ack_kind c ?n" "k \<noteq> Ack_Outside"
    and c3: "chan_inv c3" "rec_ok c3" "rtt_sample_ok env pkt c3" "same_marks ?s (senderBuffer c3)"
    "recover c3 = (if k = Ack_New then 0 else recover c)"
    "pkts_of c3 = (if ?a = ?o then pkts_of c else (pkts_of c)(?o := None))"
    "recv_acks (ch_out c3) = recv_acks (ch_out c) @ (if ?a = ?o then [] else data_ack (pkts_of c ?o))" "silent c c3"
    using ackRecv_honest_step [OF assms] by metis
  note M = same_marksD [OF c3(4)]
  have valid: "off (senderBuffer c3) ?a \<le> in_flight c3"
    using assms(5) by (simp add: honest_ack_def Let_def M in_flight_def)
  have n3: "?n = ?a - lastAcked (senderBuffer c3)" by (simp add: M)
  have head: "pkts_of c3 (?a + 1) \<noteq> None" if "?a \<noteq> maxSent ?s"
    using assms(5) that by (auto simp: honest_ack_def Let_def c3(6))
  have part: "recover c3 = recover c \<and> ?n < recover c3 \<and> ?a \<noteq> maxSent ?s" if "k = Ack_Partial"
  proof -
    have "?n < recover c"
      using that by (auto simp: k(2) ack_kind_def split: if_splits)
    moreover have "unat (recover c) \<le> off ?s (maxSent ?s)"
      using assms(2) by (simp add: rec_ok_def in_flight_def)
    ultimately have "?a \<noteq> maxSent ?s" by (auto simp: off_def word_less_nat_alt)
    then show ?thesis using that \<open>?n < recover c\<close> by (simp add: c3(5))
  qed
  have zero: "?a = lastAcked ?s" if "k = Ack_Duplicate \<or> k = Ack_Idle"
    using that by (auto simp: k(2) ack_kind_def split: if_splits)
  have dup: "lastAcked ?s \<noteq> maxSent ?s" if "k = Ack_Duplicate"
    using that by (auto simp: k(2) ack_kind_def split: if_splits)
  have self: "acked_to ?a c3 c'" if "quiet c3 c'" "?a = lastAcked ?s" for c'
  proof -
    have "contents c3 i = None" if "off ?s i = 0" for i
    proof -
      have "sb_inv (senderBuffer c3)" using c3(1) by (simp add: chan_inv_def)
      then show ?thesis
        using sb_invD(3) [of "senderBuffer c3" i] that by (cases "sb_pkt (cells (senderBuffer c3) i)") (auto simp: M contents_def)
    qed
    then show ?thesis
      using that by (simp add: acked_to_def quiet_def M)
  qed
  have "\<exists>c'. ackRecv env pkt c = Inr (0, c') \<and> acked_to ?a c3 c' \<and> rec_ok c'"
  proof (cases k)
    case Ack_New
    then show ?thesis
      using ack_new_ok [OF c3(1) assms(3) c3(3) refl n3 valid] c3(5) by (auto simp: k(1))
  next
    case Ack_Partial
    then show ?thesis
      using ack_partial_ok [OF c3(1) assms(3) c3(3) refl n3 valid c3(2)] part head by (auto simp: k(1))
  next
    case Ack_Duplicate
    then show ?thesis
      using ack_duplicate_ok [OF c3(1) assms(3) c3(2)] zero dup head self by (auto simp: k(1) M)
  next
    case Ack_Idle
    then show ?thesis
      using self [OF quiet_refl [OF c3(1)]] zero c3(2) by (simp add: k(1))
  qed (use k(3) in simp)
  then obtain c' where c': "ackRecv env pkt c = Inr (0, c')" "acked_to ?a c3 c'" "rec_ok c'"
    by blast
  have "contents c' i = (if off ?s i \<le> off ?s ?a \<or> i = ?o then None else contents c i)" for i
    using c'(2) by (auto simp: acked_to_def M contents_pkts c3(6))
  moreover have "recv_acks (ch_out c') = recv_acks (ch_out c) @ acks_due c pkt"
    using c'(2) by (simp add: acked_to_def M c3(6,7) acks_due_def Let_def)
  moreover have "sends_ok c c'" using c'(2) silent_then [OF c3(8)] by (simp add: acked_to_def)
  moreover have "in_flight c \<le> off ?s ?a + in_flight c'"
    using c'(2) by (simp add: acked_to_def M in_flight_def)
  ultimately show ?thesis
    using c' by (auto simp: acked_to_def M)
qed


text \<open>One packet in flight, acknowledged.\<close>

definition ack_of :: "appInt16 \<Rightarrow> appInt16 \<Rightarrow> Packet" where
  "ack_of a o1 = new_Packet\<lparr> p_header := reinit_header\<lparr> h_flag := FLAG_ACK, h_ackNo := a, h_origAckNo := o1 \<rparr> \<rparr>"

lemma ack_of_simps [simp]:
  "h_ackNo (p_header (ack_of a o1)) = a" "h_origAckNo (p_header (ack_of a o1)) = o1"
  "h_sentTS (p_header (ack_of a o1)) = 0"
  by (simp_all add: ack_of_def reinit_header_def)

lemma init_new_channel_simps:
  "unacked (init_new_channel env s d) = 0" "in_flight (init_new_channel env s d) = 0"
  "recover (init_new_channel env s d) = 0" "maxPacket (senderBuffer (init_new_channel env s d)) = 65535"
  "lastAcked (senderBuffer (init_new_channel env s d)) = 65535" "closed (init_new_channel env s d) = False"
  "deadChannel (init_new_channel env s d) = False" "senderWindow (init_new_channel env s d) = 1"
  "cwnd (init_new_channel env s d) = 1" "maxSent (senderBuffer (init_new_channel env s d)) = 65535"
  by (simp_all add: unacked_def in_flight_def off_def init_new_channel_def init_sack_chan_def init_chan_def
      chan.defs sack_chan.defs new_SendingBuffer_def)

lemma send_wnd_init: "send_wnd (init_new_channel env s d) = 1"
proof -
  have "trunc (3 / 2) = (1 :: int)" by code_simp
  then show ?thesis by (simp add: send_wnd_def cwnd16_def init_new_channel_simps)
qed

lemma minus_one_16:
  assumes "- x = (1 :: appInt16)"
  shows "x = 65535"
proof -
  have "x = - 1" using assms by (metis minus_minus)
  also have "\<dots> = 65535" by (simp add: word_unat_eq_iff unsigned_minus_1_eq_mask mask_eq_exp_minus_1)
  finally show ?thesis .
qed

text \<open>A fresh channel after its first packet: the packet is in flight under number 0.\<close>

lemma first_packet:
  obtains c where "sendPacket env0 pkt (init_new_channel env0 s d) = Inr (0, c)" "chan_inv c" "rec_ok c"
    "sb_started (senderBuffer c)" "lastAcked (senderBuffer c) = 65535" "maxSent (senderBuffer c) = 0"
    "maxPacket (senderBuffer c) = 0" "in_flight c = 1" "\<forall>i. contents c i = None \<longleftrightarrow> i \<noteq> 0"
proof -
  let ?i = "init_new_channel env0 s d"
  let ?c = "upd_sb (\<lambda>s. s\<lparr> sb_started := True \<rparr>) ?i"
  let ?p = "pkt\<lparr> p_header := (p_header pkt)\<lparr> h_flag := h_flag (p_header pkt) OR FLAG_CHS \<rparr> \<rparr>"
  have inv: "chan_inv ?c"
    using init_new_channel_inv [of env0 s d] by (intro frame_inv [OF frame_upd_sb]) (auto simp: chan_inv_def sb_inv_started)
  have same: "unacked ?c = 0" "in_flight ?c = 0" "contents ?c = contents ?i" "send_wnd ?c = 1"
    using send_wnd_init [of env0 s d] init_new_channel_simps(1,2) [of env0 s d]
    by (simp_all add: unacked_def in_flight_def off_def contents_def fun_eq_iff send_wnd_def cwnd16_def upd_sb_def)
  have m0: "maxPacket (senderBuffer ?c) + 1 = 0" by (simp add: init_new_channel_simps)
  obtain c where c: "bind_res (res_sb (addBuffer ?p) ?c) (\<lambda>c2. bind_res (sendNew env0 1 c2) (\<lambda>(_, c3). Inr (0 :: int, c3))) = Inr (0, c)"
    "chan_inv c" "frame ?c c" "unacked c = 1" "maxPacket (senderBuffer c) = 0" "in_flight c = 1"
    "\<forall>i. contents c i = (if i = 0 then Some (unstamp (?p\<lparr> p_header := (p_header ?p)\<lparr> h_seqNo := 0 \<rparr> \<rparr>)) else contents ?c i)"
    "sb_started (senderBuffer c) = sb_started (senderBuffer ?c)"
    using enqueue_ok [OF inv net_up_env0, of ?p] same(1,2,4) unfolding m0 by auto
  have run: "sendPacket env0 pkt ?i = Inr (0, c)"
    using c(1) by (simp add: sendPacket_def has_CSN init_new_channel_simps Let_def)
  have "maxPacket (senderBuffer c) - lastAcked (senderBuffer c) = 1"
    using c(4) by (intro iffD2 [OF word_unat_eq_iff]) (simp add: unacked_def off_def)
  then have "- lastAcked (senderBuffer c) = 1" by (simp add: c(5))
  then have la: "lastAcked (senderBuffer c) = 65535" by (rule minus_one_16)
  have "maxSent (senderBuffer c) - lastAcked (senderBuffer c) = 1"
    using c(6) by (intro iffD2 [OF word_unat_eq_iff]) (simp add: in_flight_def off_def)
  then have "maxSent (senderBuffer c) = 0"
    by (simp add: la)
  moreover have "rec_ok c" using frameD(13) [OF c(3)] by (simp add: rec_ok_def upd_sb_def init_new_channel_simps)
  moreover have "contents ?i i = None" for i
    by (simp add: contents_def init_new_channel_def init_sack_chan_def init_chan_def
      chan.defs sack_chan.defs new_SendingBuffer_def sbuff_reset_def)
  ultimately show thesis
    using that [OF run c(2)] c(5-8) la by (simp add: same)
qed


end
