(* ===== verification/NewChannelRecv.thy ===== *)
theory NewChannelRecv
  imports NewChannelSend
begin

text \<open>
  The receiving side of \<open>NewChannelHandler\<close> against the specification of
  RecvWindow: every data packet inside the window is marked as accepted exactly
  when its ordinal was not received before, the acknowledgement sent back names
  the last number of the contiguous prefix received and the number of the
  packet itself, and a batch from the receive queue is delivered exactly once.
\<close>

section \<open>Acknowledgements sent\<close>

text \<open>The acknowledgement number and the acknowledged packet of every packet sent.\<close>

fun sent_acks :: "chan_event list \<Rightarrow> (appInt16 \<times> appInt16) list" where
  "sent_acks [] = []"
| "sent_acks (Ev_Send p # es) = (h_ackNo (p_header p), h_origAckNo (p_header p)) # sent_acks es"
| "sent_acks (_ # es) = sent_acks es"

lemma sent_acks_append [simp]: "sent_acks (xs @ ys) = sent_acks xs @ sent_acks ys"
  by (induction xs rule: sent_acks.induct) simp_all

fun processed :: "chan_event list \<Rightarrow> Packet list" where
  "processed [] = []"
| "processed (Ev_ProcPacket p # es) = p # processed es"
| "processed (_ # es) = processed es"

lemma processed_append [simp]: "processed (xs @ ys) = processed xs @ processed ys"
  by (induction xs rule: processed.induct) simp_all

lemma sendAck_ok:
  assumes "net_up env"
  obtains c' p where "sendAck env pkt a c = Inr c'" "ch_out c' = ch_out c @ [Ev_Send p]"
    "h_ackNo (p_header p) = a" "h_origAckNo (p_header p) = h_seqNo (p_header pkt)"
    "has_flag (h_flag (p_header p)) FLAG_ACK" "recieverBuff c' = recieverBuff c" "senderBuffer c' = senderBuffer c"
    "ackedSentUpto c' = a" "dataRecvQueue c' = dataRecvQueue c"
proof -
  have net: "e_net env p \<noteq> - ERROR_NETWORK_CLOSED" for p
    using assms by (simp add: net_up_def)
  have flags: "has_flag FLAG_ACK FLAG_ACK" "has_flag (FLAG_ACK OR FLAG_CTR) FLAG_ACK"
    by code_simp+
  show thesis
    using that
    by (cases "SEND_CONTROL_AFTER < outgoingAckCount c + 1"; cases "ackHeaderLL c"; cases "e_status env")
      (simp_all add: sendAck_def ch_send_def mark_ifc_def emit_def net flags reinit_header_def new_Packet_def Let_def)
qed

text \<open>All that leaves is acknowledgements of number \<open>a\<close> for the packet of number \<open>s\<close>.\<close>

definition acks_out :: "new_channel \<Rightarrow> new_channel \<Rightarrow> appInt16 \<Rightarrow> appInt16 \<Rightarrow> bool" where
  "acks_out c c' a s \<longleftrightarrow> (\<exists>es. ch_out c' = ch_out c @ es \<and>
     (\<forall>e\<in>set es. \<exists>p. e = Ev_Send p \<and> h_ackNo (p_header p) = a \<and> h_origAckNo (p_header p) = s))"

section \<open>One packet\<close>

lemma pktRecv_inside:
  assumes "net_up env" "recv_rel E R (recieverBuff c)"
    and st: "recvStarted (recieverBuff c) \<or> has_flag (h_flag (p_header pkt)) FLAG_CHS"
    and fin: "\<not> has_flag (h_flag (p_header pkt)) FLAG_CHF"
    and d: "d = unat (h_seqNo (p_header pkt) - expectedSeq (recieverBuff c))" "d < 32768"
  shows "\<exists>c'. pktRecv env pkt c = Inr (0, if E + d \<in> R then pkt else pkt\<lparr> p_accepted := True \<rparr>, c') \<and>
     recv_rel (first_missing (insert (E + d) R)) (insert (E + d) R) (recieverBuff c') \<and>
     recvStarted (recieverBuff c') \<and> senderBuffer c' = senderBuffer c \<and>
     sent_acks (ch_out c') = sent_acks (ch_out c) @ [(of_nat (first_missing (insert (E + d) R)) - 1, h_seqNo (p_header pkt))] \<and>
     processed (ch_out c') = processed (ch_out c) \<and> dataRecvQueue c' = dataRecvQueue c \<and>
     acks_out c c' (of_nat (first_missing (insert (E + d) R)) - 1) (h_seqNo (p_header pkt))"
proof -
  define c1 where "c1 = (if has_flag (h_flag (p_header pkt)) FLAG_CHS
    then c\<lparr> recieverBuff := (recieverBuff c)\<lparr> recvStarted := True \<rparr>, started := True \<rparr> else c)"
  let ?seq = "h_seqNo (p_header pkt)" and ?R = "insert (E + d) R"
  let ?c2 = "c1\<lparr> lastRecvPkt := cloneWithoutData (lastRecvPkt c1) pkt \<rparr>"
  have rel: "recv_rel E R (recieverBuff c1)" and ex: "expectedSeq (recieverBuff c1) = expectedSeq (recieverBuff c)"
    and rs: "recvStarted (recieverBuff c1)"
    using assms(2) st by (auto simp: c1_def recv_rel_def)
  have d1: "unat (?seq - expectedSeq (recieverBuff c1)) < 32768" "E + d = E + unat (?seq - expectedSeq (recieverBuff c1))"
    using d by (simp_all add: ex)
  obtain rb where rb: "accept_seq ?seq (recieverBuff c1) = Inr (E + d \<notin> R, rb)" "recv_rel (first_missing ?R) ?R rb"
      "maxRecvd rb = maxRecvd (recieverBuff c1)" "recvStarted rb = recvStarted (recieverBuff c1)"
    using accept_seq_refines [OF rel d1] .
  have exp: "expectedSeq rb = of_nat (first_missing ?R)" using rb(2) by (simp add: recv_rel_def)
  let ?pkt = "if E + d \<in> R then pkt else pkt\<lparr> p_accepted := True \<rparr>"
  obtain c4 p where c4: "sendAck env ?pkt (expectedSeq rb - 1) (?c2\<lparr> recieverBuff := rb \<rparr>) = Inr c4"
      "ch_out c4 = ch_out c1 @ [Ev_Send p]" "h_ackNo (p_header p) = expectedSeq rb - 1"
      "h_origAckNo (p_header p) = ?seq" "recieverBuff c4 = rb" "senderBuffer c4 = senderBuffer c1"
      "dataRecvQueue c4 = dataRecvQueue c1"
    by (rule sendAck_ok [OF assms(1), of ?pkt "expectedSeq rb - 1" "?c2\<lparr> recieverBuff := rb \<rparr>"]) (auto split: if_splits)
  have frame1: "ch_out c1 = ch_out c" "senderBuffer c1 = senderBuffer c" "dataRecvQueue c1 = dataRecvQueue c"
    by (simp_all add: c1_def)
  let ?c5 = "if ?seq - expectedSeq (recieverBuff c1) > maxRecvd (recieverBuff c1) - expectedSeq (recieverBuff c1)
    then c4\<lparr> recieverBuff := (recieverBuff c4)\<lparr> maxRecvd := ?seq \<rparr> \<rparr> else c4"
  have run: "pktRecv env pkt c = Inr (0, ?pkt, ?c5)"
    using st fin d1(1) rb(1) c4(1) unfolding pktRecv_def Let_def c1_def [symmetric] by (auto simp: if_distrib)
  show ?thesis
    by (intro exI [of _ ?c5]) (use run rb c4 frame1 rs exp in \<open>auto simp: recv_rel_def acks_out_def\<close>)
qed

lemma pktRecv_outside:
  assumes "net_up env" "recv_rel E R (recieverBuff c)"
    and st: "recvStarted (recieverBuff c) \<or> has_flag (h_flag (p_header pkt)) FLAG_CHS"
    and fin: "\<not> has_flag (h_flag (p_header pkt)) FLAG_CHF"
    and d: "d = unat (h_seqNo (p_header pkt) - expectedSeq (recieverBuff c))" "32768 \<le> d"
  shows "\<exists>c'. pktRecv env pkt c = Inr (0, pkt, c') \<and> recv_rel E R (recieverBuff c') \<and>
     recvStarted (recieverBuff c') \<and> senderBuffer c' = senderBuffer c \<and>
     sent_acks (ch_out c') = sent_acks (ch_out c) @ (if 49152 < d then [(of_nat E - 1, h_seqNo (p_header pkt))] else []) \<and>
     processed (ch_out c') = processed (ch_out c) \<and> dataRecvQueue c' = dataRecvQueue c \<and>
     acks_out c c' (of_nat E - 1) (h_seqNo (p_header pkt))"
proof -
  define c1 where "c1 = (if has_flag (h_flag (p_header pkt)) FLAG_CHS
    then c\<lparr> recieverBuff := (recieverBuff c)\<lparr> recvStarted := True \<rparr>, started := True \<rparr> else c)"
  let ?c2 = "c1\<lparr> lastRecvPkt := cloneWithoutData (lastRecvPkt c1) pkt \<rparr>" and ?a = "expectedSeq (recieverBuff c1) - 1"
  have rel: "recv_rel E R (recieverBuff c1)" and ex: "expectedSeq (recieverBuff c1) = expectedSeq (recieverBuff c)"
    and rs: "recvStarted (recieverBuff c1)" and frame1: "ch_out c1 = ch_out c" "senderBuffer c1 = senderBuffer c" "dataRecvQueue c1 = dataRecvQueue c"
    using assms(2) st by (auto simp: c1_def recv_rel_def)
  obtain c4 p where c4: "sendAck env pkt ?a ?c2 = Inr c4"
      "ch_out c4 = ch_out c1 @ [Ev_Send p]" "h_ackNo (p_header p) = ?a"
      "h_origAckNo (p_header p) = h_seqNo (p_header pkt)" "recieverBuff c4 = recieverBuff c1" "senderBuffer c4 = senderBuffer c1"
      "dataRecvQueue c4 = dataRecvQueue c1"
    by (rule sendAck_ok [OF assms(1), of pkt ?a ?c2]) auto
  have "pktRecv env pkt c = Inr (0, pkt, if 49152 < d then c4 else ?c2)"
    using st fin d c4(1) unfolding pktRecv_def Let_def c1_def [symmetric]
    by (auto simp: ex word_less_nat_alt)
  then show ?thesis
    using rel rs c4 frame1 by (intro exI [of _ "if 49152 < d then c4 else ?c2"]) (auto simp: recv_rel_def acks_out_def)
qed


definition data_pkt :: "appInt16 \<Rightarrow> Packet" where
  "data_pkt n = new_Packet\<lparr> p_header := reinit_header\<lparr> h_flag := FLAG_DAT OR FLAG_CHS, h_seqNo := n \<rparr> \<rparr>"

lemma data_pkt_flags: "has_flag (h_flag (p_header (data_pkt n))) FLAG_CHS"
  "\<not> has_flag (h_flag (p_header (data_pkt n))) FLAG_CHF"
  by (simp_all add: data_pkt_def reinit_header_def) (code_simp+)

lemma init_new_channel_recv: "recieverBuff (init_new_channel env s d) = new_ReceivingBuffer"
  by (simp add: init_new_channel_def init_sack_chan_def init_chan_def chan.defs sack_chan.defs)


section \<open>A batch from the queue\<close>

text \<open>What the parent gets for packets with their ordinals: only a new ordinal is accepted.\<close>

fun deliveries :: "nat set \<Rightarrow> (nat \<times> Packet) list \<Rightarrow> Packet list" where
  "deliveries R [] = []"
| "deliveries R ((n, p) # ps) =
     (if n \<in> R then p else p\<lparr> p_accepted := True \<rparr>)\<lparr> p_processed := True \<rparr> # deliveries (insert n R) ps"

lemma first_missing_mono:
  assumes "R \<subseteq> R'" "finite R'"
  shows "first_missing R \<le> first_missing R'"
proof -
  have "first_missing R' \<notin> R"
    using first_missing_props(1) [OF assms(2)] assms(1) by auto
  then show ?thesis unfolding first_missing_def by (rule Least_le)
qed

text \<open>The ordinals of a batch fit the receiver's window from its first packet to its last.\<close>

definition batch_ok :: "nat \<Rightarrow> nat set \<Rightarrow> (nat \<times> Packet) list \<Rightarrow> bool" where
  "batch_ok E R ps \<longleftrightarrow> (\<forall>(n, p)\<in>set ps. h_seqNo (p_header p) = of_nat n \<and> n < E + 32768 \<and>
     first_missing (R \<union> fst ` set ps) \<le> n + 32768 \<and> \<not> has_flag (h_flag (p_header p)) FLAG_CHF)"

lemma recv_rel_first: "recv_rel E R rb \<Longrightarrow> first_missing R = E"
  by (intro first_missing_eq) (simp_all add: recv_rel_def)

lemma pktRecv_ordinal:
  assumes "net_up env" "recv_rel E R (recieverBuff c)" "recvStarted (recieverBuff c) \<or> has_flag (h_flag (p_header p)) FLAG_CHS"
    and "h_seqNo (p_header p) = of_nat n" "n < E + 32768" "E \<le> n + 32768" "\<not> has_flag (h_flag (p_header p)) FLAG_CHF"
  shows "\<exists>c'. pktRecv env p c = Inr (0, if n \<in> R then p else p\<lparr> p_accepted := True \<rparr>, c') \<and>
     recv_rel (first_missing (insert n R)) (insert n R) (recieverBuff c') \<and> recvStarted (recieverBuff c') \<and>
     processed (ch_out c') = processed (ch_out c) \<and> dataRecvQueue c' = dataRecvQueue c \<and>
     senderBuffer c' = senderBuffer c \<and> acks_out c c' (of_nat (first_missing (insert n R)) - 1) (of_nat n)"
proof (cases "E \<le> n")
  case True
  have "(of_nat n :: appInt16) - of_nat E = of_nat (n - E)" using True by simp
  then have "unat ((of_nat n :: appInt16) - of_nat E) = n - E"
    using assms(5) by (simp only:) (intro unat_of_nat_small, simp)
  then have "n - E = unat (h_seqNo (p_header p) - expectedSeq (recieverBuff c))"
    using assms(2,4) by (simp add: recv_rel_def)
  moreover have "n - E < 32768" using assms(5) True by linarith
  ultimately have "\<exists>c'. pktRecv env p c = Inr (0, if E + (n - E) \<in> R then p else p\<lparr> p_accepted := True \<rparr>, c') \<and>
     recv_rel (first_missing (insert (E + (n - E)) R)) (insert (E + (n - E)) R) (recieverBuff c') \<and>
     recvStarted (recieverBuff c') \<and> processed (ch_out c') = processed (ch_out c) \<and> dataRecvQueue c' = dataRecvQueue c \<and>
     senderBuffer c' = senderBuffer c \<and> acks_out c c' (of_nat (first_missing (insert (E + (n - E)) R)) - 1) (of_nat n)"
    using pktRecv_inside [OF assms(1-3,7)] assms(4) by metis
  moreover have "E + (n - E) = n" using True by simp
  ultimately show ?thesis by (simp only:)
next
  case False
  have "(of_nat n :: appInt16) - of_nat E = of_nat (65536 - (E - n))"
    using False assms(6) by (simp add: of_nat_diff)
  then have u: "unat ((of_nat n :: appInt16) - of_nat E) = 65536 - (E - n)"
    using False by (simp only:) (intro unat_of_nat_small, simp)
  then have d: "65536 - (E - n) = unat (h_seqNo (p_header p) - expectedSeq (recieverBuff c))"
    using assms(2,4) by (simp add: recv_rel_def)
  have "n \<in> R" using assms(2) False by (auto simp: recv_rel_def)
  moreover have "32768 \<le> 65536 - (E - n)" using assms(6) by linarith
  ultimately show ?thesis
    using pktRecv_outside [OF assms(1-3,7) d] recv_rel_first [OF assms(2)] assms(4)
    by (auto simp: insert_absorb)
qed

lemma pktRecv_list_ok:
  assumes "net_up env" "recv_rel E R (recieverBuff c)" "recvStarted (recieverBuff c)" "batch_ok E R ps"
  shows "\<exists>c' E'. pktRecv_list env (map snd ps) c = Inr c' \<and>
     recv_rel E' (R \<union> fst ` set ps) (recieverBuff c') \<and>
     processed (ch_out c') = processed (ch_out c) @ deliveries R ps \<and> dataRecvQueue c' = dataRecvQueue c"
  using assms(2-4)
proof (induction ps arbitrary: E R c)
  case Nil
  then show ?case by auto
next
  case (Cons np ps)
  obtain n p where np: "np = (n, p)" by (cases np)
  have fin: "finite (R \<union> fst ` set (np # ps))"
    using Cons.prems(1) finite_subset [of R "{..<E + 32768}"] by (auto simp: recv_rel_def)
  have n: "h_seqNo (p_header p) = of_nat n" "n < E + 32768" "\<not> has_flag (h_flag (p_header p)) FLAG_CHF"
    "first_missing (R \<union> fst ` set (np # ps)) \<le> n + 32768"
    using Cons.prems(3) by (auto simp: batch_ok_def np)
  have "E \<le> first_missing (R \<union> fst ` set (np # ps))"
    using first_missing_mono [OF _ fin, of R] recv_rel_first [OF Cons.prems(1)] by auto
  then have "E \<le> n + 32768" using n(4) by simp
  then obtain c1 where c1: "pktRecv env p c = Inr (0, if n \<in> R then p else p\<lparr> p_accepted := True \<rparr>, c1)"
      "recv_rel (first_missing (insert n R)) (insert n R) (recieverBuff c1)" "recvStarted (recieverBuff c1)"
      "processed (ch_out c1) = processed (ch_out c)" "dataRecvQueue c1 = dataRecvQueue c"
    using pktRecv_ordinal [OF assms(1) Cons.prems(1) disjI1 [OF Cons.prems(2)] n(1,2) _ n(3)] by blast
  let ?q = "(if n \<in> R then p else p\<lparr> p_accepted := True \<rparr>)\<lparr> p_processed := True \<rparr>"
  let ?c2 = "emit (Ev_ProcPacket ?q) c1"
  have "E \<le> first_missing (insert n R)"
    using first_missing_mono [of R "insert n R"] recv_rel_first [OF Cons.prems(1)] fin by auto
  moreover have "R \<union> fst ` set (np # ps) = insert n R \<union> fst ` set ps" by (simp add: np)
  ultimately have "batch_ok (first_missing (insert n R)) (insert n R) ps"
    using Cons.prems(3) unfolding batch_ok_def by fastforce
  then have "\<exists>c' E'. pktRecv_list env (map snd ps) ?c2 = Inr c' \<and>
     recv_rel E' (insert n R \<union> fst ` set ps) (recieverBuff c') \<and>
     processed (ch_out c') = processed (ch_out ?c2) @ deliveries (insert n R) ps \<and> dataRecvQueue c' = dataRecvQueue ?c2"
    using c1(2,3) by (intro Cons.IH) (simp_all add: emit_def)
  then show ?case
    using c1(1,4,5) by (auto simp: np emit_def)
qed



end
