(* ===== verification/NewChannelFaults.thy ===== *)
theory NewChannelFaults
  imports NewChannelAck NewChannelRecv
begin

text \<open>
  What happens to a channel at the edges: acknowledgements no correct receiver
  sends, batches with a stale acknowledgement, a slow first round trip, a
  retransmission of an empty cell, and the hand-over of the undelivered packets
  when the channel dies.
\<close>

section \<open>Acknowledgements of packets that were not sent\<close>

lemma stopTimer_absent:
  assumes "sb_inv s" "sb_pkt (cells s i) = Some p" "off s (maxSent s) < off s i"
  shows "stopTimer i s = Inl Assert_Failed"
proof -
  note D = sb_invD [OF assms(1)]
  have "h_seqNo (p_header p) = i" using D(3) [OF assms(2)] by simp
  moreover have "i \<notin> set (timerList s)" using D(7) [of i] assms(3) by simp
  ultimately show ?thesis
    using hasTimer_iff [OF D(6), of i p] assms(2) by (simp add: stopTimer_def)
qed

text \<open>
  The process aborts when an acknowledgement inside the window was sent,
  by its own account, for a packet that is queued and has not been sent yet:
  the handler stops the packet's timer, which is not running.
\<close>

theorem ackRecv_unsent_aborts:
  assumes "chan_inv c" "sb_started (senderBuffer c)"
    and "off (senderBuffer c) (h_ackNo (p_header pkt)) \<le> 32768"
    and "h_ackNo (p_header pkt) \<noteq> h_origAckNo (p_header pkt)"
    and "pkts_of c (h_origAckNo (p_header pkt)) \<noteq> None"
    and "in_flight c < off (senderBuffer c) (h_origAckNo (p_header pkt))"
  shows "ackRecv env pkt c = Inl Assert_Failed"
proof -
  let ?w = "h_window (p_header pkt)" and ?o = "h_origAckNo (p_header pkt)"
  let ?n = "h_ackNo (p_header pkt) - lastAcked (senderBuffer c)"
  define c0 where "c0 = (if ?w \<noteq> 0 then c\<lparr> senderWindow := ?w \<rparr> else c)"
  have s0: "senderBuffer c0 = senderBuffer c" by (simp add: c0_def)
  obtain p where p: "sb_pkt (cells (senderBuffer c) ?o) = Some p" using assms(5) by (auto simp: pkts_of_def)
  have "stopTimer ?o (senderBuffer c) = Inl Assert_Failed"
    using assms(1,6) p by (intro stopTimer_absent) (simp_all add: chan_inv_def in_flight_def)
  then have "release_orig pkt d = Inl Assert_Failed" if "senderBuffer d = senderBuffer c" for d
    using that p assms(4) by (simp add: release_orig_def release_cell_def res_sb_def Let_def)
  moreover have "senderBuffer (note_kind k c0) = senderBuffer c" for k by (simp add: note_kind_def s0)
  moreover have "ack_kind c0 ?n \<noteq> Ack_Outside"
    using assms(3) by (auto simp: ack_kind_def word_gt_0 off_def)
  ultimately show ?thesis
    using assms(2) unfolding ackRecv_def Let_def c0_def [symmetric] by (simp add: s0)
qed

lemma ackRecv_unsent_aborts_witness:
  "\<exists>c. sendPacket env0 new_Packet ((init_new_channel env0 1 2)\<lparr> senderWindow := 0 \<rparr>) = Inr (0, c) \<and>
     ackRecv env0 (ack_of 65535 0) c = Inl Assert_Failed"
proof -
  let ?i = "(init_new_channel env0 1 2)\<lparr> senderWindow := 0 \<rparr>"
  have inv: "chan_inv ?i" by (simp add: init_new_channel_inv)
  have st: "unacked ?i = 0" "in_flight ?i = 0" "send_wnd ?i = 0" "\<not> closed ?i" "\<not> deadChannel ?i"
    "maxPacket (senderBuffer ?i) + 1 = 0"
    using init_new_channel_simps [of env0 1 2]
    by (simp_all add: unacked_def in_flight_def send_wnd_def)
  obtain c where c: "sendPacket env0 new_Packet ?i = Inr (0, c)" "chan_inv c" "sb_started (senderBuffer c)"
      "maxPacket (senderBuffer c) = 0" "unacked c = 1" "in_flight c = 0" "contents c 0 \<noteq> None"
    using sendPacket_ok [OF inv net_up_env0, of new_Packet] st by auto
  have o: "off (senderBuffer c) 0 = 1" using c(4,5) by (simp add: unacked_def)
  have "unat (- lastAcked (senderBuffer c)) = 1" using o by (simp add: off_def)
  then have "- lastAcked (senderBuffer c) = 1" by (intro iffD2 [OF word_unat_eq_iff]) simp
  then have "lastAcked (senderBuffer c) = 65535" by (rule minus_one_16)
  moreover have "pkts_of c 0 \<noteq> None" using c(7) by (simp add: contents_pkts)
  ultimately have "ackRecv env0 (ack_of 65535 0) c = Inl Assert_Failed"
    using o c(6) by (intro ackRecv_unsent_aborts [OF c(2,3)]) (simp_all add: off_def)
  then show ?thesis using c(1) by blast
qed

section \<open>Stale acknowledgements\<close>

lemma ackRecv_outside:
  assumes "32768 < off (senderBuffer c) (h_ackNo (p_header pkt))" "sb_started (senderBuffer c)"
  shows "ackRecv env pkt c = Inr (- 1, if h_window (p_header pkt) \<noteq> 0
    then c\<lparr> senderWindow := h_window (p_header pkt) \<rparr> else c)"
proof -
  have "ack_kind d (h_ackNo (p_header pkt) - lastAcked (senderBuffer d)) = Ack_Outside"
    if "senderBuffer d = senderBuffer c" for d :: new_channel
    using assms(1) that by (auto simp: ack_kind_def off_def word_less_nat_alt)
  then show ?thesis
    using assms(2) by (auto simp: ackRecv_def note_kind_def Let_def)
qed

lemma max_ack_result:
  "max_ack la pkts (la + n0, n0) = (m, n) \<Longrightarrow> m = la + n \<and> n0 \<le> n \<and>
     (\<forall>p\<in>set pkts. h_ackNo (p_header p) - la \<le> n)"
proof (induction pkts arbitrary: n0)
  case (Cons p pkts)
  let ?k = "h_ackNo (p_header p) - la"
  have "max_ack la pkts (la + (if ?k > n0 then ?k else n0), if ?k > n0 then ?k else n0) = (m, n)"
    using Cons.prems by (simp add: Let_def split: if_splits)
  from Cons.IH [OF this] show ?case by (auto split: if_splits)
qed simp

text \<open>Only the peer's window changes.\<close>

definition ignored :: "new_channel \<Rightarrow> new_channel \<Rightarrow> bool" where
  "ignored c c' \<longleftrightarrow> c' = c\<lparr> senderWindow := senderWindow c' \<rparr>"

lemma ignoredD:
  assumes "ignored c c'"
  shows "senderBuffer c' = senderBuffer c" "ch_out c' = ch_out c" "ackRecvQueue c' = ackRecvQueue c"
  by (subst assms [unfolded ignored_def], simp)+

lemma ackRecv_list_stale:
  assumes "sb_started (senderBuffer c)" "32768 < unat n" "m = lastAcked (senderBuffer c) + n"
    and "\<forall>p\<in>set pkts. h_origAckNo (p_header p) - lastAcked (senderBuffer c) \<le> n"
  shows "\<exists>c'. ackRecv_list env m n pkts c = Inr c' \<and> ignored c c'"
  using assms
proof (induction pkts arbitrary: c)
  case Nil
  then show ?case by (simp add: ignored_def)
next
  case (Cons p pkts)
  show ?case
  proof (cases "h_ackNo (p_header p) = m")
    case True
    let ?c = "if h_window (p_header p) \<noteq> 0 then c\<lparr> senderWindow := h_window (p_header p) \<rparr> else c"
    have "ackRecv env p c = Inr (- 1, ?c)"
      using Cons.prems True by (intro ackRecv_outside) (simp_all add: off_def)
    moreover have "\<exists>c'. ackRecv_list env m n pkts ?c = Inr c' \<and> ignored ?c c'"
      using Cons.prems by (intro Cons.IH) auto
    ultimately show ?thesis
      using True by (auto simp: ignored_def Let_def split: if_splits)
  next
    case False
    then show ?thesis
      using Cons.IH [OF Cons.prems(1-3)] Cons.prems(4) by (auto simp: Let_def not_less [symmetric])
  qed
qed

text \<open>
  One stale acknowledgement hides the whole batch.  \<open>ackRecv()\<close> looks for the
  largest acknowledgement number relative to \<open>lastAcked\<close>, and a number behind
  \<open>lastAcked\<close> is large there.  When the queue holds such a packet, every packet
  of the batch is dropped, fresh acknowledgements included: nothing is
  released, \<open>lastAcked\<close> stays and the parent learns of nothing (unless a packet
  claims to be sent for one beyond the stale number).
\<close>

theorem ackRecv_queue_stale_masks:
  assumes "sb_started (senderBuffer c)" "stale \<in> set (ackRecvQueue c)"
    and "32768 < off (senderBuffer c) (h_ackNo (p_header stale))"
    and "\<forall>p\<in>set (ackRecvQueue c). off (senderBuffer c) (h_origAckNo (p_header p))
           \<le> off (senderBuffer c) (h_ackNo (p_header stale))"
  shows "\<exists>c'. ackRecv_queue env c = Inr c' \<and> senderBuffer c' = senderBuffer c \<and>
     recv_acks (ch_out c') = recv_acks (ch_out c) \<and> ackRecvQueue c' = []"
proof -
  let ?la = "lastAcked (senderBuffer c)" and ?c = "c\<lparr> ackRecvQueue := [] \<rparr>"
  obtain m n where mn: "max_ack ?la (ackRecvQueue c) (?la, 0) = (m, n)" by (cases "max_ack ?la (ackRecvQueue c) (?la, 0)")
  then have m: "m = ?la + n" "\<forall>p\<in>set (ackRecvQueue c). h_ackNo (p_header p) - ?la \<le> n"
    using max_ack_result [of ?la "ackRecvQueue c" 0 m n] by simp_all
  have "h_ackNo (p_header stale) - ?la \<le> n" using m(2) assms(2) by blast
  then have big: "off (senderBuffer c) (h_ackNo (p_header stale)) \<le> unat n" by (simp add: off_def word_le_nat_alt)
  have "\<forall>p\<in>set (ackRecvQueue c). h_origAckNo (p_header p) - ?la \<le> n"
    using assms(4) big by (auto simp: off_def word_le_nat_alt intro: order_trans)
  moreover have "32768 < unat n" using assms(3) big by simp
  ultimately obtain c1 where c1: "ackRecv_list env m n (ackRecvQueue c) ?c = Inr c1" "ignored ?c c1"
    using ackRecv_list_stale [of ?c n m "ackRecvQueue c" env] assms(1) m(1) by auto
  show ?thesis
    using c1(1) ignoredD [OF c1(2)] by (simp add: ackRecv_queue_def mn emit_def Let_def)
qed

lemma ackRecv_queue_stale_masks_witness:
  "\<exists>c c'. sendPacket env0 new_Packet (init_new_channel env0 1 2) = Inr (0, c) \<and> in_flight c = 1 \<and>
     ackRecv_queue env0 (c\<lparr> ackRecvQueue := [ack_of 0 0, ack_of 65000 65000] \<rparr>) = Inr c' \<and> in_flight c' = 1"
proof -
  obtain c where c: "sendPacket env0 new_Packet (init_new_channel env0 1 2) = Inr (0, c)"
    "sb_started (senderBuffer c)" "lastAcked (senderBuffer c) = 65535" "in_flight c = 1"
    using first_packet by blast
  let ?c = "c\<lparr> ackRecvQueue := [ack_of 0 0, ack_of 65000 65000] \<rparr>"
  have "\<exists>c'. ackRecv_queue env0 ?c = Inr c' \<and> senderBuffer c' = senderBuffer ?c \<and>
      recv_acks (ch_out c') = recv_acks (ch_out ?c) \<and> ackRecvQueue c' = []"
    by (rule ackRecv_queue_stale_masks [of _ "ack_of 65000 65000"]) (simp_all add: c(2,3) off_def)
  then show ?thesis using c(1,4) by (auto simp: in_flight_def)
qed

section \<open>A slow first round trip\<close>

text \<open>
  The round trip estimate aborts the process on its first sample when that
  is five seconds or more: the timeout would be three times the sample, and the
  estimator asserts that it stays under fifteen seconds.
\<close>

theorem updateRtt_slow_sample_aborts:
  assumes "srtt c = 0" "sint (h_sentTS (p_header pkt)) \<noteq> 0" "rtt_sample env pkt = r" "5 * TIMER_SECOND_IN_US \<le> r"
  shows "updateRtt env pkt c = Inl Assert_Failed"
proof -
  let ?h = "trunc (of_int r / 2)"
  have h: "2 * TIMER_SECOND_IN_US + TIMER_SECOND_IN_US div 2 \<le> ?h"
    using assms(4) by (intro trunc_ge) (simp_all add: TIMER_SECOND_IN_US_def)
  have "rto (rtt_step r c) = r + APP_MAX rtt_G (4 * ?h)" using assms(1) by (simp add: rtt_step_def)
  then have "15 * TIMER_SECOND_IN_US \<le> rto (rtt_step r c)"
    using h assms(4) by (simp add: APP_MAX_def TIMER_SECOND_IN_US_def split: if_splits)
  then show ?thesis
    using assms(2,3) by (auto simp: updateRtt_def rtt_sample_def Let_def)
qed

lemma updateRtt_slow_sample_aborts_witness:
  "updateRtt (env0\<lparr> e_now := 5000001 \<rparr>)
     (new_Packet\<lparr> p_header := reinit_header\<lparr> h_sentTS := 1 \<rparr> \<rparr>) (init_new_channel env0 1 2) = Inl Assert_Failed"
  by (rule updateRtt_slow_sample_aborts [where r = 5000000])
    (simp_all add: init_new_channel_def init_sack_chan_def init_chan_def chan.defs sack_chan.defs rtt_sample_def
      env0_def TIMER_SECOND_IN_US_def new_Packet_def)

section \<open>An empty cell\<close>

text \<open>
  \<open>sendSeq\<close> of a cell without packet returns \<open>-42\<close> without releasing
  \<open>sendSeqLock\<close>: the channel changes in nothing else, and the next \<open>sendSeq\<close>,
  of any cell, blocks its thread for ever.
\<close>

theorem sendSeq_empty_keeps_lock:
  assumes "\<not> sendSeqLocked c" "pkts_of c i = None"
  shows "\<exists>c'. sendSeq env i c = Inr (- 42, c') \<and> c' = c\<lparr> sendSeqLocked := True \<rparr> \<and>
    (\<forall>env' j. sendSeq env' j c' = Inl Blocked)"
  using assms by (simp add: sendSeq_def pkts_of_def)

lemma sendSeq_empty_keeps_lock_witness:
  "\<exists>c'. sendSeq env0 7 (init_new_channel env0 1 2) = Inr (- 42, c') \<and> sendSeq env0 8 c' = Inl Blocked"
proof -
  have "\<not> sendSeqLocked (init_new_channel env0 1 2)" "pkts_of (init_new_channel env0 1 2) 7 = None"
    by (simp_all add: pkts_of_def init_new_channel_def init_sack_chan_def init_chan_def chan.defs sack_chan.defs
      new_SendingBuffer_def sbuff_reset_def)
  from sendSeq_empty_keeps_lock [OF this, of env0] show ?thesis by blast
qed

section \<open>Undelivered packets\<close>

text \<open>The packets of \<open>n\<close> cells from \<open>i\<close> on, in order.\<close>

fun occupants :: "(appInt16 \<Rightarrow> Packet option) \<Rightarrow> nat \<Rightarrow> appInt16 \<Rightarrow> Packet list" where
  "occupants P 0 i = []"
| "occupants P (Suc n) i = (case P i of None \<Rightarrow> [] | Some p \<Rightarrow> [p]) @ occupants P n (i + 1)"

lemma occupants_cong:
  "(\<And>j. j < n \<Longrightarrow> P (i + of_nat j) = Q (i + of_nat j)) \<Longrightarrow> occupants P n i = occupants Q n i"
proof (induction n arbitrary: i)
  case (Suc n)
  have "occupants P n (i + 1) = occupants Q n (i + 1)"
    using Suc.prems [of "Suc _"] by (intro Suc.IH) (simp add: add.assoc)
  then show ?case using Suc.prems [of 0] by simp
qed simp

lemma of_nat_Suc_neq_0:
  assumes "j < 65535"
  shows "(of_nat (Suc j) :: appInt16) \<noteq> 0"
proof -
  have "unat (of_nat (Suc j) :: appInt16) = Suc j"
    using assms by (intro unat_of_nat_small) simp
  then show ?thesis by (metis nat.distinct(1) unat_0)
qed

lemma collect_undelivered_ok:
  "n \<le> 65535 \<Longrightarrow> \<exists>b'. collect_undelivered n i b =
      (filter (\<lambda>p. \<not> has_flag (h_flag (p_header p)) FLAG_CSN) (occupants (\<lambda>j. sb_pkt (b j)) n i), b') \<and>
    (\<forall>j. sb_pkt (b' j) = (if \<exists>k<n. j = i + of_nat k then None else sb_pkt (b j)))"
proof (induction n arbitrary: i b)
  case (Suc n)
  let ?P = "\<lambda>b j. sb_pkt (b j)"
  have split: "(\<exists>k<Suc n. j = i + of_nat k) \<longleftrightarrow> j = i \<or> (\<exists>k<n. j = i + 1 + of_nat k)" for j
  proof -
    have "(\<exists>k<Suc n. j = i + of_nat k) \<longleftrightarrow> j = i + of_nat 0 \<or> (\<exists>k<n. j = i + of_nat (Suc k))"
      by (metis less_Suc_eq_0_disj)
    then show ?thesis by (simp add: add.assoc)
  qed
  show ?case
  proof (cases "sb_pkt (b i)")
    case None
    then show ?thesis
      using Suc.IH [of "i + 1" b] Suc.prems unfolding split by auto
  next
    case (Some p)
    let ?b = "b(i := sbuff_reset)"
    have occ: "occupants (?P ?b) n (i + 1) = occupants (?P b) n (i + 1)"
    proof (rule occupants_cong)
      fix k assume "k < n"
      then have "(of_nat (Suc k) :: appInt16) \<noteq> 0"
        using Suc.prems by (intro of_nat_Suc_neq_0) simp
      moreover have "i + 1 + of_nat k = i + of_nat (Suc k)" by (simp add: algebra_simps)
      ultimately have "i + 1 + of_nat k \<noteq> i"
        by (simp only: add_cancel_left_right not_False_eq_True)
      then show "?P ?b (i + 1 + of_nat k) = ?P b (i + 1 + of_nat k)" by simp
    qed
    obtain b' where b': "collect_undelivered n (i + 1) ?b =
        (filter (\<lambda>p. \<not> has_flag (h_flag (p_header p)) FLAG_CSN) (occupants (?P b) n (i + 1)), b')"
      "\<forall>j. sb_pkt (b' j) = (if \<exists>k<n. j = i + 1 + of_nat k then None else sb_pkt (?b j))"
      using Suc.IH [of "i + 1" ?b] Suc_leD [OF Suc.prems] unfolding occ by blast
    have "sb_pkt (b' j) = (if j = i \<or> (\<exists>k<n. j = i + 1 + of_nat k) then None else sb_pkt (b j))" for j
      using b'(2) by (auto simp: sbuff_reset_def)
    then show ?thesis
      using Some b'(1) unfolding split by (intro exI [of _ b']) simp
  qed
qed simp

text \<open>What \<open>getUndeliveredPackets\<close> hands over.\<close>

definition undelivered :: "new_channel \<Rightarrow> Packet list" where
  "undelivered c = filter (\<lambda>p. \<not> has_flag (h_flag (p_header p)) FLAG_CSN)
     (occupants (pkts_of c) (unacked c) (lastAcked (senderBuffer c) + 1))"

lemma getUndelivered_ok:
  assumes "chan_inv c"
  shows "\<exists>c'. getUndeliveredPackets c = Inr (undelivered c, c') \<and>
    (\<forall>i. pkts_of c' i = None) \<and> timerList (senderBuffer c') = [] \<and> frame c c'"
proof -
  let ?s = "senderBuffer c" and ?i = "lastAcked (senderBuffer c) + 1"
  have inv: "sb_inv ?s" using assms by (simp add: chan_inv_def)
  have n: "unat (maxPacket ?s - lastAcked ?s) = unacked c" "unacked c \<le> 32768"
    using sb_invD(2) [OF inv] by (simp_all add: unacked_def off_def)
  obtain b' where b': "collect_undelivered (unacked c) ?i (cells ?s) =
      (filter (\<lambda>p. \<not> has_flag (h_flag (p_header p)) FLAG_CSN) (occupants (\<lambda>j. sb_pkt (cells ?s j)) (unacked c) ?i), b')"
    "\<forall>j. sb_pkt (b' j) = (if \<exists>k<unacked c. j = ?i + of_nat k then None else sb_pkt (cells ?s j))"
    using collect_undelivered_ok [of "unacked c" ?i "cells ?s"] n(2) by auto
  have empty: "sb_pkt (b' j) = None" for j
  proof (cases "sb_pkt (cells ?s j)")
    case (Some p)
    have o: "0 < off ?s j" "off ?s j \<le> unacked c" using sb_invD(3) [OF inv Some] by (simp_all add: unacked_def)
    then have "j = ?i + of_nat (off ?s j - 1)" by (simp add: off_def of_nat_diff)
    then have "\<exists>k<unacked c. j = ?i + of_nat k" using o by (intro exI [of _ "off ?s j - 1"]) auto
    then show ?thesis using b'(2) by auto
  qed (use b'(2) in auto)
  have "pkts_of c = (\<lambda>j. sb_pkt (cells ?s j))" by (simp add: pkts_of_def fun_eq_iff)
  then show ?thesis
    by (intro exI [of _ "c\<lparr> senderBuffer := ?s\<lparr> timerList := [], cells := b' \<rparr> \<rparr>"])
      (use b'(1) empty n(1) in \<open>auto simp: undelivered_def getUndeliveredPackets_def pkts_of_def frame_def Let_def\<close>)
qed



end
