(* ===== verification/Addresses.thy ===== *)
theory Addresses
  imports Prelude
begin

text \<open>
  The addresses of src/src/TunnelLib/InterfaceController/Addresses.hh and
  Addresses.cc: remote and local endpoints with the orders the maps of the
  program use, and the order on pairs, which is not one.
\<close>

section \<open>Remote and local endpoints\<close>

record RemoteAddr =
  ra_ip :: appInt32
  ra_port :: appInt

definition RemoteAddr_less :: "RemoteAddr \<Rightarrow> RemoteAddr \<Rightarrow> bool" where
  "RemoteAddr_less a b =
     (if ra_ip a \<noteq> ra_ip b then ra_ip a < ra_ip b
      else if ra_port a \<noteq> ra_port b then ra_port a < ra_port b else False)"

record InterfaceAddr =
  ia_ifc :: string
  ia_gwIp :: appInt32
  ia_gwMac :: "appByte list"
  ia_ifcIp :: appInt32
  ia_localPort :: appInt

text \<open>\<open>memcmp\<close> on two arrays of the same length: the order of the first difference.\<close>

fun memcmp :: "appByte list \<Rightarrow> appByte list \<Rightarrow> int" where
  "memcmp (a # as) (b # bs) = (if a < b then - 1 else if b < a then 1 else memcmp as bs)"
| "memcmp _ _ = 0"

definition InterfaceAddr_less :: "InterfaceAddr \<Rightarrow> InterfaceAddr \<Rightarrow> bool" where
  "InterfaceAddr_less a b =
     (if ia_localPort a \<noteq> ia_localPort b then ia_localPort a < ia_localPort b
      else if ia_ifcIp a \<noteq> ia_ifcIp b then ia_ifcIp a < ia_ifcIp b
      else (let r = memcmp (ia_gwMac a) (ia_gwMac b) in if r \<noteq> 0 then r < 0 else False))"

text \<open>\<open>AppPair::operator<\<close>, for the orders of the two components.\<close>

definition AppPair_less :: "('a \<Rightarrow> 'a \<Rightarrow> bool) \<Rightarrow> ('b \<Rightarrow> 'b \<Rightarrow> bool) \<Rightarrow> 'a \<times> 'b \<Rightarrow> 'a \<times> 'b \<Rightarrow> bool" where
  "AppPair_less lt1 lt2 p q = (if lt1 (fst p) (fst q) then True else lt2 (snd p) (snd q))"

section \<open>Strict weak orders\<close>

text \<open>
  What \<open>std::map\<close> and \<open>std::set\<close> require of a comparator: irreflexive,
  transitive, and incomparability is transitive.
\<close>

definition strict_weak_order :: "('a \<Rightarrow> 'a \<Rightarrow> bool) \<Rightarrow> bool" where
  "strict_weak_order lt \<longleftrightarrow> (\<forall>x. \<not> lt x x) \<and> (\<forall>x y z. lt x y \<longrightarrow> lt y z \<longrightarrow> lt x z) \<and>
     (\<forall>x y z. \<not> lt x y \<longrightarrow> \<not> lt y x \<longrightarrow> \<not> lt y z \<longrightarrow> \<not> lt z y \<longrightarrow> \<not> lt x z \<and> \<not> lt z x)"

text \<open>A comparator that compares keys of a linear order is one.\<close>

lemma strict_weak_order_key:
  fixes key :: "'a \<Rightarrow> 'k::linorder"
  assumes "\<And>x y. lt x y \<longleftrightarrow> key x < key y"
  shows "strict_weak_order lt"
  unfolding strict_weak_order_def assms by auto

lemma RemoteAddr_less_iff:
  "RemoteAddr_less a b \<longleftrightarrow> ra_ip a < ra_ip b \<or> ra_ip a = ra_ip b \<and> ra_port a < ra_port b"
  by (auto simp: RemoteAddr_less_def)

lemma memcmp_less_iff: "length xs = length ys \<Longrightarrow> memcmp xs ys < 0 \<longleftrightarrow> (xs, ys) \<in> lexord {(x, y). x < y}"
  by (induction xs ys rule: memcmp.induct) auto

lemma memcmp_eq_iff: "length xs = length ys \<Longrightarrow> memcmp xs ys = 0 \<longleftrightarrow> xs = ys"
  by (induction xs ys rule: memcmp.induct) auto

text \<open>
  The order on remote addresses is a strict linear order on their address
  and port, so a map keyed by remote addresses holds at most one entry for each.
\<close>

theorem RemoteAddr_order:
  "strict_weak_order RemoteAddr_less \<and>
   (\<not> RemoteAddr_less a b \<and> \<not> RemoteAddr_less b a \<longleftrightarrow> ra_ip a = ra_ip b \<and> ra_port a = ra_port b)"
  unfolding strict_weak_order_def RemoteAddr_less_iff by auto

text \<open>
  The order on pairs is not a strict weak order, whatever the orders of the
  components are, as soon as each distinguishes two values: two pairs are each
  less than the other, so a \<open>std::map\<close> keyed by such pairs has undefined
  behaviour.
\<close>

theorem AppPair_less_not_order:
  assumes "lt1 a1 a2" "lt2 b1 b2"
  shows "AppPair_less lt1 lt2 (a1, b2) (a2, b1) \<and> AppPair_less lt1 lt2 (a2, b1) (a1, b2) \<and>
    \<not> (strict_weak_order (AppPair_less lt1 lt2))"
proof -
  have "AppPair_less lt1 lt2 (a1, b2) (a2, b1)" "AppPair_less lt1 lt2 (a2, b1) (a1, b2)"
    using assms by (simp_all add: AppPair_less_def)
  then show ?thesis
    unfolding strict_weak_order_def by blast
qed

lemma AppPair_less_not_order_witness:
  "AppPair_less RemoteAddr_less (<) (\<lparr> ra_ip = 1, ra_port = 5 \<rparr>, 9 :: appInt) (\<lparr> ra_ip = 2, ra_port = 5 \<rparr>, 3) \<and>
   AppPair_less RemoteAddr_less (<) (\<lparr> ra_ip = 2, ra_port = 5 \<rparr>, 3 :: appInt) (\<lparr> ra_ip = 1, ra_port = 5 \<rparr>, 9)"
  using AppPair_less_not_order [of RemoteAddr_less "\<lparr> ra_ip = 1, ra_port = 5 \<rparr>" "\<lparr> ra_ip = 2, ra_port = 5 \<rparr>"
      "(<)" "3 :: appInt" 9]
  by (simp add: RemoteAddr_less_def)

end
