(* ===== verification/Scheduler.thy ===== *)
theory Scheduler
  imports NewChannelFaults Addresses
begin

text \<open>
  \<open>NewChannelScheculer\<close> (src/src/TunnelLib/ChannelScheduler), the scheduler the
  program is built with, over the default channel handler \<open>NewChannelHandler\<close>:
  the queues with their priorities, the token semaphores, the choice of the
  channel with the smallest round trip time, the channel table and what happens
  when an interface or a channel goes away.  A channel's calls to its parent are
  the events of its output, which the scheduler carries out when the channel's
  operation returns.
\<close>

section \<open>State\<close>

datatype sched_event =
    Sch_Net Packet
  | Sch_Ack appInt16 appInt16 appInt16
  | Sch_Proc Packet
  | Sch_Forward Packet
  | Sch_Attach appInt8
  | Sch_Detach appInt8

text \<open>
  \<open>activeChannelHandlesList\<close> is a \<open>std::set\<close>, the list of its elements in
  ascending order.  Semaphores are their counts, a lock is whether it is held.
\<close>

record scheduler =
  remoteAddresses :: "appInt8 \<Rightarrow> RemoteAddr option"
  channelHandlers :: "appInt8 \<Rightarrow> new_channel option"
  activeChannelHandlesList :: "appInt8 list"
  outgoingPacketQueue :: "Packet list"
  undeliveredPacketQueue :: "Packet list"
  closePktsQueue :: "Packet list"
  controlPkt :: "Packet option"
  doNotAddChannel :: bool
  waitToClose :: bool
  waitForToken :: nat
  waitForNewPacket :: nat
  readyToSendLocked :: bool
  sc_out :: "sched_event list"

definition SCHEDULER_PACKET_QUEUE_SIZE :: nat where "SCHEDULER_PACKET_QUEUE_SIZE = 100"
definition REMOTE_ADDRESS_COUNT :: appInt8 where "REMOTE_ADDRESS_COUNT = 16"

definition new_scheduler :: "bool \<Rightarrow> scheduler" where
  "new_scheduler doNot = \<lparr> remoteAddresses = (\<lambda>_. None), channelHandlers = (\<lambda>_. None),
     activeChannelHandlesList = [], outgoingPacketQueue = [], undeliveredPacketQueue = [],
     closePktsQueue = [], controlPkt = None, doNotAddChannel = doNot, waitToClose = False,
     waitForToken = 0, waitForNewPacket = 0, readyToSendLocked = False, sc_out = [] \<rparr>"

text \<open>
  What the scheduler reads of the interface monitor and of the global table of
  senders: whether there is a monitor, its interfaces, the senders, and which
  addresses an interface reaches.
\<close>

record ifc_env =
  ie_monitor :: bool
  ie_ifc :: "appInt8 \<Rightarrow> bool"
  ie_sender :: "appInt8 \<Rightarrow> bool"
  ie_reachable :: "appInt8 \<Rightarrow> appInt32 \<Rightarrow> bool"

section \<open>Calls from a channel\<close>

definition log_sched :: "sched_event \<Rightarrow> scheduler \<Rightarrow> scheduler" where
  "log_sched e s = s\<lparr> sc_out := sc_out s @ [e] \<rparr>"

text \<open>
  The second half of \<open>notifyDeadChannel\<close>, once the undelivered packets are
  taken: \<open>readyToSendLock\<close> is not recursive, so the call blocks for ever when
  the calling thread holds it.
\<close>

definition drop_channel :: "appInt8 \<Rightarrow> Packet list \<Rightarrow> scheduler \<Rightarrow> scheduler res" where
  "drop_channel chId pkts s =
     (if readyToSendLocked s then Inl Blocked
      else Inr (log_sched (Sch_Detach chId)
             (s\<lparr> undeliveredPacketQueue := undeliveredPacketQueue s @ pkts,
                channelHandlers := (channelHandlers s)(chId := None),
                waitForNewPacket := waitForNewPacket s + length pkts \<rparr>)))"

definition readyToSend :: "scheduler \<Rightarrow> scheduler" where
  "readyToSend s = s\<lparr> waitForToken := waitForToken s + 1 \<rparr>"

fun chan_call :: "chan_event \<Rightarrow> scheduler \<Rightarrow> scheduler res" where
  "chan_call (Ev_Send p) s = Inr (log_sched (Sch_Net p) s)"
| "chan_call (Ev_DeadChannel i pkts) s = drop_channel (ucast i) pkts s"
| "chan_call (Ev_ReadyToSend i n) s = Inr (readyToSend s)"
| "chan_call (Ev_FreeCell i) s = Inr s"
| "chan_call (Ev_RecvAck fp f q) s = Inr (log_sched (Sch_Ack fp f q) s)"
| "chan_call (Ev_ProcPacket p) s = Inr (log_sched (Sch_Proc p) s)"
| "chan_call (Ev_Forward p) s = Inr (log_sched (Sch_Forward p) s)"
| "chan_call Ev_ForwardJob s = Inr s"

fun chan_calls :: "chan_event list \<Rightarrow> scheduler \<Rightarrow> scheduler res" where
  "chan_calls [] s = Inr s"
| "chan_calls (e # es) s = bind_res (chan_call e s) (chan_calls es)"

text \<open>Store a channel after one of its operations and carry out the calls it made.\<close>

definition after_chan :: "appInt8 \<Rightarrow> new_channel \<Rightarrow> scheduler \<Rightarrow> scheduler res" where
  "after_chan chId c s =
     chan_calls (ch_out c) (s\<lparr> channelHandlers := (channelHandlers s)(chId \<mapsto> c\<lparr> ch_out := [] \<rparr>) \<rparr>)"

section \<open>Packets from above\<close>

definition sendPacketTo :: "Packet \<Rightarrow> scheduler \<Rightarrow> (int \<times> scheduler) res" where
  "sendPacketTo pkt0 s =
     (let pkt = pkt0\<lparr> p_header := (p_header pkt0)\<lparr> h_flag := h_flag (p_header pkt0) OR FLAG_DAT \<rparr> \<rparr>;
          flag = h_flag (p_header pkt) in
      if has_flag flag FLAG_CTR then
        (let notify = (controlPkt s = None); s1 = s\<lparr> controlPkt := Some pkt \<rparr> in
         Inr (0, if notify then s1\<lparr> waitForNewPacket := waitForNewPacket s1 + 1 \<rparr> else s1))
      else if has_flag flag FLAG_FFN then
        Inr (0, s\<lparr> closePktsQueue := closePktsQueue s @ [pkt], waitForNewPacket := waitForNewPacket s + 1 \<rparr>)
      else if length (outgoingPacketQueue s) \<ge> SCHEDULER_PACKET_QUEUE_SIZE then Inl Blocked
      else Inr (0, s\<lparr> outgoingPacketQueue := outgoingPacketQueue s @ [pkt], waitForNewPacket := waitForNewPacket s + 1 \<rparr>))"

section \<open>The channel table\<close>

definition notifyDeadChannel :: "appInt8 \<Rightarrow> scheduler \<Rightarrow> scheduler res" where
  "notifyDeadChannel chId s =
     (case channelHandlers s chId of
        None \<Rightarrow> Inr s
      | Some ch \<Rightarrow> bind_res (getUndeliveredPackets ch) (\<lambda>(pkts, ch').
          drop_channel chId pkts (s\<lparr> channelHandlers := (channelHandlers s)(chId \<mapsto> ch') \<rparr>)))"

definition chId_of :: "appInt8 \<Rightarrow> appInt8 \<Rightarrow> appInt8" where
  "chId_of ifcLoc ifcRem = push_bit 4 ifcLoc OR (ifcRem AND 0x0f)"

text \<open>Mark the channel between two interfaces dead and drop it.\<close>

definition kill_channel :: "appInt8 \<Rightarrow> appInt8 \<Rightarrow> scheduler \<Rightarrow> scheduler res" where
  "kill_channel ifcLoc ifcRem s =
     (let chId = chId_of ifcLoc ifcRem in
      case channelHandlers s chId of
        None \<Rightarrow> Inr s
      | Some ch \<Rightarrow>
          if ch_ifcSrc ch \<noteq> ifcLoc then Inr s
          else notifyDeadChannel chId (s\<lparr> channelHandlers := (channelHandlers s)(chId \<mapsto> markDeadChannel ch) \<rparr>))"

fun kill_loop :: "(appInt8 \<times> appInt8) list \<Rightarrow> scheduler \<Rightarrow> scheduler res" where
  "kill_loop [] s = Inr s"
| "kill_loop ((loc, rem) # ps) s = bind_res (kill_channel loc rem s) (kill_loop ps)"

definition ifc_ids :: "appInt8 list" where
  "ifc_ids = map of_nat [0..<16]"

definition removeRemote :: "appInt8 \<Rightarrow> scheduler \<Rightarrow> scheduler res" where
  "removeRemote ifcRem s = kill_loop (map (\<lambda>l. (l, ifcRem)) ifc_ids) s"

text \<open>\<open>addChannel\<close>: the new channel registers under its own identifier; its thread is started.\<close>

definition addChannel :: "env \<Rightarrow> ifc_env \<Rightarrow> appInt8 \<Rightarrow> appInt8 \<Rightarrow> scheduler \<Rightarrow> scheduler res" where
  "addChannel env ie ifcLoc ifcRem s =
     app_assert (ifcRem \<noteq> 0 \<and> ifcRem < REMOTE_ADDRESS_COUNT \<and> remoteAddresses s ifcRem \<noteq> None)
    (app_assert (ifcLoc \<noteq> 0 \<and> ifcLoc < REMOTE_ADDRESS_COUNT \<and> (ie_monitor ie \<and> ie_ifc ie ifcLoc \<or> ie_sender ie ifcLoc))
       (let ch = (init_new_channel env ifcLoc ifcRem)\<lparr> ch_registered := True \<rparr>;
            channelId = (ucast (ch_id ch) :: appInt8) in
        if channelHandlers s channelId \<noteq> None then Inr s
        else Inr (log_sched (Sch_Attach channelId)
               (s\<lparr> channelHandlers := (channelHandlers s)(channelId \<mapsto> ch),
                  activeChannelHandlesList := insort_insert channelId (activeChannelHandlesList s) \<rparr>))))"

fun add_channels :: "env \<Rightarrow> ifc_env \<Rightarrow> (appInt8 \<times> appInt8) list \<Rightarrow> scheduler \<Rightarrow> scheduler res" where
  "add_channels env ie [] s = Inr s"
| "add_channels env ie ((loc, rem) # ps) s = bind_res (addChannel env ie loc rem s) (add_channels env ie ps)"

definition addRemote :: "env \<Rightarrow> ifc_env \<Rightarrow> appInt8 \<Rightarrow> RemoteAddr \<Rightarrow> scheduler \<Rightarrow> scheduler res" where
  "addRemote env ie ifcRem remoteAddr s =
     (if \<not> (ifcRem \<noteq> 0 \<and> ifcRem < REMOTE_ADDRESS_COUNT \<and> remoteAddresses s ifcRem = None) then Inr s
      else let s1 = s\<lparr> remoteAddresses := (remoteAddresses s)(ifcRem \<mapsto> remoteAddr) \<rparr> in
        if doNotAddChannel s1 then Inr s1
        else if \<not> ie_monitor ie then Inl Null_Deref
        else add_channels env ie
               (map (\<lambda>l. (l, ifcRem)) (filter (\<lambda>l. ie_ifc ie l \<and> ie_reachable ie l (ra_ip remoteAddr)) ifc_ids)) s1)"

text \<open>The guard of \<open>interfaceAdded\<close> is written as in the code.\<close>

definition interfaceAdded :: "env \<Rightarrow> ifc_env \<Rightarrow> appInt8 \<Rightarrow> scheduler \<Rightarrow> scheduler res" where
  "interfaceAdded env ie ifcLoc s =
     (if \<not> (ifcLoc \<noteq> 0 \<and> ifcLoc < REMOTE_ADDRESS_COUNT) \<and> (ie_monitor ie \<and> ie_ifc ie ifcLoc \<or> ie_sender ie ifcLoc)
      then Inr s
      else add_channels env ie
             (map (\<lambda>r. (ifcLoc, r)) (filter (\<lambda>r. r \<noteq> 0 \<and> remoteAddresses s r \<noteq> None) ifc_ids)) s)"

text \<open>
  The bit fields \<open>removed\<close> and \<open>added\<close> of \<open>ifcInfo\<close>, and the announcement of a
  removed interface, sent through the other channels; \<open>pad\<close> is the byte of the
  header no constructor sets.
\<close>

definition chng_removed :: "opt_header \<Rightarrow> bool" where
  "chng_removed h \<longleftrightarrow> bit (chng_ifcInfo h) 2"

definition chng_added :: "opt_header \<Rightarrow> bool" where
  "chng_added h \<longleftrightarrow> bit (chng_ifcInfo h) 3"

definition removed_pkt :: "env \<Rightarrow> appInt8 \<Rightarrow> appInt8 \<Rightarrow> Packet" where
  "removed_pkt env pad ifcLoc = new_Packet\<lparr> p_data := Some [], p_capa := of_nat MAX_PACKET_DATA_SIZE,
     p_header := reinit_header\<lparr> h_flag := FLAG_IFC OR FLAG_DAT, h_fingerPrint := e_fingerPrint env \<rparr>,
     p_optHeaders := [PacketIpChngHeader pad ifcLoc 4] \<rparr>"

definition interfaceRemoved :: "env \<Rightarrow> appInt8 \<Rightarrow> appInt8 \<Rightarrow> scheduler \<Rightarrow> scheduler res" where
  "interfaceRemoved env pad ifcLoc s =
     bind_res (kill_loop (map (\<lambda>r. (ifcLoc, r)) ifc_ids) s) (\<lambda>s1.
     Inr (s1\<lparr> undeliveredPacketQueue := undeliveredPacketQueue s1 @ [removed_pkt env pad ifcLoc],
             waitForNewPacket := waitForNewPacket s1 + 1 \<rparr>))"

section \<open>Packets from the network\<close>

fun ifc_changes :: "opt_header list \<Rightarrow> scheduler \<Rightarrow> scheduler res" where
  "ifc_changes [] s = Inr s"
| "ifc_changes (h # hs) s =
     (if opt_type h \<noteq> 4 then ifc_changes hs s
      else bind_res (if chng_removed h then removeRemote (chng_ifcId h) s else Inr s) (\<lambda>s1.
           app_assert (\<not> chng_added h) (ifc_changes hs s1)))"

text \<open>
  \<open>recvPacketFrom\<close>: \<open>src\<close> is the address the datagram came from; the packet is
  handed to the channel between the two interfaces its header names, which a
  server creates on the first packet.
\<close>

definition recv_on :: "env \<Rightarrow> appByte list \<Rightarrow> appInt8 \<Rightarrow> Packet \<Rightarrow> new_channel \<Rightarrow> scheduler \<Rightarrow> (int \<times> Packet \<times> scheduler) res" where
  "recv_on env junk chId pkt ch s =
     (let (ret, pkt', ch') = recv env junk pkt ch in
      bind_res (after_chan chId ch' s) (\<lambda>s'. Inr (ret, pkt', s')))"

definition recvPacketFrom ::
    "env \<Rightarrow> ifc_env \<Rightarrow> appByte list \<Rightarrow> RemoteAddr \<Rightarrow> Packet \<Rightarrow> scheduler \<Rightarrow> (int \<times> Packet \<times> scheduler) res" where
  "recvPacketFrom env ie junk src pkt s =
     (let ifcLoc = h_ifcdst (p_header pkt); ifcRem = h_ifcsrc (p_header pkt);
          ifc = has_flag (h_flag (p_header pkt)) FLAG_IFC; chId = chId_of ifcLoc ifcRem in
      bind_res (if ifc then ifc_changes (p_optHeaders pkt) s else Inr s) (\<lambda>s1.
      app_assert (ifcRem < REMOTE_ADDRESS_COUNT \<and> ifcRem > 0 \<and> ifcLoc < REMOTE_ADDRESS_COUNT \<and> ifcLoc > 0)
        (case channelHandlers s1 chId of
           Some ch \<Rightarrow> recv_on env junk chId pkt ch s1
         | None \<Rightarrow>
             if ifc then Inr (- 3, pkt, s1)
             else bind_res (if remoteAddresses s1 ifcRem = None then addRemote env ie ifcRem src s1 else Inr s1) (\<lambda>s2.
                  bind_res (if doNotAddChannel s2 then addChannel env ie ifcLoc ifcRem s2 else Inr s2) (\<lambda>s3.
                  case channelHandlers s3 chId of
                    None \<Rightarrow> Inr (- 1, pkt, s3)
                  | Some ch \<Rightarrow> recv_on env junk chId pkt ch s3)))))"

section \<open>Sending\<close>

text \<open>The queues in the order of their priority; the pointer test makes an empty choice an assertion.\<close>

definition take_packet :: "scheduler \<Rightarrow> (Packet \<times> scheduler) res" where
  "take_packet s =
     (case controlPkt s of
        Some p \<Rightarrow> Inr (p, s\<lparr> controlPkt := None \<rparr>)
      | None \<Rightarrow>
          case undeliveredPacketQueue s of
            p # q \<Rightarrow> Inr (p, s\<lparr> undeliveredPacketQueue := q \<rparr>)
          | [] \<Rightarrow>
              case closePktsQueue s of
                p # q \<Rightarrow> Inr (p, s\<lparr> closePktsQueue := q \<rparr>)
              | [] \<Rightarrow>
                  case outgoingPacketQueue s of
                    p # q \<Rightarrow> Inr (p, s\<lparr> outgoingPacketQueue := q \<rparr>)
                  | [] \<Rightarrow> Inl Assert_Failed)"

text \<open>The result of the channel's \<open>sendPacket\<close> is ignored.\<close>

definition sendNextPacketUsingCh :: "env \<Rightarrow> appInt8 \<Rightarrow> scheduler \<Rightarrow> (int \<times> scheduler) res" where
  "sendNextPacketUsingCh env chId s =
     bind_res (take_packet s) (\<lambda>(pkt, s1).
     case channelHandlers s1 chId of
       None \<Rightarrow> Inl Null_Deref
     | Some ch \<Rightarrow>
         bind_res (sendPacket env pkt ch) (\<lambda>(_, ch').
         bind_res (after_chan chId ch' s1) (\<lambda>s2. Inr (0, s2))))"

fun select_channel :: "(appInt8 \<Rightarrow> new_channel option) \<Rightarrow> appInt8 list \<Rightarrow> appInt8 \<times> int \<Rightarrow> appInt8 \<times> int" where
  "select_channel chs [] m = m"
| "select_channel chs (x # xs) (chId, minRTT) =
     (case chs x of
        None \<Rightarrow> select_channel chs xs (chId, minRTT)
      | Some ch \<Rightarrow>
          if (chId = 0 \<or> minRTT > getRTT ch) \<and> spaceInCwnd ch then select_channel chs xs (x, getRTT ch)
          else select_channel chs xs (chId, minRTT))"

text \<open>
  The loop of \<open>schedule\<close>.  The result says whether the call returned; otherwise
  the thread waits for a new packet.  Every round but the last takes a token of
  \<open>waitForNewPacket\<close>, which is the bound of the recursion.
\<close>

fun schedule_loop :: "nat \<Rightarrow> env \<Rightarrow> scheduler \<Rightarrow> (bool \<times> scheduler) res" where
  "schedule_loop 0 env s = Inl Diverges"
| "schedule_loop (Suc n) env s =
     (if waitForNewPacket s = 0 then Inr (False, s)
      else let s1 = s\<lparr> waitForNewPacket := waitForNewPacket s - 1 \<rparr> in
        if waitToClose s1 then Inr (True, s1)
        else if readyToSendLocked s1 then Inl Blocked
        else
          let chId = fst (select_channel (channelHandlers s1) (activeChannelHandlesList s1) (0, 0)) in
          if chId = 0 then Inr (True, s1\<lparr> waitForNewPacket := waitForNewPacket s1 + 1 \<rparr>)
          else bind_res (sendNextPacketUsingCh env chId (s1\<lparr> readyToSendLocked := True \<rparr>)) (\<lambda>(_, s2).
               schedule_loop n env (s2\<lparr> readyToSendLocked := False \<rparr>)))"

definition schedule :: "env \<Rightarrow> scheduler \<Rightarrow> (bool \<times> scheduler) res" where
  "schedule env s = schedule_loop (Suc (waitForNewPacket s)) env s"

text \<open>One round of \<open>run\<close>: the result says whether the thread goes on.\<close>

definition run_sched :: "env \<Rightarrow> scheduler \<Rightarrow> (bool \<times> scheduler) res" where
  "run_sched env s =
     (if waitForToken s = 0 then Inl Blocked
      else let s1 = s\<lparr> waitForToken := waitForToken s - 1 \<rparr> in
        if waitToClose s1 then Inr (False, s1)
        else bind_res (schedule env s1) (\<lambda>(_, s2). Inr (True, s2)))"

section \<open>Closing\<close>

text \<open>\<open>close\<close> shuts every channel down in two passes; the second waits for each handshake.\<close>

definition all_ids :: "appInt8 list" where
  "all_ids = map of_nat [0..<256]"

fun shut_channels ::
    "(new_channel \<Rightarrow> new_channel res) \<Rightarrow> bool \<Rightarrow> appInt8 list \<Rightarrow> scheduler \<Rightarrow> scheduler res" where
  "shut_channels f detach [] s = Inr s"
| "shut_channels f detach (i # is) s =
     (case channelHandlers s i of
        None \<Rightarrow> shut_channels f detach is s
      | Some ch \<Rightarrow>
          bind_res (f ch) (\<lambda>ch'.
          bind_res (after_chan i ch' s) (\<lambda>s'.
          shut_channels f detach is (if detach then log_sched (Sch_Detach i) s' else s'))))"

definition close_sched :: "env \<Rightarrow> scheduler \<Rightarrow> scheduler res" where
  "close_sched env s =
     bind_res (shut_channels (initShutdown env) False all_ids s) (\<lambda>s1.
     bind_res (shut_channels (shutDown env) True all_ids s1) (\<lambda>s2.
     Inr (s2\<lparr> waitToClose := True, waitForToken := waitForToken s2 + 1,
             waitForNewPacket := waitForNewPacket s2 + 1 \<rparr>)))"

end
