(* ===== verification/SchedulerProps.thy ===== *)
theory SchedulerProps
  imports Scheduler
begin

text \<open>
  Correctness of the scheduler: the channel it chooses, the token count that
  keeps the queues and the semaphore in step, the loop that hands every packet
  to a channel with room for it and loses none, the hand-over of the packets of
  an interface that goes away, and the deadlock when the network goes down while
  the scheduler itself is sending.
\<close>

section \<open>The choice of a channel\<close>

definition candidate :: "(appInt8 \<Rightarrow> new_channel option) \<Rightarrow> appInt8 \<Rightarrow> bool" where
  "candidate chs x \<longleftrightarrow> (\<exists>ch. chs x = Some ch \<and> spaceInCwnd ch)"

definition rtt_of :: "(appInt8 \<Rightarrow> new_channel option) \<Rightarrow> appInt8 \<Rightarrow> int" where
  "rtt_of chs x = getRTT (the (chs x))"

lemma select_channel_from:
  assumes "0 \<notin> set xs" "j \<noteq> 0 \<longrightarrow> candidate chs j \<and> m = rtt_of chs j"
  shows "case select_channel chs xs (j, m) of (i, m') \<Rightarrow>
    (i = 0 \<longleftrightarrow> j = 0 \<and> (\<forall>x\<in>set xs. \<not> candidate chs x)) \<and>
    (i \<noteq> 0 \<longrightarrow> candidate chs i \<and> m' = rtt_of chs i \<and> (i = j \<or> i \<in> set xs) \<and>
       (j \<noteq> 0 \<longrightarrow> m' \<le> m) \<and> (\<forall>x\<in>set xs. candidate chs x \<longrightarrow> m' \<le> rtt_of chs x))"
  using assms
proof (induction xs arbitrary: j m)
  case (Cons x xs)
  show ?case
  proof (cases "candidate chs x \<and> (j = 0 \<or> m > rtt_of chs x)")
    case True
    then have "select_channel chs (x # xs) (j, m) = select_channel chs xs (x, rtt_of chs x)"
      by (auto simp: candidate_def rtt_of_def)
    then show ?thesis
      using Cons.IH [of x "rtt_of chs x"] Cons.prems True by (auto split: prod.splits)
  next
    case False
    then have "select_channel chs (x # xs) (j, m) = select_channel chs xs (j, m)"
      by (auto simp: candidate_def rtt_of_def split: option.split)
    then show ?thesis
      using Cons.IH [of j m] Cons.prems False by (fastforce split: prod.splits)
  qed
qed (auto simp: rtt_of_def)

text \<open>
  The scheduler picks a channel with room in its congestion window whose
  smoothed round trip time is the smallest among all active channels with room,
  and picks none (identifier 0) exactly when no active channel has room.
\<close>

theorem select_channel_minimal:
  assumes "0 \<notin> set xs" "select_channel chs xs (0, 0) = (i, m)"
  shows "(i = 0 \<longleftrightarrow> (\<forall>x\<in>set xs. \<not> candidate chs x)) \<and>
    (i \<noteq> 0 \<longrightarrow> i \<in> set xs \<and> candidate chs i \<and> m = rtt_of chs i \<and>
       (\<forall>x\<in>set xs. candidate chs x \<longrightarrow> rtt_of chs i \<le> rtt_of chs x))"
  using select_channel_from [of xs 0 chs 0] assms by auto

lemma select_channel_none:
  "0 \<notin> set xs \<Longrightarrow> fst (select_channel chs xs (0, 0)) = 0 \<longleftrightarrow> (\<forall>x\<in>set xs. \<not> candidate chs x)"
  using select_channel_from [of xs 0 chs 0] by (auto split: prod.splits)

lemma select_channel_some:
  "0 \<notin> set xs \<Longrightarrow> fst (select_channel chs xs (0, 0)) \<noteq> 0 \<Longrightarrow>
    candidate chs (fst (select_channel chs xs (0, 0))) \<and> fst (select_channel chs xs (0, 0)) \<in> set xs"
  using select_channel_from [of xs 0 chs 0] by (auto split: prod.splits)

lemma select_channel_minimal_witness:
  "\<exists>chs. select_channel chs [17, 18] (0, 0) = (18, 5) \<and> candidate chs 17 \<and> candidate chs 18"
proof -
  let ?c = "\<lambda>r. (init_new_channel env0 1 1)\<lparr> started := True, srtt := r \<rparr>"
  let ?chs = "[17 \<mapsto> ?c 9, 18 \<mapsto> ?c 5]"
  have "trunc (3 / 2) = (1 :: int)" by code_simp
  then have sp: "spaceInCwnd (?c r)" for r
    using init_new_channel_simps [of env0 1 1] by (simp add: spaceInCwnd_def cwnd16_def)
  obtain i m where im: "select_channel ?chs [17, 18] (0, 0) = (i, m)" by (metis surj_pair)
  have "(i = 0 \<longleftrightarrow> (\<forall>x\<in>set [17, 18]. \<not> candidate ?chs x)) \<and>
    (i \<noteq> 0 \<longrightarrow> i \<in> set [17, 18] \<and> candidate ?chs i \<and> m = rtt_of ?chs i \<and>
       (\<forall>x\<in>set [17, 18]. candidate ?chs x \<longrightarrow> rtt_of ?chs i \<le> rtt_of ?chs x))"
    by (rule select_channel_minimal [OF _ im]) simp
  moreover have "candidate ?chs 17" "candidate ?chs 18" using sp by (simp_all add: candidate_def)
  ultimately have "i = 18 \<and> m = 5" by (auto simp: rtt_of_def getRTT_def)
  then show ?thesis using im \<open>candidate ?chs 17\<close> \<open>candidate ?chs 18\<close> by (intro exI [of _ ?chs]) simp
qed

section \<open>Queues and tokens\<close>

text \<open>The packets that wait for a channel, in the order in which they will leave.\<close>

definition pending :: "scheduler \<Rightarrow> Packet list" where
  "pending s = (case controlPkt s of None \<Rightarrow> [] | Some p \<Rightarrow> [p]) @
     undeliveredPacketQueue s @ closePktsQueue s @ outgoingPacketQueue s"

definition tokens_ok :: "scheduler \<Rightarrow> bool" where
  "tokens_ok s \<longleftrightarrow> waitForNewPacket s = length (pending s)"

lemma take_packet_ok:
  "take_packet s = (case pending s of [] \<Rightarrow> Inl Assert_Failed
     | p # ps \<Rightarrow> Inr (p, s\<lparr> controlPkt := None,
         undeliveredPacketQueue := (if controlPkt s = None then tl (undeliveredPacketQueue s) else undeliveredPacketQueue s),
         closePktsQueue := (if controlPkt s = None \<and> undeliveredPacketQueue s = [] then tl (closePktsQueue s) else closePktsQueue s),
         outgoingPacketQueue := (if controlPkt s = None \<and> undeliveredPacketQueue s = [] \<and> closePktsQueue s = []
           then tl (outgoingPacketQueue s) else outgoingPacketQueue s) \<rparr>))"
  by (auto simp: take_packet_def pending_def split: option.split list.split)

lemma take_packet_pending:
  assumes "pending s = p # ps"
  obtains s' where "take_packet s = Inr (p, s')" "pending s' = ps"
    "s' = s\<lparr> controlPkt := controlPkt s', undeliveredPacketQueue := undeliveredPacketQueue s',
      closePktsQueue := closePktsQueue s', outgoingPacketQueue := outgoingPacketQueue s' \<rparr>"
proof -
  obtain s' where s': "take_packet s = Inr (p, s')" using assms by (simp add: take_packet_ok)
  moreover have "pending s' = ps"
    using assms s' by (auto simp: take_packet_def pending_def split: option.splits list.splits)
  moreover have "s' = s\<lparr> controlPkt := controlPkt s', undeliveredPacketQueue := undeliveredPacketQueue s',
      closePktsQueue := closePktsQueue s', outgoingPacketQueue := outgoingPacketQueue s' \<rparr>"
    using s' by (auto simp: take_packet_def split: option.splits list.splits)
  ultimately show thesis using that by blast
qed

text \<open>
  Whatever the layers above hand to \<open>sendPacketTo\<close>, the semaphore counts
  the packets that wait: a new packet adds itself and one token, in its class of
  priority (control packet, closing packets, data), a second control packet
  replaces the first without a token, and the call blocks only when the data
  queue has 100 packets.
\<close>

theorem sendPacketTo_tokens:
  assumes "tokens_ok s"
  shows "if \<not> has_flag (h_flag (p_header pkt) OR FLAG_DAT) FLAG_CTR \<and> \<not> has_flag (h_flag (p_header pkt) OR FLAG_DAT) FLAG_FFN \<and>
       100 \<le> length (outgoingPacketQueue s)
     then sendPacketTo pkt s = Inl Blocked
     else \<exists>s'. sendPacketTo pkt s = Inr (0, s') \<and> tokens_ok s' \<and>
       channelHandlers s' = channelHandlers s \<and> undeliveredPacketQueue s' = undeliveredPacketQueue s \<and>
       (if has_flag (h_flag (p_header pkt) OR FLAG_DAT) FLAG_CTR
        then length (pending s') = length (pending s) + (if controlPkt s = None then 1 else 0) \<and>
          controlPkt s' = Some (hd (pending s')) \<and> tl (pending s') = undeliveredPacketQueue s @ closePktsQueue s @ outgoingPacketQueue s
        else length (pending s') = Suc (length (pending s)) \<and> controlPkt s' = controlPkt s)"
  using assms
  by (auto simp: sendPacketTo_def tokens_ok_def pending_def SCHEDULER_PACKET_QUEUE_SIZE_def Let_def split: option.splits)

lemma sendPacketTo_tokens_witness:
  "\<exists>s'. sendPacketTo new_Packet (new_scheduler False) = Inr (0, s') \<and> tokens_ok s' \<and> length (pending s') = 1"
proof -
  have t: "tokens_ok (new_scheduler False)" "pending (new_scheduler False) = []"
    by (simp_all add: tokens_ok_def pending_def new_scheduler_def)
  have f: "\<not> has_flag (h_flag (p_header new_Packet) OR FLAG_DAT) FLAG_CTR"
    "\<not> has_flag (h_flag (p_header new_Packet) OR FLAG_DAT) FLAG_FFN"
    "length (outgoingPacketQueue (new_scheduler False)) = 0"
    by (simp_all add: new_scheduler_def) code_simp+
  from sendPacketTo_tokens [OF t(1), of new_Packet] show ?thesis
    using t(2) f by auto
qed

section \<open>The invariant of the scheduler\<close>

definition slot_ok :: "appInt8 \<Rightarrow> new_channel \<Rightarrow> bool" where
  "slot_ok x c \<longleftrightarrow> chan_inv c \<and> ch_out c = [] \<and> x = chId_of (ch_ifcSrc c) (ch_ifcDst c) \<and>
     ch_ifcSrc c < 16 \<and> ch_ifcDst c < 16"

definition sched_inv :: "scheduler \<Rightarrow> bool" where
  "sched_inv s \<longleftrightarrow> tokens_ok s \<and> \<not> readyToSendLocked s \<and> 0 \<notin> set (activeChannelHandlesList s) \<and>
     (\<forall>x c. channelHandlers s x = Some c \<longrightarrow> x \<in> set (activeChannelHandlesList s) \<and> slot_ok x c)"

text \<open>A packet up to what numbering and sending change in its header.\<close>

definition core :: "Packet \<Rightarrow> Packet" where
  "core p = unstamp (p\<lparr> p_header := (p_header p)\<lparr> h_flag := h_flag (p_header p) AND NOT FLAG_CHS, h_seqNo := 0 \<rparr> \<rparr>)"

lemma core_unstamp [simp]: "core (unstamp p) = core p"
  by (simp add: core_def unstamp_def)

lemma core_enqueued [simp]: "core (enqueued c p) = core p"
proof -
  have "(f OR FLAG_CHS) AND NOT FLAG_CHS = f AND NOT FLAG_CHS" for f :: appInt16
    by (rule bit_word_eqI) (auto simp: bit_simps)
  then show ?thesis by (simp add: core_def enqueued_def unstamp_def)
qed

definition in_channel :: "new_channel \<Rightarrow> Packet \<Rightarrow> bool" where
  "in_channel c p \<longleftrightarrow> (\<exists>i q. pkts_of c i = Some q \<and> core q = core p)"

definition holds :: "scheduler \<Rightarrow> Packet \<Rightarrow> bool" where
  "holds s p \<longleftrightarrow> (\<exists>x c. channelHandlers s x = Some c \<and> in_channel c p)"

lemma in_channel_contents: "in_channel c p \<longleftrightarrow> (\<exists>i q. contents c i = Some q \<and> core q = core p)"
proof
  assume "in_channel c p"
  then obtain i q where "pkts_of c i = Some q" "core q = core p" unfolding in_channel_def by blast
  then show "\<exists>i q. contents c i = Some q \<and> core q = core p"
    by (intro exI [of _ i] exI [of _ "unstamp q"]) (simp add: contents_pkts)
next
  assume "\<exists>i q. contents c i = Some q \<and> core q = core p"
  then obtain i q where "contents c i = Some q" "core q = core p" by blast
  then show "in_channel c p"
    unfolding in_channel_def contents_pkts by (cases "pkts_of c i") (simp_all, metis core_unstamp)
qed

lemma spaceInCwndD:
  assumes "spaceInCwnd c" "chan_inv c"
  shows "\<not> closed c" "\<not> deadChannel c" "unacked c < 32768"
proof -
  show "\<not> closed c" "\<not> deadChannel c" using assms(1) by (auto simp: spaceInCwnd_def split: if_splits)
  have "maxPacket (senderBuffer c) - lastAcked (senderBuffer c) < cwnd16 c"
    using assms(1) by (auto simp: spaceInCwnd_def split: if_splits)
  moreover have "unat (cwnd16 c) \<le> 32768" using assms(2) cwnd16_bounds(2) [of c] by (simp add: chan_inv_def)
  ultimately show "unacked c < 32768" by (simp add: unacked_def off_def word_less_nat_alt)
qed

text \<open>A channel with room takes the packet.\<close>

lemma channel_takes:
  assumes inv: "chan_inv c" "net_up env" and sp: "spaceInCwnd c"
  shows "\<exists>c' ps. sendPacket env pkt c = Inr (0, c') \<and> chan_inv c' \<and> frame_start c c' \<and>
    ch_out c' = ch_out c @ map Ev_Send ps \<and> unacked c' = Suc (unacked c) \<and> in_channel c' pkt \<and>
    (\<forall>p. in_channel c p \<longrightarrow> in_channel c' p)"
proof -
  note S = spaceInCwndD [OF sp inv(1)]
  let ?m = "maxPacket (senderBuffer c) + 1"
  obtain c' where c': "sendPacket env pkt c = Inr (0, c')" "chan_inv c'" "frame_start c c'"
      "\<exists>ps. ch_out c' = ch_out c @ map Ev_Send ps" "unacked c' = Suc (unacked c)"
      "\<forall>i. contents c' i = (if i = ?m then Some (unstamp (enqueued c pkt)) else contents c i)"
    using sendPacket_ok [OF inv, of pkt] S by auto
  have sb: "sb_inv (senderBuffer c)" using inv(1) by (simp add: chan_inv_def)
  have "off (senderBuffer c) ?m = Suc (unacked c)"
    using S(3) by (simp add: unacked_def off_succ)
  then have empty: "contents c ?m = None"
    using sb_invD(3) [OF sb, of ?m] by (cases "sb_pkt (cells (senderBuffer c) ?m)") (auto simp: contents_def unacked_def)
  have "in_channel c' pkt"
    using c'(6) by (auto simp: in_channel_contents intro!: exI [of _ ?m])
  moreover have "in_channel c' p" if h: "in_channel c p" for p
  proof -
    obtain i q where iq: "contents c i = Some q" "core q = core p" using h unfolding in_channel_contents by blast
    then have "i \<noteq> ?m" using empty by auto
    then have "contents c' i = Some q" using iq c'(6) by simp
    then show ?thesis using iq(2) unfolding in_channel_contents by blast
  qed
  ultimately show ?thesis using c' by blast
qed

lemma chan_calls_sends: "chan_calls (map Ev_Send ps) s = Inr (s\<lparr> sc_out := sc_out s @ map Sch_Net ps \<rparr>)"
  by (induction ps arbitrary: s) (simp_all add: log_sched_def)

definition total_unacked :: "scheduler \<Rightarrow> nat" where
  "total_unacked s = (\<Sum>x\<in>set (activeChannelHandlesList s). case channelHandlers s x of None \<Rightarrow> 0 | Some c \<Rightarrow> unacked c)"

lemma total_unacked_upd:
  assumes "channelHandlers s x = Some c" "x \<in> set (activeChannelHandlesList s)" "unacked c' = Suc (unacked c)"
    and "channelHandlers s' = (channelHandlers s)(x \<mapsto> c')" "activeChannelHandlesList s' = activeChannelHandlesList s"
  shows "total_unacked s' = Suc (total_unacked s)"
  using assms by (simp add: total_unacked_def sum.remove [of _ x])

text \<open>One packet sent by the loop.\<close>

lemma send_next_ok:
  assumes inv: "sched_inv s" "net_up env" and p: "pending s = p # ps" and c: "candidate (channelHandlers s) x"
  obtains s' where "sendNextPacketUsingCh env x
      (s\<lparr> waitForNewPacket := waitForNewPacket s - 1, readyToSendLocked := True \<rparr>) = Inr (0, s')"
    "sched_inv (s'\<lparr> readyToSendLocked := False \<rparr>)" "pending s' = ps" "holds s' p" "\<forall>q. holds s q \<longrightarrow> holds s' q"
    "total_unacked s' = Suc (total_unacked s)" "waitToClose s' = waitToClose s"
    "waitForNewPacket s' = waitForNewPacket s - 1" "activeChannelHandlesList s' = activeChannelHandlesList s"
    "dom (channelHandlers s') = dom (channelHandlers s)"
proof -
  let ?s = "s\<lparr> waitForNewPacket := waitForNewPacket s - 1, readyToSendLocked := True \<rparr>"
  obtain c where c: "channelHandlers s x = Some c" "spaceInCwnd c" using c by (auto simp: candidate_def)
  have sl: "x \<in> set (activeChannelHandlesList s)" "slot_ok x c" using inv(1) c(1) by (auto simp: sched_inv_def)
  have "pending ?s = p # ps" using p by (simp add: pending_def)
  then obtain s1 where s1: "take_packet ?s = Inr (p, s1)" "pending s1 = ps"
      "s1 = ?s\<lparr> controlPkt := controlPkt s1, undeliveredPacketQueue := undeliveredPacketQueue s1,
         closePktsQueue := closePktsQueue s1, outgoingPacketQueue := outgoingPacketQueue s1 \<rparr>"
    by (rule take_packet_pending)
  have F: "channelHandlers s1 = channelHandlers s" "activeChannelHandlesList s1 = activeChannelHandlesList s"
    "waitToClose s1 = waitToClose s" "waitForNewPacket s1 = waitForNewPacket s - 1"
    by (subst s1(3), simp)+
  obtain c' es where c': "sendPacket env p c = Inr (0, c')" "chan_inv c'" "frame_start c c'"
      "ch_out c' = ch_out c @ map Ev_Send es" "unacked c' = Suc (unacked c)" "in_channel c' p"
      "\<forall>q. in_channel c q \<longrightarrow> in_channel c' q"
    using channel_takes [OF _ inv(2) c(2), of p] sl(2) unfolding slot_ok_def by blast
  let ?c = "c'\<lparr> ch_out := [] \<rparr>"
  let ?s2 = "s1\<lparr> channelHandlers := (channelHandlers s1)(x \<mapsto> ?c), sc_out := sc_out s1 @ map Sch_Net es \<rparr>"
  have out: "ch_out c' = map Ev_Send es" using c'(4) sl(2) by (simp add: slot_ok_def)
  have ci: "in_channel ?c q = in_channel c' q" "unacked ?c = unacked c'" "chan_inv ?c = chan_inv c'" for q
    by (simp_all add: in_channel_def pkts_of_def unacked_def chan_inv_def cwnd_ok_def rtt_ok_def)
  have sl': "slot_ok x ?c" using sl(2) c'(2,3) ci(3) by (simp add: slot_ok_def frame_start_def)
  have run: "sendNextPacketUsingCh env x ?s = Inr (0, ?s2)"
    using c(1) c'(1) by (simp add: sendNextPacketUsingCh_def s1(1) F(1) after_chan_def out chan_calls_sends del: One_nat_def)
  have "length (pending s) = waitForNewPacket s" using inv(1) by (simp add: sched_inv_def tokens_ok_def)
  then have tok: "waitForNewPacket s1 = length ps" using p F(4) by simp
  have pend: "pending ?s2 = ps" "pending (?s2\<lparr> readyToSendLocked := False \<rparr>) = ps"
    using s1(2) by (simp_all add: pending_def)
  have "sched_inv (?s2\<lparr> readyToSendLocked := False \<rparr>)"
    using inv(1) sl(1) sl' tok pend(2) unfolding sched_inv_def tokens_ok_def by (auto simp: F)
  moreover have "holds ?s2 p" using c'(6) ci(1) by (auto simp: holds_def F(1))
  moreover have "holds ?s2 q" if h: "holds s q" for q
  proof -
    obtain y d where y: "channelHandlers s y = Some d" "in_channel d q" using h by (auto simp: holds_def)
    show ?thesis
    proof (cases "y = x")
      case True
      then have "in_channel ?c q" using y c(1) c'(7) ci(1) by auto
      then show ?thesis by (auto simp: holds_def F(1))
    next
      case False
      then show ?thesis using y by (auto simp: holds_def F(1))
    qed
  qed
  moreover have "total_unacked ?s2 = Suc (total_unacked s)"
    by (rule total_unacked_upd [OF c(1) sl(1), of ?c]) (simp_all add: F c'(5) ci(2))
  moreover have "dom (channelHandlers ?s2) = dom (channelHandlers s)"
    using c(1) by (auto simp: F(1))
  ultimately show thesis
    using that [OF run] pend(1) F by simp
qed

lemma schedule_loop_ok:
  assumes "sched_inv s" "net_up env" "\<not> waitToClose s" "waitForNewPacket s < n"
  shows "\<exists>r s' k. schedule_loop n env s = Inr (r, s') \<and> sched_inv s' \<and> k \<le> length (pending s) \<and>
    pending s' = drop k (pending s) \<and> total_unacked s' = total_unacked s + k \<and>
    (\<forall>p\<in>set (take k (pending s)). holds s' p) \<and> (\<forall>p. holds s p \<longrightarrow> holds s' p) \<and>
    (r \<longleftrightarrow> pending s' \<noteq> []) \<and>
    (r \<longrightarrow> (\<forall>x\<in>set (activeChannelHandlesList s'). \<not> candidate (channelHandlers s') x)) \<and>
    dom (channelHandlers s') = dom (channelHandlers s) \<and> \<not> waitToClose s'"
  using assms
proof (induction n arbitrary: s)
  case (Suc n)
  have tok: "waitForNewPacket s = length (pending s)" and nz: "0 \<notin> set (activeChannelHandlesList s)"
    and unl: "\<not> readyToSendLocked s"
    using Suc.prems(1) by (auto simp: sched_inv_def tokens_ok_def)
  let ?i = "fst (select_channel (channelHandlers s) (activeChannelHandlesList s) (0, 0))"
  let ?A = "\<lambda>s. \<forall>x\<in>set (activeChannelHandlesList s). \<not> candidate (channelHandlers s) x"
  consider (empty) "pending s = []" | (full) p ps where "pending s = p # ps" "?i = 0"
    | (send) p ps where "pending s = p # ps" "?i \<noteq> 0"
    by (cases "pending s") auto
  then show ?case
  proof cases
    case empty
    then show ?thesis
      using Suc.prems(1,3) tok by (intro exI [of _ False] exI [of _ s] exI [of _ 0]) simp
  next
    case full
    then have "?A s" using select_channel_none [OF nz] by simp
    moreover have "schedule_loop (Suc n) env s = Inr (True, s)"
      using full Suc.prems(3) tok unl by (simp add: Let_def)
    ultimately show ?thesis
      using Suc.prems(1,3) full(1) by (intro exI [of _ True] exI [of _ s] exI [of _ 0]) simp
  next
    case send
    have cand: "candidate (channelHandlers s) ?i" using select_channel_some [OF nz send(2)] by simp
    obtain s1 where s1: "sendNextPacketUsingCh env ?i
        (s\<lparr> waitForNewPacket := waitForNewPacket s - 1, readyToSendLocked := True \<rparr>) = Inr (0, s1)"
      "sched_inv (s1\<lparr> readyToSendLocked := False \<rparr>)" "pending s1 = ps" "holds s1 p" "\<forall>q. holds s q \<longrightarrow> holds s1 q"
      "total_unacked s1 = Suc (total_unacked s)" "waitToClose s1 = waitToClose s"
      "waitForNewPacket s1 = waitForNewPacket s - 1" "activeChannelHandlesList s1 = activeChannelHandlesList s"
      "dom (channelHandlers s1) = dom (channelHandlers s)"
      using send_next_ok [OF Suc.prems(1,2) send(1) cand] .
    let ?s = "s1\<lparr> readyToSendLocked := False \<rparr>"
    have eqs: "pending ?s = pending s1" "total_unacked ?s = total_unacked s1" "holds ?s q = holds s1 q" for q
      by (simp_all add: pending_def total_unacked_def holds_def)
    have "\<not> waitToClose ?s" "waitForNewPacket ?s < n"
      using s1(7,8) Suc.prems(3,4) tok send(1) by simp_all
    from Suc.IH [OF s1(2) Suc.prems(2) this] obtain r s' k where
      IH: "schedule_loop n env ?s = Inr (r, s')" "sched_inv s'" "k \<le> length (pending ?s)"
      "pending s' = drop k (pending ?s)" "total_unacked s' = total_unacked ?s + k"
      "\<forall>p\<in>set (take k (pending ?s)). holds s' p" "\<forall>p. holds ?s p \<longrightarrow> holds s' p" "r \<longleftrightarrow> pending s' \<noteq> []"
      "r \<longrightarrow> ?A s'" "dom (channelHandlers s') = dom (channelHandlers ?s)" "\<not> waitToClose s'"
      by blast
    have run: "schedule_loop (Suc n) env s = Inr (r, s')"
      using send Suc.prems(3) tok unl s1(1) IH(1) by (simp add: Let_def)
    show ?thesis
      by (intro exI [of _ r] exI [of _ s'] exI [of _ "Suc k"])
        (use run IH s1 send(1) in \<open>simp add: eqs\<close>)
  qed
qed simp

text \<open>
  C8: one call of \<open>schedule\<close> with the network up never trips the assertion on
  an empty queue, never blocks on its lock and ends: it takes the waiting
  packets from the front in the order of their priority and puts each of them
  into a channel, where it stays with its payload and addressing unchanged; no
  packet a channel holds is lost.  The call returns to its caller only when
  packets are left and no active channel has room; otherwise every packet is
  gone and the thread waits for new ones.
\<close>

theorem schedule_loses_nothing:
  assumes "sched_inv s" "net_up env" "\<not> waitToClose s"
  shows "\<exists>r s' k. schedule env s = Inr (r, s') \<and> sched_inv s' \<and>
    pending s' = drop k (pending s) \<and> total_unacked s' = total_unacked s + k \<and> k \<le> length (pending s) \<and>
    (\<forall>p\<in>set (take k (pending s)). holds s' p) \<and> (\<forall>p. holds s p \<longrightarrow> holds s' p) \<and>
    (r \<longleftrightarrow> pending s' \<noteq> []) \<and>
    (r \<longrightarrow> (\<forall>x\<in>set (activeChannelHandlesList s'). \<not> candidate (channelHandlers s') x))"
  using schedule_loop_ok [OF assms, of "Suc (waitForNewPacket s)"] unfolding schedule_def by blast

definition sched0 :: scheduler where
  "sched0 = (new_scheduler False)\<lparr> channelHandlers := [17 \<mapsto> (init_new_channel env0 1 1)\<lparr> started := True \<rparr>],
     activeChannelHandlesList := [17], outgoingPacketQueue := [new_Packet], waitForNewPacket := 1 \<rparr>"

lemma sched0_inv: "sched_inv sched0"
proof -
  have "chId_of 1 1 = 17" by code_simp
  moreover have "chan_inv ((init_new_channel env0 1 1)\<lparr> started := True \<rparr>)"
    using init_new_channel_inv [of env0 1 1] by (simp add: chan_inv_def cwnd_ok_def rtt_ok_def)
  moreover have "ch_ifcSrc (init_new_channel env0 1 1) = 1" "ch_ifcDst (init_new_channel env0 1 1) = 1"
    "ch_out (init_new_channel env0 1 1) = []"
    by (simp_all add: init_new_channel_def init_sack_chan_def init_chan_def chan.defs sack_chan.defs)
  ultimately show ?thesis
    by (simp add: sched_inv_def tokens_ok_def pending_def sched0_def new_scheduler_def slot_ok_def)
qed

lemma schedule_loses_nothing_witness:
  "\<exists>r s'. schedule env0 sched0 = Inr (r, s') \<and> sched_inv s' \<and> (r \<longleftrightarrow> pending s' \<noteq> [])"
  using schedule_loses_nothing [OF sched0_inv net_up_env0] by (auto simp: sched0_def new_scheduler_def)

section \<open>An interface goes away\<close>

text \<open>What the channel between two interfaces has not delivered.\<close>

definition undelivered_of :: "scheduler \<Rightarrow> appInt8 \<Rightarrow> appInt8 \<Rightarrow> Packet list" where
  "undelivered_of s l r = (case channelHandlers s (chId_of l r) of None \<Rightarrow> []
     | Some c \<Rightarrow> if ch_ifcSrc c \<noteq> l then [] else undelivered c)"

definition of_ifc :: "scheduler \<Rightarrow> appInt8 \<Rightarrow> appInt8 \<Rightarrow> bool" where
  "of_ifc s l x \<longleftrightarrow> (\<exists>c. channelHandlers s x = Some c \<and> ch_ifcSrc c = l)"

lemma markDead_ok:
  "chan_inv c \<Longrightarrow> chan_inv (markDeadChannel c)" "undelivered (markDeadChannel c) = undelivered c"
proof -
  have "senderBuffer (markDeadChannel c) = senderBuffer c" by (simp add: markDeadChannel_def)
  then show "undelivered (markDeadChannel c) = undelivered c"
    by (simp add: undelivered_def pkts_of_def [abs_def] unacked_def)
qed (simp add: markDeadChannel_def chan_inv_def cwnd_ok_def rtt_ok_def)

lemma kill_channel_ok:
  assumes "sched_inv s"
  obtains s' where "kill_channel l r s = Inr s'" "sched_inv s'"
    "undeliveredPacketQueue s' = undeliveredPacketQueue s @ undelivered_of s l r"
    "channelHandlers s' = (channelHandlers s)(chId_of l r := if of_ifc s l (chId_of l r) then None else channelHandlers s (chId_of l r))"
    "controlPkt s' = controlPkt s" "closePktsQueue s' = closePktsQueue s" "outgoingPacketQueue s' = outgoingPacketQueue s"
proof (cases "of_ifc s l (chId_of l r)")
  case False
  then have "kill_channel l r s = Inr s" "undelivered_of s l r = []"
    by (auto simp: kill_channel_def undelivered_of_def of_ifc_def Let_def split: option.split)
  then show thesis using that [of s] assms False by simp
next
  case True
  let ?x = "chId_of l r"
  obtain c where c: "channelHandlers s ?x = Some c" "ch_ifcSrc c = l" using True by (auto simp: of_ifc_def)
  have ci: "chan_inv (markDeadChannel c)" using assms c(1) markDead_ok(1) by (auto simp: sched_inv_def slot_ok_def)
  obtain c' where c': "getUndeliveredPackets (markDeadChannel c) = Inr (undelivered c, c')"
    using getUndelivered_ok [OF ci] by (auto simp: markDead_ok(2))
  have unl: "\<not> readyToSendLocked s" using assms by (simp add: sched_inv_def)
  let ?s = "log_sched (Sch_Detach ?x) (s\<lparr> undeliveredPacketQueue := undeliveredPacketQueue s @ undelivered c,
    channelHandlers := (channelHandlers s)(?x := None), waitForNewPacket := waitForNewPacket s + length (undelivered c) \<rparr>)"
  have "kill_channel l r s = Inr ?s"
    using c c' unl by (simp add: kill_channel_def notifyDeadChannel_def drop_channel_def log_sched_def Let_def)
  moreover have "sched_inv ?s"
    using assms by (auto simp: sched_inv_def tokens_ok_def pending_def log_sched_def)
  moreover have "undelivered_of s l r = undelivered c" using c by (simp add: undelivered_of_def)
  ultimately show thesis using that [of ?s] True by (simp add: log_sched_def)
qed

lemma kill_loop_ok:
  assumes "sched_inv s" "distinct (map (chId_of l) rs)"
  shows "\<exists>s'. kill_loop (map (\<lambda>r. (l, r)) rs) s = Inr s' \<and> sched_inv s' \<and>
    undeliveredPacketQueue s' = undeliveredPacketQueue s @ concat (map (undelivered_of s l) rs) \<and>
    channelHandlers s' = (\<lambda>x. if x \<in> chId_of l ` set rs \<and> of_ifc s l x then None else channelHandlers s x) \<and>
    controlPkt s' = controlPkt s \<and> closePktsQueue s' = closePktsQueue s \<and> outgoingPacketQueue s' = outgoingPacketQueue s"
  using assms
proof (induction rs arbitrary: s)
  case Nil
  then show ?case by simp
next
  case (Cons r rs)
  obtain s1 where s1: "kill_channel l r s = Inr s1" "sched_inv s1"
    "undeliveredPacketQueue s1 = undeliveredPacketQueue s @ undelivered_of s l r"
    "channelHandlers s1 = (channelHandlers s)(chId_of l r := if of_ifc s l (chId_of l r) then None else channelHandlers s (chId_of l r))"
    "controlPkt s1 = controlPkt s" "closePktsQueue s1 = closePktsQueue s" "outgoingPacketQueue s1 = outgoingPacketQueue s"
    using kill_channel_ok [OF Cons.prems(1)] .
  have fresh: "chId_of l r \<notin> chId_of l ` set rs" using Cons.prems(2) by auto
  have same: "undelivered_of s1 l q = undelivered_of s l q" if "q \<in> set rs" for q
  proof -
    have "chId_of l q \<noteq> chId_of l r" using that fresh by (metis imageI)
    then show ?thesis by (simp add: undelivered_of_def s1(4))
  qed
  have ifc: "of_ifc s1 l x = of_ifc s l x" if "x \<in> chId_of l ` set rs" for x
  proof -
    have "x \<noteq> chId_of l r" using that fresh by metis
    then show ?thesis by (simp add: of_ifc_def s1(4))
  qed
  obtain s' where s': "kill_loop (map (\<lambda>r. (l, r)) rs) s1 = Inr s'" "sched_inv s'"
    "undeliveredPacketQueue s' = undeliveredPacketQueue s1 @ concat (map (undelivered_of s1 l) rs)"
    "channelHandlers s' = (\<lambda>x. if x \<in> chId_of l ` set rs \<and> of_ifc s1 l x then None else channelHandlers s1 x)"
    "controlPkt s' = controlPkt s1" "closePktsQueue s' = closePktsQueue s1" "outgoingPacketQueue s' = outgoingPacketQueue s1"
    using Cons.IH [OF s1(2)] Cons.prems(2) by auto
  have und: "map (undelivered_of s1 l) rs = map (undelivered_of s l) rs"
    by (rule map_cong [OF refl]) (rule same)
  have "channelHandlers s' x = (if x \<in> chId_of l ` set (r # rs) \<and> of_ifc s l x then None else channelHandlers s x)" for x
    using ifc [of x] fresh unfolding s'(4) s1(4) by (auto simp: of_ifc_def)
  then show ?case
    using s1 s' by (intro exI [of _ s']) (simp add: fun_eq_iff und)
qed

lemma distinct_chIds: "distinct (map (chId_of l) ifc_ids)"
proof -
  have m: "(15 :: appInt8) = mask 4" by (simp add: mask_eq_exp_minus_1)
  have low: "chId_of l r AND 15 = r AND 15" for r :: appInt8
    unfolding chId_of_def m by (rule bit_word_eqI) (auto simp: bit_simps)
  have "map (\<lambda>r :: appInt8. r AND 15) ifc_ids = ifc_ids" "distinct ifc_ids" by code_simp+
  then have "distinct (map (\<lambda>x. x AND 15) (map (chId_of l) ifc_ids))"
    by (simp add: low comp_def)
  then show ?thesis by (rule distinct_map [THEN iffD1, THEN conjunct1])
qed

lemma in_ifc_ids: "(r :: appInt8) < 16 \<Longrightarrow> r \<in> set ifc_ids"
proof -
  assume "r < 16"
  then have "unat r < 16" by (simp add: word_less_nat_alt)
  then show ?thesis unfolding ifc_ids_def by (auto intro!: image_eqI [of _ _ "unat r"])
qed

text \<open>
  C13: when an interface goes away, all channels that send through it are removed
  from the table and no other; the packets they had not delivered are queued
  for the remaining channels, by remote interface and in sequence order, behind
  those already waiting there and before the announcement of the removal; and
  the tokens still count the packets that wait.
\<close>

theorem interfaceRemoved_requeues:
  assumes "sched_inv s"
  shows "\<exists>s'. interfaceRemoved env pad l s = Inr s' \<and> sched_inv s' \<and>
    channelHandlers s' = (\<lambda>x. if of_ifc s l x then None else channelHandlers s x) \<and>
    undeliveredPacketQueue s' =
      undeliveredPacketQueue s @ concat (map (undelivered_of s l) ifc_ids) @ [removed_pkt env pad l] \<and>
    controlPkt s' = controlPkt s \<and> closePktsQueue s' = closePktsQueue s \<and> outgoingPacketQueue s' = outgoingPacketQueue s"
proof -
  obtain s1 where s1: "kill_loop (map (\<lambda>r. (l, r)) ifc_ids) s = Inr s1" "sched_inv s1"
    "undeliveredPacketQueue s1 = undeliveredPacketQueue s @ concat (map (undelivered_of s l) ifc_ids)"
    "channelHandlers s1 = (\<lambda>x. if x \<in> chId_of l ` set ifc_ids \<and> of_ifc s l x then None else channelHandlers s x)"
    "controlPkt s1 = controlPkt s" "closePktsQueue s1 = closePktsQueue s" "outgoingPacketQueue s1 = outgoingPacketQueue s"
    using kill_loop_ok [OF assms distinct_chIds] by blast
  have "x \<in> chId_of l ` set ifc_ids" if "of_ifc s l x" for x
    using that assms in_ifc_ids by (auto simp: of_ifc_def sched_inv_def slot_ok_def)
  then have "channelHandlers s1 = (\<lambda>x. if of_ifc s l x then None else channelHandlers s x)"
    using s1(4) by (auto simp: fun_eq_iff)
  moreover let ?s = "s1\<lparr> undeliveredPacketQueue := undeliveredPacketQueue s1 @ [removed_pkt env pad l],
    waitForNewPacket := waitForNewPacket s1 + 1 \<rparr>"
  have "sched_inv ?s"
    using s1(2) by (auto simp: sched_inv_def tokens_ok_def pending_def)
  ultimately show ?thesis
    using s1 by (intro exI [of _ ?s]) (simp add: interfaceRemoved_def)
qed

lemma interfaceRemoved_requeues_witness:
  "\<exists>s'. interfaceRemoved env0 0 1 sched0 = Inr s' \<and> channelHandlers s' 17 = None \<and>
     undeliveredPacketQueue s' = concat (map (undelivered_of sched0 1) ifc_ids) @ [removed_pkt env0 0 1]"
proof -
  have "of_ifc sched0 1 17" "undeliveredPacketQueue sched0 = []"
    by (simp_all add: of_ifc_def sched0_def new_scheduler_def init_new_channel_def init_sack_chan_def init_chan_def
      chan.defs sack_chan.defs)
  then show ?thesis
    using interfaceRemoved_requeues [OF sched0_inv, of env0 0 1] by auto
qed

end
