(* ===== verification/SchedulerDeadlock.thy ===== *)
theory SchedulerDeadlock
  imports SchedulerProps
begin

text \<open>
  What happens when the interface reports that the network is down while the
  scheduler's own thread is sending: the channel calls \<open>notifyDeadChannel\<close>,
  which takes \<open>readyToSendLock\<close>, a lock \<open>schedule\<close> holds.
\<close>

definition net_down :: "env \<Rightarrow> bool" where
  "net_down env \<longleftrightarrow> (\<forall>p. e_net env p = - ERROR_NETWORK_CLOSED)"

lemma getUndelivered_shape:
  "\<exists>pkts b. getUndeliveredPackets d = Inr (pkts, d\<lparr> senderBuffer := (senderBuffer d)\<lparr> timerList := [], cells := b \<rparr> \<rparr>)"
  by (auto simp: getUndeliveredPackets_def Let_def split: prod.split)

text \<open>Resending with the network down: the channel reports itself dead to its scheduler.\<close>

lemma sendSeq_down:
  assumes inv: "chan_inv c" "net_down env" and reg: "ch_registered c"
    and p: "sb_pkt (cells (senderBuffer c) i) = Some p" "h_seqNo (p_header p) = i"
  shows "\<exists>q pkts c'. sendSeq env i c = Inr (- ERROR_NETWORK_CLOSED, c') \<and>
    ch_out c' = ch_out c @ [Ev_Send q, Ev_DeadChannel (ch_id c) pkts]"
proof -
  let ?s = "senderBuffer c" and ?q = "stamped env c p"
  let ?c1 = "upd_sb (\<lambda>s. s\<lparr> cells := (cells s)(i := (cells s i)\<lparr> sb_pkt := Some ?q, sb_pktSent := True \<rparr>) \<rparr>) c"
  let ?c2 = "emit (Ev_Send ?q) ?c1"
  obtain pkts b where und: "getUndeliveredPackets ?c2
      = Inr (pkts, ?c2\<lparr> senderBuffer := (senderBuffer ?c2)\<lparr> timerList := [], cells := b \<rparr> \<rparr>)"
    using getUndelivered_shape by blast
  let ?c3 = "?c2\<lparr> senderBuffer := (senderBuffer ?c2)\<lparr> timerList := [], cells := b \<rparr> \<rparr>"
  let ?c4 = "emit (Ev_DeadChannel (ch_id c) pkts) (?c3\<lparr> ch_registered := False \<rparr>)"
  have net: "e_net env ?q = - ERROR_NETWORK_CLOSED" using inv(2) by (simp add: net_down_def)
  have mark1: "mark_ifc (upd_sb f c) x = mark_ifc c x" for f x
    by (simp add: mark_ifc_def upd_sb_def)
  have st1: "stamped env (upd_sb f c) x = stamped env c x" for f x
    by (simp add: stamped_def mark1)
  have dead: "notifyDead getUndeliveredPackets ?c2 = Inr ?c4"
    using reg und by (simp add: notifyDead_def emit_def upd_sb_def)
  have send: "ch_send getUndeliveredPackets env (p\<lparr> p_header := (p_header p)\<lparr> h_sentTS := of_int (e_now env) \<rparr> \<rparr>) ?c1
      = Inr (- ERROR_NETWORK_CLOSED, ?c4)"
    using net dead by (simp add: ch_send_def Let_def stamped_def [symmetric] st1)
  have "\<not> hasTimer (senderBuffer ?c4) i" by (simp add: hasTimer_def emit_def)
  then obtain s' where s': "startTimer i (e_now env) (of_int (rto c)) (senderBuffer ?c4) = Inr s'"
    by (simp add: startTimer_def Let_def)
  have "\<not> sendSeqLocked c" using inv(1) by (simp add: chan_inv_def)
  then have "sendSeq env i c = Inr (- ERROR_NETWORK_CLOSED, ?c4\<lparr> senderBuffer := s' \<rparr>)"
    using p send s' by (simp add: sendSeq_def Let_def stamped_def [symmetric] res_sb_def)
  then show ?thesis by (auto simp: emit_def upd_sb_def)
qed

lemma sendPacket_down:
  assumes inv: "chan_inv c" "net_down env" and sp: "spaceInCwnd c" and reg: "ch_registered c"
    and wnd: "in_flight c < send_wnd c"
  shows "\<exists>q pkts c'. sendPacket env pkt c = Inr (0, c') \<and>
    ch_out c' = ch_out c @ [Ev_Send q, Ev_DeadChannel (ch_id c) pkts]"
proof -
  note S = spaceInCwndD [OF sp inv(1)]
  define p where "p = (if unacked c = 0 then pkt\<lparr> p_header := (p_header pkt)\<lparr> h_flag := h_flag (p_header pkt) OR FLAG_CHS \<rparr> \<rparr> else pkt)"
  define d where "d = (if unacked c = 0 then upd_sb (\<lambda>s. s\<lparr> sb_started := True \<rparr>) c else c)"
  let ?s = "senderBuffer d" and ?m = "maxPacket (senderBuffer c) + 1"
  have D: "ch_registered d = ch_registered c" "ch_out d = ch_out c" "ch_id d = ch_id c"
    by (simp_all add: d_def upd_sb_def)
  have s0: "sb_inv (senderBuffer c)" using inv(1) by (simp add: chan_inv_def)
  have marks: "same_marks (senderBuffer c) ?s" "sb_inv ?s"
    using s0 by (simp_all add: d_def same_marks_def sb_inv_started)
  note M = same_marksD [OF marks(1)]
  have lt: "off ?s (maxPacket ?s) < 32768" using S(3) by (simp add: unacked_def M)
  obtain s1 where s1: "addBuffer p ?s = Inr s1" "sb_inv s1"
      "s1 = ?s\<lparr> maxPacket := maxPacket ?s + 1, cells := (cells ?s)(maxPacket ?s + 1 := (cells ?s (maxPacket ?s + 1))
         \<lparr> sb_pkt := Some (p\<lparr> p_header := (p_header p)\<lparr> h_seqNo := maxPacket ?s + 1 \<rparr> \<rparr>) \<rparr>) \<rparr>"
    using addBuffer_ok [OF marks(2) lt] .
  let ?c2 = "d\<lparr> senderBuffer := s1 \<rparr>"
  have inv2: "chan_inv ?c2" using inv(1) s1(2) by (simp add: chan_inv_def cwnd_ok_def rtt_ok_def upd_sb_def d_def)
  have m1: "lastAcked s1 = lastAcked (senderBuffer c)" "maxSent s1 = maxSent (senderBuffer c)" "maxPacket s1 = ?m"
    using M by (subst s1(3), simp)+
  have o1: "off s1 x = off (senderBuffer c) x" for x by (rule off_cong) (rule m1)
  have infl: "off s1 (maxSent s1) = in_flight c" by (simp add: o1 m1 in_flight_def)
  have un: "off s1 (maxPacket s1) = Suc (unacked c)" using lt by (simp add: o1 m1 unacked_def M off_succ)
  have le: "in_flight c \<le> unacked c" using sb_invD(1) [OF s0] by (simp add: in_flight_def unacked_def)
  have nx: "off s1 (maxSent s1 + 1) = Suc (in_flight c)"
    using infl le S(3) by (simp add: off_succ)
  obtain q where q: "sb_pkt (cells s1 (maxSent s1 + 1)) = Some q"
    using sb_invD(4) [OF s1(2), of "maxSent s1 + 1"] nx infl un le by auto
  have qs: "h_seqNo (p_header q) = maxSent s1 + 1" using sb_invD(3) [OF s1(2) q] by simp
  obtain q' pkts c3 where c3: "sendSeq env (maxSent s1 + 1) ?c2 = Inr (- ERROR_NETWORK_CLOSED, c3)"
      "ch_out c3 = ch_out c @ [Ev_Send q', Ev_DeadChannel (ch_id c) pkts]"
    using sendSeq_down [OF inv2 inv(2), of "maxSent s1 + 1" q] reg q qs D by auto
  have cs: "cansend ?c2"
    using wnd by (simp add: cansend_iff infl send_wnd_def cwnd16_def upd_sb_def d_def)
  have bl: "unat (maxPacket s1 - maxSent s1) = Suc (unacked c) - in_flight c"
    using backlog_unat [OF inv2] by (simp add: backlog_def in_flight_def infl un)
  then obtain n where n: "unat (maxPacket s1 - maxSent s1) = Suc n" using le by (cases "Suc (unacked c) - in_flight c") auto
  let ?c4 = "upd_sb (\<lambda>s. s\<lparr> maxSent := maxSent s + 1, totalSent := totalSent s + 1 \<rparr>) c3"
  have "send_loop env (Suc n) 0 1 ?c2 = Inr (1, ?c4)"
    using cs c3(1) by (cases n) simp_all
  then have run: "bind_res (res_sb (addBuffer p) d) (\<lambda>c2. bind_res (sendNew env 1 c2) (\<lambda>(_, c3). Inr (0 :: int, c3))) = Inr (0, ?c4)"
    using n by (simp add: res_sb_def s1(1) sendNew_def sendNext_def Let_def)
  have empty: "lastAcked (senderBuffer c) = maxPacket (senderBuffer c) \<longleftrightarrow> unacked c = 0"
    by (auto simp: unacked_def off_eq_0_iff)
  have x: "unat (maxPacket (senderBuffer c) - lastAcked (senderBuffer c)) < 32768"
    using S(3) by (simp add: unacked_def off_def)
  have "sendPacket env pkt c = Inr (0, ?c4)"
    using S x run [unfolded p_def d_def] unfolding sendPacket_def Let_def empty by (auto simp: has_CSN split: if_splits)
  then show ?thesis using c3(2) by auto
qed

text \<open>
  C23: when the network is down and the scheduler's thread is the one that
  notices, it deadlocks.  \<open>schedule\<close> holds \<open>readyToSendLock\<close> while the channel
  it chose sends; the channel calls \<open>notifyDeadChannel\<close>, which takes the same
  lock.  Every packet that waits for a channel with room in its window then
  blocks the thread for ever.
\<close>

theorem schedule_deadlocks_when_down:
  assumes "sched_inv s" "net_down env" "\<not> waitToClose s" "pending s \<noteq> []"
    and "\<exists>x. candidate (channelHandlers s) x"
    and "\<forall>x c. channelHandlers s x = Some c \<longrightarrow> ch_registered c \<and> in_flight c < send_wnd c"
  shows "schedule env s = Inl Blocked"
proof -
  let ?i = "fst (select_channel (channelHandlers s) (activeChannelHandlesList s) (0, 0))"
  have nz: "0 \<notin> set (activeChannelHandlesList s)" using assms(1) by (simp add: sched_inv_def)
  obtain y where "candidate (channelHandlers s) y" "y \<in> set (activeChannelHandlesList s)"
    using assms(1,5) by (auto simp: candidate_def sched_inv_def)
  then have i: "?i \<noteq> 0" using select_channel_none [OF nz] by blast
  then have "candidate (channelHandlers s) ?i" using select_channel_some [OF nz] by blast
  then obtain c where c: "channelHandlers s ?i = Some c" "spaceInCwnd c" by (auto simp: candidate_def)
  have sl: "slot_ok ?i c" using assms(1) c(1) by (auto simp: sched_inv_def)
  obtain p ps where p: "pending s = p # ps" using assms(4) by (cases "pending s") auto
  let ?s = "s\<lparr> waitForNewPacket := waitForNewPacket s - 1, readyToSendLocked := True \<rparr>"
  have "pending ?s = p # ps" using p by (simp add: pending_def)
  then obtain s1 where s1: "take_packet ?s = Inr (p, s1)"
      "s1 = ?s\<lparr> controlPkt := controlPkt s1, undeliveredPacketQueue := undeliveredPacketQueue s1,
         closePktsQueue := closePktsQueue s1, outgoingPacketQueue := outgoingPacketQueue s1 \<rparr>"
    by (rule take_packet_pending)
  have F: "channelHandlers s1 = channelHandlers s" "readyToSendLocked s1" by (subst s1(2), simp)+
  obtain q pkts c' where c': "sendPacket env p c = Inr (0, c')" "ch_out c' = ch_out c @ [Ev_Send q, Ev_DeadChannel (ch_id c) pkts]"
    using sendPacket_down [of c env p] assms(2,6) c sl by (auto simp: slot_ok_def)
  have "after_chan ?i c' s1 = Inl Blocked"
    using c'(2) sl F(2) by (simp add: after_chan_def slot_ok_def drop_channel_def log_sched_def)
  then have blocked: "sendNextPacketUsingCh env ?i ?s = Inl Blocked"
    using c(1) c'(1) F(1) s1(1) by (simp add: sendNextPacketUsingCh_def del: One_nat_def)
  have "waitForNewPacket s = length (pending s)" using assms(1) by (simp add: sched_inv_def tokens_ok_def)
  then have "waitForNewPacket s \<noteq> 0" using assms(4) by simp
  then show ?thesis
    using assms(1,3) i blocked by (simp add: schedule_def sched_inv_def Let_def del: One_nat_def)
qed

lemma schedule_deadlocks_when_down_witness:
  "schedule (env0\<lparr> e_net := (\<lambda>_. - 8) \<rparr>)
     (sched0\<lparr> channelHandlers := [17 \<mapsto> (init_new_channel env0 1 1)\<lparr> started := True, ch_registered := True \<rparr>] \<rparr>) = Inl Blocked"
proof (rule schedule_deadlocks_when_down)
  let ?c = "(init_new_channel env0 1 1)\<lparr> started := True, ch_registered := True \<rparr>"
  let ?s = "sched0\<lparr> channelHandlers := [17 \<mapsto> ?c] \<rparr>"
  have tr: "trunc (3 / 2) = (1 :: int)" by code_simp
  have "chan_inv ?c" using init_new_channel_inv [of env0 1 1] by (simp add: chan_inv_def cwnd_ok_def rtt_ok_def)
  moreover have "chId_of 1 1 = 17" by code_simp
  moreover have "ch_ifcSrc ?c = 1" "ch_ifcDst ?c = 1" "ch_out ?c = []"
    by (simp_all add: init_new_channel_def init_sack_chan_def init_chan_def chan.defs sack_chan.defs)
  ultimately show "sched_inv ?s"
    by (simp add: sched_inv_def tokens_ok_def pending_def sched0_def new_scheduler_def slot_ok_def)
  have "spaceInCwnd ?c"
    using init_new_channel_simps [of env0 1 1] tr by (simp add: spaceInCwnd_def cwnd16_def)
  then show "\<exists>x. candidate (channelHandlers ?s) x" by (auto simp: candidate_def intro!: exI [of _ 17])
  show "\<forall>x c. channelHandlers ?s x = Some c \<longrightarrow> ch_registered c \<and> in_flight c < send_wnd c"
    using init_new_channel_simps [of env0 1 1] tr by (simp add: in_flight_def send_wnd_def cwnd16_def)
qed (simp_all add: net_down_def ERROR_NETWORK_CLOSED_def sched0_def new_scheduler_def pending_def)

end
