(* ===== verification/NewFlow.thy ===== *)
theory NewFlow
  imports Packet BitField
begin

text \<open>
  \<open>NewFlowHandler\<close> (src/src/TunnelLib/FlowHandler/NewFlowHandler.cc), the flow
  the program creates by default: a reordering buffer indexed by the flow's
  sequence number on the receiving side, a window of outstanding packets on the
  sending side, and the closing handshake.  The parent (the multiplexer) is the
  function \<open>par\<close> that gives the result of its \<open>sendPacketTo\<close>; the packets handed
  to it are the output \<open>nf_out\<close>.
\<close>

section \<open>State\<close>

definition ERROR_INVALID_READ_SIZE :: int where "ERROR_INVALID_READ_SIZE = 2"
definition ERROR_INVALID_PACKET :: int where "ERROR_INVALID_PACKET = 3"
definition ERROR_DUPLICATE_PACKET :: int where "ERROR_DUPLICATE_PACKET = 4"
definition ERROR_NO_DATA :: int where "ERROR_NO_DATA = 5"
definition ERROR_INVALID_FLOW :: int where "ERROR_INVALID_FLOW = 6"
definition ERROR_FLOW_CLOSED :: int where "ERROR_FLOW_CLOSED = 7"

record new_flow =
  nf_flowId :: appInt16
  rcvPktQueue :: "(appInt16 \<Rightarrow> Packet option) option"
  readUpto :: appInt16
  availableUpTo :: appInt16
  readSem :: nat
  closeInitiated :: bool
  nf_closed :: bool
  startedRecv :: bool
  remoteFreeWindow :: nat
  ackedBitField :: BitField
  ackedUpto :: appInt16
  nextSeqNumber :: appInt16
  closeSemaphore :: nat
  recvWindow :: appInt16
  nf_out :: "Packet list"

definition init_new_flow :: "appInt16 \<Rightarrow> appInt16 \<Rightarrow> new_flow" where
  "init_new_flow flowId rcvWnd = \<lparr> nf_flowId = flowId, rcvPktQueue = None, readUpto = 65535,
     availableUpTo = 65535, readSem = 0, closeInitiated = False, nf_closed = False, startedRecv = False,
     remoteFreeWindow = unat rcvWnd, ackedBitField = new_BitField 65536, ackedUpto = 65535,
     nextSeqNumber = 65535, closeSemaphore = 0, recvWindow = rcvWnd, nf_out = [] \<rparr>"

section \<open>Sending\<close>

definition nf_sendPacketTo :: "(Packet \<Rightarrow> int) \<Rightarrow> Packet \<Rightarrow> new_flow \<Rightarrow> (int \<times> new_flow) res" where
  "nf_sendPacketTo par pkt s =
     (if remoteFreeWindow s = 0 then Inl Blocked
      else bind_res (bf_reset (ackedBitField s) (h_flowSeqNo (p_header pkt))) (\<lambda>b.
        let pkt1 = pkt\<lparr> p_header := (p_header pkt)\<lparr> h_flowId := nf_flowId s \<rparr> \<rparr> in
        app_assert (par pkt1 = 0)
          (Inr (0, s\<lparr> remoteFreeWindow := remoteFreeWindow s - 1, ackedBitField := b, nf_out := nf_out s @ [pkt1] \<rparr>))))"

definition getNextSeqNo :: "new_flow \<Rightarrow> appInt16 \<times> new_flow" where
  "getNextSeqNo s = (nextSeqNumber s + 1, s\<lparr> nextSeqNumber := nextSeqNumber s + 1 \<rparr>)"

definition sendClosePacket :: "(Packet \<Rightarrow> int) \<Rightarrow> new_flow \<Rightarrow> new_flow res" where
  "sendClosePacket par s =
     (let (seq, s1) = getNextSeqNo s;
          pkt = new_Packet\<lparr> p_header := reinit_header\<lparr> h_flowSeqNo := seq, h_flag := FLAG_FFN \<rparr> \<rparr> in
      bind_res (nf_sendPacketTo par pkt s1) (\<lambda>(_, s2). Inr s2))"

text \<open>A fresh packet with a chunk of data; the rest of its array is not looked at.\<close>

definition data_packet :: "appByte list \<Rightarrow> appInt16 \<Rightarrow> Packet" where
  "data_packet chunk seq = new_Packet\<lparr> p_data := Some chunk, p_capa := of_nat MAX_PACKET_DATA_SIZE,
     p_len := of_nat (length chunk), p_header := reinit_header\<lparr> h_flowSeqNo := seq \<rparr> \<rparr>"

definition send_chunk :: "(Packet \<Rightarrow> int) \<Rightarrow> appByte list \<Rightarrow> new_flow \<Rightarrow> (int \<times> new_flow) res" where
  "send_chunk par chunk s =
     (let (seq, s1) = getNextSeqNo s in
      if closeInitiated s1 \<or> nf_closed s1 then Inr (- ERROR_FLOW_CLOSED, s1)
      else nf_sendPacketTo par (data_packet chunk seq) s1)"

text \<open>
  \<open>sendData\<close>: full packets first, then the rest.  The count grows by the size of
  the packet's array, not by the number of bytes it carries.
\<close>

function sendData_loop :: "(Packet \<Rightarrow> int) \<Rightarrow> appByte list \<Rightarrow> int \<Rightarrow> new_flow \<Rightarrow> (int \<times> new_flow) res" where
  "sendData_loop par data count s =
     (if length data \<ge> MAX_PACKET_SENT_DATA_SIZE then
        bind_res (send_chunk par (take MAX_PACKET_SENT_DATA_SIZE data) s) (\<lambda>(ret, s1).
        if ret \<noteq> 0 then Inr (count, s1)
        else sendData_loop par (drop MAX_PACKET_SENT_DATA_SIZE data) (count + int MAX_PACKET_DATA_SIZE) s1)
      else if data \<noteq> [] then
        bind_res (send_chunk par data s) (\<lambda>(ret, s1).
        if ret \<noteq> 0 then Inr (count, s1) else Inr (count + int (length data), s1))
      else Inr (count, s))"
  by pat_completeness auto
termination by (relation "measure (\<lambda>(par, data, count, s). length data)") (auto simp: MAX_PACKET_SENT_DATA_SIZE_def)

declare sendData_loop.simps [simp del]

definition sendData :: "(Packet \<Rightarrow> int) \<Rightarrow> appByte list \<Rightarrow> new_flow \<Rightarrow> (int \<times> new_flow) res" where
  "sendData par data s = sendData_loop par data 0 s"

definition nf_recvAck :: "appInt16 \<Rightarrow> new_flow \<Rightarrow> int \<times> new_flow" where
  "nf_recvAck flowSeqNo s =
     (let read = flowSeqNo - ackedUpto s in
      if read > recvWindow s then (0, s)
      else (0, s\<lparr> ackedUpto := flowSeqNo, remoteFreeWindow := remoteFreeWindow s + unat read \<rparr>))"

text \<open>The acknowledgement carried in an optional header is not checked against the window.\<close>

definition nf_recvAckHeader :: "opt_header \<Rightarrow> new_flow \<Rightarrow> new_flow" where
  "nf_recvAckHeader h s =
     (let read = ack_ackNo h - ackedUpto s in
      s\<lparr> ackedUpto := ack_ackNo h, remoteFreeWindow := remoteFreeWindow s + unat read \<rparr>)"

section \<open>Closing\<close>

text \<open>
  \<open>closeFlow\<close> up to its wait: the second part of the result says whether the
  caller then waits for \<open>closeSemaphore\<close>.
\<close>

definition closeFlow :: "(Packet \<Rightarrow> int) \<Rightarrow> new_flow \<Rightarrow> (bool \<times> bool \<times> new_flow) res" where
  "closeFlow par s =
     (if nf_closed s \<or> closeInitiated s then Inr (False, False, s)
      else bind_res (sendClosePacket par s) (\<lambda>s1. Inr (True, True, s1\<lparr> closeInitiated := True \<rparr>)))"

section \<open>Receiving\<close>

text \<open>
  The loop over the packets that became available.  The result says whether the
  closer is to be notified; the code's fault is a loop without end when every
  slot is full, for which the recursion is bounded by the number of slots.
\<close>

fun avail_loop :: "nat \<Rightarrow> (Packet \<Rightarrow> int) \<Rightarrow> (appInt16 \<Rightarrow> Packet option) \<Rightarrow> new_flow \<Rightarrow> (bool \<times> new_flow) res" where
  "avail_loop 0 par q s = Inl Diverges"
| "avail_loop (Suc n) par q s =
     (case q (availableUpTo s + 1) of
        None \<Rightarrow> Inr (False, s)
      | Some npkt \<Rightarrow>
          let s1 = s\<lparr> availableUpTo := availableUpTo s + 1 \<rparr> in
          if has_flag (h_flag (p_header npkt)) FLAG_FFN then
            if closeInitiated s1 then Inr (True, s1\<lparr> nf_closed := True, readSem := readSem s1 + 1 \<rparr>)
            else bind_res (sendClosePacket par s1) (\<lambda>s2.
                 Inr (False, s2\<lparr> nf_closed := True, readSem := readSem s2 + 1 \<rparr>))
          else avail_loop n par q (s1\<lparr> readSem := readSem s1 + 1 \<rparr>))"

definition nf_recvPacketFrom :: "(Packet \<Rightarrow> int) \<Rightarrow> Packet \<Rightarrow> new_flow \<Rightarrow> (int \<times> new_flow) res" where
  "nf_recvPacketFrom par pkt s0 =
     (let isdat = has_flag (h_flag (p_header pkt)) FLAG_DAT;
          s = (if isdat \<and> rcvPktQueue s0 = None
               then s0\<lparr> rcvPktQueue := Some (\<lambda>_. None), startedRecv := True \<rparr> else s0) in
      if \<not> isdat then Inr (- ERROR_INVALID_PACKET, s)
      else
        let seqNo = h_flowSeqNo (p_header pkt); virSeqNo = seqNo - (readUpto s + 1) in
        if unat virSeqNo > 16384 + 32768 then Inr (- ERROR_DUPLICATE_PACKET, s)
        else app_assert (unat virSeqNo \<le> 32768)
          (case rcvPktQueue s of
             None \<Rightarrow> Inl Null_Deref
           | Some q \<Rightarrow>
               if q seqNo \<noteq> None then Inr (- ERROR_DUPLICATE_PACKET, s)
               else let q' = q(seqNo \<mapsto> pkt) in
                 bind_res (avail_loop 65537 par q' (s\<lparr> rcvPktQueue := Some q' \<rparr>)) (\<lambda>(closeNotify, s1).
                 Inr (0, if closeNotify then s1\<lparr> closeSemaphore := closeSemaphore s1 + 1 \<rparr> else s1))))"

text \<open>
  \<open>readData\<close> into a buffer of \<open>bufsize\<close> bytes: the result, the bytes copied and
  the state.  The copy of \<open>len\<close> bytes is not checked against the buffer.
\<close>

definition readData :: "nat \<Rightarrow> new_flow \<Rightarrow> (int \<times> appByte list \<times> new_flow) res" where
  "readData bufsize s =
     (if bufsize < MAX_PACKET_SENT_DATA_SIZE then Inr (- ERROR_INVALID_READ_SIZE, [], s)
      else if readSem s = 0 then Inl Blocked
      else let s1 = s\<lparr> readSem := readSem s - 1 \<rparr>; nextPkt = readUpto s1 + 1 in
        app_assert (readUpto s1 \<noteq> availableUpTo s1)
          (case rcvPktQueue s1 of
             None \<Rightarrow> Inl Null_Deref
           | Some q \<Rightarrow>
               (case q nextPkt of
                 None \<Rightarrow> Inl Assert_Failed
               | Some pkt \<Rightarrow>
                   if closeInitiated s1 \<and> nf_closed s1 then Inr (0, [], s1)
                   else
                     let s2 = s1\<lparr> readUpto := nextPkt, rcvPktQueue := Some (q(nextPkt := None)) \<rparr> in
                     if has_flag (h_flag (p_header pkt)) FLAG_FFN then Inr (0, [], s2)
                     else if p_len pkt = 0 then Inr (- ERROR_NO_DATA, [], s2)
                     else (case p_data pkt of
                       None \<Rightarrow> Inl Null_Deref
                     | Some d \<Rightarrow> check Out_Of_Bounds (unat (p_len pkt) \<le> bufsize)
                         (Inr (int (unat (p_len pkt)), take (unat (p_len pkt)) d, s2))))))"

end
