(* ===== verification/NewFlowProps.thy ===== *)
theory NewFlowProps
  imports NewFlow
begin

text \<open>
  Correctness of \<open>NewFlowHandler\<close>: whatever order and however often the packets
  of a flow arrive, the bytes the application reads are the sender's bytes in
  order, each once; the window of outstanding packets; and the size of the
  receive buffer nobody checks.
\<close>

section \<open>The receiving side\<close>

text \<open>
  The sender's flow: the payload \<open>D n\<close> of the packet with ordinal \<open>n\<close>, and which
  ordinals carry \<open>FLAG_FFN\<close> (with an empty payload).  A copy of a packet carries
  its number modulo 65536.
\<close>

definition copy_of :: "(nat \<Rightarrow> appByte list) \<Rightarrow> (nat \<Rightarrow> bool) \<Rightarrow> nat \<Rightarrow> Packet \<Rightarrow> bool" where
  "copy_of D fin n pkt \<longleftrightarrow> h_flowSeqNo (p_header pkt) = of_nat n \<and> has_flag (h_flag (p_header pkt)) FLAG_DAT \<and>
     (has_flag (h_flag (p_header pkt)) FLAG_FFN \<longleftrightarrow> fin n) \<and> length (D n) \<le> MAX_PACKET_SENT_DATA_SIZE \<and>
     (fin n \<longrightarrow> D n = []) \<and> unat (p_len pkt) = length (D n) \<and>
     (D n \<noteq> [] \<longrightarrow> (\<exists>d. p_data pkt = Some d \<and> take (length (D n)) d = D n))"

text \<open>\<open>r\<close> packets were read, those before \<open>a\<close> are available, those of \<open>R\<close> are buffered.\<close>

definition queue_rel :: "(nat \<Rightarrow> appByte list) \<Rightarrow> (nat \<Rightarrow> bool) \<Rightarrow> nat \<Rightarrow> nat set \<Rightarrow> (appInt16 \<Rightarrow> Packet option) \<Rightarrow> bool" where
  "queue_rel D fin r R q \<longleftrightarrow>
     (\<forall>n. r \<le> n \<and> n < r + 65536 \<longrightarrow> (case q (of_nat n) of None \<Rightarrow> n \<notin> R | Some p \<Rightarrow> n \<in> R \<and> copy_of D fin n p))"

definition flow_rel :: "(nat \<Rightarrow> appByte list) \<Rightarrow> (nat \<Rightarrow> bool) \<Rightarrow> nat \<Rightarrow> nat \<Rightarrow> nat set \<Rightarrow> new_flow \<Rightarrow> bool" where
  "flow_rel D fin r a R s \<longleftrightarrow> readUpto s = of_nat r - 1 \<and> availableUpTo s = of_nat a - 1 \<and>
     r \<le> a \<and> a \<le> r + 32769 \<and> {r..<a} \<subseteq> R \<and> R \<subseteq> {r..r + 32768} \<and> readSem s \<le> a - r \<and>
     wf_BitField (ackedBitField s) \<and>
     (case rcvPktQueue s of None \<Rightarrow> R = {} | Some q \<Rightarrow> queue_rel D fin r R q)"

lemma queue_relD:
  assumes "queue_rel D fin r R q" "r \<le> n" "n < r + 65536"
  shows "q (of_nat n) = None \<longleftrightarrow> n \<notin> R" "q (of_nat n) = Some p \<Longrightarrow> copy_of D fin n p"
  using assms by (auto simp: queue_rel_def split: option.splits)

lemma queue_rel_insert:
  assumes "queue_rel D fin r R q" "copy_of D fin n pkt" "r \<le> n" "n < r + 65536"
  shows "queue_rel D fin r (insert n R) (q(of_nat n \<mapsto> pkt))"
  unfolding queue_rel_def
proof (intro allI impI)
  fix m assume m: "r \<le> m \<and> m < r + 65536"
  show "case (q(of_nat n \<mapsto> pkt)) (of_nat m) of None \<Rightarrow> m \<notin> insert n R | Some p \<Rightarrow> m \<in> insert n R \<and> copy_of D fin m p"
  proof (cases "m = n")
    case False
    then have "(of_nat m :: appInt16) \<noteq> of_nat n" using of_nat_eq16 [of m n] m assms(3,4) by auto
    then show ?thesis using assms(1) m False by (auto simp: queue_rel_def split: option.splits)
  qed (use assms(2) in simp)
qed

lemma queue_rel_remove:
  assumes "queue_rel D fin r R q" "R \<subseteq> {r..r + 32768}"
  shows "queue_rel D fin (Suc r) (R - {r}) (q(of_nat r := None))"
  unfolding queue_rel_def
proof (intro allI impI)
  fix m assume m: "Suc r \<le> m \<and> m < Suc r + 65536"
  show "case (q(of_nat r := None)) (of_nat m) of None \<Rightarrow> m \<notin> R - {r} | Some p \<Rightarrow> m \<in> R - {r} \<and> copy_of D fin m p"
  proof (cases "m = r + 65536")
    case True
    then have "(of_nat m :: appInt16) = of_nat r" by (simp add: word_of_nat_eq_iff take_bit_eq_mod)
    moreover have "m \<notin> R" using True assms(2) by auto
    ultimately show ?thesis by simp
  next
    case False
    then have "(of_nat m :: appInt16) \<noteq> of_nat r" using of_nat_eq16 [of m r] m by auto
    moreover have "r \<le> m \<and> m < r + 65536" "m \<noteq> r" using m False by auto
    ultimately show ?thesis
      using assms(1) [unfolded queue_rel_def, rule_format, of m] by (simp split: option.splits)
  qed
qed

section \<open>The steps\<close>

lemma nf_send_result:
  assumes "wf_BitField (ackedBitField s)" "\<forall>p. par p = 0"
  shows "nf_sendPacketTo par pkt s = Inl Blocked \<and> remoteFreeWindow s = 0 \<or>
    (\<exists>b s'. nf_sendPacketTo par pkt s = Inr (0, s') \<and> wf_BitField b \<and> 0 < remoteFreeWindow s \<and>
      s' = s\<lparr> remoteFreeWindow := remoteFreeWindow s - 1, ackedBitField := b, nf_out := nf_out s' \<rparr>)"
proof -
  obtain b where "bf_reset (ackedBitField s) (h_flowSeqNo (p_header pkt)) = Inr b" "wf_BitField b"
    using bf.reset_members [OF assms(1)] .
  then show ?thesis using assms(2) by (auto simp: nf_sendPacketTo_def Let_def)
qed

lemma sendClose_result:
  assumes "wf_BitField (ackedBitField s)" "\<forall>p. par p = 0"
  shows "sendClosePacket par s = Inl Blocked \<and> remoteFreeWindow s = 0 \<or>
    (\<exists>b s'. sendClosePacket par s = Inr s' \<and> wf_BitField b \<and>
      s' = s\<lparr> remoteFreeWindow := remoteFreeWindow s', ackedBitField := b, nextSeqNumber := nextSeqNumber s',
        nf_out := nf_out s' \<rparr>)"
proof -
  let ?s1 = "s\<lparr> nextSeqNumber := nextSeqNumber s + 1 \<rparr>"
  let ?p = "new_Packet\<lparr> p_header := reinit_header\<lparr> h_flowSeqNo := nextSeqNumber s + 1, h_flag := FLAG_FFN \<rparr> \<rparr>"
  have "wf_BitField (ackedBitField ?s1)" using assms(1) by simp
  from nf_send_result [OF this assms(2), of ?p] show ?thesis
  proof
    assume "nf_sendPacketTo par ?p ?s1 = Inl Blocked \<and> remoteFreeWindow ?s1 = 0"
    then show ?thesis by (simp add: sendClosePacket_def getNextSeqNo_def)
  next
    assume "\<exists>b s'. nf_sendPacketTo par ?p ?s1 = Inr (0, s') \<and> wf_BitField b \<and> 0 < remoteFreeWindow ?s1 \<and>
      s' = ?s1\<lparr> remoteFreeWindow := remoteFreeWindow ?s1 - 1, ackedBitField := b, nf_out := nf_out s' \<rparr>"
    then obtain b s' where b: "nf_sendPacketTo par ?p ?s1 = Inr (0, s')" "wf_BitField b"
      "s' = ?s1\<lparr> remoteFreeWindow := remoteFreeWindow ?s1 - 1, ackedBitField := b, nf_out := nf_out s' \<rparr>"
      by blast
    have "s' = s\<lparr> remoteFreeWindow := remoteFreeWindow s', ackedBitField := b, nextSeqNumber := nextSeqNumber s',
        nf_out := nf_out s' \<rparr>"
      by (subst (1 2 3) b(3)) simp
    then show ?thesis using b(1,2) by (auto simp: sendClosePacket_def getNextSeqNo_def)
  qed
qed

text \<open>
  A flow whose own side does not close: every available packet can be read, and
  no buffered packet waits behind an available one, unless the peer has closed.
\<close>

definition flow_open :: "(nat \<Rightarrow> bool) \<Rightarrow> nat \<Rightarrow> nat \<Rightarrow> new_flow \<Rightarrow> bool" where
  "flow_open fin r a s \<longleftrightarrow> \<not> closeInitiated s \<and> readSem s = a - r \<and> (if nf_closed s then 0 < a \<and> fin (a - 1) else 0 < remoteFreeWindow s)"

definition flow_live :: "(nat \<Rightarrow> bool) \<Rightarrow> nat \<Rightarrow> nat \<Rightarrow> nat set \<Rightarrow> new_flow \<Rightarrow> bool" where
  "flow_live fin r a R s \<longleftrightarrow> flow_open fin r a s \<and> (a \<in> R \<longrightarrow> nf_closed s)"

lemma flow_live_cong:
  assumes "closeInitiated s' = closeInitiated s" "readSem s' = readSem s" "nf_closed s' = nf_closed s"
    "remoteFreeWindow s' = remoteFreeWindow s"
  shows "flow_open fin r a s' = flow_open fin r a s" "flow_live fin r a R s' = flow_live fin r a R s"
  by (simp_all add: flow_live_def flow_open_def assms)

lemma avail_loop_ok:
  assumes "flow_rel D fin r a R s" "rcvPktQueue s = Some q" "\<forall>p. par p = 0" "r + 32769 - a < n"
  shows "avail_loop n par q s = Inl Blocked \<and> \<not> (flow_open fin r a s \<and> (nf_closed s \<longrightarrow> a \<notin> R)) \<or>
    (\<exists>b s' a'. avail_loop n par q s = Inr (b, s') \<and> flow_rel D fin r a' R s' \<and>
      (flow_open fin r a s \<and> (nf_closed s \<longrightarrow> a \<notin> R) \<longrightarrow> flow_live fin r a' R s'))"
  using assms(1,2,4)
proof (induction n arbitrary: s a)
  case (Suc n)
  note F = Suc.prems(1) [unfolded flow_rel_def]
  have qr: "queue_rel D fin r R q" using F Suc.prems(2) by simp
  have nx: "availableUpTo s + 1 = of_nat a" using F by simp
  have ab: "r \<le> a" "a < r + 65536" using F by auto
  show ?case
  proof (cases "q (of_nat a)")
    case None
    then have "a \<notin> R" using queue_relD(1) [OF qr ab] by simp
    then show ?thesis using Suc.prems(1) None by (intro disjI2 exI [of _ False] exI [of _ s] exI [of _ a]) (simp add: nx flow_live_def)
  next
    case (Some p)
    have "a \<in> R" using queue_relD(1) [OF qr ab] Some by auto
    then have a': "Suc a \<le> r + 32769" "{r..<Suc a} \<subseteq> R" "readSem s + 1 \<le> Suc a - r"
      using F ab by (auto simp: less_Suc_eq)
    have rel: "flow_rel D fin r (Suc a) R s'"
      if "readUpto s' = readUpto s" "availableUpTo s' = availableUpTo s + 1" "readSem s' = readSem s + 1"
        "wf_BitField (ackedBitField s')" "rcvPktQueue s' = rcvPktQueue s" for s'
      using that F a' ab Suc.prems(2) by (simp add: flow_rel_def)
    have opn: "flow_open fin r (Suc a) s'"
      if "flow_open fin r a s" "closeInitiated s' = closeInitiated s" "readSem s' = readSem s + 1"
        "if nf_closed s' then fin a else 0 < remoteFreeWindow s'" for s'
      using that ab by (auto simp: flow_open_def)
    have fin: "has_flag (h_flag (p_header p)) FLAG_FFN \<longleftrightarrow> fin a"
      using queue_relD(2) [OF qr ab Some] by (simp add: copy_of_def)
    let ?s1 = "s\<lparr> availableUpTo := of_nat a \<rparr>"
    show ?thesis
    proof (cases "has_flag (h_flag (p_header p)) FLAG_FFN")
      case False
      let ?s2 = "?s1\<lparr> readSem := readSem s + 1 \<rparr>"
      have "flow_rel D fin r (Suc a) R ?s2" using F nx by (intro rel) simp_all
      moreover have "r + 32769 - Suc a < n" using Suc.prems(3) \<open>Suc a \<le> r + 32769\<close> by linarith
      ultimately have "avail_loop n par q ?s2 = Inl Blocked \<and> \<not> (flow_open fin r (Suc a) ?s2 \<and> (nf_closed ?s2 \<longrightarrow> Suc a \<notin> R)) \<or>
        (\<exists>b s' a'. avail_loop n par q ?s2 = Inr (b, s') \<and> flow_rel D fin r a' R s' \<and>
          (flow_open fin r (Suc a) ?s2 \<and> (nf_closed ?s2 \<longrightarrow> Suc a \<notin> R) \<longrightarrow> flow_live fin r a' R s'))"
        using Suc.prems(2) by (intro Suc.IH) (assumption | simp)+
      moreover have "flow_open fin r (Suc a) ?s2 \<and> (nf_closed ?s2 \<longrightarrow> Suc a \<notin> R)"
        if "flow_open fin r a s" "nf_closed s \<longrightarrow> a \<notin> R"
        using opn [OF that(1), of ?s2] that \<open>a \<in> R\<close> by (auto simp: flow_open_def)
      moreover have "avail_loop (Suc n) par q s = avail_loop n par q ?s2" using Some False by (simp add: nx Let_def)
      ultimately show ?thesis by metis
    next
      case True
      show ?thesis
      proof (cases "closeInitiated s")
        case True
        then show ?thesis
          using rel [of "?s1\<lparr> nf_closed := True, readSem := readSem s + 1 \<rparr>"] F nx Some
            \<open>has_flag (h_flag (p_header p)) FLAG_FFN\<close>
          by (auto simp: Let_def flow_open_def intro!: exI [of _ "Suc a"])
      next
        case False
        have "wf_BitField (ackedBitField ?s1)" using F by simp
        from sendClose_result [OF this assms(3)] show ?thesis
        proof
          assume "sendClosePacket par ?s1 = Inl Blocked \<and> remoteFreeWindow ?s1 = 0"
          then show ?thesis using Some False True \<open>a \<in> R\<close> by (auto simp: nx Let_def flow_open_def)
        next
          assume "\<exists>b s'. sendClosePacket par ?s1 = Inr s' \<and> wf_BitField b \<and>
            s' = ?s1\<lparr> remoteFreeWindow := remoteFreeWindow s', ackedBitField := b, nextSeqNumber := nextSeqNumber s',
              nf_out := nf_out s' \<rparr>"
          then obtain b s' where s': "sendClosePacket par ?s1 = Inr s'" "wf_BitField b"
            "s' = ?s1\<lparr> remoteFreeWindow := remoteFreeWindow s', ackedBitField := b, nextSeqNumber := nextSeqNumber s',
              nf_out := nf_out s' \<rparr>" by blast
          let ?s3 = "s'\<lparr> nf_closed := True, readSem := readSem s' + 1 \<rparr>"
          have f: "readUpto s' = readUpto s" "availableUpTo s' = of_nat a" "readSem s' = readSem s"
            "ackedBitField s' = b" "rcvPktQueue s' = rcvPktQueue s" "closeInitiated s' = closeInitiated s"
            by (subst s'(3), simp)+
          then have "flow_rel D fin r (Suc a) R ?s3"
            using s'(2) nx by (intro rel) simp_all
          moreover have "flow_open fin r a s \<Longrightarrow> flow_live fin r (Suc a) R ?s3"
            using opn [of ?s3] f True fin by (simp add: flow_live_def)
          moreover have "avail_loop (Suc n) par q s = Inr (False, ?s3)"
            using Some False True s'(1) by (simp add: nx Let_def)
          ultimately show ?thesis by (intro disjI2 exI conjI impI) (assumption | simp)+
        qed
      qed
    qed
  qed
qed simp

text \<open>Receiving a copy of a packet that is neither too far ahead nor too far behind.\<close>

lemma recv_ok:
  assumes rel: "flow_rel D fin r a R s" and cp: "copy_of D fin n pkt" and par: "\<forall>p. par p = 0"
    and win: "n \<le> r + 32768" "r < n + 16384"
  shows "nf_recvPacketFrom par pkt s = Inl Blocked \<and> \<not> (flow_live fin r a R s \<and> (nf_closed s \<longrightarrow> a \<notin> insert n R)) \<or>
    (\<exists>ret s' a' R'. nf_recvPacketFrom par pkt s = Inr (ret, s') \<and> flow_rel D fin r a' R' s' \<and>
      (ret = (if n < r \<or> n \<in> R then - ERROR_DUPLICATE_PACKET else 0)) \<and>
      R' = (if n < r \<or> n \<in> R then R else insert n R) \<and>
      (flow_live fin r a R s \<and> (nf_closed s \<longrightarrow> a \<notin> insert n R) \<longrightarrow> flow_live fin r a' R' s'))"
proof -
  define s1 where "s1 = (if rcvPktQueue s = None then s\<lparr> rcvPktQueue := Some (\<lambda>_. None), startedRecv := True \<rparr> else s)"
  have rel1: "flow_rel D fin r a R s1"
    using rel by (auto simp: s1_def flow_rel_def queue_rel_def split: option.splits)
  have s1: "closeInitiated s1 = closeInitiated s" "readSem s1 = readSem s" "remoteFreeWindow s1 = remoteFreeWindow s"
    and closed1: "nf_closed s1 = nf_closed s" by (simp_all add: s1_def)
  have live1: "flow_live fin r a R s \<Longrightarrow> flow_live fin r a R s1" using flow_live_cong(2) [OF s1(1,2) closed1 s1(3)] by metis
  have "rcvPktQueue s1 \<noteq> None" by (simp add: s1_def)
  then obtain q where q: "rcvPktQueue s1 = Some q" by blast
  note F = rel1 [unfolded flow_rel_def]
  have qr: "queue_rel D fin r R q" using F q by simp
  have seq: "h_flowSeqNo (p_header pkt) = of_nat n" "has_flag (h_flag (p_header pkt)) FLAG_DAT"
    using cp by (simp_all add: copy_of_def)
  have v: "readUpto s1 + 1 = of_nat r" using F by simp
  have unf: "nf_recvPacketFrom par pkt s = (let virSeqNo = of_nat n - of_nat r :: appInt16 in
      if unat virSeqNo > 49152 then Inr (- ERROR_DUPLICATE_PACKET, s1)
      else app_assert (unat virSeqNo \<le> 32768)
        (if q (of_nat n) \<noteq> None then Inr (- ERROR_DUPLICATE_PACKET, s1)
         else bind_res (avail_loop 65537 par (q(of_nat n \<mapsto> pkt)) (s1\<lparr> rcvPktQueue := Some (q(of_nat n \<mapsto> pkt)) \<rparr>))
           (\<lambda>(cn, s2). Inr (0, if cn then s2\<lparr> closeSemaphore := closeSemaphore s2 + 1 \<rparr> else s2))))"
    using seq(2) by (simp add: nf_recvPacketFrom_def s1_def [symmetric] q v seq(1) Let_def)
  show ?thesis
  proof (cases "n < r")
    case True
    have "(of_nat n :: appInt16) - of_nat r = of_nat (65536 - (r - n))"
      using True win(2) by (simp add: of_nat_diff)
    then have "unat ((of_nat n :: appInt16) - of_nat r) = 65536 - (r - n)"
      using True by (simp only:) (intro unat_of_nat_small, simp)
    moreover have "49152 < 65536 - (r - n)" using win(2) by linarith
    ultimately show ?thesis using True rel1 live1 unfolding unf by (auto simp: Let_def)
  next
    case False
    have "(of_nat n :: appInt16) - of_nat r = of_nat (n - r)" using False by simp
    then have u: "unat ((of_nat n :: appInt16) - of_nat r) = n - r"
      using False win(1) by (simp only:) (intro unat_of_nat_small, simp)
    have nr: "r \<le> n" "n < r + 65536" using False win(1) by auto
    have le: "n - r \<le> 32768" "\<not> 49152 < n - r" using win(1) by linarith+
    show ?thesis
    proof (cases "n \<in> R")
      case True
      then have "q (of_nat n) \<noteq> None" using queue_relD(1) [OF qr nr] by simp
      then show ?thesis using True rel1 live1 le unfolding unf by (auto simp: Let_def u)
    next
      case new: False
      let ?q = "q(of_nat n \<mapsto> pkt)" let ?s = "s1\<lparr> rcvPktQueue := Some ?q \<rparr>"
      have none: "q (of_nat n) = None" using new queue_relD(1) [OF qr nr] by simp
      have "flow_rel D fin r a (insert n R) ?s"
        using F queue_rel_insert [OF qr cp nr] win(1) nr by (auto simp: flow_rel_def)
      moreover have "r + 32769 - a < 65537" using F by linarith
      ultimately have "avail_loop 65537 par ?q ?s = Inl Blocked \<and> \<not> (flow_open fin r a ?s \<and> (nf_closed ?s \<longrightarrow> a \<notin> insert n R)) \<or>
        (\<exists>b s' a'. avail_loop 65537 par ?q ?s = Inr (b, s') \<and> flow_rel D fin r a' (insert n R) s' \<and>
          (flow_open fin r a ?s \<and> (nf_closed ?s \<longrightarrow> a \<notin> insert n R) \<longrightarrow> flow_live fin r a' (insert n R) s'))"
        using avail_loop_ok [OF _ _ par, of D fin r a "insert n R" ?s ?q 65537] by simp
      then show ?thesis
      proof
        assume "avail_loop 65537 par ?q ?s = Inl Blocked \<and> \<not> (flow_open fin r a ?s \<and> (nf_closed ?s \<longrightarrow> a \<notin> insert n R))"
        moreover have "flow_open fin r a ?s" if "flow_live fin r a R s"
          using that by (subst flow_live_cong(1) [of _ s]) (simp_all add: flow_live_def s1 closed1)
        moreover have "nf_closed ?s = nf_closed s" by (simp add: closed1)
        ultimately show ?thesis using none le unfolding unf by (simp add: Let_def u)
      next
        assume "\<exists>b s' a'. avail_loop 65537 par ?q ?s = Inr (b, s') \<and> flow_rel D fin r a' (insert n R) s' \<and>
          (flow_open fin r a ?s \<and> (nf_closed ?s \<longrightarrow> a \<notin> insert n R) \<longrightarrow> flow_live fin r a' (insert n R) s')"
        then obtain b s' a' where b: "avail_loop 65537 par ?q ?s = Inr (b, s')" "flow_rel D fin r a' (insert n R) s'"
          "flow_open fin r a ?s \<and> (nf_closed ?s \<longrightarrow> a \<notin> insert n R) \<longrightarrow> flow_live fin r a' (insert n R) s'"
          by blast
        have live: "flow_live fin r a' (insert n R) s'" if "flow_live fin r a R s" "nf_closed s \<longrightarrow> a \<notin> insert n R"
          using b(3) that flow_live_cong(1) [of ?s s fin r a] by (simp add: s1 closed1 flow_live_def)
        let ?s' = "if b then s'\<lparr> closeSemaphore := closeSemaphore s' + 1 \<rparr> else s'"
        have "nf_recvPacketFrom par pkt s = Inr (0, ?s')"
          using none le b(1) unfolding unf by (simp add: Let_def u)
        moreover have "flow_rel D fin r a' (insert n R) ?s'" using b(2) by (simp add: flow_rel_def)
        moreover have "flow_live fin r a R s \<and> (nf_closed s \<longrightarrow> a \<notin> insert n R) \<longrightarrow> flow_live fin r a' (insert n R) ?s'"
          using live by (subst flow_live_cong(2) [of ?s' s']) simp_all
        moreover have "(0 :: int) = (if n < r \<or> n \<in> R then - ERROR_DUPLICATE_PACKET else 0)"
          "insert n R = (if n < r \<or> n \<in> R then R else insert n R)" using new False by simp_all
        ultimately show ?thesis
          by (intro disjI2 exI [of _ "0 :: int"] exI [of _ ?s'] exI [of _ a'] exI [of _ "insert n R"] conjI) assumption+
      qed
    qed
  qed
qed

lemma flow_rel_consume:
  assumes "flow_rel D fin r a R s" "rcvPktQueue s = Some q" "0 < readSem s"
  shows "flow_rel D fin (Suc r) a (R - {r})
    (s\<lparr> readSem := readSem s - 1, readUpto := of_nat r, rcvPktQueue := Some (q(of_nat r := None)) \<rparr>)"
proof -
  have "queue_rel D fin r R q" "R \<subseteq> {r..r + 32768}" using assms(1,2) by (auto simp: flow_rel_def)
  then have "queue_rel D fin (Suc r) (R - {r}) (q(of_nat r := None))" by (rule queue_rel_remove)
  moreover have "R - {r} \<subseteq> {Suc r..Suc r + 32768}" "{Suc r..<a} \<subseteq> R - {r}"
    using assms(1) by (auto simp: flow_rel_def)
  ultimately show ?thesis using assms(1,3) by (auto simp: flow_rel_def)
qed

text \<open>Reading takes the next packet, if one is available.\<close>

lemma read_ok:
  assumes rel: "flow_rel D fin r a R s"
  shows "readData bufsize s = Inl Blocked \<and> readSem s = 0 \<or>
    (\<exists>ret bs s' r' R'. readData bufsize s = Inr (ret, bs, s') \<and> flow_rel D fin r' a R' s' \<and>
      (r' = r \<and> bs = [] \<and> R' = R \<or> r' = Suc r \<and> bs = D r \<and> r \<in> R \<and> R' = R - {r}) \<and>
      (flow_live fin r a R s \<longrightarrow> flow_live fin r' a R' s' \<and> (MAX_PACKET_SENT_DATA_SIZE \<le> bufsize \<longrightarrow> r' = Suc r)))"
proof (cases "bufsize < MAX_PACKET_SENT_DATA_SIZE \<or> readSem s = 0")
  case True
  then show ?thesis
    using rel by (cases "bufsize < MAX_PACKET_SENT_DATA_SIZE") (auto simp: readData_def)
next
  case False
  note F = rel [unfolded flow_rel_def]
  have lt: "r < a" "a \<le> r + 32769" using F False by auto
  have "(of_nat r :: appInt16) \<noteq> of_nat a" using of_nat_eq16 [of r a] lt by auto
  then have ne: "readUpto s \<noteq> availableUpTo s" using F by simp
  have "r \<in> R" using F lt(1) by auto
  then obtain q where q: "rcvPktQueue s = Some q" using F by (cases "rcvPktQueue s") auto
  have qr: "queue_rel D fin r R q" using F q by simp
  obtain p where p: "q (of_nat r) = Some p" using queue_relD(1) [OF qr, of r] \<open>r \<in> R\<close> by auto
  have cp: "copy_of D fin r p" using queue_relD(2) [OF qr, of r p] p by simp
  have nx: "readUpto s + 1 = of_nat r" using F by simp
  let ?s2 = "s\<lparr> readSem := readSem s - 1, readUpto := of_nat r, rcvPktQueue := Some (q(of_nat r := None)) \<rparr>"
  have rel2: "flow_rel D fin (Suc r) a (R - {r}) ?s2" using flow_rel_consume [OF rel q] False by simp
  show ?thesis
  proof (cases "closeInitiated s \<and> nf_closed s")
    case True
    have "flow_rel D fin r a R (s\<lparr> readSem := readSem s - 1 \<rparr>)" using F by (auto simp: flow_rel_def)
    moreover have "readData bufsize s = Inr (0, [], s\<lparr> readSem := readSem s - 1 \<rparr>)"
      using False ne q p True by (simp add: readData_def nx)
    moreover have "\<not> flow_live fin r a R s" using True by (simp add: flow_live_def flow_open_def)
    ultimately show ?thesis by blast
  next
    case live: False
    have "\<exists>ret. readData bufsize s = Inr (ret, D r, ?s2)"
    proof (cases "D r = []")
      case True
      then have "p_len p = 0" using cp by (simp add: copy_of_def unat_eq_0)
      then show ?thesis
        using False ne q p live True by (auto simp: readData_def nx Let_def)
    next
      case nonempty: False
      then obtain d where d: "p_data p = Some d" "take (length (D r)) d = D r" "unat (p_len p) = length (D r)"
          "\<not> has_flag (h_flag (p_header p)) FLAG_FFN" "length (D r) \<le> MAX_PACKET_SENT_DATA_SIZE"
        using cp by (auto simp: copy_of_def)
      then have "p_len p \<noteq> 0" using nonempty by auto
      then show ?thesis
        using False ne q p live d by (auto simp: readData_def nx Let_def)
    qed
    moreover have "flow_live fin (Suc r) a (R - {r}) ?s2" if "flow_live fin r a R s"
      using that lt(1) by (auto simp: flow_live_def flow_open_def)
    ultimately show ?thesis using rel2 \<open>r \<in> R\<close> by blast
  qed
qed

section \<open>Any run of a flow\<close>

text \<open>
  A run: copies of the sender's packets arrive in any order and number, as long
  as they are less than 16384 behind the reader and at most 32768 ahead;
  meanwhile the application reads, sends and closes and acknowledgements arrive.
  \<open>r\<close> counts the packets consumed, \<open>got\<close> is what the application has read.
\<close>

inductive flow_run :: "(nat \<Rightarrow> appByte list) \<Rightarrow> (nat \<Rightarrow> bool) \<Rightarrow> (Packet \<Rightarrow> int) \<Rightarrow> new_flow \<Rightarrow> nat \<Rightarrow> appByte list \<Rightarrow> bool"
  for D fin par where
  start: "flow_run D fin par (init_new_flow f w) 0 []"
| recv: "flow_run D fin par s r got \<Longrightarrow> copy_of D fin n pkt \<Longrightarrow> n \<le> r + 32768 \<Longrightarrow> r < n + 16384 \<Longrightarrow>
    nf_recvPacketFrom par pkt s = Inr (ret, s') \<Longrightarrow> flow_run D fin par s' r got"
| read: "flow_run D fin par s r got \<Longrightarrow> readData bufsize s = Inr (ret, bs, s') \<Longrightarrow>
    flow_run D fin par s' (if readUpto s' = readUpto s then r else Suc r) (got @ bs)"
| ack: "flow_run D fin par s r got \<Longrightarrow> nf_recvAck q s = (ret, s') \<Longrightarrow> flow_run D fin par s' r got"
| close: "flow_run D fin par s r got \<Longrightarrow> closeFlow par s = Inr (b, w, s') \<Longrightarrow> flow_run D fin par s' r got"
| chunk: "flow_run D fin par s r got \<Longrightarrow> send_chunk par c s = Inr (ret, s') \<Longrightarrow> flow_run D fin par s' r got"

text \<open>Operations of the sending side keep the relation.\<close>

lemma flow_rel_send:
  assumes "flow_rel D fin r a R s" "wf_BitField (ackedBitField s')"
    and "s' = s\<lparr> remoteFreeWindow := remoteFreeWindow s', ackedBitField := ackedBitField s', nextSeqNumber := nextSeqNumber s',
        nf_out := nf_out s', closeInitiated := closeInitiated s', ackedUpto := ackedUpto s' \<rparr>"
  shows "flow_rel D fin r a R s'"
proof -
  have "readUpto s' = readUpto s" "availableUpTo s' = availableUpTo s" "readSem s' = readSem s" "rcvPktQueue s' = rcvPktQueue s"
    by (subst assms(3), simp)+
  then show ?thesis using assms(1,2) by (simp add: flow_rel_def)
qed

lemma flow_run_rel:
  assumes "flow_run D fin par s r got" "\<forall>p. par p = 0"
  shows "got = concat (map D [0..<r]) \<and> (\<exists>a R. flow_rel D fin r a R s)"
  using assms
proof (induction rule: flow_run.induct)
  case (start f w)
  have "flow_rel D fin 0 0 {} (init_new_flow f w)"
    by (simp add: flow_rel_def init_new_flow_def new_BitField_wf)
  then show ?case by auto
next
  case (recv s r got n pkt ret s')
  then obtain a R where rel: "flow_rel D fin r a R s" by blast
  have "\<exists>a R. flow_rel D fin r a R s'"
    using recv_ok [OF rel recv.hyps(2) recv.prems recv.hyps(3,4)] recv.hyps(5) by auto
  then show ?case using recv by blast
next
  case (read s r got bufsize ret bs s')
  then obtain a R where rel: "flow_rel D fin r a R s" by blast
  from read_ok [OF this, of bufsize] read.hyps(2) obtain r' R' where
    r': "flow_rel D fin r' a R' s'" "r' = r \<and> bs = [] \<or> r' = Suc r \<and> bs = D r" by auto
  have "(of_nat (Suc r) :: appInt16) - 1 \<noteq> of_nat r - 1" by simp
  then have "(if readUpto s' = readUpto s then r else Suc r) = r'"
    using r' rel by (auto simp: flow_rel_def)
  then show ?case using r' read by auto
next
  case (ack s r got q ret s')
  then obtain a R where rel: "flow_rel D fin r a R s" by blast
  have "flow_rel D fin r a R s'"
    by (rule flow_rel_send [OF rel])
      (use ack.hyps(2) rel in \<open>auto simp: nf_recvAck_def Let_def flow_rel_def split: if_splits\<close>)
  then show ?case using ack by auto
next
  case (close s r got b w s')
  then obtain a R where rel: "flow_rel D fin r a R s" by blast
  then have wf: "wf_BitField (ackedBitField s)" by (simp add: flow_rel_def)
  have "flow_rel D fin r a R s'"
  proof (cases "nf_closed s \<or> closeInitiated s")
    case True
    then show ?thesis using close.hyps(2) rel by (simp add: closeFlow_def)
  next
    case False
    then obtain s1 bb where s1: "sendClosePacket par s = Inr s1" "s' = s1\<lparr> closeInitiated := True \<rparr>" "wf_BitField bb"
      "s1 = s\<lparr> remoteFreeWindow := remoteFreeWindow s1, ackedBitField := bb, nextSeqNumber := nextSeqNumber s1,
        nf_out := nf_out s1 \<rparr>"
      using close.hyps(2) sendClose_result [OF wf close.prems] by (auto simp: closeFlow_def bind_res_Inr_iff)
    have "readUpto s1 = readUpto s" "availableUpTo s1 = availableUpTo s" "readSem s1 = readSem s"
      "rcvPktQueue s1 = rcvPktQueue s" "ackedBitField s1 = bb"
      by (subst s1(4), simp)+
    then show ?thesis using rel s1(2,3) by (simp add: flow_rel_def)
  qed
  then show ?case using close by auto
next
  case (chunk s r got c ret s')
  then obtain a R where rel: "flow_rel D fin r a R s" by blast
  let ?s1 = "s\<lparr> nextSeqNumber := nextSeqNumber s + 1 \<rparr>"
  have wf: "wf_BitField (ackedBitField ?s1)" using rel by (simp add: flow_rel_def)
  have "flow_rel D fin r a R s'"
  proof (cases "closeInitiated s \<or> nf_closed s")
    case True
    then show ?thesis
      using chunk.hyps(2) rel by (auto simp: send_chunk_def getNextSeqNo_def flow_rel_def)
  next
    case False
    then have "nf_sendPacketTo par (data_packet c (nextSeqNumber s + 1)) ?s1 = Inr (ret, s')"
      using chunk.hyps(2) by (simp add: send_chunk_def getNextSeqNo_def)
    then obtain b where s': "wf_BitField b"
      "s' = ?s1\<lparr> remoteFreeWindow := remoteFreeWindow ?s1 - 1, ackedBitField := b, nf_out := nf_out s' \<rparr>"
      using nf_send_result [OF wf chunk.prems, of "data_packet c (nextSeqNumber s + 1)"] by auto
    have "readUpto s' = readUpto s" "availableUpTo s' = availableUpTo s" "readSem s' = readSem s"
      "rcvPktQueue s' = rcvPktQueue s" "ackedBitField s' = b"
      by (subst s'(2), simp)+
    then show ?thesis using rel s'(1) by (simp add: flow_rel_def)
  qed
  then show ?case using chunk by auto
qed

text \<open>
  C3: a flow delivers its byte stream intact.  In every run, whatever the order
  and number of copies in which the sender's packets arrive within the window
  and however reading, sending, acknowledgements and closing are interleaved,
  the bytes the application has read are the payloads of the first packets of
  the sender, in order and each once; and in every reachable state neither
  reading nor the arrival of a packet within the window aborts: it returns or
  blocks.
\<close>

theorem flow_stream_intact:
  assumes "flow_run D fin par s r got" "\<forall>p. par p = 0"
  shows "got = concat (map D [0..<r]) \<and>
    (readData bufsize s = Inl Blocked \<or> (\<exists>ret bs s'. readData bufsize s = Inr (ret, bs, s'))) \<and>
    (copy_of D fin n pkt \<and> n \<le> r + 32768 \<and> r < n + 16384 \<longrightarrow>
      nf_recvPacketFrom par pkt s = Inl Blocked \<or>
      (\<exists>ret s'. nf_recvPacketFrom par pkt s = Inr (ret, s') \<and> (ret = 0 \<or> ret = - ERROR_DUPLICATE_PACKET)))"
proof -
  obtain a R where rel: "flow_rel D fin r a R s" and got: "got = concat (map D [0..<r])"
    using flow_run_rel [OF assms] by blast
  have "nf_recvPacketFrom par pkt s = Inl Blocked \<or>
      (\<exists>ret s'. nf_recvPacketFrom par pkt s = Inr (ret, s') \<and> (ret = 0 \<or> ret = - ERROR_DUPLICATE_PACKET))"
    if "copy_of D fin n pkt" "n \<le> r + 32768" "r < n + 16384"
    using recv_ok [OF rel that(1) assms(2) that(2,3)] by (auto split: if_splits)
  then show ?thesis using got read_ok [OF rel, of bufsize] by blast
qed

definition hello_pkt :: "appInt16 \<Rightarrow> appByte list \<Rightarrow> Packet" where
  "hello_pkt n d = new_Packet\<lparr> p_data := Some d, p_len := of_nat (length d),
     p_header := reinit_header\<lparr> h_flag := FLAG_DAT, h_flowSeqNo := n \<rparr> \<rparr>"

lemma avail_loop_numeral:
  "avail_loop (numeral k) par q s =
     (case q (availableUpTo s + 1) of
        None \<Rightarrow> Inr (False, s)
      | Some npkt \<Rightarrow>
          let s1 = s\<lparr> availableUpTo := availableUpTo s + 1 \<rparr> in
          if has_flag (h_flag (p_header npkt)) FLAG_FFN then
            if closeInitiated s1 then Inr (True, s1\<lparr> nf_closed := True, readSem := readSem s1 + 1 \<rparr>)
            else bind_res (sendClosePacket par s1) (\<lambda>s2.
                 Inr (False, s2\<lparr> nf_closed := True, readSem := readSem s2 + 1 \<rparr>))
          else avail_loop (pred_numeral k) par q (s1\<lparr> readSem := readSem s1 + 1 \<rparr>))"
  unfolding numeral_eq_Suc by (rule avail_loop.simps(2))

text \<open>Packet 1 arrives before packet 0; the application reads both.\<close>

lemma flow_stream_intact_witness:
  "\<exists>s. flow_run (\<lambda>n. if n = 0 then [104, 101] else [121]) (\<lambda>n. False) (\<lambda>p. 0) s 2 [104, 101, 121] \<and>
     [104, 101, 121] = concat (map (\<lambda>n. if n = 0 then [104, 101] else [121 :: appByte]) [0..<2])"
proof -
  let ?D = "\<lambda>n :: nat. if n = 0 then [104, 101] else [121 :: appByte]" and ?fin = "\<lambda>n :: nat. False" and ?par = "\<lambda>p :: Packet. 0 :: int"
  have fl: "has_flag FLAG_DAT FLAG_DAT" "\<not> has_flag FLAG_DAT FLAG_FFN" by code_simp+
  have c1: "copy_of ?D ?fin 1 (hello_pkt 1 [121])" and c0: "copy_of ?D ?fin 0 (hello_pkt 0 [104, 101])"
    by (simp_all add: copy_of_def hello_pkt_def fl MAX_PACKET_SENT_DATA_SIZE_def)
  let ?s0 = "init_new_flow 1 500" and ?h0 = "hello_pkt 0 [104, 101]" and ?h1 = "hello_pkt 1 [121]"
  let ?s1 = "?s0\<lparr> rcvPktQueue := Some [1 \<mapsto> ?h1], startedRecv := True \<rparr>"
  let ?s2 = "?s1\<lparr> rcvPktQueue := Some [1 \<mapsto> ?h1, 0 \<mapsto> ?h0], availableUpTo := 1, readSem := 2 \<rparr>"
  let ?s3 = "?s2\<lparr> readSem := 1, readUpto := 0, rcvPktQueue := Some [1 \<mapsto> ?h1] \<rparr>"
  let ?s4 = "?s3\<lparr> readSem := 0, readUpto := 1, rcvPktQueue := Some (\<lambda>_. None) \<rparr>"
  have zero: "(65536 :: appInt16) = 0" by simp
  note eval = zero fl hello_pkt_def init_new_flow_def Let_def avail_loop_numeral
  have r1: "nf_recvPacketFrom ?par ?h1 ?s0 = Inr (0, ?s1)"
    by (simp add: nf_recvPacketFrom_def eval)
  have r2: "nf_recvPacketFrom ?par ?h0 ?s1 = Inr (0, ?s2)"
    by (simp add: nf_recvPacketFrom_def eval)
  have r3: "readData 1300 ?s2 = Inr (2, [104, 101], ?s3)"
    by (simp add: readData_def eval MAX_PACKET_SENT_DATA_SIZE_def fun_upd_twist)
  have r4: "readData 1300 ?s3 = Inr (1, [121], ?s4)"
    by (simp add: readData_def eval MAX_PACKET_SENT_DATA_SIZE_def)
  have f0: "flow_run ?D ?fin ?par ?s0 0 []" by (rule flow_run.start)
  have f1: "flow_run ?D ?fin ?par ?s1 0 []" by (rule flow_run.recv [OF f0 c1 _ _ r1]) simp_all
  have f2: "flow_run ?D ?fin ?par ?s2 0 []" by (rule flow_run.recv [OF f1 c0 _ _ r2]) simp_all
  have f3: "flow_run ?D ?fin ?par ?s3 1 [104, 101]"
    using flow_run.read [OF f2 r3] by (simp add: init_new_flow_def)
  have f4: "flow_run ?D ?fin ?par ?s4 2 [104, 101, 121]"
    using flow_run.read [OF f3 r4] by (simp add: init_new_flow_def numeral_2_eq_2)
  then show ?thesis using flow_stream_intact [OF f4] by blast
qed

section \<open>The sending side\<close>

text \<open>Packets sent and not acknowledged, and the window they leave.\<close>

definition outstanding :: "new_flow \<Rightarrow> nat" where
  "outstanding s = unat (nextSeqNumber s - ackedUpto s)"

definition window_ok :: "new_flow \<Rightarrow> bool" where
  "window_ok s \<longleftrightarrow> remoteFreeWindow s + outstanding s = unat (recvWindow s)"

text \<open>The packets of a piece of data: chunks of 1300 bytes and a rest, numbered from \<open>q\<close> on.\<close>

function packets_of :: "appInt16 \<Rightarrow> appInt16 \<Rightarrow> appByte list \<Rightarrow> Packet list" where
  "packets_of f q data =
     (if data = [] then []
      else (data_packet (take 1300 data) q)\<lparr> p_header := reinit_header\<lparr> h_flowSeqNo := q, h_flowId := f \<rparr> \<rparr>
           # packets_of f (q + 1) (drop 1300 data))"
  by pat_completeness auto
termination by (relation "measure (\<lambda>(f, q, data). length data)") auto

declare packets_of.simps [simp del]

definition packet_count :: "nat \<Rightarrow> nat" where
  "packet_count n = (n + 1299) div 1300"

lemma packet_count_step: "0 < n \<Longrightarrow> packet_count n = Suc (packet_count (n - 1300))"
  by (cases "n \<le> 1300") (auto simp: packet_count_def div_if le_div_geq)

text \<open>The packets carry exactly the data, at most 1300 bytes each, under consecutive numbers.\<close>

lemma packets_of_payload:
  "concat (map (\<lambda>p. the (p_data p)) (packets_of f q data)) = data \<and> length (packets_of f q data) = packet_count (length data) \<and>
   (\<forall>i<length (packets_of f q data). h_flowSeqNo (p_header (packets_of f q data ! i)) = q + of_nat i \<and>
      unat (p_len (packets_of f q data ! i)) = length (the (p_data (packets_of f q data ! i))) \<and>
      length (the (p_data (packets_of f q data ! i))) \<le> 1300)"
proof (induction f q data rule: packets_of.induct)
  case (1 f q data)
  show ?case
  proof (cases "data = []")
    case True
    then show ?thesis by (simp add: packets_of.simps packet_count_def)
  next
    case False
    let ?p = "(data_packet (take 1300 data) q)\<lparr> p_header := reinit_header\<lparr> h_flowSeqNo := q, h_flowId := f \<rparr> \<rparr>"
    have eq: "packets_of f q data = ?p # packets_of f (q + 1) (drop 1300 data)"
      using False by (simp add: packets_of.simps [of f q data])
    note IH = 1 [OF False]
    have len: "unat (p_len ?p) = length (take 1300 data)"
      by (simp add: data_packet_def) (intro unat_of_nat_small, simp)
    have "packet_count (length data) = Suc (packet_count (length (drop 1300 data)))"
      using False by (simp add: packet_count_step)
    moreover have "h_flowSeqNo (p_header (packets_of f q data ! i)) = q + of_nat i \<and>
      unat (p_len (packets_of f q data ! i)) = length (the (p_data (packets_of f q data ! i))) \<and>
      length (the (p_data (packets_of f q data ! i))) \<le> 1300" if "i < length (packets_of f q data)" for i
      using that IH len unfolding eq by (cases i) (auto simp: data_packet_def add.assoc)
    ultimately show ?thesis
      using IH unfolding eq by (simp add: data_packet_def)
  qed
qed

lemma outstanding_next:
  assumes "window_ok s" "0 < remoteFreeWindow s"
  shows "unat (nextSeqNumber s + 1 - ackedUpto s) = Suc (outstanding s)"
proof -
  have "outstanding s < 65535"
    using assms unsigned_less [of "recvWindow s", where 'a = nat] by (simp add: window_ok_def)
  then have "unat (nextSeqNumber s - ackedUpto s + 1) = Suc (outstanding s)"
    unfolding outstanding_def by (rule unat_plus_1)
  then show ?thesis by (simp add: algebra_simps)
qed

lemma send_chunk_ok:
  assumes "window_ok s" "wf_BitField (ackedBitField s)" "\<not> closeInitiated s" "\<not> nf_closed s" "\<forall>p. par p = 0"
  shows "if remoteFreeWindow s = 0 then send_chunk par c s = Inl Blocked
    else \<exists>s'. send_chunk par c s = Inr (0, s') \<and> window_ok s' \<and> wf_BitField (ackedBitField s') \<and>
      remoteFreeWindow s' = remoteFreeWindow s - 1 \<and> nextSeqNumber s' = nextSeqNumber s + 1 \<and>
      closeInitiated s' = closeInitiated s \<and> nf_closed s' = nf_closed s \<and> nf_flowId s' = nf_flowId s \<and>
      nf_out s' = nf_out s @ [(data_packet c (nextSeqNumber s + 1))\<lparr> p_header := reinit_header
        \<lparr> h_flowSeqNo := nextSeqNumber s + 1, h_flowId := nf_flowId s \<rparr> \<rparr>]"
proof (cases "remoteFreeWindow s = 0")
  case True
  then show ?thesis using assms(3,4) by (simp add: send_chunk_def getNextSeqNo_def nf_sendPacketTo_def)
next
  case False
  obtain b where b: "bf_reset (ackedBitField s) (nextSeqNumber s + 1) = Inr b" "wf_BitField b"
    using bf.reset_members [OF assms(2)] .
  have o: "unat (nextSeqNumber s + 1 - ackedUpto s) = Suc (outstanding s)"
    using outstanding_next [OF assms(1)] False by simp
  show ?thesis
    using False assms b o
    by (simp add: send_chunk_def getNextSeqNo_def nf_sendPacketTo_def Let_def data_packet_def window_ok_def outstanding_def)
qed

lemma sendData_loop_ok:
  assumes "window_ok s" "wf_BitField (ackedBitField s)" "\<not> closeInitiated s" "\<not> nf_closed s" "\<forall>p. par p = 0"
  shows "if remoteFreeWindow s < packet_count (length data) then sendData_loop par data count s = Inl Blocked
    else \<exists>s'. sendData_loop par data count s = Inr (count + int (length data) + 748 * int (length data div 1300), s') \<and>
      window_ok s' \<and> remoteFreeWindow s' = remoteFreeWindow s - packet_count (length data) \<and>
      nf_out s' = nf_out s @ packets_of (nf_flowId s) (nextSeqNumber s + 1) data"
  using assms
proof (induction par data count s rule: sendData_loop.induct)
  case (1 par data count s)
  note C = send_chunk_ok [OF 1(2-6)]
  consider (big) "1300 \<le> length data" | (small) "length data < 1300" "data \<noteq> []" | (none) "data = []" by linarith
  then show ?case
  proof cases
    case none
    then show ?thesis using 1(2) by (simp add: sendData_loop.simps MAX_PACKET_SENT_DATA_SIZE_def packet_count_def packets_of.simps)
  next
    case small
    then have "packet_count (length data) = Suc (packet_count 0)" by (simp add: packet_count_step)
    then have pc: "packet_count (length data) = 1" by (simp add: packet_count_def)
    have pk: "packets_of f q data = [(data_packet data q)\<lparr> p_header := reinit_header\<lparr> h_flowSeqNo := q, h_flowId := f \<rparr> \<rparr>]" for f q
      using small by (simp add: packets_of.simps)
    have run: "sendData_loop par data count s = bind_res (send_chunk par data s) (\<lambda>(ret, s1).
        if ret \<noteq> 0 then Inr (count, s1) else Inr (count + int (length data), s1))"
      using small by (simp add: sendData_loop.simps MAX_PACKET_SENT_DATA_SIZE_def)
    show ?thesis using C [of data] small(1) by (auto simp: run pc pk)
  next
    case big
    let ?c = "take 1300 data" and ?d = "drop 1300 data"
    have pc: "packet_count (length data) = Suc (packet_count (length ?d))"
      using big packet_count_step [of "length data"] by fastforce
    have run: "sendData_loop par data count s = bind_res (send_chunk par ?c s) (\<lambda>(ret, s1).
        if ret \<noteq> 0 then Inr (count, s1) else sendData_loop par ?d (count + 2048) s1)"
      using big by (subst sendData_loop.simps, unfold MAX_PACKET_SENT_DATA_SIZE_def MAX_PACKET_DATA_SIZE_def of_nat_numeral) simp
    have pk: "packets_of f q data = (data_packet ?c q)\<lparr> p_header := reinit_header\<lparr> h_flowSeqNo := q, h_flowId := f \<rparr> \<rparr>
        # packets_of f (q + 1) ?d" for f q
      using big by (subst packets_of.simps) auto
    show ?thesis
    proof (cases "remoteFreeWindow s = 0")
      case True
      then show ?thesis using C [of ?c] by (simp add: run pc)
    next
      case False
      then obtain s1 where s1: "send_chunk par ?c s = Inr (0, s1)" "window_ok s1" "wf_BitField (ackedBitField s1)"
        "remoteFreeWindow s1 = remoteFreeWindow s - 1" "nextSeqNumber s1 = nextSeqNumber s + 1"
        "closeInitiated s1 = closeInitiated s" "nf_closed s1 = nf_closed s" "nf_flowId s1 = nf_flowId s"
        "nf_out s1 = nf_out s @ [(data_packet ?c (nextSeqNumber s + 1))\<lparr> p_header := reinit_header
          \<lparr> h_flowSeqNo := nextSeqNumber s + 1, h_flowId := nf_flowId s \<rparr> \<rparr>]"
        using C [of ?c] by auto
      have IH: "if remoteFreeWindow s1 < packet_count (length ?d) then sendData_loop par ?d (count + 2048) s1 = Inl Blocked
        else \<exists>s'. sendData_loop par ?d (count + 2048) s1 =
            Inr (count + 2048 + int (length ?d) + 748 * int (length ?d div 1300), s') \<and>
          window_ok s' \<and> remoteFreeWindow s' = remoteFreeWindow s1 - packet_count (length ?d) \<and>
          nf_out s' = nf_out s1 @ packets_of (nf_flowId s1) (nextSeqNumber s1 + 1) ?d"
        by (rule 1(1) [of 0 s1, unfolded MAX_PACKET_SENT_DATA_SIZE_def MAX_PACKET_DATA_SIZE_def of_nat_numeral])
          (use 1(4-6) s1(2,3,6,7) big in simp_all)
      have "length data div 1300 = Suc (length ?d div 1300)" using big by (simp add: le_div_geq)
      then have cnt: "count + 2048 + int (length ?d) + 748 * int (length ?d div 1300) =
          count + int (length data) + 748 * int (length data div 1300)"
        using big by simp
      have rest: "sendData_loop par data count s = sendData_loop par ?d (count + 2048) s1"
        by (simp add: run s1(1))
      show ?thesis
      proof (cases "remoteFreeWindow s1 < packet_count (length ?d)")
        case True
        then have "remoteFreeWindow s < packet_count (length data)" using s1(4) pc by linarith
        then show ?thesis using True IH rest by simp
      next
        case fits: False
        then obtain s' where s': "sendData_loop par ?d (count + 2048) s1 =
            Inr (count + int (length data) + 748 * int (length data div 1300), s')" "window_ok s'"
          "remoteFreeWindow s' = remoteFreeWindow s1 - packet_count (length ?d)"
          "nf_out s' = nf_out s1 @ packets_of (nf_flowId s1) (nextSeqNumber s1 + 1) ?d"
          using IH unfolding cnt by auto
        have "\<not> remoteFreeWindow s < packet_count (length data)" using fits s1(4) pc False by linarith
        moreover have "remoteFreeWindow s' = remoteFreeWindow s - packet_count (length data)"
          using s'(3) s1(4) pc by linarith
        ultimately show ?thesis
          using s'(1,2,4) rest s1(5,8,9) pk by (intro if_not_P [THEN iffD2] exI [of _ s']) simp_all
      qed
    qed
  qed
qed

text \<open>
  C22: \<open>sendData\<close> of an open flow cuts the data into packets of at most 1300
  bytes with consecutive sequence numbers whose payloads are the data, hands
  them on in order, and keeps the window: free slots and outstanding packets
  add up to the receive window.  The caller blocks exactly when the data needs
  more packets than the window has free slots.  The count returned is too large
  by 748 bytes for every full packet.
\<close>

theorem sendData_correct:
  assumes "window_ok s" "wf_BitField (ackedBitField s)" "\<not> closeInitiated s" "\<not> nf_closed s" "\<forall>p. par p = 0"
  shows "if remoteFreeWindow s < packet_count (length data) then sendData par data s = Inl Blocked
    else \<exists>s' ps. sendData par data s = Inr (int (length data) + 748 * int (length data div 1300), s') \<and>
      window_ok s' \<and> remoteFreeWindow s' = remoteFreeWindow s - packet_count (length data) \<and>
      nf_out s' = nf_out s @ ps \<and> length ps = packet_count (length data) \<and>
      concat (map (\<lambda>p. the (p_data p)) ps) = data \<and>
      (\<forall>i<length ps. h_flowSeqNo (p_header (ps ! i)) = nextSeqNumber s + 1 + of_nat i \<and>
        unat (p_len (ps ! i)) = length (the (p_data (ps ! i))) \<and> length (the (p_data (ps ! i))) \<le> 1300)"
  using sendData_loop_ok [OF assms, of data 0] packets_of_payload [of "nf_flowId s" "nextSeqNumber s + 1" data]
  unfolding sendData_def by auto

lemma sendData_correct_witness:
  "\<exists>s'. sendData (\<lambda>p. 0) (replicate 1500 7) (init_new_flow 1 500) = Inr (2248, s') \<and> remoteFreeWindow s' = 498"
proof -
  have "window_ok (init_new_flow 1 500)" "wf_BitField (ackedBitField (init_new_flow 1 500))"
    "\<not> closeInitiated (init_new_flow 1 500)" "\<not> nf_closed (init_new_flow 1 500)" "remoteFreeWindow (init_new_flow 1 500) = 500"
    by (simp_all add: window_ok_def outstanding_def init_new_flow_def new_BitField_wf)
  moreover have "packet_count 1500 = 2" "1500 div 1300 = (1 :: nat)" by (simp_all add: packet_count_def)
  ultimately show ?thesis
    using sendData_correct [of "init_new_flow 1 500" "\<lambda>p. 0" "replicate 1500 7"] by auto
qed

text \<open>
  An acknowledgement of a packet that was sent frees exactly the slots up to
  it and keeps the window; one that lies outside the window is ignored.  So the
  free slots never exceed the receive window, whatever acknowledgements arrive
  late or twice.
\<close>

theorem recvAck_window:
  assumes "window_ok s" "unat (q - ackedUpto s) \<le> outstanding s \<or> recvWindow s < q - ackedUpto s"
  shows "\<exists>s'. nf_recvAck q s = (0, s') \<and> window_ok s' \<and> remoteFreeWindow s' \<le> unat (recvWindow s') \<and>
    (if recvWindow s < q - ackedUpto s then s' = s
     else ackedUpto s' = q \<and> remoteFreeWindow s' = remoteFreeWindow s + unat (q - ackedUpto s))"
proof (cases "recvWindow s < q - ackedUpto s")
  case True
  then show ?thesis using assms(1) by (simp add: nf_recvAck_def window_ok_def)
next
  case False
  then have le: "unat (q - ackedUpto s) \<le> unat (nextSeqNumber s - ackedUpto s)"
    using assms(2) by (auto simp: outstanding_def)
  have "unat ((nextSeqNumber s - ackedUpto s) - (q - ackedUpto s)) = unat (nextSeqNumber s - ackedUpto s) - unat (q - ackedUpto s)"
    by (rule unat_sub) (use le in \<open>simp add: word_le_nat_alt\<close>)
  then have "unat (nextSeqNumber s - q) = unat (nextSeqNumber s - ackedUpto s) - unat (q - ackedUpto s)"
    by simp
  then show ?thesis
    using False assms(1) le by (simp add: nf_recvAck_def window_ok_def outstanding_def Let_def)
qed

lemma recvAck_window_witness:
  "\<exists>s'. nf_recvAck 1 ((init_new_flow 1 500)\<lparr> nextSeqNumber := 2, remoteFreeWindow := 497 \<rparr>) = (0, s') \<and>
     remoteFreeWindow s' = 499"
proof -
  let ?s = "(init_new_flow 1 500)\<lparr> nextSeqNumber := 2, remoteFreeWindow := 497 \<rparr>"
  have "window_ok ?s" "unat (1 - ackedUpto ?s) \<le> outstanding ?s" "\<not> recvWindow ?s < 1 - ackedUpto ?s"
    "unat (1 - ackedUpto ?s) = 2"
    by (simp_all add: window_ok_def outstanding_def init_new_flow_def)
  then show ?thesis using recvAck_window [of ?s 1] by auto
qed

end
