(* ===== verification/Stream.thy ===== *)
theory Stream
  imports Packet BitField
begin

text \<open>
  \<open>StreamHandler\<close> (src/src/TunnelLib/FlowHandler/StreamHandler.cc), the flow that
  hands the received bytes to a callback instead of a reader.  The parent (the
  multiplexer) is the function \<open>par\<close> that gives the result of its
  \<open>sendPacketTo\<close>.  What the handler does to the outside is its output \<open>st_out\<close>, a
  list of events in order; the jobs it gives to its worker thread are counted in
  \<open>st_jobs\<close> and run by \<open>sendClosePacketInsideThread\<close>.
\<close>

datatype stream_event =
    St_Send Packet
  | St_Data "appByte list"
  | St_Closing
  | St_ParentClose appInt16

text \<open>
  \<open>newDataCB\<close> says that the callback and its argument are set;
  \<open>senderSlots\<close> and \<open>closeReport\<close> count the wake-ups given to the threads that
  wait on \<open>waitForSenderSlot\<close> and \<open>waitForCloseReport\<close>.
\<close>

record stream =
  st_flowId :: appInt16
  recvQueue :: "(appInt16 \<Rightarrow> Packet option) option"
  readPacketUpto :: appInt16
  recvAckedPacketOffset :: appInt16
  st_acked :: BitField
  st_nextSeqNumber :: appInt16
  connectionClosed :: bool
  closingInitiated :: bool
  packetsPendingToRead :: int
  newDataCB :: bool
  closingFlowCB :: bool
  senderSlots :: nat
  closeReport :: nat
  closingLocked :: bool
  st_jobs :: appInt16
  st_out :: "stream_event list"

definition RECV_BUFFER :: nat where "RECV_BUFFER = 5000"

definition new_stream :: "appInt16 \<Rightarrow> stream" where
  "new_stream flowId = \<lparr> st_flowId = flowId, recvQueue = None, readPacketUpto = 65535,
     recvAckedPacketOffset = 0, st_acked = new_BitField 65536, st_nextSeqNumber = - 1,
     connectionClosed = False, closingInitiated = False, packetsPendingToRead = 0,
     newDataCB = False, closingFlowCB = False, senderSlots = 0, closeReport = 0, closingLocked = False, st_jobs = 0, st_out = [] \<rparr>"

datatype event_type = EVENT_INVALID | EVENT_NEW_DATA | EVENT_CLOSING

definition st_setCallBack :: "event_type \<Rightarrow> bool \<Rightarrow> stream \<Rightarrow> stream" where
  "st_setCallBack evt func s =
     (case evt of
        EVENT_CLOSING \<Rightarrow> s\<lparr> closingFlowCB := func \<rparr>
      | EVENT_NEW_DATA \<Rightarrow> s\<lparr> newDataCB := func \<rparr>
      | EVENT_INVALID \<Rightarrow> s)"

definition log_stream :: "stream_event \<Rightarrow> stream \<Rightarrow> stream" where
  "log_stream e s = s\<lparr> st_out := st_out s @ [e] \<rparr>"

section \<open>Sending\<close>

text \<open>
  \<open>sendPacketTo\<close> waits once for a slot when the packet is \<open>RECV_BUFFER\<close> or more
  ahead of the acknowledged packets; \<open>st_send_now\<close> is what follows the wait,
  without a second test.
\<close>

definition st_send_now :: "(Packet \<Rightarrow> int) \<Rightarrow> Packet \<Rightarrow> stream \<Rightarrow> (int \<times> stream) res" where
  "st_send_now par pkt s =
     bind_res (bf_reset (st_acked s) (h_flowSeqNo (p_header pkt))) (\<lambda>b.
       let pkt1 = pkt\<lparr> p_header := (p_header pkt)\<lparr> h_flowId := st_flowId s \<rparr> \<rparr> in
       app_assert (par pkt1 = 0) (Inr (0, log_stream (St_Send pkt1) (s\<lparr> st_acked := b \<rparr>))))"

definition st_sendPacketTo :: "(Packet \<Rightarrow> int) \<Rightarrow> Packet \<Rightarrow> stream \<Rightarrow> (int \<times> stream) res" where
  "st_sendPacketTo par pkt s =
     (let virSeqNumber = h_flowSeqNo (p_header pkt) - recvAckedPacketOffset s in
      if unat virSeqNumber \<ge> RECV_BUFFER then Inl Blocked else st_send_now par pkt s)"

definition st_getNextSeqNo :: "stream \<Rightarrow> appInt16 \<times> stream" where
  "st_getNextSeqNo s = (st_nextSeqNumber s + 1, s\<lparr> st_nextSeqNumber := st_nextSeqNumber s + 1 \<rparr>)"

definition st_sendClosePacket :: "(Packet \<Rightarrow> int) \<Rightarrow> stream \<Rightarrow> stream res" where
  "st_sendClosePacket par s =
     (let (seq, s1) = st_getNextSeqNo s;
          npkt = new_Packet\<lparr> p_header := reinit_header\<lparr> h_flowSeqNo := seq, h_flag := FLAG_FFN \<rparr> \<rparr> in
      bind_res (st_sendPacketTo par npkt s1) (\<lambda>(_, s2). Inr s2))"

definition initiateClosure :: "(Packet \<Rightarrow> int) \<Rightarrow> stream \<Rightarrow> stream res" where
  "initiateClosure par s = (if connectionClosed s then Inr s else st_sendClosePacket par s)"

text \<open>\<open>sendData\<close>: the results of \<open>sendPacketTo\<close> are ignored and 0 is returned.\<close>

definition st_chunk :: "appByte list \<Rightarrow> appInt16 \<Rightarrow> Packet" where
  "st_chunk chunk seq = new_Packet\<lparr> p_data := Some chunk, p_capa := of_nat MAX_PACKET_DATA_SIZE,
     p_len := of_nat (length chunk), p_header := reinit_header\<lparr> h_flowSeqNo := seq \<rparr> \<rparr>"

function st_sendData :: "(Packet \<Rightarrow> int) \<Rightarrow> appByte list \<Rightarrow> stream \<Rightarrow> (int \<times> stream) res" where
  "st_sendData par data s =
     (if length data \<ge> MAX_PACKET_SENT_DATA_SIZE then
        (let (seq, s1) = st_getNextSeqNo s in
         bind_res (st_sendPacketTo par (st_chunk (take MAX_PACKET_SENT_DATA_SIZE data) seq) s1) (\<lambda>(_, s2).
         st_sendData par (drop MAX_PACKET_SENT_DATA_SIZE data) s2))
      else if data \<noteq> [] then
        (let (seq, s1) = st_getNextSeqNo s in
         bind_res (st_sendPacketTo par (st_chunk data seq) s1) (\<lambda>(_, s2). Inr (0, s2)))
      else Inr (0, s))"
  by pat_completeness auto
termination by (relation "measure (\<lambda>(par, data, s). length data)") (auto simp: MAX_PACKET_SENT_DATA_SIZE_def)

declare st_sendData.simps [simp del]

section \<open>Acknowledgements\<close>

text \<open>
  \<open>recvAck\<close> of a packet number: set its bit, then move the offset over the run of
  acknowledged numbers, clearing their bits; a waiting sender is woken when the
  offset moved.  The loop's counter \<open>cnt\<close> wraps around like the offset.
\<close>

definition st_recvAck :: "appInt16 \<Rightarrow> stream \<Rightarrow> (int \<times> stream) res" where
  "st_recvAck flowSeqNo s =
     (let virPktAckNo = flowSeqNo - recvAckedPacketOffset s in
      if unat virPktAckNo \<ge> 32768 then Inr (- 1, s)
      else
        bind_res (bf_set (st_acked s) flowSeqNo) (\<lambda>b.
        bind_res (drain bf_get bf_reset 65537 b (recvAckedPacketOffset s)) (\<lambda>(b', off).
        let cnt = off - recvAckedPacketOffset s; s' = s\<lparr> st_acked := b', recvAckedPacketOffset := off \<rparr> in
        Inr (0, if cnt \<noteq> 0 then s'\<lparr> senderSlots := senderSlots s' + 1 \<rparr> else s'))))"

definition st_recvAckHeader :: "opt_header \<Rightarrow> stream \<Rightarrow> stream" where
  "st_recvAckHeader h s =
     (let virPktAckNo = ack_ackNo h - recvAckedPacketOffset s in
      if unat virPktAckNo \<ge> 32768 then s
      else s\<lparr> recvAckedPacketOffset := ack_ackNo h + 1, senderSlots := senderSlots s + 1 \<rparr>)"

section \<open>Closing\<close>

definition finishClosing :: "stream \<Rightarrow> stream" where
  "finishClosing s =
     (if connectionClosed s then s
      else
        let s1 = s\<lparr> connectionClosed := True \<rparr>;
            s2 = (if closingInitiated s then s1 else s1\<lparr> st_jobs := st_jobs s1 + 1 \<rparr>);
            s3 = (if closingFlowCB s2 then log_stream St_Closing s2 else s2) in
        if closingInitiated s then s3\<lparr> closeReport := closeReport s3 + 1 \<rparr> else s3)"

text \<open>The job of the worker thread.\<close>

definition sendClosePacketInsideThread :: "(Packet \<Rightarrow> int) \<Rightarrow> stream \<Rightarrow> stream res" where
  "sendClosePacketInsideThread par s =
     bind_res (st_sendClosePacket par (s\<lparr> st_jobs := st_jobs s - 1 \<rparr>)) (\<lambda>s1.
     Inr (log_stream (St_ParentClose (st_flowId s1)) s1))"

text \<open>
  \<open>closeFlow\<close> up to its wait for the close report, the wait, and what follows the
  call of the parent's \<open>closeFlow\<close>.  \<open>closingMutex\<close> is held from the first part to
  the last; the parent is called in between.
\<close>

definition st_closeFlow_begin :: "(Packet \<Rightarrow> int) \<Rightarrow> stream \<Rightarrow> (bool \<times> stream) res" where
  "st_closeFlow_begin par s =
     (if closingLocked s then Inl Blocked
      else if connectionClosed s then Inr (False, s)
      else bind_res (st_sendClosePacket par s) (\<lambda>s1.
           Inr (True, s1\<lparr> closingInitiated := True, closingLocked := True \<rparr>)))"

definition st_closeFlow_wait :: "stream \<Rightarrow> stream res" where
  "st_closeFlow_wait s =
     (if closeReport s = 0 then Inl Blocked
      else Inr (log_stream (St_ParentClose (st_flowId s)) (s\<lparr> closeReport := closeReport s - 1 \<rparr>)))"

definition st_closeFlow_end :: "stream \<Rightarrow> stream" where
  "st_closeFlow_end s = s\<lparr> closingLocked := False \<rparr>"

section \<open>Receiving\<close>

text \<open>
  The delivery loop of \<open>recvPacketFrom\<close>; every round empties a slot, so 65537
  rounds are always enough.  The callback gets \<open>len\<close> bytes of the packet's data.
\<close>

definition callback_data :: "Packet \<Rightarrow> appByte list res" where
  "callback_data pkt =
     (case p_data pkt of
        None \<Rightarrow> (if p_len pkt = 0 then Inr [] else Inl Null_Deref)
      | Some d \<Rightarrow> check Out_Of_Bounds (unat (p_len pkt) \<le> length d) (Inr (take (unat (p_len pkt)) d)))"

fun deliver_loop :: "nat \<Rightarrow> (appInt16 \<Rightarrow> Packet option) \<Rightarrow> stream \<Rightarrow> stream res" where
  "deliver_loop 0 q s = Inl Diverges"
| "deliver_loop (Suc n) q s =
     (case q (readPacketUpto s + 1) of
        None \<Rightarrow> Inr (s\<lparr> recvQueue := Some q \<rparr>)
      | Some pkt \<Rightarrow>
          if \<not> newDataCB s then Inr (s\<lparr> recvQueue := Some q \<rparr>)
          else
            let nextPkt = readPacketUpto s + 1; s1 = s\<lparr> readPacketUpto := nextPkt \<rparr>; q1 = q(nextPkt := None) in
            if has_flag (h_flag (p_header pkt)) FLAG_FFN then Inr (finishClosing (s1\<lparr> recvQueue := Some q1 \<rparr>))
            else bind_res (callback_data pkt) (\<lambda>d. deliver_loop n q1 (log_stream (St_Data d) s1)))"

definition st_recvPacketFrom :: "Packet \<Rightarrow> stream \<Rightarrow> (int \<times> stream) res" where
  "st_recvPacketFrom pkt s0 =
     (let s = (if recvQueue s0 = None then s0\<lparr> recvQueue := Some (\<lambda>_. None) \<rparr> else s0) in
      if connectionClosed s then Inr (- 1, s)
      else if has_flag (h_flag (p_header pkt)) FLAG_DAT then
        let seq = h_flowSeqNo (p_header pkt); virSeqNo = seq - readPacketUpto s in
        if unat virSeqNo > 32768 then Inr (- 117, s)
        else (case recvQueue s of
          None \<Rightarrow> Inl Null_Deref
        | Some q \<Rightarrow>
            if q seq \<noteq> None then Inr (- 121, s)
            else bind_res (deliver_loop 65537 (q(seq \<mapsto> pkt)) (s\<lparr> packetsPendingToRead := packetsPendingToRead s + 1 \<rparr>))
                   (\<lambda>s1. Inr (0, s1)))
      else Inr (- 2, s))"

end
