(* ===== verification/StreamProps.thy ===== *)
theory StreamProps
  imports Stream NewFlowProps
begin

text \<open>
  What the callback of a \<open>StreamHandler\<close> is given: the sender's bytes in order
  and each once, as long as no copy of the packet delivered last arrives again
  (\<open>stream_delivers\<close>); and what happens when one does (\<open>stream_replays_duplicate\<close>).
\<close>

section \<open>The delivered bytes\<close>

fun data_of :: "stream_event list \<Rightarrow> appByte list" where
  "data_of [] = []"
| "data_of (St_Data d # es) = d @ data_of es"
| "data_of (_ # es) = data_of es"

lemma data_of_append [simp]: "data_of (xs @ ys) = data_of xs @ data_of ys"
  by (induction xs rule: data_of.induct) auto

definition delivered :: "stream \<Rightarrow> appByte list" where
  "delivered s = data_of (st_out s)"

lemma log_stream_simps [simp]:
  "st_out (log_stream e s) = st_out s @ [e]" "recvQueue (log_stream e s) = recvQueue s"
  "readPacketUpto (log_stream e s) = readPacketUpto s" "newDataCB (log_stream e s) = newDataCB s"
  "connectionClosed (log_stream e s) = connectionClosed s" "st_acked (log_stream e s) = st_acked s"
  by (simp_all add: log_stream_def)

lemma finishClosing_simps [simp]:
  "recvQueue (finishClosing s) = recvQueue s" "readPacketUpto (finishClosing s) = readPacketUpto s"
  "newDataCB (finishClosing s) = newDataCB s" "connectionClosed (finishClosing s)"
  "data_of (st_out (finishClosing s)) = data_of (st_out s)" "st_acked (finishClosing s) = st_acked s"
  by (simp_all add: finishClosing_def Let_def)

text \<open>What an operation leaves alone when it only concerns the sending side.\<close>

definition recv_same :: "stream \<Rightarrow> stream \<Rightarrow> bool" where
  "recv_same s s' \<longleftrightarrow> recvQueue s' = recvQueue s \<and> readPacketUpto s' = readPacketUpto s \<and> delivered s' = delivered s"

lemma recv_same_trans: "recv_same a b \<Longrightarrow> recv_same b c \<Longrightarrow> recv_same a c"
  by (simp add: recv_same_def)

lemma st_send_now_same: "st_send_now par pkt s = Inr (ret, s') \<Longrightarrow> recv_same s s'"
  by (auto simp: st_send_now_def bind_res_Inr_iff Let_def app_assert_Inr_iff recv_same_def delivered_def)

lemma st_sendPacketTo_same: "st_sendPacketTo par pkt s = Inr (ret, s') \<Longrightarrow> recv_same s s'"
  by (auto simp: st_sendPacketTo_def Let_def st_send_now_same split: if_splits)

lemma st_sendClosePacket_same: "st_sendClosePacket par s = Inr s' \<Longrightarrow> recv_same s s'"
  by (auto simp: st_sendClosePacket_def st_getNextSeqNo_def Let_def bind_res_Inr_iff recv_same_def delivered_def
      dest!: st_sendPacketTo_same)

lemma st_sendData_same: "st_sendData par d s = Inr (ret, s') \<Longrightarrow> recv_same s s'"
proof (induction par d s rule: st_sendData.induct)
  case (1 par data s)
  have step: "recv_same s s2" if "st_sendPacketTo par p (s\<lparr> st_nextSeqNumber := n \<rparr>) = Inr (r, s2)" for p n r s2
    using st_sendPacketTo_same [OF that] by (simp add: recv_same_def delivered_def)
  let ?n = "st_nextSeqNumber s + 1" and ?s1 = "s\<lparr> st_nextSeqNumber := st_nextSeqNumber s + 1 \<rparr>"
  consider (full) "length data \<ge> MAX_PACKET_SENT_DATA_SIZE" | (part) "length data < MAX_PACKET_SENT_DATA_SIZE" "data \<noteq> []"
    | (none) "length data < MAX_PACKET_SENT_DATA_SIZE" "data = []"
    using not_le by blast
  then show ?case
  proof cases
    case full
    let ?p = "st_chunk (take MAX_PACKET_SENT_DATA_SIZE data) ?n"
    have "st_sendData par data s = bind_res (st_sendPacketTo par ?p ?s1)
        (\<lambda>(_, s2). st_sendData par (drop MAX_PACKET_SENT_DATA_SIZE data) s2)"
      using full by (subst st_sendData.simps) (simp add: st_getNextSeqNo_def)
    then have "bind_res (st_sendPacketTo par ?p ?s1)
        (\<lambda>(_, s2). st_sendData par (drop MAX_PACKET_SENT_DATA_SIZE data) s2) = Inr (ret, s')" using 1(2) by (rule subst)
    then obtain r s2 where s2: "st_sendPacketTo par ?p ?s1 = Inr (r, s2)"
        "st_sendData par (drop MAX_PACKET_SENT_DATA_SIZE data) s2 = Inr (ret, s')"
      unfolding bind_res_Inr_iff by (auto simp del: st_sendData.simps)
    have "recv_same s2 s'"
      by (rule 1(1) [OF full refl _ s2(2), of ?n ?s1]) (simp add: st_getNextSeqNo_def)
    with step [OF s2(1)] show ?thesis by (rule recv_same_trans)
  next
    case part
    then have "st_sendData par data s = bind_res (st_sendPacketTo par (st_chunk data ?n) ?s1) (\<lambda>(_, s2). Inr (0, s2))"
      by (subst st_sendData.simps) (simp add: st_getNextSeqNo_def)
    then have "bind_res (st_sendPacketTo par (st_chunk data ?n) ?s1) (\<lambda>(_, s2). Inr (0, s2)) = Inr (ret, s')"
      using 1(2) by (rule subst)
    then show ?thesis using step by (auto simp: bind_res_Inr_iff)
  next
    case none
    then have "st_sendData par data s = Inr (0, s)" by (subst st_sendData.simps) simp
    then show ?thesis using 1(2) by (simp add: recv_same_def)
  qed
qed

lemma st_recvAck_same: "st_recvAck n s = Inr (ret, s') \<Longrightarrow> recv_same s s'"
  by (auto simp: st_recvAck_def bind_res_Inr_iff Let_def recv_same_def delivered_def split: if_splits)

lemma st_closeFlow_begin_same: "st_closeFlow_begin par s = Inr (w, s') \<Longrightarrow> recv_same s s'"
  by (auto simp: st_closeFlow_begin_def bind_res_Inr_iff recv_same_def delivered_def
      dest!: st_sendClosePacket_same split: if_splits)

lemma sendClosePacketInsideThread_same: "sendClosePacketInsideThread par s = Inr s' \<Longrightarrow> recv_same s s'"
  by (auto simp: sendClosePacketInsideThread_def bind_res_Inr_iff recv_same_def delivered_def
      dest!: st_sendClosePacket_same)

section \<open>Delivery\<close>

definition stream_rel :: "(nat \<Rightarrow> appByte list) \<Rightarrow> (nat \<Rightarrow> bool) \<Rightarrow> nat \<Rightarrow> nat set \<Rightarrow> stream \<Rightarrow> bool" where
  "stream_rel D fin r R s \<longleftrightarrow> readPacketUpto s = of_nat r - 1 \<and> R \<subseteq> {r..r + 32767} \<and>
     (case recvQueue s of None \<Rightarrow> R = {} | Some q \<Rightarrow> queue_rel D fin r R q)"

lemma callback_data_copy: "copy_of D fin n pkt \<Longrightarrow> callback_data pkt = Inr (D n)"
proof -
  assume c: "copy_of D fin n pkt"
  show ?thesis
  proof (cases "D n = []")
    case True
    then have "unat (p_len pkt) = 0" using c by (simp add: copy_of_def)
    then have "p_len pkt = 0" by (simp add: unat_eq_0)
    then show ?thesis using True by (auto simp: callback_data_def split: option.split)
  next
    case False
    then obtain d where d: "p_data pkt = Some d" "take (length (D n)) d = D n" "unat (p_len pkt) = length (D n)"
      using c by (auto simp: copy_of_def)
    then have "length (D n) \<le> length d" by (metis length_take min.cobounded1)
    then show ?thesis using d by (simp add: callback_data_def)
  qed
qed

lemma deliver_loop_ok:
  assumes "queue_rel D fin r R q" "R \<subseteq> {r..r + 32767}" "card R < n" "readPacketUpto s = of_nat r - 1"
  shows "\<exists>s' r' R'. deliver_loop n q s = Inr s' \<and> stream_rel D fin r' R' s' \<and> r \<le> r' \<and> {r..<r'} \<subseteq> R \<and>
    delivered s' = delivered s @ concat (map D [r..<r']) \<and> newDataCB s' = newDataCB s \<and>
    (newDataCB s \<longrightarrow> connectionClosed s' \<or> the (recvQueue s') (readPacketUpto s' + 1) = None)"
  using assms
proof (induction n arbitrary: r R q s)
  case (Suc n)
  have nx: "readPacketUpto s + 1 = of_nat r" using Suc.prems(4) by simp
  have rel0: "stream_rel D fin r R (s\<lparr> recvQueue := Some q \<rparr>)"
    using Suc.prems by (simp add: stream_rel_def)
  have d0: "delivered (s\<lparr> recvQueue := Some q \<rparr>) = delivered s @ concat (map D [r..<r])"
    by (simp add: delivered_def)
  show ?case
  proof (cases "q (of_nat r) = None \<or> \<not> newDataCB s")
    case True
    then have "deliver_loop (Suc n) q s = Inr (s\<lparr> recvQueue := Some q \<rparr>)"
      by (auto simp: nx split: option.split)
    then show ?thesis using rel0 d0 True nx by (intro exI [of _ "s\<lparr> recvQueue := Some q \<rparr>"] exI [of _ r] exI [of _ R]) auto
  next
    case False
    then obtain pkt where pkt: "q (of_nat r) = Some pkt" and cb: "newDataCB s" by auto
    have in_R: "r \<in> R" and copy: "copy_of D fin r pkt"
      using queue_relD [OF Suc.prems(1), of r] pkt by auto
    have R: "R \<subseteq> {r..r + 32768}" using Suc.prems(2) by auto
    let ?q = "q(of_nat r := None)" and ?R = "R - {r}"
    have rel1: "queue_rel D fin (Suc r) ?R ?q" by (rule queue_rel_remove [OF Suc.prems(1) R])
    have R1: "?R \<subseteq> {Suc r..Suc r + 32767}"
    proof
      fix x assume "x \<in> ?R"
      then have "x \<in> {r..r + 32767}" "x \<noteq> r" using Suc.prems(2) by auto
      then show "x \<in> {Suc r..Suc r + 32767}" by auto
    qed
    have r1: "of_nat r = (of_nat (Suc r) - 1 :: appInt16)" by simp
    have fin_R: "finite R" using finite_subset [OF Suc.prems(2)] by simp
    show ?thesis
    proof (cases "has_flag (h_flag (p_header pkt)) FLAG_FFN")
      case ffn: True
      let ?s = "finishClosing (s\<lparr> readPacketUpto := of_nat r, recvQueue := Some ?q \<rparr>)"
      have "deliver_loop (Suc n) q s = Inr ?s" using pkt cb ffn by (simp add: nx Let_def)
      moreover have "stream_rel D fin (Suc r) ?R ?s"
        using rel1 R1 by (simp add: stream_rel_def)
      moreover have "D r = []" using copy ffn by (auto simp: copy_of_def)
      then have "delivered ?s = delivered s @ concat (map D [r..<Suc r])"
        by (simp add: delivered_def)
      ultimately show ?thesis using in_R by (intro exI [of _ ?s] exI [of _ "Suc r"] exI [of _ ?R]) auto
    next
      case no_ffn: False
      let ?s = "log_stream (St_Data (D r)) (s\<lparr> readPacketUpto := of_nat r \<rparr>)"
      have run: "deliver_loop (Suc n) q s = deliver_loop n ?q ?s"
        using pkt cb no_ffn callback_data_copy [OF copy] by (simp add: nx Let_def)
      have "card ?R < n" using Suc.prems(3) card_Diff1_less [OF fin_R in_R] by linarith
      moreover have "readPacketUpto ?s = of_nat (Suc r) - 1" by simp
      ultimately obtain s' r' R' where s': "deliver_loop n ?q ?s = Inr s'"
        "stream_rel D fin r' R' s'" "Suc r \<le> r'" "{Suc r..<r'} \<subseteq> ?R" "delivered s' = delivered ?s @ concat (map D [Suc r..<r'])"
        "newDataCB s' = newDataCB ?s"
        "newDataCB ?s \<longrightarrow> connectionClosed s' \<or> the (recvQueue s') (readPacketUpto s' + 1) = None"
        using Suc.IH [OF rel1 R1] by blast
      have "delivered s' = delivered s @ concat (map D [r..<r'])"
        using s'(3,5) by (simp add: delivered_def upt_conv_Cons)
      moreover have "{r..<r'} \<subseteq> R"
      proof
        fix x assume "x \<in> {r..<r'}"
        then have "x = r \<or> x \<in> {Suc r..<r'}" by auto
        then show "x \<in> R" using s'(4) in_R by blast
      qed
      ultimately show ?thesis
        using s' run by (intro exI [of _ s'] exI [of _ r'] exI [of _ R']) auto
    qed
  qed
qed simp

lemma stream_recv_ok:
  assumes rel: "stream_rel D fin r R s" and copy: "copy_of D fin n pkt"
    and win: "n \<le> r + 32767" "r \<le> n + 32768" "Suc n \<noteq> r"
  shows "\<exists>ret s' r' R'. st_recvPacketFrom pkt s = Inr (ret, s') \<and> ret \<in> {0, - 1, - 117, - 121} \<and>
    stream_rel D fin r' R' s' \<and> r \<le> r' \<and> r' \<le> r + 32768 \<and> delivered s' = delivered s @ concat (map D [r..<r']) \<and>
    (ret = 0 \<and> newDataCB s \<longrightarrow> connectionClosed s' \<or> the (recvQueue s') (readPacketUpto s' + 1) = None)"
proof -
  define s0 where "s0 = (if recvQueue s = None then s\<lparr> recvQueue := Some (\<lambda>_. None) \<rparr> else s)"
  have rel0: "stream_rel D fin r R s0" "delivered s0 = delivered s" "newDataCB s0 = newDataCB s"
    using rel by (auto simp: s0_def stream_rel_def delivered_def queue_rel_def split: option.splits)
  obtain q where q: "recvQueue s0 = Some q" by (cases "recvQueue s") (auto simp: s0_def)
  have qr: "queue_rel D fin r R q" and R: "R \<subseteq> {r..r + 32767}" and ru: "readPacketUpto s0 = of_nat r - 1"
    using rel0(1) q by (auto simp: stream_rel_def)
  have dat: "has_flag (h_flag (p_header pkt)) FLAG_DAT" and seq: "h_flowSeqNo (p_header pkt) = of_nat n"
    using copy by (auto simp: copy_of_def)
  have keep: "\<exists>r' R'. stream_rel D fin r' R' s0 \<and> r \<le> r' \<and> r' \<le> r + 32768 \<and> delivered s0 = delivered s @ concat (map D [r..<r'])"
    using rel0 by (intro exI [of _ r] exI [of _ R]) simp
  have vir: "of_nat n - readPacketUpto s0 = (of_nat (n + 1) - of_nat r :: appInt16)"
    by (simp add: ru)
  show ?thesis
  proof (cases "connectionClosed s0")
    case True
    then have "st_recvPacketFrom pkt s = Inr (- 1, s0)" by (simp add: st_recvPacketFrom_def s0_def)
    then show ?thesis using keep by auto
  next
    case open_: False
    show ?thesis
    proof (cases "n < r")
      case True
      then have n: "n + 1 < r" using win(3) by auto
      have "unat (of_nat (n + 1) - of_nat r :: appInt16) = 65536 - (r - (n + 1))"
      proof -
        have "(of_nat (n + 1) - of_nat r :: appInt16) = of_nat (65536 - (r - (n + 1)))"
          using n win(2) by (simp add: of_nat_diff)
        then show ?thesis using n by (simp add: unat_of_nat_small)
      qed
      then have "unat (of_nat n - readPacketUpto s0) > 32768" using win(2) n unfolding vir by linarith
      then have "st_recvPacketFrom pkt s = Inr (- 117, s0)"
        using open_ dat seq by (simp add: st_recvPacketFrom_def s0_def [symmetric] Let_def)
      then show ?thesis using keep by auto
    next
      case False
      then have n: "r \<le> n" by simp
      have e: "(of_nat (n + 1) - of_nat r :: appInt16) = of_nat (n + 1 - r)"
        using n by (simp add: of_nat_diff)
      have "unat (of_nat n - readPacketUpto s0) = n + 1 - r"
        unfolding vir e by (rule unat_of_nat_small) (use n win(1) in simp)
      then have v: "\<not> unat (of_nat n - readPacketUpto s0) > 32768" using win(1) by simp
      show ?thesis
      proof (cases "q (of_nat n)")
        case (Some old)
        then have "st_recvPacketFrom pkt s = Inr (- 121, s0)"
          using open_ dat seq v q by (simp add: st_recvPacketFrom_def s0_def [symmetric] Let_def)
        then show ?thesis using keep by auto
      next
        case None
        let ?s = "s0\<lparr> packetsPendingToRead := packetsPendingToRead s0 + 1 \<rparr>" and ?q = "q(of_nat n \<mapsto> pkt)"
        have run: "st_recvPacketFrom pkt s = bind_res (deliver_loop 65537 ?q ?s) (\<lambda>s1. Inr (0, s1))"
          using open_ dat seq v q None by (simp add: st_recvPacketFrom_def s0_def [symmetric] Let_def)
        have qr': "queue_rel D fin r (insert n R) ?q"
          using n win(1) by (intro queue_rel_insert [OF qr copy]) auto
        have R': "insert n R \<subseteq> {r..r + 32767}" using R n win(1) by auto
        have "card (insert n R) \<le> card {r..r + 32767}" by (rule card_mono) (use R' in auto)
        then have "card (insert n R) < 65537" by simp
        moreover have "readPacketUpto ?s = of_nat r - 1" using ru by simp
        ultimately obtain s' r' R'' where s': "deliver_loop 65537 ?q ?s = Inr s'" "stream_rel D fin r' R'' s'" "r \<le> r'"
            "{r..<r'} \<subseteq> insert n R" "delivered s' = delivered ?s @ concat (map D [r..<r'])"
            "newDataCB ?s \<longrightarrow> connectionClosed s' \<or> the (recvQueue s') (readPacketUpto s' + 1) = None"
          using deliver_loop_ok [OF qr' R'] by blast
        have "r' \<le> r + 32768"
        proof (rule ccontr)
          assume "\<not> r' \<le> r + 32768"
          then have "r + 32768 \<in> {r..<r'}" by simp
          then have "r + 32768 \<in> {r..r + 32767}" using s'(4) R' by blast
          then show False by simp
        qed
        moreover have "delivered s' = delivered s @ concat (map D [r..<r'])"
          using s'(5) rel0(2) by (simp add: delivered_def)
        ultimately show ?thesis using s' run rel0(3)
          by (intro exI [of _ 0] exI [of _ s'] exI [of _ r'] exI [of _ R'']) simp
      qed
    qed
  qed
qed

section \<open>Any run of a stream\<close>

text \<open>
  A run: copies of the sender's packets arrive in any order and number, at most
  32767 ahead of the packet to deliver and at most 32768 behind it, except
  copies of the packet delivered last; meanwhile the application sets callbacks,
  sends and closes, acknowledgements arrive and the worker runs its jobs.
  \<open>r\<close> counts the packets delivered.
\<close>

inductive stream_run :: "(nat \<Rightarrow> appByte list) \<Rightarrow> (nat \<Rightarrow> bool) \<Rightarrow> (Packet \<Rightarrow> int) \<Rightarrow> stream \<Rightarrow> nat \<Rightarrow> bool"
  for D fin par where
  start: "stream_run D fin par (new_stream f) 0"
| recv: "stream_run D fin par s r \<Longrightarrow> copy_of D fin n pkt \<Longrightarrow>
    n \<le> r + 32767 \<Longrightarrow> r \<le> n + 32768 \<Longrightarrow> Suc n \<noteq> r \<Longrightarrow> st_recvPacketFrom pkt s = Inr (ret, s') \<Longrightarrow>
    stream_run D fin par s' (r + unat (readPacketUpto s' - readPacketUpto s))"
| callback: "stream_run D fin par s r \<Longrightarrow> stream_run D fin par (st_setCallBack evt f s) r"
| send: "stream_run D fin par s r \<Longrightarrow> st_sendData par d s = Inr (ret, s') \<Longrightarrow> stream_run D fin par s' r"
| resume: "stream_run D fin par s r \<Longrightarrow> st_send_now par pkt s = Inr (ret, s') \<Longrightarrow> stream_run D fin par s' r"
| ack: "stream_run D fin par s r \<Longrightarrow> st_recvAck k s = Inr (ret, s') \<Longrightarrow> stream_run D fin par s' r"
| ack_hdr: "stream_run D fin par s r \<Longrightarrow> stream_run D fin par (st_recvAckHeader h s) r"
| close: "stream_run D fin par s r \<Longrightarrow> st_closeFlow_begin par s = Inr (w, s') \<Longrightarrow> stream_run D fin par s' r"
| closed: "stream_run D fin par s r \<Longrightarrow> st_closeFlow_wait s = Inr s' \<Longrightarrow> stream_run D fin par s' r"
| unlock: "stream_run D fin par s r \<Longrightarrow> stream_run D fin par (st_closeFlow_end s) r"
| job: "stream_run D fin par s r \<Longrightarrow> sendClosePacketInsideThread par s = Inr s' \<Longrightarrow> stream_run D fin par s' r"

lemma stream_rel_same: "recv_same s s' \<Longrightarrow> stream_rel D fin r R s \<Longrightarrow> stream_rel D fin r R s'"
  by (simp add: recv_same_def stream_rel_def)

lemma stream_run_rel:
  "stream_run D fin par s r \<Longrightarrow> delivered s = concat (map D [0..<r]) \<and> (\<exists>R. stream_rel D fin r R s)"
proof (induction rule: stream_run.induct)
  case (start f)
  show ?case by (auto simp: new_stream_def delivered_def stream_rel_def)
next
  case (recv s r n pkt ret s')
  then obtain R where rel: "stream_rel D fin r R s" and del: "delivered s = concat (map D [0..<r])" by blast
  from stream_recv_ok [OF rel recv.hyps(2-5)] recv.hyps(6) obtain r' R' where
    r': "stream_rel D fin r' R' s'" "r \<le> r'" "r' \<le> r + 32768" "delivered s' = delivered s @ concat (map D [r..<r'])"
    by auto
  have e: "readPacketUpto s' - readPacketUpto s = (of_nat (r' - r) :: appInt16)"
    using r' rel by (simp add: stream_rel_def of_nat_diff)
  have "unat (readPacketUpto s' - readPacketUpto s) = r' - r"
    unfolding e by (rule unat_of_nat_small) (use r'(2,3) in simp)
  then have "r + unat (readPacketUpto s' - readPacketUpto s) = r'" using r'(2) by simp
  moreover have "concat (map D [0..<r]) @ concat (map D [r..<r']) = concat (map D [0..<r'])"
    using r'(2) upt_add_eq_append [of 0 r "r' - r"] by (simp flip: concat_append map_append)
  ultimately show ?case using r' del by auto
next
  case (callback s r evt f)
  have "recv_same s (st_setCallBack evt f s)"
    by (simp add: st_setCallBack_def recv_same_def delivered_def split: event_type.split)
  then show ?case using callback by (metis recv_same_def stream_rel_same)
next
  case (send s r d ret s')
  then show ?case using st_sendData_same by (metis recv_same_def stream_rel_same)
next
  case (resume s r pkt ret s')
  then show ?case using st_send_now_same by (metis recv_same_def stream_rel_same)
next
  case (ack s r k ret s')
  then show ?case using st_recvAck_same by (metis recv_same_def stream_rel_same)
next
  case (ack_hdr s r h)
  have "recv_same s (st_recvAckHeader h s)" by (simp add: st_recvAckHeader_def recv_same_def delivered_def)
  then show ?case using ack_hdr by (metis recv_same_def stream_rel_same)
next
  case (close s r w s')
  then show ?case using st_closeFlow_begin_same by (metis recv_same_def stream_rel_same)
next
  case (closed s r s')
  then have "recv_same s s'" by (auto simp: st_closeFlow_wait_def recv_same_def delivered_def split: if_splits)
  then show ?case using closed by (metis recv_same_def stream_rel_same)
next
  case (unlock s r)
  have "recv_same s (st_closeFlow_end s)" by (simp add: st_closeFlow_end_def recv_same_def delivered_def)
  then show ?case using unlock by (metis recv_same_def stream_rel_same)
next
  case (job s r s')
  then show ?case using sendClosePacketInsideThread_same by (metis recv_same_def stream_rel_same)
qed

text \<open>
  C25: a stream hands its callback the sender's bytes in order and each once.  In
  every run in which no copy of the packet delivered last arrives again, the
  bytes given to the callback are the payloads of the first \<open>r\<close> packets; in every
  reachable state the arrival of such a packet returns (0, or a code for a
  closed stream, a number outside the window or a duplicate), and when a packet
  was taken and the callback is set, delivery goes on to the first packet that
  is missing, or to the closing packet.
\<close>

theorem stream_delivers:
  assumes "stream_run D fin par s r"
  shows "delivered s = concat (map D [0..<r]) \<and>
    (copy_of D fin n pkt \<and> n \<le> r + 32767 \<and> r \<le> n + 32768 \<and> Suc n \<noteq> r \<longrightarrow>
      (\<exists>ret s'. st_recvPacketFrom pkt s = Inr (ret, s') \<and> ret \<in> {0, - 1, - 117, - 121} \<and>
        (ret = 0 \<and> newDataCB s \<longrightarrow> connectionClosed s' \<or> the (recvQueue s') (readPacketUpto s' + 1) = None)))"
proof -
  obtain R where rel: "stream_rel D fin r R s" and del: "delivered s = concat (map D [0..<r])"
    using stream_run_rel [OF assms] by blast
  show ?thesis using del stream_recv_ok [OF rel] by blast
qed

text \<open>Packet 1 arrives before packet 0; the callback gets both in order.\<close>

lemma deliver_loop_numeral:
  "deliver_loop (numeral k) q s =
     (case q (readPacketUpto s + 1) of
        None \<Rightarrow> Inr (s\<lparr> recvQueue := Some q \<rparr>)
      | Some pkt \<Rightarrow>
          if \<not> newDataCB s then Inr (s\<lparr> recvQueue := Some q \<rparr>)
          else
            let nextPkt = readPacketUpto s + 1; s1 = s\<lparr> readPacketUpto := nextPkt \<rparr>; q1 = q(nextPkt := None) in
            if has_flag (h_flag (p_header pkt)) FLAG_FFN then Inr (finishClosing (s1\<lparr> recvQueue := Some q1 \<rparr>))
            else bind_res (callback_data pkt) (\<lambda>d. deliver_loop (pred_numeral k) q1 (log_stream (St_Data d) s1)))"
  unfolding numeral_eq_Suc by (rule deliver_loop.simps(2))

lemma stream_delivers_witness:
  "\<exists>s. stream_run (\<lambda>n. if n = 0 then [104, 101] else [121]) (\<lambda>n. False) (\<lambda>p. 0) s 2 \<and>
     delivered s = concat (map (\<lambda>n. if n = 0 then [104, 101] else [121 :: appByte]) [0..<2])"
proof -
  let ?D = "\<lambda>n :: nat. if n = 0 then [104, 101] else [121 :: appByte]" and ?fin = "\<lambda>n :: nat. False" and ?par = "\<lambda>p :: Packet. 0 :: int"
  have fl: "has_flag FLAG_DAT FLAG_DAT" "\<not> has_flag FLAG_DAT FLAG_FFN" by code_simp+
  have c1: "copy_of ?D ?fin 1 (hello_pkt 1 [121])" and c0: "copy_of ?D ?fin 0 (hello_pkt 0 [104, 101])"
    by (simp_all add: copy_of_def hello_pkt_def fl MAX_PACKET_SENT_DATA_SIZE_def)
  let ?s0 = "st_setCallBack EVENT_NEW_DATA True (new_stream 1)"
  let ?h0 = "hello_pkt 0 [104, 101]" and ?h1 = "hello_pkt 1 [121]"
  let ?s1 = "?s0\<lparr> recvQueue := Some [1 \<mapsto> ?h1], packetsPendingToRead := 1 \<rparr>"
  let ?s2 = "?s1\<lparr> recvQueue := Some (\<lambda>_. None), packetsPendingToRead := 2, readPacketUpto := 1,
    st_out := [St_Data [104, 101], St_Data [121]] \<rparr>"
  have zero: "(65536 :: appInt16) = 0" by simp
  note eval = zero fl hello_pkt_def new_stream_def st_setCallBack_def Let_def deliver_loop_numeral callback_data_def log_stream_def
  have r1: "st_recvPacketFrom ?h1 ?s0 = Inr (0, ?s1)"
    by (simp add: st_recvPacketFrom_def eval)
  have r2: "st_recvPacketFrom ?h0 ?s1 = Inr (0, ?s2)"
    by (simp add: st_recvPacketFrom_def eval fun_upd_twist)
  have f0: "stream_run ?D ?fin ?par ?s0 0" by (rule stream_run.callback [OF stream_run.start])
  have f1: "stream_run ?D ?fin ?par ?s1 0" using stream_run.recv [OF f0 c1 _ _ _ r1] by simp
  have f2: "stream_run ?D ?fin ?par ?s2 2"
  proof -
    have "unat (readPacketUpto ?s2 - readPacketUpto ?s1) = 2" by (simp add: st_setCallBack_def new_stream_def)
    then show ?thesis using stream_run.recv [OF f1 c0 _ _ _ r2] by (simp add: numeral_2_eq_2)
  qed
  then show ?thesis using stream_delivers [OF f2] by blast
qed

section \<open>A late duplicate\<close>

text \<open>
  The window test lets through the number delivered last, whose slot is empty
  again; its copy stays there until the numbers wrap around.
\<close>

fun recv_all :: "Packet list \<Rightarrow> stream \<Rightarrow> stream res" where
  "recv_all [] s = Inr s"
| "recv_all (p # ps) s = bind_res (st_recvPacketFrom p s) (\<lambda>(_, s'). recv_all ps s')"

lemma recv_all_append: "recv_all (ps @ qs) s = bind_res (recv_all ps s) (recv_all qs)"
  by (induction ps s rule: recv_all.induct) (auto simp: bind_res_assoc split_def)

definition plain_pkt :: "appInt16 \<Rightarrow> appByte list \<Rightarrow> Packet \<Rightarrow> bool" where
  "plain_pkt n d pkt \<longleftrightarrow> h_flowSeqNo (p_header pkt) = n \<and> has_flag (h_flag (p_header pkt)) FLAG_DAT \<and>
     \<not> has_flag (h_flag (p_header pkt)) FLAG_FFN \<and> callback_data pkt = Inr d"

definition holding :: "(appInt16 \<Rightarrow> Packet option) \<Rightarrow> appInt16 \<Rightarrow> stream \<Rightarrow> bool" where
  "holding q m s \<longleftrightarrow> recvQueue s = Some q \<and> readPacketUpto s = m \<and> newDataCB s \<and> \<not> connectionClosed s"

lemma recv_dup:
  assumes "holding (\<lambda>_. None) k s" "plain_pkt k d dup"
  shows "\<exists>s'. st_recvPacketFrom dup s = Inr (0, s') \<and> holding [k \<mapsto> dup] k s' \<and> delivered s' = delivered s"
  using assms
  by (simp add: holding_def plain_pkt_def st_recvPacketFrom_def Let_def deliver_loop_numeral delivered_def)

lemma recv_next:
  assumes "holding [k \<mapsto> dup] m s" "plain_pkt (m + 1) d pkt" "m + 1 \<noteq> k" "m + 2 \<noteq> k"
  shows "\<exists>s'. st_recvPacketFrom pkt s = Inr (0, s') \<and> holding [k \<mapsto> dup] (m + 1) s' \<and> delivered s' = delivered s @ d"
  using assms
  by (simp add: holding_def plain_pkt_def st_recvPacketFrom_def Let_def deliver_loop_numeral delivered_def
      fun_upd_twist add.commute add.left_commute)

lemma recv_last:
  assumes "holding [k \<mapsto> dup] m s" "plain_pkt (m + 1) d pkt" "m + 2 = k" "plain_pkt k d' dup"
  shows "\<exists>s'. st_recvPacketFrom pkt s = Inr (0, s') \<and> holding (\<lambda>_. None) k s' \<and> delivered s' = delivered s @ d @ d'"
proof -
  have k: "k = m + 2" using assms(3) by simp
  have ne: "m + 1 \<noteq> m + 2" "m + 3 \<noteq> m + 2" "m + 3 \<noteq> m + 1" "m + 2 \<noteq> m + 1" by simp_all
  have e: "m + 1 + 1 = m + 2" "m + 2 + 1 = m + 3" by simp_all
  show ?thesis
    using assms(1,2,4) ne unfolding k
    by (simp add: holding_def plain_pkt_def st_recvPacketFrom_def Let_def deliver_loop_numeral delivered_def e
        fun_upd_twist del: add_left_cancel)
qed

lemma recv_run:
  assumes "holding [k \<mapsto> dup] k s" "\<And>i. i < 65534 \<Longrightarrow> plain_pkt (k + of_nat (Suc i)) (D i) (P i)" "j \<le> 65534"
  shows "\<exists>s'. recv_all (map P [0..<j]) s = Inr s' \<and> holding [k \<mapsto> dup] (k + of_nat j) s' \<and>
    delivered s' = delivered s @ concat (map D [0..<j])"
  using assms(3)
proof (induction j)
  case 0
  then show ?case using assms(1) by (simp del: fun_upd_apply)
next
  case (Suc j)
  then obtain s1 where s1: "recv_all (map P [0..<j]) s = Inr s1" "holding [k \<mapsto> dup] (k + of_nat j) s1"
    "delivered s1 = delivered s @ concat (map D [0..<j])" by (auto simp del: fun_upd_apply)
  have pl: "plain_pkt (k + of_nat j + 1) (D j) (P j)"
    using assms(2) [of j] Suc.prems by (simp add: ac_simps)
  have nz: "unat (of_nat (j + 1) :: appInt16) = j + 1" "unat (of_nat (j + 2) :: appInt16) = j + 2"
    by (rule unat_of_nat_small, use Suc.prems in simp)+
  have "(of_nat (j + 1) :: appInt16) \<noteq> 0" "(of_nat (j + 2) :: appInt16) \<noteq> 0"
    using nz by (metis add_is_0 one_neq_zero zero_neq_numeral unat_0)+
  then have "k + of_nat j + 1 \<noteq> k" "k + of_nat j + 2 \<noteq> k" by (simp_all add: add.assoc add.commute)
  from recv_next [OF s1(2) pl this] obtain s2 where s2: "st_recvPacketFrom (P j) s1 = Inr (0, s2)"
    "holding [k \<mapsto> dup] (k + of_nat j + 1) s2" "delivered s2 = delivered s1 @ D j" by blast
  then show ?case using s1 by (simp add: recv_all_append ac_simps del: fun_upd_apply)
qed

text \<open>
  A late copy of the packet delivered last is delivered again, 65535 packets
  later, in place of the packet with the same number.  When every buffered
  packet has been delivered and a copy of the last one arrives, it is stored;
  after the next 65535 packets, each in its turn, the callback gets its bytes
  once more, and the slot of the true packet 65536 is already counted as
  delivered.
\<close>

theorem stream_replays_duplicate:
  assumes "holding (\<lambda>_. None) k s" "plain_pkt k d dup"
    and "\<And>i. i < 65535 \<Longrightarrow> plain_pkt (k + of_nat (Suc i)) (D i) (P i)"
  shows "\<exists>s'. recv_all (dup # map P [0..<65535]) s = Inr s' \<and> readPacketUpto s' = k \<and>
    delivered s' = delivered s @ concat (map D [0..<65535]) @ d"
proof -
  obtain s0 where s0: "st_recvPacketFrom dup s = Inr (0, s0)" "holding [k \<mapsto> dup] k s0" "delivered s0 = delivered s"
    using recv_dup [OF assms(1,2)] by blast
  have P: "plain_pkt (k + of_nat (Suc i)) (D i) (P i)" if "i < 65534" for i
    using assms(3) [of i] that by simp
  obtain s1 where s1: "recv_all (map P [0..<65534]) s0 = Inr s1" "holding [k \<mapsto> dup] (k + of_nat 65534) s1"
      "delivered s1 = delivered s0 @ concat (map D [0..<65534])"
    using recv_run [OF s0(2) P, of 65534] by auto
  have pl: "plain_pkt (k + of_nat 65534 + 1) (D 65534) (P 65534)"
    using assms(3) [of 65534] by (simp add: ac_simps)
  have "k + of_nat 65534 + 2 = (k :: appInt16)"
  proof -
    have "(65536 :: appInt16) = 0" by simp
    then show ?thesis by (simp add: add.assoc)
  qed
  from recv_last [OF s1(2) pl this assms(2)] obtain s2 where
    s2: "st_recvPacketFrom (P 65534) s1 = Inr (0, s2)" "holding (\<lambda>_. None) k s2" "delivered s2 = delivered s1 @ D 65534 @ d"
    by blast
  have "[0..<65535] = [0..<65534] @ [65534 :: nat]"
    using upt_Suc_append [of 0 65534] by (simp del: upt_conv_Cons upt_rec_numeral)
  then have "recv_all (dup # map P [0..<65535]) s = Inr s2"
    "concat (map D [0..<65535]) = concat (map D [0..<65534]) @ D 65534"
    using s0 s1 s2 by (simp_all add: recv_all_append del: upt_conv_Cons upt_rec_numeral)
  then show ?thesis using s0 s1 s2 by (auto simp: holding_def simp del: upt_conv_Cons upt_rec_numeral)
qed

text \<open>Every packet carries one byte.\<close>

lemma stream_replays_duplicate_witness:
  "\<exists>s'. recv_all (hello_pkt 65535 [7] # map (\<lambda>i. hello_pkt (of_nat i) [1]) [0..<65535])
      ((new_stream 1)\<lparr> newDataCB := True, recvQueue := Some (\<lambda>_. None) \<rparr>) = Inr s' \<and> readPacketUpto s' = 65535 \<and>
    delivered s' = concat (map (\<lambda>i. [1]) [0..<65535]) @ [7]"
proof -
  let ?s = "(new_stream 1)\<lparr> newDataCB := True, recvQueue := Some (\<lambda>_. None) \<rparr>"
  have fl: "has_flag FLAG_DAT FLAG_DAT" "\<not> has_flag FLAG_DAT FLAG_FFN" by code_simp+
  have pl: "plain_pkt n [b] (hello_pkt n [b])" for n b
    by (simp add: plain_pkt_def hello_pkt_def callback_data_def fl)
  have h: "holding (\<lambda>_. None) 65535 ?s" by (simp add: holding_def new_stream_def)
  have P: "plain_pkt (65535 + of_nat (Suc i)) [1] (hello_pkt (of_nat i) [1])" for i
  proof -
    have "(65535 :: appInt16) + 1 = 0" by simp
    moreover have "65535 + of_nat (Suc i) = (65535 + 1) + (of_nat i :: appInt16)" by (simp only: of_nat_Suc add.assoc)
    ultimately have "65535 + of_nat (Suc i) = (of_nat i :: appInt16)" by (simp only: add_0)
    then show ?thesis using pl [of "of_nat i" 1] by (simp only:)
  qed
  have "delivered ?s = []" by (simp add: delivered_def new_stream_def)
  then show ?thesis
    using stream_replays_duplicate [OF h pl [of 65535 7] P] by (simp del: upt_conv_Cons upt_rec_numeral)
qed

end
