(* ===== verification/OrderedMap.thy ===== *)
theory OrderedMap
  imports Main
begin

text \<open>
  \<open>std::map\<close> as the program uses it: a finite map whose iteration is in the order
  of the keys.  The locale \<open>std_map\<close> is the interface its clients rely on; an
  association list kept in the order of its keys provides it.
\<close>

section \<open>The interface\<close>

locale std_map =
  fixes wf :: "'m \<Rightarrow> bool"
    and lookup :: "'m \<Rightarrow> 'k::linorder \<Rightarrow> 'v option"
    and update :: "'k \<Rightarrow> 'v \<Rightarrow> 'm \<Rightarrow> 'm"
    and erase :: "'k \<Rightarrow> 'm \<Rightarrow> 'm"
    and keys :: "'m \<Rightarrow> 'k list"
  assumes lookup_update: "wf m \<Longrightarrow> lookup (update k v m) j = (if j = k then Some v else lookup m j)"
    and lookup_erase: "wf m \<Longrightarrow> lookup (erase k m) j = (if j = k then None else lookup m j)"
    and wf_update: "wf m \<Longrightarrow> wf (update k v m)"
    and wf_erase: "wf m \<Longrightarrow> wf (erase k m)"
    and keys_set: "wf m \<Longrightarrow> set (keys m) = {k. lookup m k \<noteq> None}"
    and keys_sorted: "wf m \<Longrightarrow> sorted_wrt (<) (keys m)"
begin

lemma lookup_update_same: "wf m \<Longrightarrow> lookup (update k v m) k = Some v"
  by (simp add: lookup_update)

lemma lookup_update_other: "wf m \<Longrightarrow> j \<noteq> k \<Longrightarrow> lookup (update k v m) j = lookup m j"
  by (simp add: lookup_update)

lemma keys_eqI:
  assumes "wf m" "wf m'" "\<And>k. lookup m k = None \<longleftrightarrow> lookup m' k = None"
  shows "keys m = keys m'"
proof -
  have "sorted (keys m)" "distinct (keys m)" "sorted (keys m')" "distinct (keys m')"
    using keys_sorted [OF assms(1)] keys_sorted [OF assms(2)] by (auto simp: strict_sorted_iff)
  moreover have "set (keys m) = set (keys m')"
    using assms by (simp add: keys_set)
  ultimately show ?thesis by (metis sorted_distinct_set_unique)
qed

lemma keys_update_present: "wf m \<Longrightarrow> lookup m k \<noteq> None \<Longrightarrow> keys (update k v m) = keys m"
  by (rule keys_eqI) (auto simp: wf_update lookup_update)

lemma distinct_keys: "wf m \<Longrightarrow> distinct (keys m)"
  using keys_sorted by (auto simp: strict_sorted_iff)

end

section \<open>Sorted association lists\<close>

fun om_update :: "'k::linorder \<Rightarrow> 'v \<Rightarrow> ('k \<times> 'v) list \<Rightarrow> ('k \<times> 'v) list" where
  "om_update k v [] = [(k, v)]"
| "om_update k v ((j, w) # m) =
     (if k < j then (k, v) # (j, w) # m else if k = j then (k, v) # m else (j, w) # om_update k v m)"

definition om_erase :: "'k \<Rightarrow> ('k \<times> 'v) list \<Rightarrow> ('k \<times> 'v) list" where
  "om_erase k m = filter (\<lambda>(j, w). j \<noteq> k) m"

definition om_wf :: "('k::linorder \<times> 'v) list \<Rightarrow> bool" where
  "om_wf m \<longleftrightarrow> sorted_wrt (<) (map fst m)"

definition om_keys :: "('k \<times> 'v) list \<Rightarrow> 'k list" where
  "om_keys m = map fst m"

lemma om_update_set: "fst ` set (om_update k v m) = insert k (fst ` set m)"
  by (induction k v m rule: om_update.induct) auto

lemma om_update_wf: "om_wf m \<Longrightarrow> om_wf (om_update k v m)"
proof (induction k v m rule: om_update.induct)
  case (2 k v j w m)
  then show ?case
    using om_update_set [of k v m]
    by (auto simp: om_wf_def image_iff)
qed (simp add: om_wf_def)

lemma om_update_lookup: "map_of (om_update k v m) j = (if j = k then Some v else map_of m j)"
  by (induction k v m rule: om_update.induct) auto

lemma om_erase_lookup: "map_of (om_erase k m) j = (if j = k then None else map_of m j)"
  by (induction m) (auto simp: om_erase_def)

lemma om_erase_wf: "om_wf m \<Longrightarrow> om_wf (om_erase k m)"
  unfolding om_wf_def om_erase_def by (induction m) auto

interpretation om: std_map om_wf map_of om_update om_erase om_keys
proof
  fix m :: "('a \<times> 'b) list" and k j and v
  show "om_wf m \<Longrightarrow> map_of (om_update k v m) j = (if j = k then Some v else map_of m j)"
    by (rule om_update_lookup)
  show "om_wf m \<Longrightarrow> map_of (om_erase k m) j = (if j = k then None else map_of m j)"
    by (rule om_erase_lookup)
  show "om_wf m \<Longrightarrow> om_wf (om_update k v m)" by (rule om_update_wf)
  show "om_wf m \<Longrightarrow> om_wf (om_erase k m)" by (rule om_erase_wf)
  show "om_wf m \<Longrightarrow> set (om_keys m) = {k. map_of m k \<noteq> None}"
    by (auto simp: om_keys_def map_of_eq_None_iff)
  show "om_wf m \<Longrightarrow> sorted_wrt (<) (om_keys m)" by (simp add: om_wf_def om_keys_def)
qed

lemma om_wf_Nil [simp]: "om_wf []"
  by (simp add: om_wf_def)

lemma om_wf_lookup: "om_wf m \<Longrightarrow> (k, v) \<in> set m \<longleftrightarrow> map_of m k = Some v"
  by (auto simp: om_wf_def strict_sorted_iff intro: map_of_is_SomeI dest: map_of_SomeD)

end
