(* ===== verification/Mux.thy ===== *)
theory Mux
  imports NewFlow Stream OrderedMap
begin

text \<open>
  \<open>Multiplexer\<close> (src/src/TunnelLib/multiplexer.cc): the flows of one connection,
  keyed by \<open>clientFlowId\<close>.  The layer below (a client or server connection) is the
  function \<open>par\<close> that gives the result of its \<open>sendPacketTo\<close>; what a flow hands
  down is in that flow's own output, what the multiplexer sends itself in
  \<open>mx_sent\<close>.  \<open>id2FlowMap\<close> and \<open>flowsAccepted\<close> are never read and are left out.
\<close>

section \<open>State\<close>

datatype flow = NewF new_flow | StreamF stream

record mux =
  fingerPrint :: appInt16
  outPacketCount :: appInt16
  children :: "(appInt32 \<times> flow) list"
  pendingFlows :: "appInt32 list"
  acceptSem :: nat
  mx_sent :: "Packet list"

definition new_mux :: "appInt16 \<Rightarrow> mux" where
  "new_mux fp = \<lparr> fingerPrint = fp, outPacketCount = 0, children = [], pendingFlows = [], acceptSem = 0, mx_sent = [] \<rparr>"

text \<open>
  The union \<open>ClientFlowId\<close>: on the little-endian machines the program runs on, the
  fingerprint is the low half of \<open>clientFlowId\<close> and the flow number the high half.
\<close>

definition clientFlowId :: "appInt16 \<Rightarrow> appInt16 \<Rightarrow> appInt32" where
  "clientFlowId fp flowId = ucast fp OR push_bit 16 (ucast flowId)"

definition key_flowId :: "appInt32 \<Rightarrow> appInt16" where
  "key_flowId k = ucast (drop_bit 16 k)"

definition getChild :: "appInt16 \<Rightarrow> appInt16 \<Rightarrow> mux \<Rightarrow> flow option" where
  "getChild fp flowId m = (if flowId = 0 then None else map_of (children m) (clientFlowId fp flowId))"

definition set_child :: "appInt16 \<Rightarrow> appInt16 \<Rightarrow> flow \<Rightarrow> mux \<Rightarrow> mux" where
  "set_child fp flowId f m = m\<lparr> children := om_update (clientFlowId fp flowId) f (children m) \<rparr>"

definition mux_sendPacketTo :: "(Packet \<Rightarrow> int) \<Rightarrow> Packet \<Rightarrow> int" where
  "mux_sendPacketTo par pkt = (if h_flowId (p_header pkt) = 0 then - ERROR_INVALID_FLOW else par pkt)"

section \<open>The operations of a flow, by its class\<close>

fun flow_recvAck :: "appInt16 \<Rightarrow> flow \<Rightarrow> flow res" where
  "flow_recvAck n (NewF s) = Inr (NewF (snd (nf_recvAck n s)))"
| "flow_recvAck n (StreamF s) = bind_res (st_recvAck n s) (\<lambda>(_, s'). Inr (StreamF s'))"

fun flow_recvAckHeader :: "opt_header \<Rightarrow> flow \<Rightarrow> flow" where
  "flow_recvAckHeader h (NewF s) = NewF (nf_recvAckHeader h s)"
| "flow_recvAckHeader h (StreamF s) = StreamF (st_recvAckHeader h s)"

fun flow_recv :: "(Packet \<Rightarrow> int) \<Rightarrow> Packet \<Rightarrow> flow \<Rightarrow> (int \<times> flow) res" where
  "flow_recv par pkt (NewF s) = bind_res (nf_recvPacketFrom par pkt s) (\<lambda>(ret, s'). Inr (ret, NewF s'))"
| "flow_recv par pkt (StreamF s) = bind_res (st_recvPacketFrom pkt s) (\<lambda>(ret, s'). Inr (ret, StreamF s'))"

text \<open>\<open>StreamHandler\<close> inherits \<open>readData\<close>, which asserts.\<close>

fun flow_readData :: "nat \<Rightarrow> flow \<Rightarrow> (int \<times> appByte list \<times> flow) res" where
  "flow_readData bufsize (NewF s) = bind_res (readData bufsize s) (\<lambda>(ret, bs, s'). Inr (ret, bs, NewF s'))"
| "flow_readData bufsize (StreamF s) = Inl Assert_Failed"

fun flow_sendData :: "(Packet \<Rightarrow> int) \<Rightarrow> appByte list \<Rightarrow> flow \<Rightarrow> (int \<times> flow) res" where
  "flow_sendData par d (NewF s) = bind_res (sendData par d s) (\<lambda>(ret, s'). Inr (ret, NewF s'))"
| "flow_sendData par d (StreamF s) = bind_res (st_sendData par d s) (\<lambda>(ret, s'). Inr (ret, StreamF s'))"

fun getReadUpto :: "flow \<Rightarrow> appInt16" where
  "getReadUpto (NewF s) = readUpto s"
| "getReadUpto (StreamF s) = readPacketUpto s"

text \<open>The result says whether the caller has to wait for the other side.\<close>

fun flow_closeFlow :: "(Packet \<Rightarrow> int) \<Rightarrow> flow \<Rightarrow> (bool \<times> flow) res" where
  "flow_closeFlow par (NewF s) = bind_res (closeFlow par s) (\<lambda>(_, w, s'). Inr (w, NewF s'))"
| "flow_closeFlow par (StreamF s) = bind_res (st_closeFlow_begin par s) (\<lambda>(w, s'). Inr (w, StreamF s'))"

fun flow_timeoutEvent :: "flow \<Rightarrow> flow res" where
  "flow_timeoutEvent (NewF s) = Inl Assert_Failed"
| "flow_timeoutEvent (StreamF s) = Inr (StreamF s)"

section \<open>Flows\<close>

datatype CongType = SIMPLE_RELIABILITY | STOP_N_WAIT | STREAM_HANDLER | NEW_FLOW_HANDLER

text \<open>The receive window is the default argument of the constructor of \<open>NewFlowHandler\<close>.\<close>

definition getNewConnection :: "appInt16 \<Rightarrow> appInt16 \<Rightarrow> CongType \<Rightarrow> mux \<Rightarrow> mux" where
  "getNewConnection fp flowId type m =
     (case type of
        STREAM_HANDLER \<Rightarrow> set_child fp flowId (StreamF (new_stream flowId)) m
      | NEW_FLOW_HANDLER \<Rightarrow> set_child fp flowId (NewF (init_new_flow flowId 500)) m
      | _ \<Rightarrow> m)"

definition addNewFlow :: "Packet \<Rightarrow> mux \<Rightarrow> mux" where
  "addNewFlow pkt m =
     (let fid = h_flowId (p_header pkt) in
      if map_of (children m) (clientFlowId (fingerPrint m) fid) = None
      then getNewConnection (fingerPrint m) fid NEW_FLOW_HANDLER m else m)"

definition flowExists :: "appInt16 \<Rightarrow> appInt16 \<Rightarrow> mux \<Rightarrow> bool" where
  "flowExists fp flowId m \<longleftrightarrow> map_of (children m) (clientFlowId fp flowId) \<noteq> None"

text \<open>\<open>std::set::insert\<close> into the pending flows.\<close>

definition insert_pending :: "appInt32 \<Rightarrow> mux \<Rightarrow> mux" where
  "insert_pending k m = m\<lparr> pendingFlows := insort_insert k (pendingFlows m) \<rparr>"

definition acceptFlow :: "mux \<Rightarrow> (appInt32 \<times> mux) res" where
  "acceptFlow m =
     (if acceptSem m = 0 then Inl Blocked
      else let m1 = m\<lparr> acceptSem := acceptSem m - 1 \<rparr> in
        case pendingFlows m1 of
          [] \<Rightarrow> Inl Out_Of_Bounds
        | k # rest \<Rightarrow>
            app_assert (key_flowId k \<noteq> 0 \<and> map_of (children m1) k \<noteq> None)
              (Inr (k, m1\<lparr> pendingFlows := rest \<rparr>)))"

definition erase_child :: "appInt16 \<Rightarrow> appInt16 \<Rightarrow> mux \<Rightarrow> mux" where
  "erase_child fp flowId m = m\<lparr> children := om_erase (clientFlowId fp flowId) (children m) \<rparr>"

text \<open>
  \<open>closeFlow\<close>: the first part of the result is the status, the second says that
  the thread now waits inside the flow; \<open>mux_closeFlow_end\<close> is the rest of the
  call after such a wait.
\<close>

definition mux_closeFlow :: "(Packet \<Rightarrow> int) \<Rightarrow> appInt16 \<Rightarrow> appInt16 \<Rightarrow> mux \<Rightarrow> (bool \<times> bool \<times> mux) res" where
  "mux_closeFlow par fp flowId m =
     (case getChild fp flowId m of
        None \<Rightarrow> Inr (False, False, m)
      | Some f \<Rightarrow>
          bind_res (flow_closeFlow (mux_sendPacketTo par) f) (\<lambda>(waits, f').
            if waits then Inr (True, True, set_child fp flowId f' m)
            else Inr (True, False, erase_child fp flowId m)))"

definition mux_closeFlow_end :: "appInt16 \<Rightarrow> appInt16 \<Rightarrow> mux \<Rightarrow> mux" where
  "mux_closeFlow_end fp flowId m = erase_child fp flowId m"

definition mux_close :: "mux \<Rightarrow> mux res" where
  "mux_close m = app_assert (children m = []) (Inr m)"

section \<open>Acknowledgements and control packets\<close>

definition mux_recvAck :: "appInt16 \<Rightarrow> appInt16 \<Rightarrow> mux \<Rightarrow> int" where
  "mux_recvAck fp flowId m = (if getChild fp flowId m = None then - 1 else 0)"

definition ack_child :: "appInt16 \<Rightarrow> appInt16 \<Rightarrow> mux \<Rightarrow> mux res" where
  "ack_child flowId readUp m =
     (case getChild (fingerPrint m) flowId m of
        None \<Rightarrow> Inr m
      | Some f \<Rightarrow> bind_res (flow_recvAck readUp f) (\<lambda>f'. Inr (set_child (fingerPrint m) flowId f' m)))"

fun ack_infos :: "(appInt16 \<times> appInt16) list \<Rightarrow> mux \<Rightarrow> mux res" where
  "ack_infos [] m = Inr m"
| "ack_infos ((flowId, readUp) # is) m = bind_res (ack_child flowId readUp m) (ack_infos is)"

text \<open>The default case asserts a string literal, which is never null.\<close>

fun processOptionalHeader :: "opt_header \<Rightarrow> mux \<Rightarrow> mux res" where
  "processOptionalHeader (PacketAckHeader pad flowId ackNo) m =
     (case getChild (fingerPrint m) flowId m of
        None \<Rightarrow> Inr m
      | Some f \<Rightarrow> Inr (set_child (fingerPrint m) flowId (flow_recvAckHeader (PacketAckHeader pad flowId ackNo) f) m))"
| "processOptionalHeader (PacketReadHeader pad infos cnt) m = ack_infos infos m"
| "processOptionalHeader _ m = Inr m"

fun processOptionalHeaders :: "opt_header list \<Rightarrow> mux \<Rightarrow> mux res" where
  "processOptionalHeaders [] m = Inr m"
| "processOptionalHeaders (h # hs) m = bind_res (processOptionalHeader h m) (processOptionalHeaders hs)"

definition mux_getReceiverStatus :: "appInt8 \<Rightarrow> mux \<Rightarrow> opt_header" where
  "mux_getReceiverStatus pad m =
     foldl (\<lambda>hdr (k, f). addInfo hdr (key_flowId k) (getReadUpto f)) (new_read_header pad) (children m)"

definition generateControlPacket :: "appInt8 \<Rightarrow> mux \<Rightarrow> Packet" where
  "generateControlPacket pad m =
     new_Packet\<lparr> p_header := reinit_header\<lparr> h_flag := FLAG_CTR \<rparr>, p_data := Some [], p_capa := of_nat MAX_PACKET_DATA_SIZE,
       p_optHeaders := [mux_getReceiverStatus pad m] \<rparr>"

section \<open>Packets from below\<close>

text \<open>The result, whether \<open>flags.newFlow\<close> was set, and the state.\<close>

definition mux_recvPacketFrom :: "(Packet \<Rightarrow> int) \<Rightarrow> Packet \<Rightarrow> mux \<Rightarrow> (int \<times> bool \<times> mux) res" where
  "mux_recvPacketFrom par pkt m =
     (let h = p_header pkt; fp = h_fingerPrint h; fid = h_flowId h in
      if fid = 0 \<and> \<not> has_flag (h_flag h) FLAG_CTR then Inr (- ERROR_INVALID_FLOW, False, m)
      else
        bind_res (processOptionalHeaders (p_optHeaders pkt) m) (\<lambda>m1.
        if has_flag (h_flag h) FLAG_CTR then Inr (0, False, m1)
        else if \<not> p_accepted pkt then Inr (0, False, m1)
        else
          let isnew = (getChild fp fid m1 = None);
              m2 = (if isnew then addNewFlow pkt m1 else m1) in
          case getChild fp fid m2 of
            None \<Rightarrow> Inl Assert_Failed
          | Some f \<Rightarrow>
              let m3 = (if isnew then (insert_pending (clientFlowId fp fid) m2)\<lparr> acceptSem := acceptSem m2 + 1 \<rparr> else m2) in
              bind_res (flow_recv (mux_sendPacketTo par) pkt f) (\<lambda>(_, f'). Inr (0, isnew, set_child fp fid f' m3))))"

section \<open>Reading, sending, timeouts\<close>

text \<open>
  \<open>readData\<close>: the result, the bytes and the state.  When the flow has ended it is
  closed, and a close that has to wait blocks the reader; every 401st call sends
  a control packet with what has been read so far.
\<close>

definition count_read :: "appInt8 \<Rightarrow> mux \<Rightarrow> mux" where
  "count_read pad m =
     (let m1 = m\<lparr> outPacketCount := outPacketCount m + 1 \<rparr> in
      if outPacketCount m1 > 400
      then m1\<lparr> mx_sent := mx_sent m1 @ [generateControlPacket pad m1], outPacketCount := 0 \<rparr>
      else m1)"

definition mux_readData :: "(Packet \<Rightarrow> int) \<Rightarrow> appInt8 \<Rightarrow> appInt16 \<Rightarrow> appInt16 \<Rightarrow> nat \<Rightarrow> mux \<Rightarrow>
    (int \<times> appByte list \<times> mux) res" where
  "mux_readData par pad fp flowId bufsize m =
     (case getChild fp flowId m of
        None \<Rightarrow> Inr (- ERROR_INVALID_FLOW, [], m)
      | Some f \<Rightarrow>
          bind_res (flow_readData bufsize f) (\<lambda>(ret, bs, f').
          let m1 = set_child fp flowId f' m in
          bind_res (if ret = 0
                    then bind_res (mux_closeFlow par fp flowId m1) (\<lambda>(_, waits, m2). if waits then Inl Blocked else Inr m2)
                    else Inr m1) (\<lambda>m2.
          Inr (ret, bs, count_read pad m2))))"

definition mux_sendData :: "(Packet \<Rightarrow> int) \<Rightarrow> appInt16 \<Rightarrow> appInt16 \<Rightarrow> appByte list \<Rightarrow> mux \<Rightarrow> (int \<times> mux) res" where
  "mux_sendData par fp flowId d m =
     (case getChild fp flowId m of
        None \<Rightarrow> Inr (- ERROR_INVALID_FLOW, m)
      | Some f \<Rightarrow> bind_res (flow_sendData (mux_sendPacketTo par) d f) (\<lambda>(ret, f'). Inr (ret, set_child fp flowId f' m)))"

fun mux_timeoutEvent :: "(appInt32 \<times> flow) list \<Rightarrow> (appInt32 \<times> flow) list res" where
  "mux_timeoutEvent [] = Inr []"
| "mux_timeoutEvent ((k, f) # m) =
     bind_res (flow_timeoutEvent f) (\<lambda>f'. bind_res (mux_timeoutEvent m) (\<lambda>m'. Inr ((k, f') # m')))"

end
