(* ===== verification/MuxProps.thy ===== *)
theory MuxProps
  imports Mux NewFlowProps
begin

text \<open>
  The multiplexer: every packet reaches its own flow and no other, pending flows
  always exist when they are accepted, the status one side reports moves the
  windows of the other side's flows; and two ways to abort it.
\<close>

section \<open>Keys\<close>

lemma key_flowId_clientFlowId [simp]: "key_flowId (clientFlowId fp flowId) = flowId"
  by (rule bit_word_eqI) (auto simp: key_flowId_def clientFlowId_def bit_simps dest: bit_imp_le_length)

lemma low_clientFlowId [simp]: "(ucast (clientFlowId fp flowId) :: appInt16) = fp"
  by (rule bit_word_eqI) (auto simp: clientFlowId_def bit_simps)

lemma clientFlowId_inj [simp]: "clientFlowId a b = clientFlowId c d \<longleftrightarrow> a = c \<and> b = d"
  by (metis key_flowId_clientFlowId low_clientFlowId)

section \<open>The invariant\<close>

text \<open>
  Every flow is kept under the multiplexer's own fingerprint and a number that is
  not 0; the flows that wait to be accepted exist, and \<open>acceptSem\<close> counts them.
\<close>

definition own_key :: "mux \<Rightarrow> appInt32 \<Rightarrow> bool" where
  "own_key m k \<longleftrightarrow> key_flowId k \<noteq> 0 \<and> k = clientFlowId (fingerPrint m) (key_flowId k)"

definition mux_inv :: "mux \<Rightarrow> bool" where
  "mux_inv m \<longleftrightarrow> om_wf (children m) \<and> (\<forall>k\<in>set (om_keys (children m)). own_key m k) \<and>
     sorted (pendingFlows m) \<and> distinct (pendingFlows m) \<and>
     set (pendingFlows m) \<subseteq> set (om_keys (children m)) \<and> acceptSem m = length (pendingFlows m)"

lemma mux_inv_wf: "mux_inv m \<Longrightarrow> om_wf (children m)"
  by (simp add: mux_inv_def)

lemma new_mux_inv: "mux_inv (new_mux fp)"
  by (simp add: mux_inv_def new_mux_def om_keys_def)

lemma keys_lookup: "mux_inv m \<Longrightarrow> k \<in> set (om_keys (children m)) \<longleftrightarrow> map_of (children m) k \<noteq> None"
  by (simp add: om.keys_set mux_inv_wf)

lemma getChild_set_child:
  "mux_inv m \<Longrightarrow> fid \<noteq> 0 \<Longrightarrow>
     getChild fp' fid' (set_child fp fid f m) = (if fp' = fp \<and> fid' = fid then Some f else getChild fp' fid' m)"
  by (auto simp: getChild_def set_child_def om_update_lookup)

lemma set_child_simps [simp]:
  "fingerPrint (set_child fp fid f m) = fingerPrint m" "pendingFlows (set_child fp fid f m) = pendingFlows m"
  "acceptSem (set_child fp fid f m) = acceptSem m" "outPacketCount (set_child fp fid f m) = outPacketCount m"
  "mx_sent (set_child fp fid f m) = mx_sent m"
  by (simp_all add: set_child_def)

lemma set_child_inv:
  assumes "mux_inv m" "fid \<noteq> 0"
  shows "mux_inv (set_child (fingerPrint m) fid f m)"
proof -
  have wf: "om_wf (om_update (clientFlowId (fingerPrint m) fid) f (children m))"
    using assms by (simp add: om_update_wf mux_inv_wf)
  have keys: "set (om_keys (om_update (clientFlowId (fingerPrint m) fid) f (children m)))
      = insert (clientFlowId (fingerPrint m) fid) (set (om_keys (children m)))"
    by (simp add: om_keys_def om_update_set)
  show ?thesis
    using assms wf by (auto simp: mux_inv_def set_child_def keys own_key_def)
qed

lemma erase_child_inv:
  assumes "mux_inv m" "clientFlowId (fingerPrint m) fid \<notin> set (pendingFlows m)"
  shows "mux_inv (erase_child (fingerPrint m) fid m)"
proof -
  have "set (om_keys (om_erase (clientFlowId (fingerPrint m) fid) (children m)))
      = set (om_keys (children m)) - {clientFlowId (fingerPrint m) fid}"
    by (auto simp: om_keys_def om_erase_def)
  then show ?thesis
    using assms by (auto simp: mux_inv_def erase_child_def om_erase_wf own_key_def)
qed

lemma own_child:
  assumes "mux_inv m" "getChild fp fid m = Some f"
  shows "fp = fingerPrint m" "fid \<noteq> 0"
proof -
  have "fid \<noteq> 0" "map_of (children m) (clientFlowId fp fid) = Some f"
    using assms(2) by (auto simp: getChild_def split: if_splits)
  moreover then have "own_key m (clientFlowId fp fid)"
    using assms(1) keys_lookup [OF assms(1)] by (auto simp: mux_inv_def)
  ultimately show "fp = fingerPrint m" "fid \<noteq> 0" by (auto simp: own_key_def)
qed

section \<open>Optional headers\<close>

definition acked :: "appInt16 \<Rightarrow> flow \<Rightarrow> flow \<Rightarrow> bool" where
  "acked n f f' \<longleftrightarrow> flow_recvAck n f = Inr f'"

text \<open>An acknowledgement concerns its own flow and nothing else of the state.\<close>

definition flows_only :: "mux \<Rightarrow> mux \<Rightarrow> bool" where
  "flows_only m m' \<longleftrightarrow> fingerPrint m' = fingerPrint m \<and> pendingFlows m' = pendingFlows m \<and> acceptSem m' = acceptSem m \<and>
     outPacketCount m' = outPacketCount m \<and> mx_sent m' = mx_sent m \<and> om_keys (children m') = om_keys (children m)"

lemma flows_only_refl [simp]: "flows_only m m"
  by (simp add: flows_only_def)

lemma flows_only_trans: "flows_only a b \<Longrightarrow> flows_only b c \<Longrightarrow> flows_only a c"
  by (simp add: flows_only_def)

lemma flows_only_set_child:
  assumes "mux_inv m" "getChild (fingerPrint m) fid m = Some g"
  shows "flows_only m (set_child (fingerPrint m) fid f m)"
  using assms om.keys_update_present [OF mux_inv_wf [OF assms(1)], of "clientFlowId (fingerPrint m) fid" f]
  by (auto simp: flows_only_def getChild_def set_child_def split: if_splits)

lemma ack_child_ok:
  assumes "mux_inv m" "ack_child fid n m = Inr m'"
  shows "mux_inv m' \<and> flows_only m m' \<and>
    (\<forall>fid'. getChild (fingerPrint m) fid' m' =
      (if fid' = fid then map_option (\<lambda>f. projr (flow_recvAck n f)) (getChild (fingerPrint m) fid m)
       else getChild (fingerPrint m) fid' m))"
proof (cases "getChild (fingerPrint m) fid m")
  case None
  then show ?thesis using assms by (simp add: ack_child_def flows_only_def)
next
  case (Some f)
  then obtain f' where f': "flow_recvAck n f = Inr f'" "m' = set_child (fingerPrint m) fid f' m"
    using assms(2) by (auto simp: ack_child_def bind_res_Inr_iff)
  have "fid \<noteq> 0" using own_child [OF assms(1) Some] by simp
  then show ?thesis
    using f' Some assms(1) flows_only_set_child [OF assms(1) Some]
    by (auto simp: set_child_inv getChild_set_child)
qed

lemma ack_infos_ok: "mux_inv m \<Longrightarrow> ack_infos is m = Inr m' \<Longrightarrow> mux_inv m' \<and> flows_only m m'"
proof (induction "is" m rule: ack_infos.induct)
  case (2 fid n "is" m)
  then obtain m1 where m1: "ack_child fid n m = Inr m1" "ack_infos is m1 = Inr m'"
    by (auto simp: bind_res_Inr_iff)
  note a = ack_child_ok [OF 2(2) m1(1)]
  then have "mux_inv m' \<and> flows_only m1 m'" using 2(1) m1(2) by blast
  then show ?case using a flows_only_trans by blast
qed (simp add: flows_only_def)

lemma processOptionalHeader_ok:
  assumes "mux_inv m" "processOptionalHeader h m = Inr m'"
  shows "mux_inv m' \<and> flows_only m m'"
proof (cases h)
  case (PacketAckHeader pad fid n)
  show ?thesis
  proof (cases "getChild (fingerPrint m) fid m")
    case None
    then show ?thesis using assms PacketAckHeader by (simp add: flows_only_def)
  next
    case (Some f)
    have "fid \<noteq> 0" using own_child [OF assms(1) Some] by simp
    then show ?thesis
      using assms PacketAckHeader Some flows_only_set_child [OF assms(1) Some] set_child_inv by auto
  qed
qed (use assms ack_infos_ok in auto)

lemma processOptionalHeaders_ok: "mux_inv m \<Longrightarrow> processOptionalHeaders hs m = Inr m' \<Longrightarrow> mux_inv m' \<and> flows_only m m'"
proof (induction hs m rule: processOptionalHeaders.induct)
  case (2 h hs m)
  then obtain m1 where m1: "processOptionalHeader h m = Inr m1" "processOptionalHeaders hs m1 = Inr m'"
    by (auto simp: bind_res_Inr_iff)
  note a = processOptionalHeader_ok [OF 2(2) m1(1)]
  then have "mux_inv m' \<and> flows_only m1 m'" using 2(1) m1(2) by blast
  then show ?case using a flows_only_trans by blast
qed (simp add: flows_only_def)

section \<open>Routing\<close>

lemma insert_pending_simps [simp]:
  "children (insert_pending k m) = children m" "fingerPrint (insert_pending k m) = fingerPrint m"
  "acceptSem (insert_pending k m) = acceptSem m"
  by (simp_all add: insert_pending_def)

lemma insert_pending_inv:
  assumes "mux_inv m" "k \<in> set (om_keys (children m))" "k \<notin> set (pendingFlows m)"
  shows "mux_inv ((insert_pending k m)\<lparr> acceptSem := acceptSem m + 1 \<rparr>)"
proof -
  have "insort_insert k (pendingFlows m) = insort k (pendingFlows m)"
    using assms(3) by (rule insort_insert_insort)
  then show ?thesis
    using assms by (simp add: mux_inv_def insert_pending_def own_key_def sorted_insort distinct_insort set_insort_key)
qed

lemma addNewFlow_child:
  assumes "mux_inv m" "h_flowId (p_header pkt) \<noteq> 0" "getChild (fingerPrint m) (h_flowId (p_header pkt)) m = None"
  shows "addNewFlow pkt m = set_child (fingerPrint m) (h_flowId (p_header pkt)) (NewF (init_new_flow (h_flowId (p_header pkt)) 500)) m"
  using assms by (simp add: addNewFlow_def getNewConnection_def getChild_def Let_def)

definition start_flow :: "Packet \<Rightarrow> mux \<Rightarrow> flow" where
  "start_flow pkt m =
     (case getChild (fingerPrint m) (h_flowId (p_header pkt)) m of
        Some f \<Rightarrow> f
      | None \<Rightarrow> NewF (init_new_flow (h_flowId (p_header pkt)) 500))"

text \<open>What an accepted data packet does once its optional headers are processed.\<close>

lemma recv_data:
  assumes inv: "mux_inv m" and opts: "processOptionalHeaders (p_optHeaders pkt) m = Inr m1"
    and fp: "h_fingerPrint (p_header pkt) = fingerPrint m" and fid: "h_flowId (p_header pkt) \<noteq> 0"
    and ctr: "\<not> has_flag (h_flag (p_header pkt)) FLAG_CTR" and acc: "p_accepted pkt"
    and child: "flow_recv (mux_sendPacketTo par) pkt (start_flow pkt m1) = Inr (ret, f')"
  shows "\<exists>m'. mux_recvPacketFrom par pkt m = Inr (0, getChild (fingerPrint m) (h_flowId (p_header pkt)) m1 = None, m') \<and>
    mux_inv m' \<and> fingerPrint m' = fingerPrint m \<and>
    (\<forall>fid'. getChild (fingerPrint m) fid' m' =
       (if fid' = h_flowId (p_header pkt) then Some f' else getChild (fingerPrint m) fid' m1)) \<and>
    set (pendingFlows m') = set (pendingFlows m) \<union>
      (if getChild (fingerPrint m) (h_flowId (p_header pkt)) m1 = None
       then {clientFlowId (fingerPrint m) (h_flowId (p_header pkt))} else {})"
proof -
  let ?fid = "h_flowId (p_header pkt)" and ?fp = "fingerPrint m"
  have m1: "mux_inv m1" "flows_only m m1" using processOptionalHeaders_ok [OF inv opts] by auto
  then have fp1: "fingerPrint m1 = ?fp" "pendingFlows m1 = pendingFlows m" by (auto simp: flows_only_def)
  let ?k = "clientFlowId ?fp ?fid"
  show ?thesis
  proof (cases "getChild ?fp ?fid m1")
    case (Some f)
    then have f: "start_flow pkt m1 = f" by (simp add: start_flow_def fp1)
    let ?m' = "set_child ?fp ?fid f' m1"
    have "mux_recvPacketFrom par pkt m = Inr (0, False, ?m')"
      using opts fp fid ctr acc child Some f by (simp add: mux_recvPacketFrom_def Let_def)
    moreover have "mux_inv ?m'" using set_child_inv [OF m1(1) fid] fp1 by simp
    ultimately show ?thesis using Some m1(1) fid fp1 by (auto simp: getChild_set_child)
  next
    case None
    then have f: "start_flow pkt m1 = NewF (init_new_flow ?fid 500)" by (simp add: start_flow_def fp1)
    let ?f = "NewF (init_new_flow ?fid 500)"
    let ?m2 = "set_child ?fp ?fid ?f m1"
    let ?m3 = "(insert_pending ?k ?m2)\<lparr> acceptSem := acceptSem m1 + 1 \<rparr>"
    let ?m' = "set_child ?fp ?fid f' ?m3"
    have m2: "mux_inv ?m2" using set_child_inv [OF m1(1) fid, of ?f] fp1 by simp
    have add: "addNewFlow pkt m1 = ?m2" using addNewFlow_child [OF m1(1) fid] None fp1 by simp
    have g2: "getChild ?fp ?fid ?m2 = Some ?f" using getChild_set_child [OF m1(1) fid] by simp
    have run: "mux_recvPacketFrom par pkt m = Inr (0, True, ?m')"
      using opts fp fid ctr acc child None f add g2 by (simp add: mux_recvPacketFrom_def Let_def)
    have nk: "?k \<notin> set (pendingFlows m1)"
      using None m1(1) keys_lookup [OF m1(1), of ?k] fid by (auto simp: mux_inv_def getChild_def)
    have "?k \<in> set (om_keys (children ?m2))" by (simp add: set_child_def om_keys_def om_update_set)
    from insert_pending_inv [OF m2 this] nk have "mux_inv ?m3" by simp
    moreover have "fingerPrint ?m3 = ?fp" using fp1 by simp
    ultimately have inv': "mux_inv ?m'" "\<forall>fid'. getChild ?fp fid' ?m' = (if fid' = ?fid then Some f' else getChild ?fp fid' ?m3)"
      using set_child_inv [OF _ fid, of ?m3 f'] getChild_set_child [OF _ fid, of ?m3 ?fp] by auto
    have "getChild ?fp fid' ?m3 = getChild ?fp fid' m1" if "fid' \<noteq> ?fid" for fid'
      using getChild_set_child [OF m1(1) fid, of ?fp fid' ?fp ?f] that by (auto simp: getChild_def split: if_splits)
    then have "\<forall>fid'. getChild ?fp fid' ?m' = (if fid' = ?fid then Some f' else getChild ?fp fid' m1)"
      using inv'(2) by simp
    then show ?thesis
      using run inv'(1) None fp1 by (auto simp: insert_pending_def set_insort_insert)
  qed
qed

text \<open>
  C16: packets reach their flow and no other.  An accepted data packet with the
  connection's fingerprint first lets its optional headers move the windows of
  the flows they name; then it is handed to the flow it names, which is created
  and put among the pending flows exactly when it did not exist; no other flow
  changes, and the multiplexer's invariant is kept.
\<close>

theorem mux_routes_packet:
  assumes "mux_inv m" "processOptionalHeaders (p_optHeaders pkt) m = Inr m1"
    and "h_fingerPrint (p_header pkt) = fingerPrint m" "h_flowId (p_header pkt) \<noteq> 0"
    and "\<not> has_flag (h_flag (p_header pkt)) FLAG_CTR" "p_accepted pkt"
    and "flow_recv (mux_sendPacketTo par) pkt
        (case getChild (fingerPrint m) (h_flowId (p_header pkt)) m1 of
           Some f \<Rightarrow> f | None \<Rightarrow> NewF (init_new_flow (h_flowId (p_header pkt)) 500)) = Inr (ret, f')"
  shows "\<exists>m'. mux_recvPacketFrom par pkt m = Inr (0, getChild (fingerPrint m) (h_flowId (p_header pkt)) m1 = None, m') \<and>
    mux_inv m' \<and>
    (\<forall>fid. getChild (fingerPrint m) fid m' =
       (if fid = h_flowId (p_header pkt) then Some f' else getChild (fingerPrint m) fid m1)) \<and>
    set (pendingFlows m') = set (pendingFlows m) \<union>
      (if getChild (fingerPrint m) (h_flowId (p_header pkt)) m1 = None
       then {clientFlowId (fingerPrint m) (h_flowId (p_header pkt))} else {})"
proof -
  have "fingerPrint m1 = fingerPrint m"
    using processOptionalHeaders_ok [OF assms(1,2)] by (auto simp: flows_only_def)
  then have "flow_recv (mux_sendPacketTo par) pkt (start_flow pkt m1) = Inr (ret, f')"
    using assms(7) by (simp add: start_flow_def)
  from recv_data [OF assms(1-6) this] show ?thesis by blast
qed

section \<open>Runs\<close>

lemma recv_inv:
  assumes "mux_inv m" "h_fingerPrint (p_header pkt) = fingerPrint m" "mux_recvPacketFrom par pkt m = Inr (ret, nf, m')"
  shows "mux_inv m'" "fingerPrint m' = fingerPrint m"
proof -
  let ?fid = "h_flowId (p_header pkt)"
  show "mux_inv m'" "fingerPrint m' = fingerPrint m"
  proof (atomize (full), cases "?fid = 0 \<and> \<not> has_flag (h_flag (p_header pkt)) FLAG_CTR")
    case True
    then show "mux_inv m' \<and> fingerPrint m' = fingerPrint m" using assms by (simp add: mux_recvPacketFrom_def)
  next
    case False
    obtain m1 where m1: "processOptionalHeaders (p_optHeaders pkt) m = Inr m1"
      using assms(3) False by (auto simp: mux_recvPacketFrom_def Let_def bind_res_Inr_iff split: if_splits)
    note ok = processOptionalHeaders_ok [OF assms(1) m1]
    show "mux_inv m' \<and> fingerPrint m' = fingerPrint m"
    proof (cases "has_flag (h_flag (p_header pkt)) FLAG_CTR \<or> \<not> p_accepted pkt")
      case True
      then have "m' = m1" using assms(3) m1 False by (auto simp: mux_recvPacketFrom_def Let_def split: if_splits)
      then show ?thesis using ok by (simp add: flows_only_def)
    next
      case data: False
      then have fid: "?fid \<noteq> 0" using False by simp
      have fp1: "fingerPrint m1 = fingerPrint m" using ok by (simp add: flows_only_def)
      have add: "getChild (fingerPrint m) ?fid (if getChild (fingerPrint m) ?fid m1 = None then addNewFlow pkt m1 else m1)
          = Some (start_flow pkt m1)"
      proof (cases "getChild (fingerPrint m) ?fid m1")
        case None
        then show ?thesis
          using addNewFlow_child [of m1 pkt] ok fid fp1 getChild_set_child [of m1 ?fid]
          by (simp add: start_flow_def)
      qed (simp add: start_flow_def fp1)
      have "\<exists>ret f'. flow_recv (mux_sendPacketTo par) pkt (start_flow pkt m1) = Inr (ret, f')"
        using assms(2,3) m1 False data add by (auto simp: mux_recvPacketFrom_def Let_def bind_res_Inr_iff)
      then obtain r f' where "flow_recv (mux_sendPacketTo par) pkt (start_flow pkt m1) = Inr (r, f')" by blast
      from recv_data [OF assms(1) m1 assms(2) fid _ _ this] data assms(3) show ?thesis by auto
    qed
  qed
qed

lemma count_read_inv: "mux_inv m \<Longrightarrow> mux_inv (count_read pad m)" "fingerPrint (count_read pad m) = fingerPrint m"
  by (simp_all add: count_read_def Let_def mux_inv_def own_key_def)

lemma acceptFlow_ok:
  assumes "mux_inv m"
  shows "pendingFlows m = [] \<and> acceptFlow m = Inl Blocked \<or>
    (\<exists>k ks. pendingFlows m = k # ks \<and> key_flowId k \<noteq> 0 \<and> map_of (children m) k \<noteq> None \<and>
       acceptFlow m = Inr (k, m\<lparr> acceptSem := acceptSem m - 1, pendingFlows := ks \<rparr>) \<and>
       mux_inv (m\<lparr> acceptSem := acceptSem m - 1, pendingFlows := ks \<rparr>))"
proof (cases "pendingFlows m")
  case Nil
  then show ?thesis using assms by (simp add: mux_inv_def acceptFlow_def)
next
  case (Cons k ks)
  then have "k \<in> set (om_keys (children m))" "acceptSem m = Suc (length ks)" using assms by (auto simp: mux_inv_def)
  moreover then have "map_of (children m) k \<noteq> None" "key_flowId k \<noteq> 0"
    using keys_lookup [OF assms] assms by (auto simp: mux_inv_def own_key_def)
  ultimately show ?thesis
    using Cons assms by (auto simp: acceptFlow_def mux_inv_def own_key_def)
qed

text \<open>
  A run of the multiplexer of a connection: packets with the connection's
  fingerprint arrive, the application opens flows and accepts, reads, writes and
  closes those it has accepted.
\<close>

inductive mux_run :: "(Packet \<Rightarrow> int) \<Rightarrow> mux \<Rightarrow> bool" for par where
  start: "mux_run par (new_mux fp)"
| recv: "mux_run par m \<Longrightarrow> h_fingerPrint (p_header pkt) = fingerPrint m \<Longrightarrow>
    mux_recvPacketFrom par pkt m = Inr (ret, nf, m') \<Longrightarrow> mux_run par m'"
| open_flow: "mux_run par m \<Longrightarrow> fid \<noteq> 0 \<Longrightarrow> mux_run par (getNewConnection (fingerPrint m) fid type m)"
| accept: "mux_run par m \<Longrightarrow> acceptFlow m = Inr (k, m') \<Longrightarrow> mux_run par m'"
| send: "mux_run par m \<Longrightarrow> mux_sendData par fp fid d m = Inr (ret, m') \<Longrightarrow> mux_run par m'"
| read: "mux_run par m \<Longrightarrow> clientFlowId fp fid \<notin> set (pendingFlows m) \<Longrightarrow>
    mux_readData par pad fp fid n m = Inr (ret, bs, m') \<Longrightarrow> mux_run par m'"
| close: "mux_run par m \<Longrightarrow> clientFlowId fp fid \<notin> set (pendingFlows m) \<Longrightarrow>
    mux_closeFlow par fp fid m = Inr (st, w, m') \<Longrightarrow> mux_run par m'"

lemma mux_closeFlow_inv:
  assumes "mux_inv m" "clientFlowId fp fid \<notin> set (pendingFlows m)" "mux_closeFlow par fp fid m = Inr (st, w, m')"
  shows "mux_inv m'"
proof (cases "getChild fp fid m")
  case None
  then show ?thesis using assms by (simp add: mux_closeFlow_def)
next
  case (Some f)
  note own = own_child [OF assms(1) Some]
  then show ?thesis
    using assms Some set_child_inv [OF assms(1) own(2)] erase_child_inv [OF assms(1), of fid]
    by (auto simp: mux_closeFlow_def bind_res_Inr_iff split: if_splits)
qed

lemma mux_run_inv: "mux_run par m \<Longrightarrow> mux_inv m"
proof (induction rule: mux_run.induct)
  case (start fp)
  show ?case by (rule new_mux_inv)
next
  case (recv m pkt ret nf m')
  then show ?case using recv_inv(1) by blast
next
  case (open_flow m fid type)
  then show ?case by (auto simp: getNewConnection_def set_child_inv split: CongType.split)
next
  case (accept m k m')
  then show ?case using acceptFlow_ok by force
next
  case (send m fp fid d ret m')
  show ?case
  proof (cases "getChild fp fid m")
    case (Some f)
    then show ?thesis
      using send own_child [OF send.IH Some] set_child_inv [OF send.IH]
      by (auto simp: mux_sendData_def bind_res_Inr_iff)
  qed (use send in \<open>simp add: mux_sendData_def\<close>)
next
  case (read m fp fid pad n ret bs m')
  show ?case
  proof (cases "getChild fp fid m")
    case (Some f)
    note own = own_child [OF read.IH Some]
    obtain f' m2 where f': "flow_readData n f = Inr (ret, bs, f')" "m' = count_read pad m2"
      "m2 = set_child fp fid f' m \<or> (\<exists>b w. mux_closeFlow par fp fid (set_child fp fid f' m) = Inr (b, w, m2))"
      using read.hyps(3) Some by (auto simp: mux_readData_def bind_res_Inr_iff Let_def split: if_splits)
    have "mux_inv (set_child fp fid f' m)" using set_child_inv [OF read.IH own(2)] own(1) by simp
    then have "mux_inv m2" using f'(3) read.hyps(2) mux_closeFlow_inv by auto
    then show ?thesis using f'(2) count_read_inv by simp
  qed (use read in \<open>simp add: mux_readData_def\<close>)
next
  case (close m fp fid st w m')
  then show ?case using mux_closeFlow_inv by blast
qed


section \<open>The status of the receiver moves the sender's windows\<close>

lemma status_infos:
  "foldl (\<lambda>hdr (k, f). addInfo hdr (key_flowId k) (getReadUpto f)) (PacketReadHeader pad is cnt) cs =
     PacketReadHeader pad (rev (map (\<lambda>(k, f). (key_flowId k, getReadUpto f)) cs) @ is) (cnt + of_nat (length cs))"
  by (induction cs arbitrary: "is" cnt) (auto simp: ac_simps split_def)

text \<open>Flows of the default class are never stopped by an acknowledgement.\<close>

definition all_new :: "mux \<Rightarrow> bool" where
  "all_new m \<longleftrightarrow> (\<forall>k f. map_of (children m) k = Some f \<longrightarrow> (\<exists>s. f = NewF s))"

definition newf_ack :: "appInt16 \<Rightarrow> flow \<Rightarrow> flow" where
  "newf_ack n f = (case f of NewF s \<Rightarrow> NewF (snd (nf_recvAck n s)) | StreamF s \<Rightarrow> StreamF s)"

lemma ack_child_new:
  assumes "mux_inv m" "all_new m"
  shows "\<exists>m'. ack_child fid n m = Inr m' \<and> mux_inv m' \<and> flows_only m m' \<and> all_new m' \<and>
    (\<forall>fid'. getChild (fingerPrint m) fid' m' =
      (if fid' = fid then map_option (newf_ack n) (getChild (fingerPrint m) fid' m) else getChild (fingerPrint m) fid' m))"
proof (cases "getChild (fingerPrint m) fid m")
  case None
  then show ?thesis using assms by (auto simp: ack_child_def)
next
  case (Some f)
  note own = own_child [OF assms(1) Some]
  obtain s where f: "f = NewF s" using Some assms(2) by (auto simp: all_new_def getChild_def split: if_splits)
  let ?m = "set_child (fingerPrint m) fid (newf_ack n f) m"
  have "ack_child fid n m = Inr ?m" using Some f by (simp add: ack_child_def newf_ack_def)
  moreover have "all_new ?m"
    using assms by (auto simp: all_new_def set_child_def om_update_lookup newf_ack_def f)
  ultimately show ?thesis
    using own Some set_child_inv [OF assms(1) own(2)] flows_only_set_child [OF assms(1) Some]
    by (auto simp: getChild_set_child [OF assms(1) own(2)])
qed

lemma ack_infos_new:
  assumes "mux_inv m" "all_new m" "distinct (map fst is)"
  shows "\<exists>m'. ack_infos is m = Inr m' \<and> mux_inv m' \<and> flows_only m m' \<and>
    (\<forall>fid. getChild (fingerPrint m) fid m' =
      (case map_of is fid of None \<Rightarrow> getChild (fingerPrint m) fid m
       | Some n \<Rightarrow> map_option (newf_ack n) (getChild (fingerPrint m) fid m)))"
  using assms
proof (induction "is" m rule: ack_infos.induct)
  case (2 fid n "is" m)
  obtain m1 where m1: "ack_child fid n m = Inr m1" "mux_inv m1" "flows_only m m1" "all_new m1"
    "\<forall>fid'. getChild (fingerPrint m) fid' m1 =
      (if fid' = fid then map_option (newf_ack n) (getChild (fingerPrint m) fid' m) else getChild (fingerPrint m) fid' m)"
    using ack_child_new [OF 2(2,3)] by blast
  then have fp: "fingerPrint m1 = fingerPrint m" by (simp add: flows_only_def)
  from 2(1) [OF m1(2,4)] 2(4) obtain m' where m': "ack_infos is m1 = Inr m'" "mux_inv m'" "flows_only m1 m'"
    "\<forall>fid. getChild (fingerPrint m) fid m' =
      (case map_of is fid of None \<Rightarrow> getChild (fingerPrint m) fid m1
       | Some n \<Rightarrow> map_option (newf_ack n) (getChild (fingerPrint m) fid m1))"
    unfolding fp by auto
  have "map_of is fid = None" using 2(4) by (simp add: map_of_eq_None_iff)
  then have "\<forall>fid'. getChild (fingerPrint m) fid' m' =
      (case map_of ((fid, n) # is) fid' of None \<Rightarrow> getChild (fingerPrint m) fid' m
       | Some n \<Rightarrow> map_option (newf_ack n) (getChild (fingerPrint m) fid' m))"
    using m'(4) m1(5) by (auto split: option.split)
  then show ?case using m1(1,3) m'(1-3) flows_only_trans by (intro exI [of _ m']) auto
qed auto

lemma map_of_rev_distinct: "distinct (map fst xs) \<Longrightarrow> map_of (rev xs) = map_of xs"
proof (induction xs)
  case (Cons x xs)
  then have "map_of xs (fst x) = None" by (simp add: map_of_eq_None_iff)
  then show ?case using Cons by (cases x) (auto simp: map_add_def fun_eq_iff split: option.split)
qed simp

lemma map_of_key_flowId:
  assumes "\<forall>k\<in>fst ` set cs. key_flowId k \<noteq> 0 \<and> k = clientFlowId fp (key_flowId k)" "fid \<noteq> 0"
  shows "map_of (map (\<lambda>(k, f). (key_flowId k, g f)) cs) fid = map_option g (map_of cs (clientFlowId fp fid))"
  using assms(1)
proof (induction cs)
  case (Cons c cs)
  obtain k f where c: "c = (k, f)" by (cases c)
  then have "k = clientFlowId fp fid \<longleftrightarrow> key_flowId k = fid" using Cons.prems by auto
  then show ?case using Cons c by auto
qed simp

text \<open>
  C20: the status one side reports is what the other side's flows are told.  Let
  \<open>mr\<close> be the receiving and \<open>ms\<close> the sending multiplexer of a connection (with
  the same fingerprint).  When the sender processes the header that the receiver
  builds, every flow that both sides have gets the acknowledgement of the last
  packet its peer has read, and every other flow is unchanged.
\<close>

theorem receiver_status_reaches_flows:
  assumes "mux_run par mr" "mux_run par' ms" "fingerPrint mr = fingerPrint ms" "all_new ms"
  shows "\<exists>ms'. processOptionalHeader (mux_getReceiverStatus pad mr) ms = Inr ms' \<and>
    (\<forall>fid s. getChild (fingerPrint ms) fid ms = Some (NewF s) \<longrightarrow>
      getChild (fingerPrint ms) fid ms' =
        Some (NewF (case getChild (fingerPrint mr) fid mr of
                      None \<Rightarrow> s | Some g \<Rightarrow> snd (nf_recvAck (getReadUpto g) s))))"
proof -
  have inv: "mux_inv mr" "mux_inv ms" using assms(1,2) mux_run_inv by blast+
  let ?is = "rev (map (\<lambda>(k, f). (key_flowId k, getReadUpto f)) (children mr))"
  have hdr: "mux_getReceiverStatus pad mr = PacketReadHeader pad ?is (of_nat (length (children mr)))"
    by (simp add: mux_getReceiverStatus_def new_read_header_def status_infos)
  have own: "\<forall>k\<in>fst ` set (children mr). key_flowId k \<noteq> 0 \<and> k = clientFlowId (fingerPrint mr) (key_flowId k)"
    using inv(1) by (auto simp: mux_inv_def om_keys_def own_key_def)
  have "distinct (map fst (children mr))"
    using om.distinct_keys [OF mux_inv_wf [OF inv(1)]] by (simp add: om_keys_def)
  moreover have "inj_on key_flowId (set (map fst (children mr)))"
    using own by (intro inj_onI) (metis image_set)
  ultimately have d: "distinct (map key_flowId (map fst (children mr)))" using distinct_map by blast
  have fsts: "map fst ?is = rev (map key_flowId (map fst (children mr)))"
    by (simp add: rev_map split_def)
  have dis: "distinct (map fst ?is)" unfolding fsts using d by simp
  obtain ms' where ms': "ack_infos ?is ms = Inr ms'"
    "\<forall>fid. getChild (fingerPrint ms) fid ms' =
      (case map_of ?is fid of None \<Rightarrow> getChild (fingerPrint ms) fid ms
       | Some n \<Rightarrow> map_option (newf_ack n) (getChild (fingerPrint ms) fid ms))"
    using ack_infos_new [OF inv(2) assms(4) dis] by blast
  have look: "map_of ?is fid = map_option getReadUpto (getChild (fingerPrint mr) fid mr)" if "fid \<noteq> 0" for fid
  proof -
    have "map_of ?is fid = map_of (map (\<lambda>(k, f). (key_flowId k, getReadUpto f)) (children mr)) fid"
      using d map_of_rev_distinct [of "map (\<lambda>(k, f). (key_flowId k, getReadUpto f)) (children mr)"]
      by (simp add: split_def comp_def)
    then show ?thesis using map_of_key_flowId [OF own that] that by (simp add: getChild_def)
  qed
  have "getChild (fingerPrint ms) fid ms' =
      Some (NewF (case getChild (fingerPrint mr) fid mr of None \<Rightarrow> s | Some g \<Rightarrow> snd (nf_recvAck (getReadUpto g) s)))"
    if "getChild (fingerPrint ms) fid ms = Some (NewF s)" for fid s
    using ms'(2) that look [of fid] own_child(2) [OF inv(2) that]
    by (auto simp: newf_ack_def split: option.split)
  then show ?thesis using ms'(1) hdr by auto
qed

text \<open>Witnesses: the first data packet of flow 5 of the connection with fingerprint 9.\<close>

definition flow5_pkt :: Packet where
  "flow5_pkt = new_Packet\<lparr> p_data := Some [104, 101], p_len := 2, p_accepted := True,
     p_header := reinit_header\<lparr> h_flag := FLAG_DAT, h_fingerPrint := 9, h_flowId := 5 \<rparr> \<rparr>"

definition flow5_state :: new_flow where
  "flow5_state = (init_new_flow 5 500)\<lparr> rcvPktQueue := Some [0 \<mapsto> flow5_pkt], startedRecv := True,
     availableUpTo := 0, readSem := 1 \<rparr>"

lemma flow5_recv:
  "flow_recv par flow5_pkt (NewF (init_new_flow 5 500)) = Inr (0, NewF flow5_state)"
proof -
  have fl: "has_flag FLAG_DAT FLAG_DAT" "\<not> has_flag FLAG_DAT FLAG_FFN" by code_simp+
  have zero: "(65536 :: appInt16) = 0" by simp
  have "nf_recvPacketFrom par flow5_pkt (init_new_flow 5 500) = Inr (0, flow5_state)"
    by (simp add: nf_recvPacketFrom_def flow5_pkt_def flow5_state_def init_new_flow_def reinit_header_def
        avail_loop_numeral zero fl Let_def)
  then show ?thesis by simp
qed

lemma flow5_flags: "\<not> has_flag (h_flag (p_header flow5_pkt)) FLAG_CTR"
  by (simp add: flow5_pkt_def has_flag_def flag_defs)

lemma distinct_set_singleton: "distinct xs \<Longrightarrow> set xs = {k} \<Longrightarrow> xs = [k]"
  by (cases xs) (auto simp: set_eq_iff, metis list.set_intros(1) list.exhaust)

lemma mux_routes_packet_witness:
  "\<exists>m'. mux_recvPacketFrom (\<lambda>_. 0) flow5_pkt (new_mux 9) = Inr (0, True, m') \<and>
     getChild 9 5 m' = Some (NewF flow5_state) \<and> pendingFlows m' = [clientFlowId 9 5]"
proof -
  have g: "getChild 9 5 (new_mux 9) = None" by (simp add: getChild_def new_mux_def)
  obtain m' where m': "mux_recvPacketFrom (\<lambda>_. 0) flow5_pkt (new_mux 9) = Inr (0, True, m')" "mux_inv m'"
      "getChild 9 5 m' = Some (NewF flow5_state)" "set (pendingFlows m') = {clientFlowId 9 5}"
    using mux_routes_packet [OF new_mux_inv, of flow5_pkt 9 "new_mux 9" "\<lambda>_. 0" 0 "NewF flow5_state"] flow5_flags g flow5_recv
    by (auto simp: new_mux_def flow5_pkt_def reinit_header_def)
  have "distinct (pendingFlows m')" using m'(2) by (simp add: mux_inv_def)
  then have "pendingFlows m' = [clientFlowId 9 5]" using m'(4) by (rule distinct_set_singleton)
  then show ?thesis using m' by blast
qed

lemma flow5_run:
  obtains m where "mux_recvPacketFrom (\<lambda>_. 0) flow5_pkt (new_mux 9) = Inr (0, True, m)" "mux_run (\<lambda>_. 0) m"
    "fingerPrint m = 9" "getChild 9 5 m = Some (NewF flow5_state)" "clientFlowId 9 5 \<in> set (pendingFlows m)"
proof -
  have g: "getChild 9 5 (new_mux 9) = None" by (simp add: getChild_def new_mux_def)
  obtain m' where m': "mux_recvPacketFrom (\<lambda>_. 0) flow5_pkt (new_mux 9) = Inr (0, True, m')" "fingerPrint m' = 9"
      "getChild 9 5 m' = Some (NewF flow5_state)" "set (pendingFlows m') = {clientFlowId 9 5}"
    using recv_data [OF new_mux_inv, of flow5_pkt 9 "new_mux 9" "\<lambda>_. 0" 0 "NewF flow5_state"] flow5_flags g flow5_recv
    by (auto simp: new_mux_def flow5_pkt_def reinit_header_def start_flow_def)
  have "mux_run (\<lambda>_. 0) m'"
    by (rule mux_run.recv [OF mux_run.start _ m'(1)]) (simp add: flow5_pkt_def new_mux_def)
  then show thesis using m' that by blast
qed


text \<open>The receiver got (and did not read yet) one packet of flow 5; the sender opened the flow.\<close>

lemma receiver_status_reaches_flows_witness:
  "\<exists>mr ms ms'. mux_run (\<lambda>_. 0) mr \<and> mux_run (\<lambda>_. 0) ms \<and>
     processOptionalHeader (mux_getReceiverStatus 0 mr) ms = Inr ms' \<and>
     getChild 9 5 ms' = Some (NewF (snd (nf_recvAck 65535 (init_new_flow 5 500))))"
proof -
  obtain mr where mr: "mux_run (\<lambda>_. 0) mr" "fingerPrint mr = 9" "getChild 9 5 mr = Some (NewF flow5_state)"
    using flow5_run by blast
  let ?ms = "getNewConnection (fingerPrint (new_mux 9)) 5 NEW_FLOW_HANDLER (new_mux 9)"
  have ms: "mux_run (\<lambda>_. 0) ?ms" by (rule mux_run.open_flow [OF mux_run.start]) simp
  have fp: "fingerPrint ?ms = 9" "all_new ?ms" "getChild 9 5 ?ms = Some (NewF (init_new_flow 5 500))"
    by (simp_all add: getNewConnection_def new_mux_def all_new_def set_child_def getChild_def)
  show ?thesis
  proof -
    obtain ms' where ms': "processOptionalHeader (mux_getReceiverStatus 0 mr) ?ms = Inr ms'"
      "getChild 9 5 ms' = Some (NewF (case getChild 9 5 mr of None \<Rightarrow> init_new_flow 5 500
         | Some g \<Rightarrow> snd (nf_recvAck (getReadUpto g) (init_new_flow 5 500))))"
      using receiver_status_reaches_flows [OF mr(1) ms _ fp(2), of 0] mr(2) fp(1,3) by auto
    have "readUpto flow5_state = 65535" by (simp add: flow5_state_def init_new_flow_def)
    then show ?thesis using mr ms ms' by auto
  qed
qed

section \<open>Two aborts\<close>

text \<open>
  A data packet of an unknown flow with another fingerprint aborts the
  process: the new flow is created under the multiplexer's fingerprint, looked
  up under the packet's, and the assertion on the result fails.  The client
  passes packets on without comparing the fingerprint.
\<close>

theorem mux_fingerprint_mismatch_aborts:
  assumes "mux_inv m" "h_fingerPrint (p_header pkt) \<noteq> fingerPrint m" "h_flowId (p_header pkt) \<noteq> 0"
    and "p_optHeaders pkt = []" "\<not> has_flag (h_flag (p_header pkt)) FLAG_CTR" "p_accepted pkt"
  shows "mux_recvPacketFrom par pkt m = Inl Assert_Failed"
proof -
  let ?fp = "h_fingerPrint (p_header pkt)" and ?fid = "h_flowId (p_header pkt)"
  have no: "getChild ?fp ?fid m = None" using own_child(1) [OF assms(1)] assms(2) by (cases "getChild ?fp ?fid m") auto
  have "getChild ?fp ?fid (addNewFlow pkt m) = None"
    using no assms(1,2,3) by (auto simp: addNewFlow_def getNewConnection_def Let_def getChild_set_child)
  then show ?thesis using assms no by (simp add: mux_recvPacketFrom_def Let_def)
qed

lemma mux_fingerprint_mismatch_aborts_witness:
  "mux_recvPacketFrom (\<lambda>_. 0) flow5_pkt (new_mux 8) = Inl Assert_Failed"
  by (rule mux_fingerprint_mismatch_aborts [OF new_mux_inv])
    (simp_all add: flow5_pkt_def new_mux_def reinit_header_def has_flag_def flag_defs)

text \<open>The multiplexer's timeout handler asserts as soon as it has a flow of the default class.\<close>

lemma mux_timeoutEvent_aborts:
  "(k, NewF s) \<in> set m \<Longrightarrow> mux_timeoutEvent m = Inl Assert_Failed"
  by (induction m rule: mux_timeoutEvent.induct) (auto, case_tac f, auto)

end
