(* ===== verification/SackHandler.thy ===== *)
theory SackHandler
  imports SackChannel
begin

text \<open>
  The two operations \<open>SackNewRenoChannelHandler\<close> overrides
  (src/src/TunnelLib/ChannelHandler/SackNewRenoChannelHandler.cc): \<open>sendSeq\<close>,
  which tolerates an empty cell but then keeps its lock, and \<open>ackRecv\<close>, which
  releases single packets ahead of the cumulative acknowledgement and adds the
  multi-recovery state.  Everything else is inherited from the basic handler.
\<close>

definition s_sendSeq :: "env \<Rightarrow> appInt16 \<Rightarrow> 'a sack_chan_scheme \<Rightarrow> (int \<times> 'a sack_chan_scheme) res" where
  "s_sendSeq env seq c =
     (if sendSeqLocked c then Inl Blocked
      else case sb_pkt (cells (senderBuffer c) seq) of
        None \<Rightarrow> Inr (- 42, c\<lparr> sendSeqLocked := True \<rparr>)
      | Some _ \<Rightarrow> b_sendSeq env seq c)"

definition s_release_cell :: "appInt16 \<Rightarrow> Packet \<Rightarrow> 'a chan_scheme \<Rightarrow> 'a chan_scheme res" where
  "s_release_cell i pkt c =
     bind_res (res_sb (stopTimer i) c) (\<lambda>c1. Inr (upd_sb (reset_cell i) (ch_freePacket pkt c1)))"

definition s_release_orig :: "Packet \<Rightarrow> 'a chan_scheme \<Rightarrow> 'a chan_scheme res" where
  "s_release_orig pkt c =
     (let o1 = h_origAckNo (p_header pkt) in
      case sb_pkt (cells (senderBuffer c) o1) of
        None \<Rightarrow> Inr c
      | Some p \<Rightarrow> if h_ackNo (p_header pkt) \<noteq> o1 then s_release_cell o1 p c else Inr c)"

fun s_release_acked :: "nat \<Rightarrow> appInt16 \<Rightarrow> 'a chan_scheme \<Rightarrow> 'a chan_scheme res" where
  "s_release_acked 0 i c = Inr c"
| "s_release_acked (Suc n) i c =
     (case sb_pkt (cells (senderBuffer c) i) of
        None \<Rightarrow> s_release_acked n (i + 1) c
      | Some p \<Rightarrow> bind_res (s_release_cell i p c) (s_release_acked n (i + 1)))"

fun s_restart_range :: "nat \<Rightarrow> appInt16 \<Rightarrow> int \<Rightarrow> 'a chan_scheme \<Rightarrow> 'a chan_scheme res" where
  "s_restart_range 0 i t c = Inr c"
| "s_restart_range (Suc n) i t c =
     (if sb_pkt (cells (senderBuffer c) i) = None then s_restart_range n (i + 1) t c
      else bind_res (res_sb (restartTimer i t) c) (s_restart_range n (i + 1) t))"

definition s_ack_new :: "env \<Rightarrow> Packet \<Rightarrow> appInt16 \<Rightarrow> 'a sack_chan_scheme \<Rightarrow> 'a sack_chan_scheme res" where
  "s_ack_new env pkt n c =
     (let acked = lastAcked (senderBuffer c) + 1 in
      bind_res (s_release_acked (unat n) acked (b_advance env pkt c)) (\<lambda>c1.
      drop_count (b_sendNew s_sendSeq env (push_bit 1 n) (b_grow_window c1))))"

definition s_ack_partial :: "env \<Rightarrow> Packet \<Rightarrow> appInt16 \<Rightarrow> 'a sack_chan_scheme \<Rightarrow> 'a sack_chan_scheme res" where
  "s_ack_partial env pkt n c =
     (let acked = lastAcked (senderBuffer c) + 1 in
      bind_res (s_release_acked (unat n) acked (b_advance env pkt c)) (\<lambda>c1.
      let r = recover c1 - n; acked = lastAcked (senderBuffer c1) + 1 in
      bind_res (s_restart_range (unat r) acked (e_now env) (c1\<lparr> recover := r \<rparr>)) (\<lambda>c2.
      if ch_status c2 = FAST_RECOVERY then
        bind_res (res_sb (stopTimer acked) (c2\<lparr> ch_status := MULTI_RECOVERY, multiRecoverIndex := acked + 1 \<rparr>)) (\<lambda>c3.
        bind_res (s_sendSeq env acked c3) (\<lambda>(_, c4).
        Inr (upd_sb count_dup (c4\<lparr> duplicateCount := 3 \<rparr>))))
      else
        bind_res (drop_count (b_sendNew s_sendSeq env 1 c2)) (\<lambda>c3.
        Inr (updateCwnd (SET_TO (fl32 (fl32 (cwnd c3 - of_int (uint n)) + 1))) c3)))))"

text \<open>The third duplicate also notes where recovery ends.\<close>

definition s_enter_recovery :: "'a sack_chan_scheme \<Rightarrow> 'a sack_chan_scheme" where
  "s_enter_recovery c =
     (if ch_status c \<noteq> FAST_RECOVERY
      then (b_enter_recovery c)\<lparr> recoverIndex := maxSent (senderBuffer c) \<rparr> else c)"

definition s_ack_duplicate :: "env \<Rightarrow> 'a sack_chan_scheme \<Rightarrow> 'a sack_chan_scheme res" where
  "s_ack_duplicate env c0 =
     (let c = c0\<lparr> duplicateCount := duplicateCount c0 + 1 \<rparr>; s = senderBuffer c in
      if ch_status c = MULTI_RECOVERY then
        bind_res (search_unacked 65536 s (multiRecoverIndex c) (recoverIndex c)) (\<lambda>i.
        let c1 = c\<lparr> multiRecoverIndex := i \<rparr> in
        if i \<le> recoverIndex c1 \<and> sb_pkt (cells s i) = None then
          bind_res (res_sb (stopTimer i) c1) (\<lambda>c2.
          bind_res (s_sendSeq env i c2) (\<lambda>(_, c3).
          Inr (upd_sb count_dup (c3\<lparr> multiRecoverIndex := i + 1 \<rparr>))))
        else drop_count (b_sendNew s_sendSeq env 1 (updateCwnd MULTIPLICATIVE_INCREASE c1)))
      else if duplicateCount c = 3 then
        (let nextPktSeq = lastAcked s + 1 in
         bind_res (res_sb (stopTimer nextPktSeq) c) (\<lambda>c1.
         bind_res (s_sendSeq env nextPktSeq c1) (\<lambda>(_, c2).
         Inr (upd_sb count_dup (s_enter_recovery c2)))))
      else drop_count (b_sendNew s_sendSeq env 1
             (if ch_status c = FAST_RECOVERY then updateCwnd MULTIPLICATIVE_INCREASE c else c)))"

definition s_ackRecv :: "env \<Rightarrow> Packet \<Rightarrow> 'a sack_chan_scheme \<Rightarrow> (int \<times> 'a sack_chan_scheme) res" where
  "s_ackRecv env pkt c =
     (let n = h_ackNo (p_header pkt) - lastAcked (senderBuffer c) in
      if \<not> sb_started (senderBuffer c) then Inr (0, c)
      else let k = ack_kind c n; c1 = note_kind k c in
        if k = Ack_Outside then Inr (- 1, c1)
        else
          bind_res (s_release_orig pkt c1) (\<lambda>c2.
          let c3 = upd_sb (\<lambda>s. s\<lparr> totalSuccessfullySent := totalSuccessfullySent s + ucast n \<rparr>) c2 in
          bind_res (case k of
              Ack_New \<Rightarrow> s_ack_new env pkt n c3
            | Ack_Partial \<Rightarrow> s_ack_partial env pkt n c3
            | Ack_Duplicate \<Rightarrow> s_ack_duplicate env c3
            | _ \<Rightarrow> Inr c3) (\<lambda>c4. Inr (0, c4))))"

end
