(* ===== verification/BasicProps.thy ===== *)
theory BasicProps
  imports SackHandler NewChannelRecv
begin

text \<open>
  The basic handler compared with the handler that replaced it: what it does
  with a packet it has received before, how it forwards the packets of a dead
  channel, and what becomes of it when the network is down.
\<close>

section \<open>Receiving\<close>

lemma b_accept_seq_eq: "accept_seq s rb = Inr (b, rb') \<Longrightarrow> b_accept_seq s rb = Inr rb'"
  by (auto simp: accept_seq_def b_accept_seq_def bind_res_iffs)

lemma b_sendAck_ok:
  assumes "\<forall>p. e_net env p \<noteq> - ERROR_NETWORK_CLOSED"
  obtains p where "b_sendAck env pkt a c = Inr (c\<lparr> ch_out := ch_out c @ [Ev_Send p] \<rparr>)"
    "h_ackNo (p_header p) = a" "h_origAckNo (p_header p) = h_seqNo (p_header pkt)"
  using that assms by (simp add: b_sendAck_def ch_send_def mark_ifc_def emit_def new_Packet_def Let_def)

text \<open>
  The basic handler accepts every packet inside the window, whether its
  ordinal was received before or not: a second copy of a packet that is ahead
  of a gap is marked accepted like the first, and so reaches the flow twice.
  Otherwise it behaves as the specification says: the buffer represents the set
  with the ordinal and the acknowledgement names the end of the prefix.
\<close>

theorem basic_accepts_duplicates:
  assumes "\<forall>p. e_net env p \<noteq> - ERROR_NETWORK_CLOSED" "recv_rel E R (recieverBuff c)" "recvStarted (recieverBuff c)"
    and "n = E + unat (h_seqNo (p_header pkt) - expectedSeq (recieverBuff c))" "n < E + 32768"
  shows "\<exists>c'. b_pktRecv env pkt c = Inr (0, pkt\<lparr> p_accepted := True \<rparr>, c') \<and>
     recv_rel (first_missing (insert n R)) (insert n R) (recieverBuff c') \<and> recvStarted (recieverBuff c') \<and>
     sent_acks (ch_out c') = sent_acks (ch_out c) @ [(of_nat (first_missing (insert n R)) - 1, h_seqNo (p_header pkt))]"
proof -
  let ?seq = "h_seqNo (p_header pkt)" and ?R = "insert n R"
  define c1 where "c1 = (if has_flag (h_flag (p_header pkt)) FLAG_CHS
    then c\<lparr> recieverBuff := (recieverBuff c)\<lparr> recvStarted := True \<rparr> \<rparr> else c)"
  have c1: "recv_rel E R (recieverBuff c1)" "expectedSeq (recieverBuff c1) = expectedSeq (recieverBuff c)"
    "ch_out c1 = ch_out c" "recvStarted (recieverBuff c1)"
    using assms(2,3) by (auto simp: c1_def recv_rel_def)
  obtain rb where rb: "accept_seq ?seq (recieverBuff c1) = Inr (n \<notin> R, rb)" "recv_rel (first_missing ?R) ?R rb"
      "recvStarted rb = recvStarted (recieverBuff c1)"
    by (rule accept_seq_refines [OF c1(1), of ?seq n]) (use assms(4,5) in \<open>simp_all add: c1(2)\<close>)
  obtain p where p: "b_sendAck env pkt (expectedSeq rb - 1) (c1\<lparr> recieverBuff := rb \<rparr>) =
      Inr (c1\<lparr> recieverBuff := rb, ch_out := ch_out c1 @ [Ev_Send p] \<rparr>)"
      "h_ackNo (p_header p) = expectedSeq rb - 1" "h_origAckNo (p_header p) = ?seq"
    by (rule b_sendAck_ok [OF assms(1), of pkt "expectedSeq rb - 1" "c1\<lparr> recieverBuff := rb \<rparr>"]) simp
  let ?c2 = "c1\<lparr> recieverBuff := rb, ch_out := ch_out c1 @ [Ev_Send p] \<rparr>"
  let ?c3 = "if ?seq - expectedSeq (recieverBuff c1) > maxRecvd (recieverBuff c1) - expectedSeq (recieverBuff c1)
    then ?c2\<lparr> recieverBuff := (recieverBuff ?c2)\<lparr> maxRecvd := ?seq \<rparr> \<rparr> else ?c2"
  have "b_pktRecv env pkt c = Inr (0, pkt\<lparr> p_accepted := True \<rparr>, ?c3)"
    using assms(3-5) b_accept_seq_eq [OF rb(1)] p(1) c1(2)
    unfolding b_pktRecv_def Let_def c1_def [symmetric] by simp
  moreover have "expectedSeq rb = of_nat (first_missing ?R)" using rb(2) by (simp add: recv_rel_def)
  ultimately show ?thesis
    using rb(2,3) p(2,3) by (intro exI [of _ ?c3]) (auto simp: recv_rel_def c1(3,4))
qed

definition chan_after_2 :: chan where
  "chan_after_2 = (init_chan 1 2)\<lparr> recieverBuff := new_ReceivingBuffer\<lparr> recvStarted := True \<rparr> \<rparr>"

lemma basic_accepts_duplicates_witness:
  "\<exists>c1 c2. b_pktRecv env0 (data_pkt 2) chan_after_2 = Inr (0, (data_pkt 2)\<lparr> p_accepted := True \<rparr>, c1) \<and>
     b_pktRecv env0 (data_pkt 2) c1 = Inr (0, (data_pkt 2)\<lparr> p_accepted := True \<rparr>, c2)"
proof -
  have net: "\<forall>p. e_net env0 p \<noteq> - ERROR_NETWORK_CLOSED" using net_up_env0 by (simp add: net_up_def)
  have fm: "first_missing {2} = 0" by (rule first_missing_eq) auto
  have i: "recv_rel 0 {} (recieverBuff chan_after_2)" "recvStarted (recieverBuff chan_after_2)"
    "expectedSeq (recieverBuff chan_after_2) = 0"
    using recv_rel_new by (simp_all add: chan_after_2_def recv_rel_def) (simp add: new_ReceivingBuffer_def)?
  obtain c1 where c1: "b_pktRecv env0 (data_pkt 2) chan_after_2 = Inr (0, (data_pkt 2)\<lparr> p_accepted := True \<rparr>, c1)"
      "recv_rel 0 {2} (recieverBuff c1)" "recvStarted (recieverBuff c1)"
    using basic_accepts_duplicates [OF net i(1,2), of 2 "data_pkt 2"] i(3) by (auto simp: data_pkt_def fm)
  then show ?thesis
    using basic_accepts_duplicates [OF net c1(2,3), of 2 "data_pkt 2"] by (auto simp: data_pkt_def recv_rel_def)
qed

section \<open>The packets of a dead channel\<close>

lemma forward_loop_collects:
  "forward_loop n i c = c\<lparr> senderBuffer := (senderBuffer c)\<lparr> cells := snd (collect_undelivered n i (cells (senderBuffer c))) \<rparr>,
     ch_out := ch_out c @ map Ev_Forward (fst (collect_undelivered n i (cells (senderBuffer c)))) \<rparr>"
  by (induction n i c rule: forward_loop.induct)
    (auto simp: Let_def upd_sb_def reset_cell_def emit_def split: option.split prod.split)

text \<open>
  C26: the forwarding job of the basic handler and \<open>getUndeliveredPackets\<close> of the
  new one are equivalent: both leave the same channel behind (no timer, the
  cells after \<open>lastAcked\<close> empty), and what the one gives to the scheduler packet
  by packet is what the other returns, in the same order.
\<close>

theorem forward_agrees_with_undelivered:
  "\<exists>pkts d. getUndeliveredPackets c = Inr (pkts, d) \<and>
     forwardPackets c = d\<lparr> ch_out := ch_out c @ map Ev_Forward pkts \<rparr>"
  by (simp add: getUndeliveredPackets_def forwardPackets_def forward_loop_collects upd_sb_def Let_def
      split: prod.split)

section \<open>When the network is down\<close>

text \<open>
  The basic handler does not implement \<open>getUndeliveredPackets\<close>, which the
  scheduler calls when the interface reports that the network is closed: a
  registered channel that sends one packet then aborts the process.
\<close>

theorem basic_network_down_aborts:
  assumes "ch_registered c" "\<not> sendSeqLocked c" "\<forall>p. e_net env p = - ERROR_NETWORK_CLOSED"
    and "sb_pkt (cells (senderBuffer c) i) = Some p" "h_seqNo (p_header p) = i"
  shows "b_sendSeq env i c = Inl Assert_Failed"
  using assms by (simp add: b_sendSeq_def ch_send_def notifyDead_def base_getUndelivered_def upd_sb_def emit_def Let_def)

definition env_down :: env where
  "env_down = env0\<lparr> e_net := \<lambda>_. - ERROR_NETWORK_CLOSED \<rparr>"

lemma basic_network_down_aborts_witness:
  "b_sendSeq env_down 0 ((init_chan 1 2)\<lparr> ch_registered := True,
     senderBuffer := new_SendingBuffer\<lparr> cells := (\<lambda>_. sbuff_reset)(0 := sbuff_reset\<lparr> sb_pkt := Some new_Packet \<rparr>) \<rparr> \<rparr>)
   = Inl Assert_Failed"
  by (rule basic_network_down_aborts [where p = new_Packet])
    (simp_all add: init_chan_def env_down_def new_Packet_def reinit_header_def)

end
