(* ===== verification/LLQueue.thy ===== *)
theory LLQueue
  imports Prelude
begin

text \<open>
  \<open>AppLLQueue\<close> (src/src/util/AppLLQueue.hh), the intrusive linked queue behind
  the queues of the scheduler, of the channels and of the thread pool.  A node is
  an address; \<open>next_of\<close> is the \<open>next\<close> field of the allocated nodes, which belong
  to the callers and are shared by all queues.  The semaphore that bounds the
  queue is its count.  The specification is a list; the interface between the
  two is the locale \<open>fifo\<close>, proved for lists of requests once and interpreted
  on the pointer code.
\<close>

section \<open>The code\<close>

type_synonym ll_node = nat

record ll_queue =
  next_of :: "ll_node \<Rightarrow> ll_node option option"
  q_beg :: "ll_node option"
  q_end :: "ll_node option"
  queueSize :: int
  maxQueueSize :: int
  limitQueueSize :: nat

definition new_LLQueue :: "(ll_node \<Rightarrow> ll_node option option) \<Rightarrow> int \<Rightarrow> ll_queue res" where
  "new_LLQueue h sz = app_assert (sz \<noteq> 0)
     (Inr \<lparr> next_of = h, q_beg = None, q_end = None, queueSize = 0, maxQueueSize = sz,
        limitQueueSize = (if sz > 0 then nat sz else 0) \<rparr>)"

text \<open>A store to the \<open>next\<close> field of a node that is not allocated is out of bounds.\<close>

definition set_next :: "ll_node \<Rightarrow> ll_node option \<Rightarrow> ll_queue \<Rightarrow> ll_queue res" where
  "set_next n p q = check Out_Of_Bounds (next_of q n \<noteq> None)
     (Inr (q\<lparr> next_of := (next_of q)(n \<mapsto> p) \<rparr>))"

definition get_next :: "ll_node \<Rightarrow> ll_queue \<Rightarrow> ll_node option res" where
  "get_next n q = (case next_of q n of None \<Rightarrow> Inl Out_Of_Bounds | Some p \<Rightarrow> Inr p)"

definition ll_reset :: "ll_queue \<Rightarrow> ll_queue" where
  "ll_reset q = q\<lparr> q_beg := None, q_end := None, queueSize := 0 \<rparr>"

definition ll_add :: "ll_node \<Rightarrow> ll_queue \<Rightarrow> ll_queue res" where
  "ll_add n q =
     bind_res (set_next n None q) (\<lambda>q1.
     bind_res
       (if q_beg q1 \<noteq> None then
          (case q_end q1 of
             None \<Rightarrow> Inl Null_Deref
           | Some e \<Rightarrow> bind_res (set_next e (Some n) q1) (\<lambda>q2. Inr (q2\<lparr> q_end := Some n \<rparr>)))
        else Inr (q1\<lparr> q_beg := Some n, q_end := Some n \<rparr>)) (\<lambda>q3.
     Inr (q3\<lparr> queueSize := queueSize q3 + 1 \<rparr>)))"

text \<open>The loop of \<open>addLLToQueue\<close> over a chain of nodes; a cyclic chain never ends.\<close>

fun add_chain :: "nat \<Rightarrow> ll_node option \<Rightarrow> appInt \<Rightarrow> ll_queue \<Rightarrow> (appInt \<times> ll_queue) res" where
  "add_chain 0 tmp cnt q = (case tmp of None \<Rightarrow> Inr (cnt, q) | Some _ \<Rightarrow> Inl Diverges)"
| "add_chain (Suc n) tmp cnt q =
     (case tmp of
        None \<Rightarrow> Inr (cnt, q)
      | Some p \<Rightarrow>
          bind_res (get_next p q) (\<lambda>tmp'.
          bind_res (ll_add p q) (\<lambda>q'. add_chain n tmp' (cnt + 1) q')))"

definition addLLToQueue :: "nat \<Rightarrow> ll_node option \<Rightarrow> ll_queue \<Rightarrow> (appInt \<times> ll_queue) res" where
  "addLLToQueue fuel node q = app_assert (maxQueueSize q \<le> 0) (add_chain fuel node 0 q)"

definition addToQueue :: "ll_node \<Rightarrow> ll_queue \<Rightarrow> ll_queue res" where
  "addToQueue n q =
     (if maxQueueSize q > 0 then
        (if limitQueueSize q = 0 then Inl Blocked
         else ll_add n (q\<lparr> limitQueueSize := limitQueueSize q - 1 \<rparr>))
      else ll_add n q)"

definition getFromQueue :: "ll_queue \<Rightarrow> (ll_node option \<times> ll_queue) res" where
  "getFromQueue q =
     (case q_beg q of
        None \<Rightarrow> Inr (None, q)
      | Some tmp \<Rightarrow>
          bind_res (get_next tmp q) (\<lambda>beg'.
          let q1 = q\<lparr> q_beg := beg', q_end := (if beg' = None then None else q_end q), queueSize := queueSize q - 1 \<rparr>;
              q2 = (if maxQueueSize q1 > 0 then q1\<lparr> limitQueueSize := limitQueueSize q1 + 1 \<rparr> else q1) in
          bind_res (set_next tmp None q2) (\<lambda>q3. Inr (Some tmp, q3))))"

definition ll_empty :: "ll_queue \<Rightarrow> bool" where
  "ll_empty q = (q_beg q = None)"

text \<open>\<open>getAllFromQueue\<close>: the whole chain is handed over by its first node.\<close>

definition getAllFromQueue :: "ll_queue \<Rightarrow> ll_node option \<times> ll_queue" where
  "getAllFromQueue q =
     (if q_beg q = None then (None, q)
      else let q1 = q\<lparr> q_beg := None, q_end := None, queueSize := 0 \<rparr> in
        (q_beg q, if maxQueueSize q > 0
                  then q1\<lparr> limitQueueSize := limitQueueSize q1 + nat (queueSize q) \<rparr> else q1))"

section \<open>The interface\<close>

datatype 'n request = Put 'n | Take

text \<open>What a list does with requests: the nodes it gives out and those that stay.
  A node may not be put while it is in the queue.\<close>

fun list_run :: "'n request list \<Rightarrow> 'n list \<Rightarrow> ('n option list \<times> 'n list) option" where
  "list_run [] xs = Some ([], xs)"
| "list_run (Put n # rs) xs = (if n \<in> set xs then None else list_run rs (xs @ [n]))"
| "list_run (Take # rs) xs =
     (case xs of
        [] \<Rightarrow> map_option (\<lambda>(out, ys). (None # out, ys)) (list_run rs [])
      | x # xs \<Rightarrow> map_option (\<lambda>(out, ys). (Some x # out, ys)) (list_run rs xs))"

fun requests_run :: "('n \<Rightarrow> 's \<Rightarrow> 's res) \<Rightarrow> ('s \<Rightarrow> ('n option \<times> 's) res) \<Rightarrow> 'n request list \<Rightarrow> 's \<Rightarrow>
    ('n option list \<times> 's) res" where
  "requests_run put tk [] s = Inr ([], s)"
| "requests_run put tk (Put n # rs) s = bind_res (put n s) (requests_run put tk rs)"
| "requests_run put tk (Take # rs) s =
     bind_res (tk s) (\<lambda>(x, s1). bind_res (requests_run put tk rs s1) (\<lambda>(out, s2). Inr (x # out, s2)))"

fun nodes_of :: "'n request list \<Rightarrow> 'n set" where
  "nodes_of [] = {}"
| "nodes_of (Put n # rs) = insert n (nodes_of rs)"
| "nodes_of (Take # rs) = nodes_of rs"

locale fifo =
  fixes put :: "'n \<Rightarrow> 's \<Rightarrow> 's res"
    and tk :: "'s \<Rightarrow> ('n option \<times> 's) res"
    and rel :: "'s \<Rightarrow> 'n list \<Rightarrow> bool"
    and owned :: "'s \<Rightarrow> 'n set"
    and full :: "'s \<Rightarrow> bool"
  assumes put_ok: "rel s xs \<Longrightarrow> n \<in> owned s \<Longrightarrow> n \<notin> set xs \<Longrightarrow> \<not> full s \<Longrightarrow>
      \<exists>s'. put n s = Inr s' \<and> rel s' (xs @ [n]) \<and> owned s' = owned s"
    and put_full: "full s \<Longrightarrow> put n s = Inl Blocked"
    and take_empty: "rel s [] \<Longrightarrow> tk s = Inr (None, s)"
    and take_first: "rel s (x # xs) \<Longrightarrow> \<exists>s'. tk s = Inr (Some x, s') \<and> rel s' xs \<and> owned s' = owned s"
begin

text \<open>
  A queue answers any list of requests as a list does, in the order the nodes
  came in, or blocks, which only a queue that can be full does.
\<close>

lemma requests_refine:
  "list_run rs xs = Some (out, ys) \<Longrightarrow> rel s xs \<Longrightarrow> nodes_of rs \<subseteq> owned s \<Longrightarrow>
     requests_run put tk rs s = Inl Blocked \<and> (\<exists>s. full s) \<or>
     (\<exists>s'. requests_run put tk rs s = Inr (out, s') \<and> rel s' ys \<and> owned s' = owned s)"
proof (induction rs xs arbitrary: s out ys rule: list_run.induct)
  case (2 n rs xs)
  show ?case
  proof (cases "full s")
    case True
    then show ?thesis by (auto simp: put_full)
  next
    case False
    obtain s1 where s1: "put n s = Inr s1" "rel s1 (xs @ [n])" "owned s1 = owned s"
      using put_ok [OF 2(3) _ _ False, of n] 2(2,4) by (auto split: if_splits)
    have "list_run rs (xs @ [n]) = Some (out, ys)" "n \<notin> set xs"
      using 2(2) by (auto split: if_splits)
    then have "requests_run put tk rs s1 = Inl Blocked \<and> (\<exists>s. full s) \<or>
        (\<exists>s'. requests_run put tk rs s1 = Inr (out, s') \<and> rel s' ys \<and> owned s' = owned s1)"
      using 2(4) s1(2,3) by (intro 2(1)) auto
    then show ?thesis using s1 by auto
  qed
next
  case (3 rs xs)
  show ?case
  proof (cases xs)
    case Nil
    then obtain out' where out: "out = None # out'" "list_run rs [] = Some (out', ys)"
      using 3(3) by auto
    have "requests_run put tk rs s = Inl Blocked \<and> (\<exists>s. full s) \<or>
        (\<exists>s'. requests_run put tk rs s = Inr (out', s') \<and> rel s' ys \<and> owned s' = owned s)"
      using 3(4,5) Nil out(2) by (intro 3(1)) auto
    then show ?thesis using take_empty [of s] 3(4) Nil out(1) by auto
  next
    case (Cons x zs)
    then obtain out' where out: "out = Some x # out'" "list_run rs zs = Some (out', ys)"
      using 3(3) by auto
    obtain s1 where s1: "tk s = Inr (Some x, s1)" "rel s1 zs" "owned s1 = owned s"
      using take_first [of s x zs] 3(4) Cons by auto
    have "requests_run put tk rs s1 = Inl Blocked \<and> (\<exists>s. full s) \<or>
        (\<exists>s'. requests_run put tk rs s1 = Inr (out', s') \<and> rel s' ys \<and> owned s' = owned s1)"
      using 3(5) s1(2,3) out(2) by (intro 3(2) [OF Cons]) auto
    then show ?thesis using s1 out(1) by auto
  qed
qed simp

end

section \<open>The pointer code is a queue\<close>

fun chain :: "(ll_node \<Rightarrow> ll_node option option) \<Rightarrow> ll_node option \<Rightarrow> ll_node list \<Rightarrow> bool" where
  "chain h p [] = (p = None)"
| "chain h p (x # xs) = (p = Some x \<and> (case h x of None \<Rightarrow> False | Some p' \<Rightarrow> chain h p' xs))"

definition ll_rel :: "ll_queue \<Rightarrow> ll_node list \<Rightarrow> bool" where
  "ll_rel q xs \<longleftrightarrow> chain (next_of q) (q_beg q) xs \<and> distinct xs \<and>
     q_end q = (if xs = [] then None else Some (last xs)) \<and> queueSize q = int (length xs) \<and>
     (maxQueueSize q > 0 \<longrightarrow> limitQueueSize q + length xs = nat (maxQueueSize q))"

definition ll_full :: "ll_queue \<Rightarrow> bool" where
  "ll_full q \<longleftrightarrow> maxQueueSize q > 0 \<and> limitQueueSize q = 0"

definition ll_owned :: "ll_queue \<Rightarrow> ll_node set" where
  "ll_owned q = dom (next_of q)"

lemma chain_upd: "n \<notin> set xs \<Longrightarrow> chain (h(n := v)) p xs = chain h p xs"
  by (induction xs arbitrary: p) (auto split: option.splits)

lemma chain_cong: "(\<And>m. m \<in> set xs \<Longrightarrow> h m = h' m) \<Longrightarrow> chain h p xs = chain h' p xs"
  by (induction xs arbitrary: p) (auto split: option.splits)

lemma chain_snoc:
  "chain h p xs \<Longrightarrow> distinct xs \<Longrightarrow> n \<notin> set xs \<Longrightarrow> xs \<noteq> [] \<Longrightarrow>
     chain (h(n \<mapsto> None, last xs \<mapsto> Some n)) p (xs @ [n])"
proof (induction xs arbitrary: p)
  case (Cons x xs)
  show ?case
  proof (cases "xs = []")
    case True
    then show ?thesis using Cons.prems by auto
  next
    case False
    then obtain p' where p': "h x = Some p'" "chain h p' xs" "p = Some x"
      using Cons.prems(1) by (auto split: option.splits)
    have "chain (h(n \<mapsto> None, last xs \<mapsto> Some n)) p' (xs @ [n])"
      using Cons.prems False p' by (intro Cons.IH) auto
    moreover have "last xs \<noteq> x" "n \<noteq> x" using Cons.prems(2,3) False by auto
    ultimately show ?thesis using p' False by (simp del: fun_upd_apply) (simp add: fun_upd_def)
  qed
qed simp

lemma chain_beg: "chain h p xs \<Longrightarrow> p = (if xs = [] then None else Some (hd xs))"
  by (cases xs) auto

lemma chain_owned: "chain h p xs \<Longrightarrow> set xs \<subseteq> dom h"
  by (induction xs arbitrary: p) (auto split: option.splits)

lemma ll_add_ok:
  assumes "chain (next_of q) (q_beg q) xs" "distinct xs" "q_end q = (if xs = [] then None else Some (last xs))"
    and "n \<in> dom (next_of q)" "n \<notin> set xs"
  obtains h where "ll_add n q = Inr (q\<lparr> next_of := h, q_beg := Some (hd (xs @ [n])), q_end := Some n,
      queueSize := queueSize q + 1 \<rparr>)"
    "chain h (Some (hd (xs @ [n]))) (xs @ [n])" "dom h = dom (next_of q)"
    "\<And>m. m \<noteq> n \<Longrightarrow> m \<notin> set xs \<Longrightarrow> h m = next_of q m"
proof (cases "xs = []")
  case True
  then show thesis
    using assms by (intro that [of "(next_of q)(n \<mapsto> None)"]) (auto simp: ll_add_def set_next_def)
next
  case False
  then obtain e where e: "next_of q (last xs) = Some e"
    using chain_owned [OF assms(1)] last_in_set [of xs] by blast
  have beg: "q_beg q = Some (hd xs)" using chain_beg [OF assms(1)] False by simp
  show thesis
    using False assms e beg chain_snoc [OF assms(1,2,5) False]
    by (intro that [of "(next_of q)(n \<mapsto> None, last xs \<mapsto> Some n)"]) (auto simp: ll_add_def set_next_def)
qed

lemma addToQueue_ok:
  assumes "ll_rel q xs" "n \<in> ll_owned q" "n \<notin> set xs" "\<not> ll_full q"
  shows "\<exists>q'. addToQueue n q = Inr q' \<and> ll_rel q' (xs @ [n]) \<and> ll_owned q' = ll_owned q"
proof -
  define q0 where "q0 = (if maxQueueSize q > 0 then q\<lparr> limitQueueSize := limitQueueSize q - 1 \<rparr> else q)"
  have a: "addToQueue n q = ll_add n q0"
    using assms(4) by (auto simp: addToQueue_def ll_full_def q0_def)
  obtain h where h: "ll_add n q0 = Inr (q0\<lparr> next_of := h, q_beg := Some (hd (xs @ [n])), q_end := Some n,
      queueSize := queueSize q0 + 1 \<rparr>)" "chain h (Some (hd (xs @ [n]))) (xs @ [n])" "dom h = dom (next_of q0)"
    by (rule ll_add_ok [of q0 xs n]) (use assms in \<open>auto simp: q0_def ll_rel_def ll_owned_def\<close>)
  show ?thesis
    using a h assms by (auto simp: ll_rel_def ll_owned_def ll_full_def q0_def)
qed

lemma getFromQueue_first:
  assumes "ll_rel q (x # xs)"
  shows "\<exists>q'. getFromQueue q = Inr (Some x, q') \<and> ll_rel q' xs \<and> ll_owned q' = ll_owned q"
proof -
  obtain p where p: "next_of q x = Some p" "chain (next_of q) p xs" "q_beg q = Some x"
    using assms by (auto simp: ll_rel_def split: option.splits)
  have "(p = None) = (xs = [])" using chain_beg [OF p(2)] by auto
  then show ?thesis
    using assms p by (auto simp: ll_rel_def ll_owned_def getFromQueue_def get_next_def set_next_def chain_upd Let_def)
qed

lemma set_next_max: "set_next n p q = Inr q' \<Longrightarrow> maxQueueSize q' = maxQueueSize q"
  by (auto simp: set_next_def check_def split: if_splits)

lemma addToQueue_max: "addToQueue n q = Inr q' \<Longrightarrow> maxQueueSize q' = maxQueueSize q"
  by (auto simp: addToQueue_def ll_add_def bind_res_iffs dest!: set_next_max split: if_splits option.splits)

lemma getFromQueue_max: "getFromQueue q = Inr (r, q') \<Longrightarrow> maxQueueSize q' = maxQueueSize q"
  by (auto simp: getFromQueue_def bind_res_iffs Let_def dest!: set_next_max split: if_splits option.splits)

interpretation llq: fifo addToQueue getFromQueue ll_rel ll_owned ll_full
proof
  show "ll_rel s xs \<Longrightarrow> n \<in> ll_owned s \<Longrightarrow> n \<notin> set xs \<Longrightarrow> \<not> ll_full s \<Longrightarrow>
      \<exists>s'. addToQueue n s = Inr s' \<and> ll_rel s' (xs @ [n]) \<and> ll_owned s' = ll_owned s" for s xs n
    by (rule addToQueue_ok)
  show "ll_full s \<Longrightarrow> addToQueue n s = Inl Blocked" for s n
    by (simp add: ll_full_def addToQueue_def)
  show "ll_rel s [] \<Longrightarrow> getFromQueue s = Inr (None, s)" for s
    by (simp add: ll_rel_def getFromQueue_def)
  show "ll_rel s (x # xs) \<Longrightarrow> \<exists>s'. getFromQueue s = Inr (Some x, s') \<and> ll_rel s' xs \<and> ll_owned s' = ll_owned s" for s x xs
    by (rule getFromQueue_first)
qed

text \<open>A queue without a bound is never full.\<close>

interpretation llu: fifo addToQueue getFromQueue "\<lambda>q xs. ll_rel q xs \<and> maxQueueSize q \<le> 0" ll_owned "\<lambda>_. False"
proof
  show "\<exists>q'. addToQueue n q = Inr q' \<and> (ll_rel q' (xs @ [n]) \<and> maxQueueSize q' \<le> 0) \<and> ll_owned q' = ll_owned q"
    if "ll_rel q xs \<and> maxQueueSize q \<le> 0" "n \<in> ll_owned q" "n \<notin> set xs" for q xs n
    using addToQueue_ok [of q xs n] addToQueue_max [of n q] that by (auto simp: ll_full_def)
  show "\<exists>q'. getFromQueue q = Inr (Some x, q') \<and> (ll_rel q' xs \<and> maxQueueSize q' \<le> 0) \<and> ll_owned q' = ll_owned q"
    if "ll_rel q (x # xs) \<and> maxQueueSize q \<le> 0" for q x xs
    using getFromQueue_first [of q x xs] getFromQueue_max [of q] that by fastforce
qed (auto intro: llq.take_empty)

text \<open>Handing over all nodes, and adding the chain another queue has handed over.\<close>

lemma getAllFromQueue_ok:
  assumes "ll_rel q xs"
  shows "ll_rel (snd (getAllFromQueue q)) []" "chain (next_of q) (fst (getAllFromQueue q)) xs"
    "next_of (snd (getAllFromQueue q)) = next_of q"
  using assms chain_beg [of "next_of q" "q_beg q" xs] by (auto simp: ll_rel_def getAllFromQueue_def Let_def)

lemma add_chain_ok:
  assumes "chain (next_of q) p ys" "distinct ys" "set xs \<inter> set ys = {}" "ll_rel q xs" "maxQueueSize q \<le> 0"
    "length ys \<le> fuel"
  shows "\<exists>q'. add_chain fuel p cnt q = Inr (cnt + of_nat (length ys), q') \<and> ll_rel q' (xs @ ys) \<and>
    ll_owned q' = ll_owned q"
  using assms
proof (induction ys arbitrary: fuel p cnt q xs)
  case Nil
  then show ?case by (cases fuel) auto
next
  case (Cons y ys)
  obtain p' n where n: "fuel = Suc n" "p = Some y" "next_of q y = Some p'" "chain (next_of q) p' ys"
    using Cons.prems(1,6) by (cases fuel) (auto split: option.splits)
  obtain h where h: "ll_add y q = Inr (q\<lparr> next_of := h, q_beg := Some (hd (xs @ [y])), q_end := Some y,
      queueSize := queueSize q + 1 \<rparr>)" "chain h (Some (hd (xs @ [y]))) (xs @ [y])" "dom h = dom (next_of q)"
      "\<And>m. m \<noteq> y \<Longrightarrow> m \<notin> set xs \<Longrightarrow> h m = next_of q m"
    by (rule ll_add_ok [of q xs y]) (use Cons.prems n in \<open>auto simp: ll_rel_def\<close>)
  let ?q1 = "q\<lparr> next_of := h, q_beg := Some (hd (xs @ [y])), q_end := Some y, queueSize := queueSize q + 1 \<rparr>"
  have "chain h p' ys"
  proof (subst chain_cong [of ys h "next_of q"])
    fix m assume "m \<in> set ys"
    then show "h m = next_of q m" using Cons.prems(2,3) by (intro h(4)) auto
  qed (rule n(4))
  then have "\<exists>q'. add_chain n p' (cnt + 1) ?q1 = Inr (cnt + 1 + of_nat (length ys), q') \<and> ll_rel q' ((xs @ [y]) @ ys) \<and>
      ll_owned q' = ll_owned ?q1"
    using Cons.prems n h by (intro Cons.IH) (auto simp: ll_rel_def)
  then show ?case
    using n h by (auto simp: get_next_def ll_owned_def)
qed

section \<open>The refinement\<close>

text \<open>
  C27: the linked queue refines a list.  Any sequence of \<open>addToQueue\<close> and
  \<open>getFromQueue\<close> on a new queue, with nodes the caller owns and never one that
  is still queued, gives the answers of the list, first in first out, each node
  once and none before it was put, and leaves a well-formed chain with the nodes
  that remain.  A queue without a bound never blocks; one with a bound never
  holds more nodes than it allows.
\<close>

theorem queue_refines_list:
  assumes "new_LLQueue h sz = Inr q" "nodes_of rs \<subseteq> dom h" "list_run rs [] = Some (out, ys)"
  shows "requests_run addToQueue getFromQueue rs q = Inl Blocked \<and> 0 < sz \<or>
    (\<exists>q'. requests_run addToQueue getFromQueue rs q = Inr (out, q') \<and> ll_rel q' ys \<and>
       (0 < maxQueueSize q' \<longrightarrow> length ys \<le> nat (maxQueueSize q')))"
proof -
  have q: "ll_rel q []" "ll_owned q = dom h" "maxQueueSize q = sz"
    using assms(1) by (auto simp: new_LLQueue_def app_assert_def ll_rel_def ll_owned_def split: if_splits)
  show ?thesis
  proof (cases "0 < sz")
    case True
    then show ?thesis
      using llq.requests_refine [OF assms(3) q(1)] assms(2) q(2) by (auto simp: ll_rel_def)
  next
    case False
    then show ?thesis
      using llu.requests_refine [OF assms(3), of q] assms(2) q by auto
  qed
qed

lemma queue_refines_list_witness:
  "\<exists>q q'. new_LLQueue [1 \<mapsto> None, 2 \<mapsto> None] (- 1) = Inr q \<and>
     requests_run addToQueue getFromQueue [Put 1, Put 2, Take, Put 1, Take, Take, Take] q
       = Inr ([Some 1, Some 2, Some 1, None], q') \<and> ll_rel q' []"
proof -
  obtain q where q: "new_LLQueue [1 \<mapsto> None, 2 \<mapsto> None] (- 1) = Inr q" by (simp add: new_LLQueue_def)
  show ?thesis
    using queue_refines_list [OF q, of "[Put 1, Put 2, Take, Put 1, Take, Take, Take]"] q by auto
qed

end
