(* ===== verification/Sync.thy ===== *)
theory Sync
  imports Prelude
begin

text \<open>
  The synchronisation objects of src/src/util: \<open>ConditionalWait\<close>,
  \<open>AppSemaphore\<close> (ConditonalWait.hh) and \<open>ToZeroCounter\<close> (ToZeroCounter.hh).
  Their operations are split at the points where another thread can run;
  \<open>tz_step\<close> interleaves the threads that use one counter.
\<close>

section \<open>ConditionalWait\<close>

text \<open>
  \<open>flag\<close> counts the threads asleep that no notification was meant for yet,
  \<open>sem2\<close> the notifications not yet consumed.  \<open>sem1\<close> is a mutex, held only
  inside the operations.
\<close>

record cond_wait =
  cw_flag :: int
  cw_sem2 :: nat

definition new_cond_wait :: cond_wait where
  "new_cond_wait = \<lparr> cw_flag = 0, cw_sem2 = 0 \<rparr>"

text \<open>\<open>wait\<close> up to \<open>sem_wait(&sem2)\<close>, and that call.\<close>

definition cw_enter :: "cond_wait \<Rightarrow> cond_wait" where
  "cw_enter c = c\<lparr> cw_flag := cw_flag c + 1 \<rparr>"

definition cw_leave :: "cond_wait \<Rightarrow> cond_wait res" where
  "cw_leave c = (if cw_sem2 c = 0 then Inl Blocked else Inr (c\<lparr> cw_sem2 := cw_sem2 c - 1 \<rparr>))"

definition cw_notify :: "cond_wait \<Rightarrow> cond_wait" where
  "cw_notify c = (if cw_flag c > 0 then c\<lparr> cw_flag := cw_flag c - 1, cw_sem2 := cw_sem2 c + 1 \<rparr> else c)"

section \<open>AppSemaphore\<close>

definition sem_notify :: "nat \<Rightarrow> nat" where
  "sem_notify n = n + 1"

definition sem_wait :: "nat \<Rightarrow> nat res" where
  "sem_wait n = (if n = 0 then Inl Blocked else Inr (n - 1))"

text \<open>
  \<open>val\<close> takes the result 0 of \<open>sem_getvalue\<close>, which means success, for the
  error: it answers \<open>-1\<close> whenever it could answer the value.  \<open>ret\<close> is that
  result and \<open>sval\<close> what the call stored.
\<close>

definition sem_val :: "int \<Rightarrow> int \<Rightarrow> int" where
  "sem_val ret sval = (if ret = 0 then - 1 else sval)"

section \<open>ToZeroCounter\<close>

record to_zero =
  tz_counter :: int
  tz_sem :: cond_wait
  tz_waiting :: int

definition new_to_zero :: to_zero where
  "new_to_zero = \<lparr> tz_counter = 0, tz_sem = new_cond_wait, tz_waiting = 0 \<rparr>"

definition tz_inc :: "to_zero \<Rightarrow> to_zero" where
  "tz_inc z = z\<lparr> tz_counter := tz_counter z + 1 \<rparr>"

text \<open>The loop \<open>while(waiting)\<close>; a negative \<open>waiting\<close> would not end.\<close>

fun notify_loop :: "nat \<Rightarrow> to_zero \<Rightarrow> to_zero" where
  "notify_loop 0 z = z"
| "notify_loop (Suc n) z =
     notify_loop n (z\<lparr> tz_sem := cw_notify (tz_sem z), tz_waiting := tz_waiting z - 1 \<rparr>)"

definition tz_dec :: "to_zero \<Rightarrow> to_zero res" where
  "tz_dec z0 =
     (let z = z0\<lparr> tz_counter := tz_counter z0 - 1 \<rparr> in
      if tz_counter z = 0 then
        (if tz_waiting z < 0 then Inl Diverges else Inr (notify_loop (nat (tz_waiting z)) z))
      else Inr z)"

text \<open>
  \<open>waitForZero\<close> under the lock: the result says whether the caller goes on to
  wait.
\<close>

definition tz_register :: "to_zero \<Rightarrow> bool \<times> to_zero" where
  "tz_register z =
     (if tz_counter z = 0 then (False, z) else (True, z\<lparr> tz_waiting := tz_waiting z + 1 \<rparr>))"

section \<open>Threads that share a counter\<close>

text \<open>
  \<open>between\<close> threads have released the lock in \<open>waitForZero\<close> and not yet entered
  the conditional wait, \<open>asleep\<close> ones are in it, \<open>returned\<close> ones came back.
\<close>

record tz_sys =
  zc :: to_zero
  between :: nat
  asleep :: nat
  returned :: nat

definition tz_init :: tz_sys where
  "tz_init = \<lparr> zc = new_to_zero, between = 0, asleep = 0, returned = 0 \<rparr>"

datatype tz_label = TzInc | TzDec | TzRegister | TzSleep | TzWake

inductive tz_step :: "tz_label \<Rightarrow> tz_sys \<Rightarrow> tz_sys \<Rightarrow> bool" where
  inc: "tz_step TzInc s (s\<lparr> zc := tz_inc (zc s) \<rparr>)"
| dec: "tz_dec (zc s) = Inr z \<Longrightarrow> tz_step TzDec s (s\<lparr> zc := z \<rparr>)"
| register: "tz_register (zc s) = (w, z) \<Longrightarrow> tz_step TzRegister s
     (if w then s\<lparr> zc := z, between := between s + 1 \<rparr> else s\<lparr> zc := z, returned := returned s + 1 \<rparr>)"
| sleep: "0 < between s \<Longrightarrow> tz_step TzSleep s
     (s\<lparr> zc := (zc s)\<lparr> tz_sem := cw_enter (tz_sem (zc s)) \<rparr>, between := between s - 1, asleep := asleep s + 1 \<rparr>)"
| wake: "0 < asleep s \<Longrightarrow> cw_leave (tz_sem (zc s)) = Inr c \<Longrightarrow> tz_step TzWake s
     (s\<lparr> zc := (zc s)\<lparr> tz_sem := c \<rparr>, asleep := asleep s - 1, returned := returned s + 1 \<rparr>)"

inductive_cases tz_stepE: "tz_step l s s'"
inductive_simps tz_step_simps:
  "tz_step TzInc s s'" "tz_step TzDec s s'" "tz_step TzRegister s s'" "tz_step TzSleep s s'" "tz_step TzWake s s'"

inductive tz_run :: "tz_label list \<Rightarrow> tz_sys \<Rightarrow> tz_sys \<Rightarrow> bool" where
  nil: "tz_run [] s s"
| step: "tz_run ls s s' \<Longrightarrow> tz_step l s' s'' \<Longrightarrow> tz_run (ls @ [l]) s s''"

text \<open>
  A run is orderly when the counter is never negative and never falls to zero
  while a thread is between.
\<close>

inductive orderly :: "tz_sys \<Rightarrow> bool" where
  start: "orderly tz_init"
| go: "orderly s \<Longrightarrow> tz_step l s s' \<Longrightarrow> 0 \<le> tz_counter (zc s') \<Longrightarrow>
    l = TzDec \<and> tz_counter (zc s') = 0 \<longrightarrow> between s = 0 \<Longrightarrow> orderly s'"

section \<open>Orderly runs wake everyone\<close>

lemma notify_loop_effect:
  assumes "0 \<le> cw_flag (tz_sem z)"
  shows "notify_loop n z = z\<lparr> tz_sem := \<lparr> cw_flag = cw_flag (tz_sem z) - int (min n (nat (cw_flag (tz_sem z)))),
      cw_sem2 = cw_sem2 (tz_sem z) + min n (nat (cw_flag (tz_sem z))) \<rparr>,
    tz_waiting := tz_waiting z - int n \<rparr>"
  using assms
proof (induction n z rule: notify_loop.induct)
  case (2 n z)
  then show ?case by (cases "cw_flag (tz_sem z) = 0") (auto simp: cw_notify_def min_def)
qed simp

definition tz_inv :: "tz_sys \<Rightarrow> bool" where
  "tz_inv s \<longleftrightarrow> 0 \<le> cw_flag (tz_sem (zc s)) \<and> int (asleep s) = cw_flag (tz_sem (zc s)) + int (cw_sem2 (tz_sem (zc s)))"

definition tz_fair :: "tz_sys \<Rightarrow> bool" where
  "tz_fair s \<longleftrightarrow> tz_waiting (zc s) = int (between s) + cw_flag (tz_sem (zc s)) \<and>
     0 \<le> tz_counter (zc s) \<and> (tz_counter (zc s) = 0 \<longrightarrow> between s = 0 \<and> cw_flag (tz_sem (zc s)) = 0)"

lemma tz_dec_effect:
  assumes "tz_dec z = Inr z'" "0 \<le> cw_flag (tz_sem z)"
  shows "tz_counter z' = tz_counter z - 1"
    "tz_counter z' \<noteq> 0 \<Longrightarrow> z' = z\<lparr> tz_counter := tz_counter z - 1 \<rparr>"
    "tz_counter z' = 0 \<Longrightarrow> tz_waiting z' = 0 \<and> 0 \<le> tz_waiting z \<and>
       cw_flag (tz_sem z') = max 0 (cw_flag (tz_sem z) - tz_waiting z) \<and>
       cw_flag (tz_sem z') + int (cw_sem2 (tz_sem z')) = cw_flag (tz_sem z) + int (cw_sem2 (tz_sem z))"
  using assms by (auto simp: tz_dec_def notify_loop_effect Let_def split: if_splits)

lemma tz_register_simps:
  "tz_step TzRegister s s' \<longleftrightarrow> s' = (if tz_counter (zc s) = 0 then s\<lparr> returned := returned s + 1 \<rparr>
     else s\<lparr> zc := (zc s)\<lparr> tz_waiting := tz_waiting (zc s) + 1 \<rparr>, between := between s + 1 \<rparr>)"
  by (auto simp: tz_step_simps tz_register_def)

lemmas tz_steps = tz_step_simps(1,2) tz_register_simps tz_step_simps(4,5)

lemma tz_step_inv:
  assumes "tz_step l s s'" "tz_inv s"
  shows "tz_inv s'"
proof (cases l)
  case TzDec
  then obtain z where z: "tz_dec (zc s) = Inr z" "s' = s\<lparr> zc := z \<rparr>"
    using assms(1) by (auto simp: tz_steps)
  show ?thesis
    using assms(2) tz_dec_effect [OF z(1)] by (cases "tz_counter z = 0") (auto simp: tz_inv_def z(2))
next
  case TzInc
  show ?thesis using assms unfolding TzInc
    by (auto simp: tz_steps tz_inv_def tz_inc_def cw_enter_def cw_leave_def split: if_splits)
next
  case TzRegister
  show ?thesis using assms unfolding TzRegister
    by (auto simp: tz_steps tz_inv_def tz_inc_def cw_enter_def cw_leave_def split: if_splits)
next
  case TzSleep
  show ?thesis using assms unfolding TzSleep
    by (auto simp: tz_steps tz_inv_def tz_inc_def cw_enter_def cw_leave_def split: if_splits)
next
  case TzWake
  show ?thesis using assms unfolding TzWake
    by (auto simp: tz_steps tz_inv_def tz_inc_def cw_enter_def cw_leave_def split: if_splits)
qed

lemma tz_step_fair:
  assumes "tz_step l s s'" "tz_inv s" "tz_fair s" "0 \<le> tz_counter (zc s')"
    "l = TzDec \<and> tz_counter (zc s') = 0 \<longrightarrow> between s = 0"
  shows "tz_fair s'"
proof (cases l)
  case TzDec
  then obtain z where z: "tz_dec (zc s) = Inr z" "s' = s\<lparr> zc := z \<rparr>"
    using assms(1) by (auto simp: tz_steps)
  show ?thesis
    using assms(2-5) TzDec tz_dec_effect [OF z(1)]
    by (cases "tz_counter z = 0") (auto simp: tz_inv_def tz_fair_def z(2))
next
  case TzInc
  show ?thesis using assms unfolding TzInc
    by (auto simp: tz_steps tz_inv_def tz_fair_def tz_inc_def cw_enter_def cw_leave_def split: if_splits)
next
  case TzRegister
  show ?thesis using assms unfolding TzRegister
    by (auto simp: tz_steps tz_inv_def tz_fair_def tz_inc_def cw_enter_def cw_leave_def split: if_splits)
next
  case TzSleep
  then have b: "1 \<le> between s" and s': "zc s' = (zc s)\<lparr> tz_sem := cw_enter (tz_sem (zc s)) \<rparr>" "between s' = between s - 1"
    using assms(1) by (auto simp: tz_steps)
  have "tz_counter (zc s) \<noteq> 0" using assms(3) b by (auto simp: tz_fair_def)
  then show ?thesis using assms(3) b by (simp add: tz_fair_def s' cw_enter_def of_nat_diff)
next
  case TzWake
  show ?thesis using assms unfolding TzWake
    by (auto simp: tz_steps tz_inv_def tz_fair_def tz_inc_def cw_enter_def cw_leave_def split: if_splits)
qed

lemma orderly_inv: "orderly s \<Longrightarrow> tz_inv s \<and> tz_fair s"
proof (induction rule: orderly.induct)
  case start
  show ?case by (simp add: tz_init_def tz_inv_def tz_fair_def new_to_zero_def new_cond_wait_def)
next
  case (go s l s')
  then show ?case using tz_step_inv tz_step_fair by blast
qed

text \<open>
  C28: in an orderly run every thread that waits for zero comes back: whenever the
  counter is zero, nobody is on the way into the wait and there is a notification
  for each thread asleep, so that all of them can return one after the other.
\<close>

theorem zero_wakes_all:
  assumes "orderly s" "tz_counter (zc s) = 0"
  shows "between s = 0 \<and> (\<exists>s'. tz_run (replicate (asleep s) TzWake) s s' \<and> asleep s' = 0 \<and>
    returned s' = returned s + asleep s)"
proof -
  have b: "between s = 0" and eq: "asleep s = cw_sem2 (tz_sem (zc s))"
    using orderly_inv [OF assms(1)] assms(2) by (auto simp: tz_inv_def tz_fair_def)
  have "\<exists>s'. tz_run (replicate n TzWake) s s' \<and> asleep s' + n = asleep s \<and> asleep s' = cw_sem2 (tz_sem (zc s')) \<and>
      returned s' = returned s + n" if "n \<le> asleep s" for n
    using that
  proof (induction n)
    case 0
    then show ?case using eq tz_run.nil by auto
  next
    case (Suc n)
    then obtain s' where s': "tz_run (replicate n TzWake) s s'" "asleep s' + n = asleep s"
        "asleep s' = cw_sem2 (tz_sem (zc s'))" "returned s' = returned s + n" by auto
    let ?c = "(tz_sem (zc s'))\<lparr> cw_sem2 := cw_sem2 (tz_sem (zc s')) - 1 \<rparr>"
    let ?t = "s'\<lparr> zc := (zc s')\<lparr> tz_sem := ?c \<rparr>, asleep := asleep s' - 1, returned := returned s' + 1 \<rparr>"
    have "tz_step TzWake s' ?t"
      using s' Suc.prems by (intro tz_step.wake) (auto simp: cw_leave_def)
    then have "tz_run (replicate (Suc n) TzWake) s ?t"
      using tz_run.step [OF s'(1), of TzWake ?t] by (simp only: replicate_append_same [symmetric] replicate.simps)
    then show ?case using s' Suc.prems by (intro exI [of _ ?t]) auto
  qed
  from this [of "asleep s"] show ?thesis using b by auto
qed

lemma zero_wakes_all_witness:
  "\<exists>s. orderly s \<and> asleep s = 1 \<and> (\<exists>s'. tz_run [TzWake] s s' \<and> asleep s' = 0 \<and> returned s' = 1)"
proof -
  let ?s1 = "tz_init\<lparr> zc := tz_inc (zc tz_init) \<rparr>"
  let ?s2 = "?s1\<lparr> zc := (zc ?s1)\<lparr> tz_waiting := 1 \<rparr>, between := 1 \<rparr>"
  let ?s3 = "?s2\<lparr> zc := (zc ?s2)\<lparr> tz_sem := cw_enter (tz_sem (zc ?s2)) \<rparr>, between := 0, asleep := 1 \<rparr>"
  let ?s4 = "?s3\<lparr> zc := \<lparr> tz_counter = 0, tz_sem = \<lparr> cw_flag = 0, cw_sem2 = 1 \<rparr>, tz_waiting = 0 \<rparr> \<rparr>"
  note defs = tz_init_def new_to_zero_def new_cond_wait_def tz_inc_def tz_register_def cw_enter_def
  have steps: "tz_step TzInc tz_init ?s1" "tz_step TzRegister ?s1 ?s2" "tz_step TzSleep ?s2 ?s3" "tz_step TzDec ?s3 ?s4"
    by (simp_all add: tz_steps defs tz_dec_def cw_notify_def notify_loop.simps)
  have "orderly ?s4"
    by (rule orderly.go [OF orderly.go [OF orderly.go [OF orderly.go [OF orderly.start steps(1)] steps(2)] steps(3)] steps(4)])
      (simp_all add: defs)
  then show ?thesis
    using zero_wakes_all [of ?s4] by (intro exI [of _ ?s4]) (simp add: defs)
qed

section \<open>A wakeup that is lost\<close>

lemma notifications_bounded:
  assumes "tz_run ls s s'" "tz_waiting (zc s) = 0" "cw_sem2 (tz_sem (zc s)) = 0" "TzRegister \<notin> set ls"
  shows "tz_waiting (zc s') = 0 \<and> cw_sem2 (tz_sem (zc s')) = 0 \<and> asleep s \<le> asleep s' \<and>
    asleep s' + between s' = asleep s + between s \<and> returned s' = returned s"
  using assms
proof (induction rule: tz_run.induct)
  case (step ls s s' l s'')
  then have IH: "tz_waiting (zc s') = 0" "cw_sem2 (tz_sem (zc s')) = 0" "asleep s \<le> asleep s'"
      "asleep s' + between s' = asleep s + between s" "returned s' = returned s" "l \<noteq> TzRegister" by auto
  then show ?case using step.hyps(2)
    by (cases l) (auto simp: tz_steps tz_inc_def tz_dec_def cw_enter_def cw_leave_def Let_def split: if_splits)
qed simp

text \<open>
  The wakeup is lost when the counter falls to zero after a thread has
  registered and released the lock, and before it enters the conditional wait:
  the notification finds nobody asleep and is forgotten.  The thread then goes to
  sleep and never returns, whatever the others do to the counter afterwards, as
  long as no further thread registers.
\<close>

theorem zero_loses_wakeup:
  "\<exists>s. tz_run [TzInc, TzRegister, TzDec] tz_init s \<and> tz_counter (zc s) = 0 \<and>
     (\<exists>s'. tz_step TzSleep s s') \<and>
     (\<forall>ls s'. TzRegister \<notin> set ls \<and> tz_run ls s s' \<longrightarrow> returned s' = 0 \<and> asleep s' + between s' = 1)"
proof -
  let ?s1 = "tz_init\<lparr> zc := tz_inc (zc tz_init) \<rparr>"
  let ?s2 = "?s1\<lparr> zc := (zc ?s1)\<lparr> tz_waiting := 1 \<rparr>, between := 1 \<rparr>"
  let ?s3 = "?s2\<lparr> zc := (zc ?s2)\<lparr> tz_counter := 0, tz_waiting := 0 \<rparr> \<rparr>"
  note defs = tz_init_def new_to_zero_def new_cond_wait_def tz_inc_def tz_register_def
  have steps: "tz_step TzInc tz_init ?s1" "tz_step TzRegister ?s1 ?s2" "tz_step TzDec ?s2 ?s3"
    by (simp_all add: tz_steps defs tz_dec_def cw_notify_def notify_loop.simps)
  have "tz_run ([] @ [TzInc] @ [TzRegister] @ [TzDec]) tz_init ?s3"
    using tz_run.step [OF tz_run.step [OF tz_run.step [OF tz_run.nil steps(1)] steps(2)] steps(3)] by simp
  moreover have "returned s' = 0 \<and> asleep s' + between s' = 1"
    if "TzRegister \<notin> set ls \<and> tz_run ls ?s3 s'" for ls s'
    using notifications_bounded [of ls ?s3 s'] that by (simp add: defs)
  moreover have "\<exists>s'. tz_step TzSleep ?s3 s'" by (simp add: tz_steps)
  ultimately show ?thesis by (intro exI [of _ ?s3]) (simp add: defs)
qed

lemma zero_loses_wakeup_witness:
  "\<exists>s. tz_run [TzInc, TzRegister, TzDec] tz_init s \<and> (\<forall>s'. tz_run [TzSleep] s s' \<longrightarrow> returned s' = 0)"
proof -
  obtain s where s: "tz_run [TzInc, TzRegister, TzDec] tz_init s"
      "\<forall>ls s'. TzRegister \<notin> set ls \<and> tz_run ls s s' \<longrightarrow> returned s' = 0 \<and> asleep s' + between s' = 1"
    using zero_loses_wakeup by blast
  have "TzRegister \<notin> set [TzSleep]" by simp
  then show ?thesis using s by blast
qed

end
