(* ===== verification/ThreadPool.thy ===== *)
theory ThreadPool
  imports Prelude
begin

text \<open>
  \<open>util::ThreadPool\<close> (src/src/util/ThreadPool.cc): the threads that run jobs, and
  \<open>stop\<close>, which ends them.  A thread's function, \<open>stop\<close> and the submission of a
  job are cut at the points where another thread can run (the semaphores) into
  steps that \<open>pool_step\<close> interleaves.  The job queue is a list, which
  \<open>AppLLQueue\<close> refines; a job is a number, and running it appends it to the log
  \<open>started\<close>.
\<close>

section \<open>State\<close>

datatype job = Job nat | Terminate

text \<open>A thread is about to set \<open>running\<close>, at the test of its loop, or holds a token and is about
  to fetch a job, or has left.\<close>

datatype thread_pc = At_Start | At_Test | At_Fetch | Exited

record pool_thread =
  t_pc :: thread_pc
  t_running :: bool
  t_jobcount :: int

datatype stop_pc = Stop_Idle | Stop_Loop nat | Stop_Wait nat | Stop_Done

record pool =
  threads :: "pool_thread list"
  jobs :: "job list"
  waitForJob :: nat
  waitToTerminate :: nat
  numThreadRunning :: int
  turnedOffIndex :: int
  pool_running :: bool
  pool_stopped :: bool
  stop_at :: stop_pc
  started :: "nat list"

definition new_pool :: pool where
  "new_pool = \<lparr> threads = [], jobs = [], waitForJob = 0, waitToTerminate = 0, numThreadRunning = 0,
     turnedOffIndex = - 1, pool_running = False, pool_stopped = False, stop_at = Stop_Idle, started = [] \<rparr>"

section \<open>Operations\<close>

definition pool_run :: "nat \<Rightarrow> pool \<Rightarrow> pool" where
  "pool_run maxCount p =
     (if pool_running p \<or> pool_stopped p then p
      else p\<lparr> pool_running := True,
        threads := replicate maxCount \<lparr> t_pc = At_Start, t_running = True, t_jobcount = 0 \<rparr>,
        numThreadRunning := numThreadRunning p + int maxCount \<rparr>)"

definition putJob :: "job \<Rightarrow> pool \<Rightarrow> pool" where
  "putJob jb p = p\<lparr> jobs := jobs p @ [jb], waitForJob := waitForJob p + 1 \<rparr>"

definition executeInsidePool :: "nat \<Rightarrow> pool \<Rightarrow> pool res" where
  "executeInsidePool f p = app_assert (pool_running p) (Inr (putJob (Job f) p))"

definition set_thread :: "nat \<Rightarrow> pool_thread \<Rightarrow> pool \<Rightarrow> pool" where
  "set_thread i t p = p\<lparr> threads := (threads p)[i := t] \<rparr>"

text \<open>One step of \<open>func\<close> in thread \<open>i\<close>; \<open>getJob\<close> is its wait and its fetch.\<close>

definition worker_step :: "nat \<Rightarrow> pool \<Rightarrow> pool res" where
  "worker_step i p =
     (if i \<ge> length (threads p) then Inl Out_Of_Bounds
      else let t = threads p ! i in
        case t_pc t of
          At_Start \<Rightarrow> Inr (set_thread i (t\<lparr> t_running := True, t_pc := At_Test \<rparr>) p)
        | At_Test \<Rightarrow>
            if \<not> t_running t then Inr (set_thread i (t\<lparr> t_pc := Exited \<rparr>) p)
            else if waitForJob p = 0 then Inl Blocked
            else Inr (set_thread i (t\<lparr> t_pc := At_Fetch \<rparr>) (p\<lparr> waitForJob := waitForJob p - 1 \<rparr>))
        | At_Fetch \<Rightarrow>
            (case jobs p of
               [] \<Rightarrow> Inr (set_thread i (t\<lparr> t_pc := At_Test \<rparr>) p)
             | Terminate # js \<Rightarrow>
                 Inr (set_thread i (t\<lparr> t_running := False, t_pc := Exited \<rparr>)
                   (p\<lparr> jobs := js, turnedOffIndex := int i, numThreadRunning := numThreadRunning p - 1,
                       waitToTerminate := waitToTerminate p + 1 \<rparr>))
             | Job f # js \<Rightarrow>
                 Inr (set_thread i (t\<lparr> t_jobcount := t_jobcount t + 1, t_pc := At_Test \<rparr>)
                   (p\<lparr> jobs := js, started := started p @ [f] \<rparr>)))
        | Exited \<Rightarrow> Inl Blocked)"

text \<open>One step of \<open>stop\<close>; it joins the thread that reported its end.\<close>

definition stop_begin :: "pool \<Rightarrow> pool" where
  "stop_begin p = p\<lparr> pool_running := False, pool_stopped := True, stop_at := Stop_Loop 0 \<rparr>"

definition stop_step :: "pool \<Rightarrow> pool res" where
  "stop_step p =
     (case stop_at p of
        Stop_Loop i \<Rightarrow>
          if i \<ge> length (threads p) then Inr (p\<lparr> stop_at := Stop_Done \<rparr>)
          else if \<not> t_running (threads p ! i) then Inr (p\<lparr> stop_at := Stop_Loop (i + 1) \<rparr>)
          else Inr (putJob Terminate (p\<lparr> turnedOffIndex := - 1, stop_at := Stop_Wait i \<rparr>))
      | Stop_Wait i \<Rightarrow>
          if waitToTerminate p = 0 then Inl Blocked
          else if turnedOffIndex p < 0 \<or> turnedOffIndex p \<ge> int (length (threads p)) then Inl Out_Of_Bounds
          else if t_pc (threads p ! nat (turnedOffIndex p)) \<noteq> Exited then Inl Blocked
          else Inr (p\<lparr> waitToTerminate := waitToTerminate p - 1, stop_at := Stop_Loop (i + 1) \<rparr>)
      | _ \<Rightarrow> Inl Blocked)"

section \<open>Interleavings\<close>

datatype pool_label = Submit nat | Begin_Stop | Stopper | Worker nat

inductive pool_step :: "pool_label \<Rightarrow> pool \<Rightarrow> pool \<Rightarrow> bool" where
  submit: "executeInsidePool f p = Inr p' \<Longrightarrow> pool_step (Submit f) p p'"
| begin_stop: "stop_at p = Stop_Idle \<Longrightarrow> pool_step Begin_Stop p (stop_begin p)"
| stopper: "stop_step p = Inr p' \<Longrightarrow> pool_step Stopper p p'"
| worker: "worker_step i p = Inr p' \<Longrightarrow> pool_step (Worker i) p p'"

inductive_simps pool_step_simps:
  "pool_step (Submit f) p p'" "pool_step Begin_Stop p p'" "pool_step Stopper p p'" "pool_step (Worker i) p p'"

text \<open>The states of a pool with \<open>n\<close> threads after the jobs \<open>fs\<close> were submitted, in that order.\<close>

inductive pool_reach :: "nat \<Rightarrow> nat list \<Rightarrow> pool \<Rightarrow> bool" where
  start: "pool_reach n [] (pool_run n new_pool)"
| submit: "pool_reach n fs p \<Longrightarrow> pool_step (Submit f) p p' \<Longrightarrow> pool_reach n (fs @ [f]) p'"
| internal: "pool_reach n fs p \<Longrightarrow> pool_step l p p' \<Longrightarrow> (\<forall>f. l \<noteq> Submit f) \<Longrightarrow> pool_reach n fs p'"

section \<open>Invariants\<close>

definition fetching :: "pool \<Rightarrow> nat" where
  "fetching p = length (filter (\<lambda>t. t_pc t = At_Fetch) (threads p))"

definition job_number :: "job \<Rightarrow> nat list" where
  "job_number jb = (case jb of Job f \<Rightarrow> [f] | Terminate \<Rightarrow> [])"

text \<open>Every queued job has a token, in the semaphore or in the hands of a thread, and jobs start
  in the order they were submitted.\<close>

definition pool_inv :: "nat list \<Rightarrow> pool \<Rightarrow> bool" where
  "pool_inv fs p \<longleftrightarrow> waitForJob p + fetching p = length (jobs p) \<and>
     started p @ concat (map job_number (jobs p)) = fs"

lemma count_update:
  "i < length xs \<Longrightarrow> length (filter P (xs[i := t])) + (if P (xs ! i) then 1 else 0) =
     length (filter P xs) + (if P t then 1 else 0)"
proof (induction xs arbitrary: i)
  case (Cons x xs)
  show ?case
  proof (cases i)
    case (Suc j)
    then show ?thesis using Cons.IH [of j] Cons.prems by simp
  qed simp
qed simp

lemma fetching_set:
  "i < length (threads p) \<Longrightarrow> fetching (set_thread i t p) + (if t_pc (threads p ! i) = At_Fetch then 1 else 0) =
     fetching p + (if t_pc t = At_Fetch then 1 else 0)"
  using count_update [of i "threads p" "\<lambda>t. t_pc t = At_Fetch" t] by (simp add: fetching_def set_thread_def)

lemma fetching_pos:
  assumes "i < length (threads p)" "t_pc (threads p ! i) = At_Fetch"
  shows "0 < fetching p"
  using assms by (auto simp: fetching_def filter_empty_conv)

lemma set_thread_simps [simp]:
  "jobs (set_thread i t p) = jobs p" "waitForJob (set_thread i t p) = waitForJob p"
  "started (set_thread i t p) = started p" "stop_at (set_thread i t p) = stop_at p"
  "pool_running (set_thread i t p) = pool_running p" "waitToTerminate (set_thread i t p) = waitToTerminate p"
  "turnedOffIndex (set_thread i t p) = turnedOffIndex p" "threads (set_thread i t p) = (threads p)[i := t]"
  by (simp_all add: set_thread_def)

lemma fetching_cong: "threads p = threads p' \<Longrightarrow> fetching p = fetching p'"
  by (simp add: fetching_def)

lemma worker_step_inv:
  assumes "worker_step i p = Inr p'" "pool_inv fs p"
  shows "pool_inv fs p'"
proof -
  let ?t = "threads p ! i"
  have i: "i < length (threads p)" using assms(1) by (auto simp: worker_step_def split: if_splits)
  note F = fetching_set [OF i]
  show ?thesis
  proof (cases "t_pc ?t")
    case At_Start
    then show ?thesis
      using assms i F [of "?t\<lparr> t_running := True, t_pc := At_Test \<rparr>"] by (auto simp: worker_step_def pool_inv_def)
  next
    case At_Test
    show ?thesis
    proof (cases "t_running ?t")
      case True
      define q where "q = p\<lparr> waitForJob := waitForJob p - 1 \<rparr>"
      obtain w where "p' = set_thread i (?t\<lparr> t_pc := At_Fetch \<rparr>) q" "waitForJob p = Suc w"
        using assms(1) i At_Test True by (cases "waitForJob p") (auto simp: worker_step_def q_def split: if_splits)
      moreover have "fetching (set_thread i (?t\<lparr> t_pc := At_Fetch \<rparr>) q) = fetching p + 1"
        using fetching_set [of i q "?t\<lparr> t_pc := At_Fetch \<rparr>"] i At_Test fetching_cong [of q p] by (simp add: q_def)
      ultimately show ?thesis using assms(2) by (simp add: pool_inv_def q_def)
    next
      case False
      then show ?thesis
        using assms i At_Test F [of "?t\<lparr> t_pc := Exited \<rparr>"] by (auto simp: worker_step_def pool_inv_def)
    qed
  next
    case At_Fetch
    then obtain j js where j: "jobs p = j # js"
      using assms(2) fetching_pos [OF i] by (cases "jobs p") (auto simp: pool_inv_def)
    obtain t q where q: "p' = set_thread i t q" "threads q = threads p" "t_pc t \<noteq> At_Fetch" "jobs q = js"
        "waitForJob q = waitForJob p" "started q = started p @ job_number j"
    proof (cases j)
      case (Job f)
      then show ?thesis
        using that [of "?t\<lparr> t_jobcount := t_jobcount ?t + 1, t_pc := At_Test \<rparr>" "p\<lparr> jobs := js, started := started p @ [f] \<rparr>"]
          assms(1) i At_Fetch j by (simp add: worker_step_def job_number_def Let_def)
    next
      case Terminate
      then show ?thesis
        using that [of "?t\<lparr> t_running := False, t_pc := Exited \<rparr>" "p\<lparr> jobs := js, turnedOffIndex := int i,
            numThreadRunning := numThreadRunning p - 1, waitToTerminate := waitToTerminate p + 1 \<rparr>"]
          assms(1) i At_Fetch j by (simp add: worker_step_def job_number_def Let_def)
    qed
    have "fetching (set_thread i t q) + 1 = fetching p"
      using fetching_set [of i q t] q(2,3) i At_Fetch fetching_cong [of q p] by simp
    then show ?thesis using assms(2) q j by (auto simp: pool_inv_def)
  next
    case Exited
    then show ?thesis using assms(1) i by (simp add: worker_step_def)
  qed
qed

lemma pool_step_inv:
  assumes "pool_step l p p'" "pool_inv fs p" "\<forall>f. l \<noteq> Submit f"
  shows "pool_inv fs p'"
proof (cases l)
  case Begin_Stop
  then show ?thesis
    using assms by (auto simp: pool_step_simps stop_begin_def pool_inv_def fetching_def)
next
  case Stopper
  then have "stop_step p = Inr p'" using assms(1) by (simp add: pool_step_simps)
  then show ?thesis
    using assms(2)
    by (auto simp: stop_step_def pool_inv_def fetching_def putJob_def job_number_def split: stop_pc.splits if_splits)
next
  case (Worker i)
  then show ?thesis using assms by (auto simp: pool_step_simps intro: worker_step_inv)
qed (use assms in auto)

lemma pool_reach_inv: "pool_reach n fs p \<Longrightarrow> pool_inv fs p"
proof (induction rule: pool_reach.induct)
  case (start n)
  show ?case by (simp add: pool_inv_def pool_run_def new_pool_def fetching_def)
next
  case (submit n fs p f p')
  then have "p' = putJob (Job f) p" by (simp add: pool_step_simps executeInsidePool_def app_assert_def split: if_splits)
  then show ?case using submit.IH by (simp add: putJob_def pool_inv_def fetching_def job_number_def)
next
  case (internal n fs p l p')
  show ?case by (rule pool_step_inv [OF internal.hyps(2) internal.IH internal.hyps(3)])
qed

section \<open>A pool of one thread\<close>

definition live :: "pool_thread \<Rightarrow> bool" where
  "live t \<longleftrightarrow> t_running t \<and> t_pc t \<noteq> Exited"

definition gone :: "pool_thread \<Rightarrow> bool" where
  "gone t \<longleftrightarrow> \<not> t_running t \<and> t_pc t = Exited"

text \<open>\<open>WorkerThread\<close>: the thread lives until it has fetched the one \<open>Terminate\<close>, the last job.\<close>

fun wt_ok :: "stop_pc \<Rightarrow> pool_thread \<Rightarrow> job list \<Rightarrow> nat \<Rightarrow> int \<Rightarrow> bool" where
  "wt_ok Stop_Idle t js w k \<longleftrightarrow> live t \<and> Terminate \<notin> set js \<and> w = 0"
| "wt_ok (Stop_Loop 0) t js w k \<longleftrightarrow> live t \<and> Terminate \<notin> set js \<and> w = 0"
| "wt_ok (Stop_Loop (Suc i)) t js w k \<longleftrightarrow> i = 0 \<and> gone t \<and> js = []"
| "wt_ok (Stop_Wait i) t js w k \<longleftrightarrow> i = 0 \<and>
     (live t \<and> w = 0 \<and> (\<exists>ks. js = ks @ [Terminate] \<and> Terminate \<notin> set ks) \<or> gone t \<and> w = 1 \<and> k = 0 \<and> js = [])"
| "wt_ok Stop_Done t js w k \<longleftrightarrow> gone t \<and> js = []"

definition wt_inv :: "pool \<Rightarrow> bool" where
  "wt_inv p \<longleftrightarrow> (\<exists>t. threads p = [t] \<and> wt_ok (stop_at p) t (jobs p) (waitToTerminate p) (turnedOffIndex p)) \<and>
     (pool_running p \<longleftrightarrow> stop_at p = Stop_Idle)"

lemma wt_ok_live: "wt_ok sp t js w k \<Longrightarrow> live t \<Longrightarrow> live t' \<Longrightarrow> wt_ok sp t' js w k"
  by (cases "(sp, t, js, w, k)" rule: wt_ok.cases) (auto simp: live_def gone_def)

lemma wt_ok_job: "wt_ok sp t (Job f # js) w k \<Longrightarrow> wt_ok sp t js w k"
  by (cases "(sp, t, js, w, k)" rule: wt_ok.cases) (auto simp: Cons_eq_append_conv)

lemma wt_ok_terminate: "wt_ok sp t (Terminate # js) w k \<Longrightarrow> sp = Stop_Wait 0 \<and> js = [] \<and> w = 0"
  by (cases "(sp, t, js, w, k)" rule: wt_ok.cases) (auto simp: Cons_eq_append_conv)

lemma wt_ok_jobs: "wt_ok sp t js w k \<Longrightarrow> js \<noteq> [] \<Longrightarrow> live t"
  by (cases "(sp, t, js, w, k)" rule: wt_ok.cases) auto

lemma wt_ok_exclusive: "wt_ok sp t js w k \<Longrightarrow> live t \<or> gone t"
  by (cases "(sp, t, js, w, k)" rule: wt_ok.cases) auto

fun pc_weight :: "thread_pc \<Rightarrow> nat" where
  "pc_weight At_Start = 2" | "pc_weight At_Test = 1" | "pc_weight At_Fetch = 0" | "pc_weight Exited = 0"

fun stop_weight :: "stop_pc \<Rightarrow> nat" where
  "stop_weight (Stop_Loop 0) = 5" | "stop_weight (Stop_Loop (Suc i)) = 1" | "stop_weight (Stop_Wait i) = 2"
| "stop_weight Stop_Idle = 0" | "stop_weight Stop_Done = 0"

definition pool_measure :: "pool \<Rightarrow> nat" where
  "pool_measure p = 2 * length (jobs p) + sum_list (map (\<lambda>t. pc_weight (t_pc t)) (threads p)) + stop_weight (stop_at p)"

lemma worker_wt:
  assumes "worker_step i p = Inr p'" "wt_inv p" "pool_inv fs p"
  shows "wt_inv p' \<and> pool_measure p' < pool_measure p"
proof -
  obtain t where t: "threads p = [t]" "wt_ok (stop_at p) t (jobs p) (waitToTerminate p) (turnedOffIndex p)"
    using assms(2) by (auto simp: wt_inv_def)
  have i: "i = 0" using assms(1) t(1) by (auto simp: worker_step_def split: if_splits)
  have run: "pool_running p \<longleftrightarrow> stop_at p = Stop_Idle" using assms(2) by (simp add: wt_inv_def)
  have "live t" using wt_ok_exclusive [OF t(2)] assms(1) t(1) i by (auto simp: gone_def worker_step_def)
  note keep = wt_ok_live [OF t(2) this]
  show ?thesis
  proof (cases "t_pc t")
    case At_Start
    then show ?thesis
      using assms(1) t i run keep [of "t\<lparr> t_running := True, t_pc := At_Test \<rparr>"]
      by (auto simp: worker_step_def wt_inv_def pool_measure_def live_def)
  next
    case At_Test
    then show ?thesis
      using assms(1) t i run \<open>live t\<close> keep [of "t\<lparr> t_pc := At_Fetch \<rparr>"]
      by (auto simp: worker_step_def wt_inv_def pool_measure_def live_def split: if_splits)
  next
    case At_Fetch
    then obtain j js where j: "jobs p = j # js"
      using assms(3) fetching_pos [of i p] t(1) i by (cases "jobs p") (auto simp: pool_inv_def)
    show ?thesis
    proof (cases j)
      case (Job f)
      then show ?thesis
        using assms(1) t i j run At_Fetch \<open>live t\<close> wt_ok_job [of "stop_at p" "t\<lparr> t_jobcount := t_jobcount t + 1, t_pc := At_Test \<rparr>" f]
          keep [of "t\<lparr> t_jobcount := t_jobcount t + 1, t_pc := At_Test \<rparr>"]
        by (simp add: worker_step_def wt_inv_def pool_measure_def live_def Let_def) auto
    next
      case Terminate
      then have "stop_at p = Stop_Wait 0 \<and> js = [] \<and> waitToTerminate p = 0"
        using t(2) j by (intro wt_ok_terminate [of "stop_at p" t js _ "turnedOffIndex p"]) simp
      then show ?thesis
        using assms(1) t i j run At_Fetch Terminate
        by (auto simp: worker_step_def wt_inv_def pool_measure_def gone_def)
    qed
  next
    case Exited
    then show ?thesis using \<open>live t\<close> by (simp add: live_def)
  qed
qed

lemma stopper_wt:
  assumes "stop_step p = Inr p'" "wt_inv p"
  shows "wt_inv p' \<and> pool_measure p' < pool_measure p"
proof -
  obtain t where t: "threads p = [t]" "wt_ok (stop_at p) t (jobs p) (waitToTerminate p) (turnedOffIndex p)"
    and run: "pool_running p \<longleftrightarrow> stop_at p = Stop_Idle"
    using assms(2) by (auto simp: wt_inv_def)
  show ?thesis
  proof (cases "stop_at p")
    case (Stop_Loop n)
    then show ?thesis
      using assms(1) t run
      by (cases n) (auto simp: stop_step_def wt_inv_def pool_measure_def putJob_def live_def gone_def)
  next
    case (Stop_Wait n)
    then show ?thesis
      using assms(1) t run by (auto simp: stop_step_def wt_inv_def pool_measure_def gone_def split: if_splits)
  qed (use assms(1) in \<open>simp_all add: stop_step_def\<close>)
qed

lemma pool_reach_wt: "pool_reach n fs p \<Longrightarrow> n = 1 \<Longrightarrow> wt_inv p"
proof (induction rule: pool_reach.induct)
  case (start n)
  then show ?case by (simp add: wt_inv_def pool_run_def new_pool_def live_def)
next
  case (submit n fs p f p')
  then have p': "p' = putJob (Job f) p" "pool_running p"
    by (simp_all add: pool_step_simps executeInsidePool_def app_assert_def split: if_splits)
  show ?case using submit.IH submit.prems p' by (auto simp: wt_inv_def putJob_def)
next
  case (internal n fs p l p')
  have I: "wt_inv p" "pool_inv fs p" using internal.IH internal.prems pool_reach_inv [OF internal.hyps(1)] by simp_all
  show ?case
  proof (cases l)
    case Begin_Stop
    then show ?thesis using internal.hyps(2) I(1) by (auto simp: pool_step_simps stop_begin_def wt_inv_def)
  next
    case Stopper
    then show ?thesis using internal.hyps(2) stopper_wt [OF _ I(1)] by (simp add: pool_step_simps)
  next
    case (Worker i)
    then show ?thesis using internal.hyps(2) worker_wt [OF _ I] by (simp add: pool_step_simps)
  qed (use internal.hyps(3) in simp)
qed



section \<open>More than one thread\<close>

text \<open>A run given by its labels; \<open>step_of\<close> computes the step of a label.\<close>

fun step_of :: "pool_label \<Rightarrow> pool \<Rightarrow> pool res" where
  "step_of (Submit f) p = executeInsidePool f p"
| "step_of Begin_Stop p = (if stop_at p = Stop_Idle then Inr (stop_begin p) else Inl Blocked)"
| "step_of Stopper p = stop_step p"
| "step_of (Worker i) p = worker_step i p"

fun steps_of :: "pool_label list \<Rightarrow> pool \<Rightarrow> pool res" where
  "steps_of [] p = Inr p"
| "steps_of (l # ls) p = bind_res (step_of l p) (steps_of ls)"

lemma step_of_pool_step: "step_of l p = Inr p' \<Longrightarrow> pool_step l p p'"
  by (cases l) (auto simp: pool_step_simps split: if_splits)

lemma steps_of_reach:
  "pool_reach n fs p \<Longrightarrow> \<forall>l\<in>set ls. \<forall>f. l \<noteq> Submit f \<Longrightarrow> steps_of ls p = Inr p' \<Longrightarrow> pool_reach n fs p'"
proof (induction ls arbitrary: p)
  case (Cons l ls)
  obtain q where q: "step_of l p = Inr q" "steps_of ls q = Inr p'"
    using Cons.prems(3) by (auto simp: bind_res_Inr_iff)
  have l: "\<forall>f. l \<noteq> Submit f" "\<forall>l\<in>set ls. \<forall>f. l \<noteq> Submit f" using Cons.prems(2) by simp_all
  show ?case
    by (rule Cons.IH [OF pool_reach.internal [OF Cons.prems(1) step_of_pool_step [OF q(1)] l(1)] l(2) q(2)])
qed simp

text \<open>
  With two threads \<open>stop\<close> can return while a thread is still running and will
  never end: the job that terminates, put for the first thread, is fetched by
  the second one, and \<open>stop\<close>, which goes by the index, passes the second as
  already off and never comes back to the first.  From then on no step of that
  thread is possible: it waits for a job that nobody can submit.
\<close>

theorem stop_leaves_thread:
  "\<exists>p. pool_reach 2 [] p \<and> stop_at p = Stop_Done \<and> t_running (threads p ! 0) \<and> t_pc (threads p ! 0) = At_Test \<and>
    worker_step 0 p = Inl Blocked \<and> (\<forall>f. executeInsidePool f p = Inl Assert_Failed)"
proof -
  let ?ls = "[Worker 0, Worker 1, Begin_Stop, Stopper, Worker 1, Worker 1, Stopper, Stopper, Stopper]"
  let ?p = "\<lparr> threads = [\<lparr> t_pc = At_Test, t_running = True, t_jobcount = 0 \<rparr>, \<lparr> t_pc = Exited, t_running = False, t_jobcount = 0 \<rparr>],
    jobs = [], waitForJob = 0, waitToTerminate = 0, numThreadRunning = 1, turnedOffIndex = 1, pool_running = False,
    pool_stopped = True, stop_at = Stop_Done, started = [] \<rparr>"
  have "steps_of ?ls (pool_run 2 new_pool) = Inr ?p" by code_simp
  then have "pool_reach 2 [] ?p" by (rule steps_of_reach [OF pool_reach.start, rotated]) simp
  then show ?thesis by (intro exI [of _ ?p]) (simp add: worker_step_def executeInsidePool_def)
qed

end
