(* ===== verification/LinuxMath.thy ===== *)
theory LinuxMath
  imports Prelude
begin

text \<open>
  src/src/util/LinuxMath.cc: the position of the highest bit and a 64 by 64 bit
  division that divides by at most 32 bits.  The theorem says how far the
  quotient is from the exact one.
\<close>

section \<open>The code\<close>

text \<open>One of the five steps of \<open>fls\<close>: shift by \<open>k\<close> when the upper \<open>k\<close> bits are zero.\<close>

definition fls_step :: "nat \<Rightarrow> appInt32 \<Rightarrow> appInt32 \<times> int \<Rightarrow> appInt32 \<times> int" where
  "fls_step k m xr = (if fst xr AND m = 0 then (push_bit k (fst xr), snd xr - int k) else xr)"

definition fls :: "appInt32 \<Rightarrow> int" where
  "fls x =
     (if x = 0 then 0
      else snd (fls_step 1 0x80000000 (fls_step 2 0xc0000000 (fls_step 4 0xf0000000
             (fls_step 8 0xff000000 (fls_step 16 0xffff0000 (x, 32)))))))"

definition fls64 :: "appInt64 \<Rightarrow> int" where
  "fls64 x = (let h = (ucast (drop_bit 32 x) :: appInt32) in if h \<noteq> 0 then fls h + 32 else fls (ucast x))"

definition do_div :: "appInt64 \<Rightarrow> appInt32 \<Rightarrow> appInt64 res" where
  "do_div n base = check Div_By_Zero (base \<noteq> 0) (Inr (n div ucast base))"

definition div64_64 :: "appInt64 \<Rightarrow> appInt64 \<Rightarrow> appInt64 res" where
  "div64_64 dividend divisor =
     (let high = (ucast (drop_bit 32 divisor) :: appInt32) in
      if high \<noteq> 0 then
        (let shift = nat (fls high) in
         do_div (drop_bit shift dividend) (ucast (drop_bit shift divisor)))
      else do_div dividend (ucast divisor))"

section \<open>The highest bit\<close>

lemma upper_bits_zero:
  fixes x :: appInt32
  assumes "k \<le> 32"
  shows "x AND push_bit (32 - k) (mask k) = 0 \<longleftrightarrow> unat x < 2 ^ (32 - k)"
proof -
  let ?m = "32 - k"
  have "x AND push_bit ?m (mask k) = push_bit ?m (drop_bit ?m x)"
    using assms by (intro bit_word_eqI) (auto simp: bit_simps)
  moreover have "drop_bit ?m (push_bit ?m (drop_bit ?m x)) = drop_bit ?m x"
    using assms by (intro bit_word_eqI) (auto simp: bit_simps dest: bit_imp_le_length)
  ultimately have "x AND push_bit ?m (mask k) = 0 \<longleftrightarrow> drop_bit ?m x = 0"
    by (metis drop_bit_of_0 push_bit_of_0)
  also have "\<dots> \<longleftrightarrow> unat (drop_bit ?m x) = 0" by (simp only: unat_eq_0)
  also have "unat (drop_bit ?m x) = unat x div 2 ^ ?m" by (simp only: unat_drop_bit_eq) (rule drop_bit_eq_div)
  finally show ?thesis by (simp add: div_eq_0_iff)
qed

lemma masks:
  "(0xffff0000 :: appInt32) = push_bit (32 - 16) (mask 16)" "(0xff000000 :: appInt32) = push_bit (32 - 8) (mask 8)"
  "(0xf0000000 :: appInt32) = push_bit (32 - 4) (mask 4)" "(0xc0000000 :: appInt32) = push_bit (32 - 2) (mask 2)"
  "(0x80000000 :: appInt32) = push_bit (32 - 1) (mask 1)"
  by (simp_all add: mask_eq_exp_minus_1 push_bit_eq_mult)

text \<open>
  The state of the search for \<open>x\<close>: the shifted value is \<open>x\<close> times the power of
  two that \<open>r\<close> lacks from 32, and at least \<open>2 ^ b\<close>; \<open>r\<close> is at least \<open>32 - b\<close>.
\<close>

definition fls_rel :: "appInt32 \<Rightarrow> nat \<Rightarrow> appInt32 \<times> int \<Rightarrow> bool" where
  "fls_rel x b xr \<longleftrightarrow> int (32 - b) \<le> snd xr \<and> snd xr \<le> 32 \<and>
     unat (fst xr) = unat x * 2 ^ (32 - nat (snd xr)) \<and> 2 ^ b \<le> unat (fst xr)"

lemma fls_step_rel:
  assumes "fls_rel x (32 - 2 * k) xr" "2 * k \<le> 32" "m = push_bit (32 - k) (mask k)"
  shows "fls_rel x (32 - k) (fls_step k m xr)"
proof (cases "unat (fst xr) < 2 ^ (32 - k)")
  case True
  have "unat (fst xr) * 2 ^ k < 2 ^ (32 - k) * 2 ^ k" using True by simp
  also have "\<dots> = (2::nat) ^ 32" using assms(2) by (simp flip: power_add)
  finally have "unat (push_bit k (fst xr)) = unat (fst xr) * 2 ^ k"
    unfolding unsigned_push_bit_eq by (simp add: push_bit_eq_mult take_bit_eq_mod)
  moreover have "2 ^ (32 - 2 * k) * 2 ^ k \<le> unat (fst xr) * 2 ^ k" using assms(1) by (simp add: fls_rel_def)
  moreover have "(2::nat) ^ (32 - 2 * k) * 2 ^ k = 2 ^ (32 - k)" using assms(2) by (simp flip: power_add)
  moreover have "32 - nat (snd xr - int k) = (32 - nat (snd xr)) + k" using assms(1,2) by (auto simp: fls_rel_def)
  ultimately show ?thesis
    using True assms upper_bits_zero [of k "fst xr"] by (simp add: fls_rel_def fls_step_def power_add)
next
  case False
  then show ?thesis
    using assms upper_bits_zero [of k "fst xr"] by (simp add: fls_rel_def fls_step_def)
qed

lemmas fls_steps = fls_step_rel [OF _ _ masks(1), simplified] fls_step_rel [OF _ _ masks(2), simplified]
  fls_step_rel [OF _ _ masks(3), simplified] fls_step_rel [OF _ _ masks(4), simplified]
  fls_step_rel [OF _ _ masks(5), simplified]

text \<open>
  \<open>fls\<close> gives the position of the highest bit, counted from one: for a
  word that is not zero it is the number of binary digits.
\<close>

theorem fls_highest_bit:
  assumes "x \<noteq> 0"
  shows "1 \<le> fls x \<and> fls x \<le> 32 \<and> 2 ^ (nat (fls x) - 1) \<le> unat x \<and> unat x < 2 ^ nat (fls x)"
proof -
  define xr where "xr = fls_step 1 0x80000000 (fls_step 2 0xc0000000 (fls_step 4 0xf0000000
    (fls_step 8 0xff000000 (fls_step 16 0xffff0000 (x, 32)))))"
  have "fls_rel x 0 (x, 32)" using assms by (simp add: fls_rel_def unat_gt_0 Suc_le_eq)
  then have r: "fls_rel x 31 xr"
    unfolding xr_def One_nat_def by (intro fls_steps)
  have f: "fls x = snd xr" using assms by (simp add: fls_def xr_def)
  define n where "n = nat (fls x)"
  have n: "fls x = int n" "1 \<le> n" "n \<le> 32" and v: "unat (fst xr) = unat x * 2 ^ (32 - n)" "2 ^ 31 \<le> unat (fst xr)"
    using r by (auto simp: fls_rel_def f n_def)
  have "2 ^ (n - 1) * 2 ^ (32 - n) = (2::nat) ^ 31" "2 ^ n * 2 ^ (32 - n) = (2::nat) ^ 32"
    using n by (simp_all flip: power_add)
  moreover have "unat (fst xr) < 2 ^ 32" using unsigned_less [of "fst xr"] by simp
  ultimately have "2 ^ (n - 1) * 2 ^ (32 - n) \<le> unat x * 2 ^ (32 - n)" "unat x * 2 ^ (32 - n) < 2 ^ n * 2 ^ (32 - n)"
    using v by simp_all
  then show ?thesis using n by simp
qed

lemma fls_highest_bit_witness: "fls 1000 = 10 \<and> 2 ^ (nat (fls 1000) - 1) \<le> unat (1000 :: appInt32)"
proof -
  have "fls 1000 = 10" by code_simp
  then show ?thesis using fls_highest_bit [of 1000] by simp
qed

section \<open>The division\<close>

lemma quotient_close:
  fixes a b d s :: nat
  assumes "a < 2 ^ 64" "1 \<le> s" "s \<le> 32" "2 ^ (31 + s) \<le> b" "d = b div 2 ^ s" "2 ^ 31 \<le> d"
  shows "a div b \<le> a div (2 ^ s * d)" "a div (2 ^ s * d) \<le> a div b + 1"
proof -
  let ?p = "(2::nat) ^ s"
  have bd: "?p * d \<le> b" "b < ?p * d + ?p"
    using assms(5) dividend_less_div_times [of ?p b] by (simp_all add: mult.commute [of ?p] add.commute)
  have pos: "0 < ?p * d" using assms(6) by simp
  show "a div b \<le> a div (?p * d)" by (rule div_le_mono2 [OF pos bd(1)])
  define Q where "Q = a div b"
  have "b * Q \<le> a" by (simp add: Q_def)
  then have "2 ^ (31 + s) * Q < 2 ^ 64" using assms(1,4) by (meson le_less_trans le_trans mult_le_mono1)
  moreover have "(2::nat) ^ 64 = 2 ^ (31 + s) * 2 ^ (33 - s)" using assms(3) by (simp flip: power_add)
  ultimately have Q: "Q + 1 \<le> 2 ^ (33 - s)" by (metis Suc_eq_plus1 Suc_leI nat_mult_less_cancel_disj)
  have "(Q + 1) * (?p - 1) \<le> 2 ^ (33 - s) * (?p - 1)" using Q by (rule mult_le_mono1)
  also have "\<dots> = 2 ^ 33 - 2 ^ (33 - s)" using assms(3) by (simp add: diff_mult_distrib2 flip: power_add)
  also have "\<dots> \<le> ?p * 2 ^ 31"
  proof (cases "s = 1")
    case False
    then have "(2::nat) ^ 33 \<le> 2 ^ (s + 31)" using assms(2) by (intro power_increasing) auto
    then show ?thesis by (simp add: power_add)
  qed simp
  also have "\<dots> \<le> ?p * d" using assms(6) by simp
  finally have small: "(Q + 1) * (?p - 1) \<le> ?p * d" .
  have "0 < b" using assms(4) by (metis gr0I not_le zero_less_numeral zero_less_power)
  then have "a < (Q + 1) * b" using dividend_less_div_times [of b a] by (simp add: Q_def add.commute)
  also have "\<dots> \<le> (Q + 1) * (?p * d + (?p - 1))" using bd(2) by (intro mult_le_mono2) simp
  also have "\<dots> \<le> (Q + 2) * (?p * d)" using small by (simp add: algebra_simps)
  finally have "a div (?p * d) < Q + 2" using pos by (simp add: div_less_iff_less_mult)
  then show "a div (?p * d) \<le> a div b + 1" by (simp add: Q_def)
qed

text \<open>
  \<open>div64_64\<close> divides exactly when the divisor fits in 32 bits; otherwise its
  quotient is the exact one or one more.  It fails only for the divisor zero.
\<close>

theorem div64_64_bounds:
  assumes "b \<noteq> 0"
  shows "\<exists>q. div64_64 a b = Inr q \<and> unat a div unat b \<le> unat q \<and>
    unat q \<le> unat a div unat b + (if unat b < 2 ^ 32 then 0 else 1)"
proof -
  define high where "high = (ucast (drop_bit 32 b) :: appInt32)"
  have lt: "unat a < 2 ^ 64" "unat b < 2 ^ 64" using unsigned_less [of a] unsigned_less [of b] by simp_all
  have drop: "unat (drop_bit n w) = unat w div 2 ^ n" for n and w :: appInt64
    by (simp only: unat_drop_bit_eq) (rule drop_bit_eq_div)
  have narrow: "unat (ucast w :: appInt32) = unat w" if "unat w < 2 ^ 32" for w :: appInt64
    using that by (simp add: unsigned_ucast_eq take_bit_eq_mod)
  have wide: "unat (ucast w :: appInt64) = unat w" for w :: appInt32
  proof -
    have "unat w < 2 ^ LENGTH(32)" by (rule unsigned_less)
    then show ?thesis by (simp add: unsigned_ucast_eq take_bit_eq_mod)
  qed
  have h: "unat high = unat b div 2 ^ 32"
    unfolding high_def using lt(2) by (subst narrow) (simp_all add: drop div_less_iff_less_mult)
  show ?thesis
  proof (cases "high = 0")
    case True
    then have b: "unat b < 2 ^ 32" using h by (simp add: div_eq_0_iff)
    then have "unat (ucast (ucast b :: appInt32) :: appInt64) = unat b" using wide narrow by simp
    then show ?thesis
      using True assms b narrow [OF b] unfolding div64_64_def high_def [symmetric]
      by (auto simp: do_div_def check_def unat_div Let_def simp flip: unat_eq_0)
  next
    case False
    define n where "n = nat (fls high)"
    have n: "1 \<le> n" "n \<le> 32" "2 ^ (n - 1) \<le> unat high" "unat high < 2 ^ n"
      using fls_highest_bit [OF False] by (auto simp: n_def)
    define d where "d = unat b div 2 ^ n"
    have b: "2 ^ (31 + n) \<le> unat b" "unat b < 2 ^ (32 + n)"
    proof -
      have "2 ^ (n - 1) * 2 ^ 32 \<le> unat b" "unat b < 2 ^ n * 2 ^ 32"
        using n(3,4) h by (simp_all add: less_eq_div_iff_mult_less_eq div_less_iff_less_mult)
      moreover have "(2::nat) ^ (n - 1) * 2 ^ 32 = 2 ^ (31 + n)"
        unfolding power_add [symmetric] using n(1) by (intro arg_cong [of _ _ "\<lambda>k. 2 ^ k"]) simp
      ultimately show "2 ^ (31 + n) \<le> unat b" "unat b < 2 ^ (32 + n)" by (simp_all add: power_add mult.commute)
    qed
    have d: "2 ^ 31 \<le> d" "d < 2 ^ 32"
      using b by (auto simp: d_def power_add less_eq_div_iff_mult_less_eq div_less_iff_less_mult)
    have dd: "unat (ucast (drop_bit n b) :: appInt32) = d" using d(2) narrow [of "drop_bit n b"] by (simp add: drop d_def)
    then have "(ucast (drop_bit n b) :: appInt32) \<noteq> 0" using d(1) by auto
    then have "div64_64 a b = Inr (drop_bit n a div ucast (ucast (drop_bit n b) :: appInt32))"
      using False by (simp add: div64_64_def high_def [symmetric] n_def [symmetric] do_div_def Let_def)
    moreover have "unat (drop_bit n a div ucast (ucast (drop_bit n b) :: appInt32)) = unat a div (2 ^ n * d)"
      by (simp only: unat_div wide dd drop div_mult2_eq)
    moreover have "\<not> unat b < 2 ^ 32"
      using b(1) n(1) power_increasing [of 32 "31 + n" "2::nat"] by simp
    ultimately show ?thesis
      using quotient_close [OF lt(1) n(1,2) b(1) d_def d(1)] by simp
  qed
qed

lemma div64_64_bounds_witness:
  "\<exists>q. div64_64 18446744073709551615 8589934591 = Inr q \<and> unat q \<le> unat (18446744073709551615 :: appInt64) div unat (8589934591 :: appInt64) + 1"
  using div64_64_bounds [of 8589934591 18446744073709551615] by auto

end
