(* ===== verification/Common.thy ===== *)
theory Common
  imports Prelude
begin

text \<open>
  What src/src/TunnelLib/CommonHeaders.hh and CommonHeaderImpl.cc provide to all
  components: time stamps (\<open>appTs\<close>), the identifiers of the objects of the
  tunnel, and the producer of timer events.
\<close>

section \<open>Time stamps\<close>

datatype appTs = AppTs (ts_sec: appInt64) (ts_nsec: appInt64)

text \<open>Division and remainder of signed integers round towards zero; the divisor is positive.\<close>

definition quot0 :: "int \<Rightarrow> int \<Rightarrow> int" where
  "quot0 a b = sgn a * (abs a div b)"

definition ts_of_micro :: "int \<Rightarrow> appTs" where
  "ts_of_micro us = AppTs (of_int (quot0 us 1000000)) (of_int ((us - quot0 us 1000000 * 1000000) * 1000))"

definition ts_greater :: "appTs \<Rightarrow> appTs \<Rightarrow> bool" where
  "ts_greater t nts =
     (if ts_sec nts \<noteq> ts_sec t then ts_sec nts < ts_sec t
      else if ts_nsec nts \<noteq> ts_nsec t then ts_nsec nts < ts_nsec t else False)"

definition ts_less :: "appTs \<Rightarrow> appTs \<Rightarrow> bool" where
  "ts_less t nts = ts_greater nts t"

definition carry :: "appInt64 \<Rightarrow> appInt64 \<Rightarrow> appTs" where
  "carry s n = AppTs (s + n div 1000000000) (n mod 1000000000)"

definition addnano :: "appInt64 \<Rightarrow> appTs \<Rightarrow> appTs" where
  "addnano ns t = carry (ts_sec t) (ts_nsec t + ns)"

definition addmicro :: "appInt64 \<Rightarrow> appTs \<Rightarrow> appTs" where
  "addmicro us t = (let ns = us * 1000 in carry (ts_sec t) (ts_nsec t + ns))"

definition addmili :: "appInt64 \<Rightarrow> appTs \<Rightarrow> appTs" where
  "addmili ms t = (let ns = ms * 1000000 in carry (ts_sec t) (ts_nsec t + ns))"

text \<open>\<open>operator+(appTs oth)\<close> adds \<open>oth\<close> to a fresh object and never reads its own.\<close>

definition ts_add :: "appTs \<Rightarrow> appTs \<Rightarrow> appTs" where
  "ts_add t oth = carry (ts_sec oth) (ts_nsec oth)"

definition getMicro :: "appTs \<Rightarrow> int" where
  "getMicro t = sint (ts_sec t * 1000000 + ts_nsec t div 1000)"

definition getMili :: "appTs \<Rightarrow> int" where
  "getMili t = sint (ts_sec t * 1000 + ts_nsec t div 1000000)"

text \<open>The code's order is linear.\<close>

instantiation appTs :: linorder
begin

definition less_appTs :: "appTs \<Rightarrow> appTs \<Rightarrow> bool" where
  "less_appTs t u = ts_less t u"

definition less_eq_appTs :: "appTs \<Rightarrow> appTs \<Rightarrow> bool" where
  "less_eq_appTs t u \<longleftrightarrow> ts_less t u \<or> t = u"

instance
  by standard (auto simp: less_appTs_def less_eq_appTs_def ts_less_def ts_greater_def appTs.expand split: if_splits)

end

text \<open>The instant of a time stamp in nanoseconds; a normal one has less than a second of them.\<close>

definition ns_of :: "appTs \<Rightarrow> nat" where
  "ns_of t = unat (ts_sec t) * 1000000000 + unat (ts_nsec t)"

definition normal :: "appTs \<Rightarrow> bool" where
  "normal t \<longleftrightarrow> unat (ts_nsec t) < 1000000000"

lemma carry_normal: "normal (carry s n)"
  by (simp add: carry_def normal_def unat_mod)

lemma carry_ns:
  assumes "unat s * 1000000000 + unat n < 2 ^ 64"
  shows "ns_of (carry s n) = unat s * 1000000000 + unat n"
proof -
  have "unat s + unat n div 1000000000 < 2 ^ LENGTH(64)"
    using assms by simp
  then have "unat (s + n div 1000000000) = unat s + unat n div 1000000000"
    by (simp add: unat_word_ariths unat_div)
  moreover have "unat (n mod 1000000000) = unat n mod 1000000000" by (simp add: unat_mod)
  ultimately have "ns_of (carry s n) = (unat s + unat n div 1000000000) * 1000000000 + unat n mod 1000000000"
    by (simp only: carry_def ns_of_def appTs.sel)
  also have "\<dots> = unat s * 1000000000 + (unat n div 1000000000 * 1000000000 + unat n mod 1000000000)"
    by (simp only: distrib_right add.assoc)
  finally show ?thesis by (simp only: div_mult_mod_eq)
qed

lemma addnano_ns:
  assumes "ns_of t + unat n < 2 ^ 64"
  shows "ns_of (addnano n t) = ns_of t + unat n"
proof -
  have "unat (ts_nsec t + n) = unat (ts_nsec t) + unat n"
    using assms by (simp add: ns_of_def unat_word_ariths)
  then show ?thesis using assms carry_ns [of "ts_sec t" "ts_nsec t + n"] by (simp add: addnano_def ns_of_def)
qed

lemma less_ns:
  assumes "normal t" "normal u"
  shows "t < u \<longleftrightarrow> ns_of t < ns_of u"
  using assms by (auto simp: less_appTs_def ts_less_def ts_greater_def normal_def ns_of_def word_less_nat_alt word_unat_eq_iff)

lemma scaled_nano: "addmicro n t = addnano (n * 1000) t" "addmili n t = addnano (n * 1000000) t"
  by (simp_all add: addmicro_def addmili_def addnano_def)

text \<open>
  C30: time stamps stay in normal form and count nanoseconds.  Whatever is added,
  the result has less than a second of nanoseconds; as long as the instant fits
  in 64 bits of nanoseconds, \<open>addnano\<close>, \<open>addmicro\<close> and \<open>addmili\<close> add what they
  say; and on normal stamps the code's order is the order of the instants.
\<close>

theorem time_stamps_normal:
  shows "normal (addnano n t) \<and> normal (addmicro n t) \<and> normal (addmili n t) \<and>
    (ns_of t + unat n < 2 ^ 64 \<longrightarrow> ns_of (addnano n t) = ns_of t + unat n) \<and>
    (ns_of t + unat n * 1000 < 2 ^ 64 \<longrightarrow> ns_of (addmicro n t) = ns_of t + unat n * 1000) \<and>
    (ns_of t + unat n * 1000000 < 2 ^ 64 \<longrightarrow> ns_of (addmili n t) = ns_of t + unat n * 1000000) \<and>
    (normal t \<and> normal u \<longrightarrow> (ts_less t u \<longleftrightarrow> ns_of t < ns_of u))"
proof -
  have "unat (n * 1000) = unat n * 1000" if "unat n * 1000 < 2 ^ 64" using that by (simp add: unat_word_ariths)
  moreover have "unat (n * 1000000) = unat n * 1000000" if "unat n * 1000000 < 2 ^ 64" using that by (simp add: unat_word_ariths)
  ultimately show ?thesis
    using addnano_ns [of t n] addnano_ns [of t "n * 1000"] addnano_ns [of t "n * 1000000"] less_ns [of t u]
    by (auto simp: scaled_nano less_appTs_def) (simp_all add: addnano_def carry_normal)
qed

lemma time_stamps_normal_witness:
  "ns_of (addmili 1500 (AppTs 2 700000000)) = 4200000000 \<and> ts_less (AppTs 2 700000000) (AppTs 3 1)"
  using time_stamps_normal [of 1500 "AppTs 2 700000000" "AppTs 3 1"] by (simp add: ns_of_def normal_def)

lemma ts_add_ignores_this: "ts_add t u = ts_add t' u"
  by (simp add: ts_add_def)

lemma getMicro_of_micro:
  assumes "0 \<le> us" "us < 2 ^ 63"
  shows "getMicro (ts_of_micro us) = us"
proof -
  define q r where "q = us div 1000000" and "r = us mod 1000000"
  have us: "us = q * 1000000 + r" "0 \<le> q" "0 \<le> r" "r < 1000000" using assms(1) by (simp_all add: q_def r_def)
  have t: "ts_of_micro us = AppTs (of_int q) (of_int (r * 1000))"
    using assms(1) by (cases "us = 0") (simp_all add: ts_of_micro_def quot0_def q_def r_def minus_div_mult_eq_mod)
  have "uint (of_int (r * 1000) :: appInt64) = r * 1000"
    using us by (simp add: unsigned_of_int take_bit_eq_mod del: of_int_mult)
  then have d: "(of_int (r * 1000) :: appInt64) div 1000 = of_int r"
    by (simp add: word_div_def)
  have "of_int q * 1000000 + (of_int r :: appInt64) = of_int us" by (simp add: us(1))
  then have "getMicro (ts_of_micro us) = sint (of_int us :: appInt64)"
    by (simp only: getMicro_def t appTs.sel d)
  also have "\<dots> = us" using assms by (simp add: signed_of_int signed_take_bit_int_eq_self)
  finally show ?thesis .
qed

section \<open>Identifiers\<close>

record child_ids =
  nextChildId :: appInt
  childIdPool :: "appInt set"
  childIdFreePool :: "appInt set"

definition new_child_ids :: child_ids where
  "new_child_ids = \<lparr> nextChildId = 0, childIdPool = {}, childIdFreePool = {} \<rparr>"

text \<open>The loop of \<open>getNextChildId\<close>; the first element of a \<open>std::set\<close> is its least.\<close>

fun getNextChildId :: "nat \<Rightarrow> child_ids \<Rightarrow> (appInt \<times> child_ids) res" where
  "getNextChildId 0 s = Inl Diverges"
| "getNextChildId (Suc fuel) s =
     (let (newId, s1) =
        (if childIdFreePool s = {} then (nextChildId s + 1, s\<lparr> nextChildId := nextChildId s + 1 \<rparr>)
         else (Min (childIdFreePool s), s\<lparr> childIdFreePool := childIdFreePool s - {Min (childIdFreePool s)} \<rparr>)) in
      if newId \<in> childIdPool s1 then getNextChildId fuel s1
      else Inr (newId, s1\<lparr> childIdPool := insert newId (childIdPool s1) \<rparr>))"

text \<open>The destructor \<open>~BaseReliableObj\<close>.\<close>

definition release_id :: "appInt \<Rightarrow> child_ids \<Rightarrow> child_ids" where
  "release_id i s = s\<lparr> childIdFreePool := insert i (childIdFreePool s), childIdPool := childIdPool s - {i} \<rparr>"

text \<open>Objects come and go; \<open>L\<close> holds the identifiers of those alive.\<close>

inductive ids_run :: "appInt set \<Rightarrow> child_ids \<Rightarrow> bool" where
  start: "ids_run {} new_child_ids"
| create: "ids_run L s \<Longrightarrow> card L < 2 ^ 32 - 1 \<Longrightarrow> getNextChildId fuel s = Inr (i, s') \<Longrightarrow> ids_run (insert i L) s'"
| destroy: "ids_run L s \<Longrightarrow> i \<in> L \<Longrightarrow> ids_run (L - {i}) (release_id i s)"

definition ids_inv :: "appInt set \<Rightarrow> child_ids \<Rightarrow> bool" where
  "ids_inv L s \<longleftrightarrow> childIdPool s = L \<and> childIdFreePool s \<inter> L = {} \<and>
     (\<forall>i\<in>L \<union> childIdFreePool s. 0 < i \<and> i \<le> nextChildId s) \<and>
     unat (nextChildId s) = card L + card (childIdFreePool s)"

lemma getNextChildId_ok:
  assumes "ids_inv L s" "card L < 2 ^ 32 - 1"
  obtains i s' where "\<And>fuel. getNextChildId (Suc fuel) s = Inr (i, s')" "i \<notin> L" "ids_inv (insert i L) s'"
    "childIdFreePool s \<noteq> {} \<Longrightarrow> i = Min (childIdFreePool s)" "childIdFreePool s = {} \<Longrightarrow> i = nextChildId s + 1"
proof (cases "childIdFreePool s = {}")
  case True
  let ?i = "nextChildId s + 1"
  have n: "unat (nextChildId s) = card L" using assms(1) True by (simp add: ids_inv_def)
  have u: "unat ?i = unat (nextChildId s) + 1"
    using n assms(2) by (simp add: unat_word_ariths)
  then have "\<not> ?i \<le> nextChildId s" by (simp add: word_le_nat_alt)
  then have new: "?i \<notin> L" using assms(1) by (auto simp: ids_inv_def)
  have "0 < ?i" "nextChildId s \<le> ?i" using u by (simp_all add: word_less_nat_alt word_le_nat_alt)
  then have "ids_inv (insert ?i L) (s\<lparr> nextChildId := ?i, childIdPool := insert ?i L \<rparr>)"
    using assms(1) True new u n by (auto simp: ids_inv_def intro: order_trans)
  then show thesis
    using that [of ?i "s\<lparr> nextChildId := ?i, childIdPool := insert ?i L \<rparr>"] assms(1) True new
    by (simp add: ids_inv_def Let_def)
next
  case False
  let ?i = "Min (childIdFreePool s)"
  have i: "?i \<in> childIdFreePool s" using False by simp
  then have new: "?i \<notin> L" using assms(1) by (auto simp: ids_inv_def)
  have "0 < card (childIdFreePool s)" using False by (simp add: card_gt_0_iff)
  then have "ids_inv (insert ?i L) (s\<lparr> childIdFreePool := childIdFreePool s - {?i}, childIdPool := insert ?i L \<rparr>)"
    using assms(1) i new by (auto simp: ids_inv_def)
  then show thesis
    using that [of ?i "s\<lparr> childIdFreePool := childIdFreePool s - {?i}, childIdPool := insert ?i L \<rparr>"] assms(1) False new
    by (simp add: ids_inv_def Let_def)
qed

lemma release_id_inv:
  assumes "ids_inv L s" "i \<in> L"
  shows "ids_inv (L - {i}) (release_id i s)"
proof -
  have "i \<notin> childIdFreePool s" "0 < card L" using assms by (auto simp: ids_inv_def card_gt_0_iff)
  then show ?thesis using assms by (auto simp: ids_inv_def release_id_def)
qed

lemma ids_run_inv: "ids_run L s \<Longrightarrow> ids_inv L s"
proof (induction rule: ids_run.induct)
  case start
  show ?case by (simp add: ids_inv_def new_child_ids_def)
next
  case (create L s fuel i s')
  obtain j t where "\<And>fuel. getNextChildId (Suc fuel) s = Inr (j, t)" "ids_inv (insert j L) t"
    using getNextChildId_ok [OF create.IH create.hyps(2)] by metis
  then show ?case using create.hyps(3) by (cases fuel) auto
qed (rule release_id_inv)

text \<open>
  C31: no two objects alive have the same identifier, and none has 0.  As long as
  fewer than 2^32 - 1 objects are alive, \<open>getNextChildId\<close> finds an identifier in
  its first round, one that no living object has: the least one given back, or
  the next number when none was given back, so that the numbers in use never
  exceed the largest count of objects alive at once.
\<close>

theorem child_ids_unique:
  assumes "ids_run L s" "card L < 2 ^ 32 - 1"
  shows "\<exists>i s'. getNextChildId (Suc fuel) s = Inr (i, s') \<and> i \<notin> L \<and> 0 < i \<and> childIdPool s' = insert i L \<and>
    (if childIdFreePool s = {} then unat i = card L + 1 else i = Min (childIdFreePool s))"
proof -
  note I = ids_run_inv [OF assms(1)]
  obtain i s' where i: "\<And>fuel. getNextChildId (Suc fuel) s = Inr (i, s')" "i \<notin> L" "ids_inv (insert i L) s'"
      "childIdFreePool s \<noteq> {} \<Longrightarrow> i = Min (childIdFreePool s)" "childIdFreePool s = {} \<Longrightarrow> i = nextChildId s + 1"
    using getNextChildId_ok [OF I assms(2)] by metis
  have "unat (nextChildId s + 1) = card L + 1" if "childIdFreePool s = {}"
    using I assms(2) that by (simp add: ids_inv_def unat_word_ariths)
  then show ?thesis using i by (intro exI [of _ i] exI [of _ s']) (auto simp: ids_inv_def)
qed

lemma child_ids_unique_witness:
  "\<exists>i s'. getNextChildId 1 new_child_ids = Inr (i, s') \<and> unat i = 1"
  using child_ids_unique [OF ids_run.start, of 0] by (auto simp: new_child_ids_def)

section \<open>The producer of timer events\<close>

record 'o timeout_producer =
  tp_remove :: "'o set"
  tp_added :: "'o set"
  tp_listner :: "'o set"

definition new_timeout_producer :: "'o timeout_producer" where
  "new_timeout_producer = \<lparr> tp_remove = {}, tp_added = {}, tp_listner = {} \<rparr>"

definition tp_attach :: "'o \<Rightarrow> 'o timeout_producer \<Rightarrow> 'o timeout_producer" where
  "tp_attach rm p = (if rm \<notin> tp_listner p \<and> rm \<notin> tp_remove p then p\<lparr> tp_added := insert rm (tp_added p) \<rparr> else p)"

definition tp_detach :: "'o \<Rightarrow> 'o timeout_producer \<Rightarrow> 'o timeout_producer" where
  "tp_detach rm p = (if rm \<in> tp_listner p \<and> rm \<notin> tp_added p then p\<lparr> tp_remove := insert rm (tp_remove p) \<rparr> else p)"

text \<open>The observers called, in the order of the set.\<close>

definition tp_timeoutEvent :: "'o::linorder timeout_producer \<Rightarrow> 'o list \<times> 'o timeout_producer" where
  "tp_timeoutEvent p =
     (let l = (tp_listner p - tp_remove p) \<union> tp_added p in
      (sorted_list_of_set l, \<lparr> tp_remove = {}, tp_added = {}, tp_listner = l \<rparr>))"

datatype 'o tp_request = Attach 'o | Detach 'o

fun tp_requests :: "'o tp_request list \<Rightarrow> 'o timeout_producer \<Rightarrow> 'o timeout_producer" where
  "tp_requests [] p = p"
| "tp_requests (Attach rm # rs) p = tp_requests rs (tp_attach rm p)"
| "tp_requests (Detach rm # rs) p = tp_requests rs (tp_detach rm p)"

definition tp_between :: "'o timeout_producer \<Rightarrow> bool" where
  "tp_between p \<longleftrightarrow> tp_remove p \<subseteq> tp_listner p \<and> tp_added p \<inter> tp_listner p = {}"

lemma tp_requests_effect:
  "tp_between p \<Longrightarrow> tp_listner (tp_requests rs p) = tp_listner p \<and>
     tp_remove (tp_requests rs p) = tp_remove p \<union> {rm \<in> tp_listner p. Detach rm \<in> set rs} \<and>
     tp_added (tp_requests rs p) = tp_added p \<union> {rm. rm \<notin> tp_listner p \<and> Attach rm \<in> set rs}"
proof (induction rs p rule: tp_requests.induct)
  case (2 rm rs p)
  then have "tp_between (tp_attach rm p)" by (auto simp: tp_between_def tp_attach_def)
  then show ?case using 2 by (auto simp: tp_between_def tp_attach_def split: if_splits)
next
  case (3 rm rs p)
  then have "tp_between (tp_detach rm p)" by (auto simp: tp_between_def tp_detach_def)
  then show ?case using 3 by (auto simp: tp_between_def tp_detach_def split: if_splits)
qed simp

text \<open>
  Between two timer events only the requests that change something for an
  observer count, and not their order: one that listens is dropped if any
  request detaches it, one that does not is called if any request attaches it.
  So the observer attached and detached again before the event is called at this
  and every later event, and the one detached and attached again is lost.
\<close>

theorem timer_requests_unordered:
  assumes "tp_remove p = {}" "tp_added p = {}"
  shows "snd (tp_timeoutEvent (tp_requests rs p)) = \<lparr> tp_remove = {}, tp_added = {},
    tp_listner = {rm. if rm \<in> tp_listner p then Detach rm \<notin> set rs else Attach rm \<in> set rs} \<rparr>"
proof -
  have "tp_between p" using assms by (simp add: tp_between_def)
  then show ?thesis
    using tp_requests_effect [of p rs] assms by (auto simp: tp_timeoutEvent_def Let_def)
qed

lemma timer_requests_unordered_witness:
  "fst (tp_timeoutEvent (snd (tp_timeoutEvent (tp_requests [Attach (1::nat), Detach 1] new_timeout_producer)))) = [1]"
  by (subst timer_requests_unordered) (simp_all add: new_timeout_producer_def tp_timeoutEvent_def)

end
