(* ===== verification/CircularBuffer.thy ===== *)
theory CircularBuffer
  imports Sync
begin

text \<open>
  \<open>util::CircularBuffer\<close> (src/src/util/CircularBuffer.hh): a queue of elements in
  one array that moves, grows and shrinks; \<open>size_t\<close> values are natural numbers.
  The contents of a fresh array are the argument \<open>junk\<close>.  A \<open>memcpy\<close> between
  overlapping ranges is a fault.
\<close>

record 'a circ =
  beg_index :: nat
  c_size :: nat
  capacity :: nat
  c_eof :: bool
  c_data :: "'a list"
  waitToRead :: cond_wait

definition new_array :: "(nat \<Rightarrow> 'a) \<Rightarrow> nat \<Rightarrow> 'a list" where
  "new_array junk n = map junk [0..<n]"

definition new_CircularBuffer :: "(nat \<Rightarrow> 'a) \<Rightarrow> nat \<Rightarrow> 'a circ" where
  "new_CircularBuffer junk capa =
     (let capa' = (if capa < 2048 then 2048 else capa) in
      \<lparr> beg_index = 0, c_size = 0, capacity = capa', c_eof = False, c_data = new_array junk capa',
         waitToRead = new_cond_wait \<rparr>)"

text \<open>\<open>memcpy\<close> of the elements \<open>xs\<close> to position \<open>i\<close> of an array.\<close>

definition store_at :: "nat \<Rightarrow> 'a list \<Rightarrow> 'a list \<Rightarrow> 'a list res" where
  "store_at i xs d = check Out_Of_Bounds (i + length xs \<le> length d)
     (Inr (take i d @ xs @ drop (i + length xs) d))"

definition slice :: "nat \<Rightarrow> nat \<Rightarrow> 'a list \<Rightarrow> 'a list" where
  "slice i n d = take n (drop i d)"

text \<open>The loop \<open>while(capacity_ < size_ + bytes) capacity_ *= 2\<close>.\<close>

fun grow :: "nat \<Rightarrow> nat \<Rightarrow> nat \<Rightarrow> nat res" where
  "grow 0 need capa = Inl Diverges"
| "grow (Suc fuel) need capa = (if capa < need then grow fuel need (capa * 2) else Inr capa)"

definition notify_reader :: "'a circ \<Rightarrow> 'a circ" where
  "notify_reader b = b\<lparr> waitToRead := cw_notify (waitToRead b) \<rparr>"

definition cb_write :: "(nat \<Rightarrow> 'a) \<Rightarrow> 'a list \<Rightarrow> 'a circ \<Rightarrow> (nat \<times> 'a circ) res" where
  "cb_write junk xs b =
     (let bytes = length xs in
      if bytes = 0 then Inr (0, b)
      else app_assert (\<not> c_eof b)
        (if beg_index b + c_size b + bytes < capacity b then
           bind_res (store_at (beg_index b + c_size b) xs (c_data b)) (\<lambda>d.
           Inr (bytes, notify_reader (b\<lparr> c_data := d, c_size := c_size b + bytes \<rparr>)))
         else if c_size b + bytes < capacity b then
           check Overlap (c_size b \<le> beg_index b \<or> beg_index b = 0)
             (bind_res (store_at 0 (slice (beg_index b) (c_size b) (c_data b)) (c_data b)) (\<lambda>d1.
              bind_res (store_at (c_size b) xs d1) (\<lambda>d2.
              Inr (bytes, notify_reader (b\<lparr> c_data := d2, c_size := c_size b + bytes, beg_index := 0 \<rparr>)))))
         else
           bind_res (grow (Suc (c_size b + bytes)) (c_size b + bytes) (capacity b)) (\<lambda>capa.
           bind_res (store_at 0 (slice (beg_index b) (c_size b) (c_data b)) (new_array junk capa)) (\<lambda>d1.
           bind_res (store_at (c_size b) xs d1) (\<lambda>d2.
           Inr (bytes, notify_reader (b\<lparr> capacity := capa, c_data := d2, beg_index := 0, c_size := c_size b + bytes \<rparr>)))))))"

definition setEoF :: "'a circ \<Rightarrow> 'a circ" where
  "setEoF b = notify_reader (b\<lparr> c_eof := True \<rparr>)"

definition cb_reset :: "'a circ \<Rightarrow> 'a circ" where
  "cb_reset b = b\<lparr> c_size := 0, beg_index := 0 \<rparr>"

text \<open>
  \<open>read\<close> of at most \<open>bytes\<close> elements: the result (None for \<open>(size_t)-1\<close> at the
  end of the file) and the elements copied.  On an empty buffer the caller
  waits.
\<close>

definition cb_read :: "(nat \<Rightarrow> 'a) \<Rightarrow> nat \<Rightarrow> 'a circ \<Rightarrow> (nat option \<times> 'a list \<times> 'a circ) res" where
  "cb_read junk bytes b =
     (if bytes = 0 then Inr (Some 0, [], b)
      else if c_eof b \<and> c_size b = 0 then Inr (None, [], b)
      else if c_size b = 0 \<and> \<not> c_eof b then Inl Blocked
      else
        let lenRead = (if c_size b < bytes then c_size b else bytes);
            out = slice (beg_index b) lenRead (c_data b);
            b1 = b\<lparr> c_size := c_size b - lenRead, beg_index := beg_index b + lenRead \<rparr> in
        if capacity b1 div 4 > c_size b1 \<and> capacity b1 div 2 > 2048 then
          bind_res (store_at 0 (slice (beg_index b1) (c_size b1) (c_data b1)) (new_array junk (capacity b1 div 2))) (\<lambda>d.
          Inr (Some lenRead, out, b1\<lparr> c_data := d, beg_index := 0, capacity := capacity b1 div 2 \<rparr>))
        else Inr (Some lenRead, out, b1))"

section \<open>The buffer is a queue\<close>

definition contents_of :: "'a circ \<Rightarrow> 'a list" where
  "contents_of b = slice (beg_index b) (c_size b) (c_data b)"

definition wf_circ :: "'a circ \<Rightarrow> bool" where
  "wf_circ b \<longleftrightarrow> length (c_data b) = capacity b \<and> beg_index b + c_size b \<le> capacity b \<and> 2048 \<le> capacity b"

lemma new_CircularBuffer_wf: "wf_circ (new_CircularBuffer junk n)" "contents_of (new_CircularBuffer junk n) = []"
  by (simp_all add: wf_circ_def new_CircularBuffer_def new_array_def contents_of_def slice_def Let_def)

lemma grow_ok: "need < capa + fuel \<Longrightarrow> 0 < fuel \<Longrightarrow> 0 < capa \<Longrightarrow> \<exists>c. grow fuel need capa = Inr c \<and> need \<le> c \<and> capa \<le> c"
proof (induction fuel need capa rule: grow.induct)
  case (2 fuel need capa)
  show ?case
  proof (cases "capa < need")
    case True
    then have "\<exists>c. grow fuel need (capa * 2) = Inr c \<and> need \<le> c \<and> capa * 2 \<le> c"
      using 2 by (intro "2.IH") auto
    then show ?thesis using True by auto
  qed simp
qed simp

lemma store_at_ok:
  assumes "i + length xs \<le> length d"
  obtains d' where "store_at i xs d = Inr d'" "length d' = length d" "slice i (length xs) d' = xs"
    "take i d' = take i d"
  using assms that by (simp add: store_at_def slice_def)

lemma slice_append: "slice i (m + n) d = slice i m d @ slice (i + m) n d"
  by (simp add: slice_def take_add add.commute)

lemma slice_prefix: "take (i + n) d = take (i + n) d' \<Longrightarrow> slice i n d = slice i n d'"
  unfolding slice_def by (metis add.commute take_drop)

text \<open>Storing behind a prefix that stays.\<close>

lemma store_behind:
  assumes "i + n + length xs \<le> length d"
  obtains d' where "store_at (i + n) xs d = Inr d'" "length d' = length d" "slice i (n + length xs) d' = slice i n d @ xs"
proof -
  obtain d' where d': "store_at (i + n) xs d = Inr d'" "length d' = length d" "slice (i + n) (length xs) d' = xs"
      "take (i + n) d' = take (i + n) d"
    using store_at_ok [OF assms] .
  then show thesis using that [of d'] slice_prefix [OF d'(4)] by (simp add: slice_append)
qed

lemma length_slice: "i + n \<le> length d \<Longrightarrow> length (slice i n d) = n"
  by (simp add: slice_def)

lemma moved:
  assumes "length ys + length xs \<le> length d"
  obtains d1 d2 where "store_at 0 ys d = Inr d1" "store_at (length ys) xs d1 = Inr d2" "length d2 = length d"
    "slice 0 (length ys + length xs) d2 = ys @ xs"
proof -
  obtain d1 where d1: "store_at 0 ys d = Inr d1" "length d1 = length d" "slice 0 (length ys) d1 = ys"
    using store_at_ok [of 0 ys d] assms by auto
  obtain d2 where "store_at (0 + length ys) xs d1 = Inr d2" "length d2 = length d1"
      "slice 0 (length ys + length xs) d2 = slice 0 (length ys) d1 @ xs"
    using store_behind [of 0 "length ys" xs d1] assms d1(2) by auto
  then show thesis using that d1 by simp
qed

lemma cb_write_ok:
  assumes "wf_circ b" "\<not> c_eof b" "xs \<noteq> []"
  shows "if capacity b \<le> beg_index b + c_size b + length xs \<and> c_size b + length xs < capacity b \<and>
      0 < beg_index b \<and> beg_index b < c_size b
    then cb_write junk xs b = Inl Overlap
    else \<exists>b'. cb_write junk xs b = Inr (length xs, b') \<and> wf_circ b' \<and> contents_of b' = contents_of b @ xs \<and> \<not> c_eof b'"
proof -
  let ?ys = "slice (beg_index b) (c_size b) (c_data b)"
  have ys: "length ?ys = c_size b" using assms(1) by (intro length_slice) (simp add: wf_circ_def)
  consider (simple) "beg_index b + c_size b + length xs < capacity b"
    | (move) "capacity b \<le> beg_index b + c_size b + length xs" "c_size b + length xs < capacity b"
    | (expand) "capacity b \<le> c_size b + length xs" by linarith
  then show ?thesis
  proof cases
    case simple
    obtain d where "store_at (beg_index b + c_size b) xs (c_data b) = Inr d" "length d = length (c_data b)"
        "slice (beg_index b) (c_size b + length xs) d = ?ys @ xs"
      using store_behind [of "beg_index b" "c_size b" xs "c_data b"] simple assms(1) by (auto simp: wf_circ_def)
    then show ?thesis
      using simple assms by (auto simp: cb_write_def Let_def wf_circ_def contents_of_def notify_reader_def)
  next
    case move
    obtain d1 d2 where "store_at 0 ?ys (c_data b) = Inr d1" "store_at (c_size b) xs d1 = Inr d2"
        "length d2 = length (c_data b)" "slice 0 (c_size b + length xs) d2 = ?ys @ xs"
      using moved [of ?ys xs "c_data b"] ys move(2) assms(1) by (auto simp: wf_circ_def)
    then show ?thesis
      using move assms by (auto simp: cb_write_def Let_def wf_circ_def contents_of_def notify_reader_def check_def)
  next
    case expand
    obtain capa where capa: "grow (Suc (c_size b + length xs)) (c_size b + length xs) (capacity b) = Inr capa"
        "c_size b + length xs \<le> capa" "capacity b \<le> capa"
      using grow_ok [of "c_size b + length xs" "capacity b" "Suc (c_size b + length xs)"] assms(1) by (auto simp: wf_circ_def)
    obtain d1 d2 where "store_at 0 ?ys (new_array junk capa) = Inr d1" "store_at (c_size b) xs d1 = Inr d2"
        "length d2 = capa" "slice 0 (c_size b + length xs) d2 = ?ys @ xs"
      using moved [of ?ys xs "new_array junk capa"] ys capa(2) by (auto simp: new_array_def)
    then show ?thesis
      using expand capa assms
      by (auto simp: cb_write_def Let_def wf_circ_def contents_of_def notify_reader_def simp del: grow.simps)
  qed
qed

lemma cb_read_ok:
  assumes "wf_circ b" "0 < n" "contents_of b \<noteq> []"
  shows "\<exists>b'. cb_read junk n b = Inr (Some (min n (length (contents_of b))), take n (contents_of b), b') \<and>
    wf_circ b' \<and> contents_of b' = drop n (contents_of b) \<and> c_eof b' = c_eof b"
proof -
  have len: "length (contents_of b) = c_size b" unfolding contents_of_def using assms(1) by (intro length_slice) (simp add: wf_circ_def)
  then have pos: "0 < c_size b" using assms(3) by (metis length_greater_0_conv)
  define l where "l = (if c_size b < n then c_size b else n)"
  define b1 where "b1 = b\<lparr> c_size := c_size b - l, beg_index := beg_index b + l \<rparr>"
  have l: "l = min n (c_size b)" by (simp add: l_def)
  have out: "slice (beg_index b) l (c_data b) = take n (contents_of b)"
    by (simp add: l slice_def contents_of_def)
  have rest: "slice (beg_index b1) (c_size b1) (c_data b1) = drop n (contents_of b)"
    by (simp add: b1_def l slice_def contents_of_def drop_take add.commute min_def)
  have run: "cb_read junk n b =
      (if capacity b1 div 4 > c_size b1 \<and> capacity b1 div 2 > 2048 then
         bind_res (store_at 0 (slice (beg_index b1) (c_size b1) (c_data b1)) (new_array junk (capacity b1 div 2))) (\<lambda>d.
         Inr (Some l, take n (contents_of b), b1\<lparr> c_data := d, beg_index := 0, capacity := capacity b1 div 2 \<rparr>))
       else Inr (Some l, take n (contents_of b), b1))"
    using assms(2) pos unfolding cb_read_def Let_def l_def [symmetric] b1_def [symmetric] out by simp
  have eof: "c_eof b1 = c_eof b" by (simp add: b1_def)
  have wf1: "wf_circ b1" using assms(1) by (auto simp: b1_def wf_circ_def l)
  show ?thesis
  proof (cases "capacity b1 div 4 > c_size b1 \<and> capacity b1 div 2 > 2048")
    case True
    have "length (slice (beg_index b1) (c_size b1) (c_data b1)) = c_size b1"
      using wf1 by (intro length_slice) (simp add: wf_circ_def)
    moreover have half: "c_size b1 \<le> capacity b1 div 2" using True by linarith
    ultimately obtain d where "store_at 0 (slice (beg_index b1) (c_size b1) (c_data b1)) (new_array junk (capacity b1 div 2)) = Inr d"
        "length d = capacity b1 div 2" "slice 0 (c_size b1) d = slice (beg_index b1) (c_size b1) (c_data b1)"
      using store_at_ok [of 0 "slice (beg_index b1) (c_size b1) (c_data b1)" "new_array junk (capacity b1 div 2)"]
      by (metis (no_types, lifting) add_0 diff_zero length_map length_upt new_array_def)
    then show ?thesis
      using True half rest len eof unfolding run by (simp add: wf_circ_def contents_of_def l)
  next
    case False
    then show ?thesis
      using rest len eof wf1 unfolding run if_not_P [OF False] by (simp add: contents_of_def l)
  qed
qed

text \<open>
  C32: the circular buffer is a queue without loss, whatever it does to its array.
  Writing appends, moving or growing the array when the space behind is used up;
  reading takes at most what is asked from the front, shrinking the array when
  three quarters are free; the end-of-file mark stays.  There is one exception:
  when the data fit in the array only after they are moved to its start and the
  old and the new place overlap, the move is a \<open>memcpy\<close> of overlapping ranges,
  which is undefined.
\<close>

theorem circular_buffer_queue:
  assumes "wf_circ b" "\<not> c_eof b" "xs \<noteq> []"
  shows "cb_write junk xs b = Inl Overlap \<and> 0 < beg_index b \<and> beg_index b < c_size b \<and>
      c_size b + length xs < capacity b \<and> capacity b \<le> beg_index b + c_size b + length xs \<or>
    (\<exists>b'. cb_write junk xs b = Inr (length xs, b') \<and> wf_circ b' \<and> contents_of b' = contents_of b @ xs \<and>
      (\<forall>n>0. \<exists>b''. cb_read junk n b' = Inr (Some (min n (length (contents_of b @ xs))), take n (contents_of b @ xs), b'') \<and>
         wf_circ b'' \<and> contents_of b'' = drop n (contents_of b @ xs)))"
proof (cases "cb_write junk xs b = Inl Overlap")
  case True
  then show ?thesis using cb_write_ok [OF assms, of junk] by (auto split: if_splits)
next
  case False
  then obtain b' where b': "cb_write junk xs b = Inr (length xs, b')" "wf_circ b'" "contents_of b' = contents_of b @ xs"
    using cb_write_ok [OF assms, of junk] by (auto split: if_splits)
  have "\<exists>b''. cb_read junk n b' = Inr (Some (min n (length (contents_of b @ xs))), take n (contents_of b @ xs), b'') \<and>
      wf_circ b'' \<and> contents_of b'' = drop n (contents_of b @ xs)" if "0 < n" for n
    using cb_read_ok [OF b'(2) that, of junk] assms(3) b'(3) by auto
  then show ?thesis using b' by blast
qed

lemma circular_buffer_queue_witness:
  "\<exists>b' b''. cb_write (\<lambda>_. ''a'') [''x'', ''y'', ''z''] (new_CircularBuffer (\<lambda>_. ''a'') 10) = Inr (3, b') \<and>
     cb_read (\<lambda>_. ''a'') 2 b' = Inr (Some 2, [''x'', ''y''], b'') \<and> contents_of b'' = [''z'']"
proof -
  let ?b = "new_CircularBuffer (\<lambda>_. ''a'') 10" and ?xs = "[''x'', ''y'', ''z'']"
  have b: "\<not> c_eof ?b" "\<not> 0 < beg_index ?b" by (simp_all add: new_CircularBuffer_def Let_def)
  have xs: "?xs \<noteq> []" "length ?xs = 3" by simp_all
  obtain b' where b': "cb_write (\<lambda>_. ''a'') ?xs ?b = Inr (length ?xs, b')"
      "\<forall>n>0. \<exists>b''. cb_read (\<lambda>_. ''a'') n b' = Inr (Some (min n (length (contents_of ?b @ ?xs))), take n (contents_of ?b @ ?xs), b'') \<and>
         wf_circ b'' \<and> contents_of b'' = drop n (contents_of ?b @ ?xs)"
    using circular_buffer_queue [OF new_CircularBuffer_wf(1) b(1) xs(1), of "\<lambda>_. ''a''"] b(2) by blast
  obtain b'' where "cb_read (\<lambda>_. ''a'') 2 b' = Inr (Some (min 2 3), take 2 ?xs, b'') \<and> contents_of b'' = drop 2 ?xs"
    using b'(2) [rule_format, of 2] unfolding new_CircularBuffer_wf(2) append_Nil xs(2) by auto
  then show ?thesis using b'(1) unfolding xs(2) by (auto simp: eval_nat_numeral)
qed

end
