(* ===== verification/Datagram.thy ===== *)
theory Datagram
  imports Channel PacketCodec Addresses
begin

text \<open>
  From a packet to a frame on an interface: \<open>SendThroughInterface\<close>
  (src/src/TunnelLib/InterfaceController/SendThroughInterface.cc), which puts an
  IP and a UDP header with their checksums before the encoded packet, and
  \<open>SendingSocket\<close> (SendingSocket.cc), which hands the frame to the kernel and
  tries again when the kernel has no buffer.  The results of the system calls
  are arguments.
\<close>

section \<open>The internet checksum\<close>

text \<open>
  The loop over the 16-bit words of the data, which the machine loads least
  significant byte first, a last byte on its own; then the folding loop.
\<close>

lemma unat_byte: "unat (b :: appByte) < 256"
  using unsigned_less [of b, where 'a = nat] by simp

lemma unat_16: "unat (w :: appInt16) < 65536"
  using unsigned_less [of w, where 'a = nat] by simp

fun checksum_sum :: "appByte list \<Rightarrow> appInt32 \<Rightarrow> appInt32" where
  "checksum_sum (a # b # bs) acc = checksum_sum bs (acc + (ucast a + push_bit 8 (ucast b)))"
| "checksum_sum [a] acc = acc + ucast a"
| "checksum_sum [] acc = acc"

lemma fold_decreases:
  fixes s :: appInt32
  assumes "drop_bit 16 s \<noteq> 0"
  shows "unat ((s AND 0xffff) + drop_bit 16 s) = unat s mod 65536 + unat s div 65536"
    and "unat s mod 65536 + unat s div 65536 < unat s"
proof -
  have m: "unat (s AND 0xffff) = unat s mod 65536"
  proof -
    have "s AND 0xffff = take_bit 16 s"
      by (simp add: take_bit_eq_mask mask_eq_exp_minus_1)
    then show ?thesis
      by (simp add: take_bit_eq_mod unat_mod)
  qed
  have d: "unat (drop_bit 16 s) = unat s div 65536"
    by (simp add: drop_bit_eq_div unat_div)
  have s: "unat s < 2 ^ 32"
    using unsigned_less [of s, where 'a = nat] by simp
  have "unat (drop_bit 16 s) \<noteq> 0"
    using assms by (simp add: unat_eq_0)
  then have "unat s div 65536 \<noteq> 0"
    by (simp add: d)
  then show "unat s mod 65536 + unat s div 65536 < unat s"
    using mult_div_mod_eq [of 65536 "unat s"] by arith
  then have "unat (s AND 0xffff) + unat (drop_bit 16 s) < 2 ^ LENGTH(32)"
    using s by (simp add: m d)
  then show "unat ((s AND 0xffff) + drop_bit 16 s) = unat s mod 65536 + unat s div 65536"
    by (subst unat_add_lem [THEN iffD1]) (simp_all add: m d)
qed

function fold_sum :: "appInt32 \<Rightarrow> appInt32" where
  "fold_sum s = (if drop_bit 16 s = 0 then s else fold_sum ((s AND 0xffff) + drop_bit 16 s))"
  by pat_completeness auto

termination fold_sum
  by (relation "measure unat") (auto simp: fold_decreases)

declare fold_sum.simps [simp del]

definition checksum :: "appByte list \<Rightarrow> appInt16" where
  "checksum bs = ucast (NOT (fold_sum (checksum_sum bs 0)))"

section \<open>The headers\<close>

text \<open>
  \<open>le_bytes\<close> is a store by a little-endian machine; addresses and ports are in
  network order in memory, so their words are stored as they are.
\<close>

definition le_bytes :: "nat \<Rightarrow> 'a::len word \<Rightarrow> appByte list" where
  "le_bytes n w = rev (be_bytes n w)"

definition IP4_HDRLEN :: nat where "IP4_HDRLEN = 20"
definition UDP_HDRLEN :: nat where "UDP_HDRLEN = 8"
definition MY_UDP_PKT_SIZE :: nat where "MY_UDP_PKT_SIZE = 2048"
definition IPPROTO_UDP :: appByte where "IPPROTO_UDP = 17"

text \<open>The IP header as \<open>init\<close> and \<open>makeMsg\<close> fill it; \<open>len\<close> is the total length in host order.\<close>

definition ip_header :: "appInt16 \<Rightarrow> appInt16 \<Rightarrow> appInt32 \<Rightarrow> appInt32 \<Rightarrow> appByte list" where
  "ip_header len chk src dst =
     [0x45, 0] @ be_bytes 2 len @ [0, 0, 0, 0, 255, IPPROTO_UDP] @ le_bytes 2 chk @ le_bytes 4 src @ le_bytes 4 dst"

definition udp_header :: "appInt16 \<Rightarrow> appInt16 \<Rightarrow> appInt16 \<Rightarrow> appInt16 \<Rightarrow> appByte list" where
  "udp_header source dest len chk = le_bytes 2 source @ le_bytes 2 dest @ be_bytes 2 len @ le_bytes 2 chk"

definition pseudo_header :: "appInt32 \<Rightarrow> appInt32 \<Rightarrow> appInt16 \<Rightarrow> appByte list" where
  "pseudo_header src dst len = le_bytes 4 src @ le_bytes 4 dst @ [0, IPPROTO_UDP] @ be_bytes 2 len"

definition udp4_checksum :: "appInt32 \<Rightarrow> appInt32 \<Rightarrow> appInt16 \<Rightarrow> appInt16 \<Rightarrow> appInt16 \<Rightarrow> appByte list \<Rightarrow> appInt16" where
  "udp4_checksum src dst source dest len payload =
     checksum (pseudo_header src dst len @ le_bytes 2 source @ le_bytes 2 dest @ be_bytes 2 len @ [0, 0] @
       payload @ replicate (length payload mod 2) 0)"

section \<open>The sender of an interface\<close>

text \<open>\<open>opSock\<close> is set by \<open>init\<close> when it gets to its end.\<close>

record sender =
  se_interface :: string
  src_ip :: appInt32
  gw_ip :: appInt32
  e_src_addr :: "appByte list"
  e_dst_addr :: "appByte list"
  sll_ifindex :: int
  src_port :: appInt
  opSock :: bool

definition SendThroughInterface :: "InterfaceAddr \<Rightarrow> sender" where
  "SendThroughInterface a = \<lparr> se_interface = ia_ifc a, src_ip = ia_ifcIp a, gw_ip = ia_gwIp a,
     e_src_addr = [], e_dst_addr = ia_gwMac a, sll_ifindex = 0, src_port = ia_localPort a, opSock = False \<rparr>"

text \<open>What \<open>init\<close> asks the system: a raw socket, the hardware address and the index of an interface.\<close>

record ifc_system =
  sys_socket :: bool
  sys_hwaddr :: "string \<Rightarrow> appByte list option"
  sys_index :: "string \<Rightarrow> int"

definition init_sender :: "ifc_system \<Rightarrow> sender \<Rightarrow> int \<times> sender" where
  "init_sender sys s =
     (if \<not> sys_socket sys then (- 1, s)
      else case sys_hwaddr sys (se_interface s) of
        None \<Rightarrow> (1, s)
      | Some mac \<Rightarrow>
          let s1 = s\<lparr> e_src_addr := mac, sll_ifindex := sys_index sys (se_interface s) \<rparr> in
          if sll_ifindex s1 = 0 then (2, s1) else (0, s1\<lparr> opSock := True \<rparr>))"

definition checkIface :: "string \<Rightarrow> sender \<Rightarrow> bool" where
  "checkIface iface s \<longleftrightarrow> se_interface s = iface"

record SendMsgBuffer =
  frame_len :: int
  ether_frame :: "appByte list"
  dev_addr :: "appByte list"
  dev_index :: int

text \<open>
  \<open>makeMsg\<close>: \<open>junk\<close> is the content of the fresh message buffer.  The result is
  none when the encoder refuses the packet; the packet is returned because the
  encoder stores its count of optional headers there.
\<close>

definition makeMsg :: "appByte list \<Rightarrow> sender \<Rightarrow> Packet \<Rightarrow> appInt32 \<Rightarrow> appInt \<Rightarrow> (SendMsgBuffer option \<times> Packet) res" where
  "makeMsg junk s pkt dst_ip dst_port =
     bind_res (encodeHeader pkt (drop (IP4_HDRLEN + UDP_HDRLEN) junk) (of_nat (MY_UDP_PKT_SIZE - IP4_HDRLEN - UDP_HDRLEN)))
       (\<lambda>(n, pkt', data).
       if n = 0 then Inr (None, pkt')
       else let total = ucast (of_nat IP4_HDRLEN + of_nat UDP_HDRLEN + n) :: appInt16;
                ulen = ucast (of_nat UDP_HDRLEN + n) :: appInt16;
                isum = checksum (ip_header total 0 (src_ip s) dst_ip);
                payload = take (unat n) data;
                usum = udp4_checksum (src_ip s) dst_ip (ucast (src_port s)) (ucast dst_port) ulen payload in
            Inr (Some \<lparr> frame_len = int (unat n) + int IP4_HDRLEN + int UDP_HDRLEN,
              ether_frame = ip_header total isum (src_ip s) dst_ip @
                udp_header (ucast (src_port s)) (ucast dst_port) ulen usum @ data,
              dev_addr = e_dst_addr s, dev_index = sll_ifindex s \<rparr>, pkt'))"

section \<open>The socket\<close>

text \<open>The result of one \<open>sendto\<close>: the bytes sent, or the error.\<close>

datatype sendto_result = Sent nat | NoBuffers | NetDown | OtherError

record sending_socket =
  packetCount :: appInt32
  byteCount :: appInt64
  pauses :: "nat list"

definition new_sending_socket :: sending_socket where
  "new_sending_socket = \<lparr> packetCount = 0, byteCount = 0, pauses = [] \<rparr>"

definition timeOuts :: "nat list" where
  "timeOuts = [50, 120, 250, 500, 1000]"

text \<open>
  \<open>sendMsgToSystemInterface\<close>: the results of the successive calls are the
  function \<open>sys\<close>, the number of the attempt is \<open>retryCnt\<close>; the pauses between
  attempts are recorded in nanoseconds.  The loop is unrolled over the attempts left.
\<close>

definition count_frame :: "int \<Rightarrow> sending_socket \<Rightarrow> sending_socket" where
  "count_frame len k = k\<lparr> packetCount := packetCount k + 1, byteCount := byteCount k + of_int len \<rparr>"

fun sendto_loop :: "nat \<Rightarrow> (nat \<Rightarrow> sendto_result) \<Rightarrow> int \<Rightarrow> nat \<Rightarrow> sending_socket \<Rightarrow> int \<times> sending_socket" where
  "sendto_loop 0 sys len retryCnt k = (- 1, count_frame len k)"
| "sendto_loop (Suc n) sys len retryCnt k =
     (case sys retryCnt of
        Sent b \<Rightarrow> (int b, count_frame len k)
      | NoBuffers \<Rightarrow>
          let pause = (if retryCnt < length timeOuts then timeOuts ! retryCnt else timeOuts ! (length timeOuts - 1)) in
          sendto_loop n sys len (retryCnt + 1) (k\<lparr> pauses := pauses k @ [pause] \<rparr>)
      | NetDown \<Rightarrow> (- ERROR_NETWORK_CLOSED, k)
      | OtherError \<Rightarrow> (- 1, k))"

definition sendMsgToSystemInterface :: "(nat \<Rightarrow> sendto_result) \<Rightarrow> SendMsgBuffer \<Rightarrow> sending_socket \<Rightarrow> int \<times> sending_socket" where
  "sendMsgToSystemInterface sys msg k = sendto_loop 10 sys (frame_len msg) 0 k"

text \<open>\<open>sendPkt\<close>: a sender whose \<open>init\<close> failed has no socket.\<close>

definition sendPkt :: "appByte list \<Rightarrow> (nat \<Rightarrow> sendto_result) \<Rightarrow> sender \<Rightarrow> Packet \<Rightarrow> appInt32 \<Rightarrow> appInt \<Rightarrow> sending_socket \<Rightarrow>
    (int \<times> SendMsgBuffer option \<times> sending_socket) res" where
  "sendPkt junk sys s pkt dst_ip dst_port k =
     bind_res (makeMsg junk s pkt dst_ip dst_port) (\<lambda>(msg, _).
     case msg of
       None \<Rightarrow> Inr (- 1, None, k)
     | Some m \<Rightarrow> check Null_Deref (opSock s)
         (let (ret, k') = sendMsgToSystemInterface sys m k in Inr (ret, Some m, k')))"

section \<open>The checksum is the internet checksum\<close>

text \<open>
  The specification adds the words without bound and takes the ones' complement
  residue; a receiver checks that the words, the checksum among them, add up to
  a nonzero multiple of 65535.
\<close>

fun word_sum :: "appByte list \<Rightarrow> nat" where
  "word_sum (a # b # bs) = unat a + 256 * unat b + word_sum bs"
| "word_sum [a] = unat a"
| "word_sum [] = 0"

lemma word_sum_append: "even (length xs) \<Longrightarrow> word_sum (xs @ ys) = word_sum xs + word_sum ys"
  by (induction xs rule: word_sum.induct) simp_all

lemma word_sum_bound: "word_sum bs \<le> 65535 * length bs"
proof (induction bs rule: word_sum.induct)
  case (1 a b bs)
  moreover have "unat a + 256 * unat b \<le> 65535"
    using unat_byte [of a] unat_byte [of b] by arith
  ultimately show ?case by simp
next
  case (2 a)
  then show ?case using unat_byte [of a] by (simp add: less_imp_le order_trans [of _ 256])
qed simp

lemma word_sum_pad: "word_sum (bs @ replicate (length bs mod 2) 0) = word_sum bs"
  by (induction bs rule: word_sum.induct) simp_all

lemma checksum_sum_eq:
  "unat acc + word_sum bs < 2 ^ 32 \<Longrightarrow> unat (checksum_sum bs acc) = unat acc + word_sum bs"
proof (induction bs acc rule: checksum_sum.induct)
  case (1 a b bs acc)
  have b: "unat (push_bit 8 (ucast b :: appInt32)) = 256 * unat b"
    using unat_byte [of b] by (simp add: push_bit_eq_mult unat_word_ariths(2) unsigned_ucast_eq take_bit_eq_mod)
  have "unat (ucast a + push_bit 8 (ucast b) :: appInt32) = unat a + 256 * unat b"
    using unat_byte [of a] unat_byte [of b] by (simp add: unat_word_ariths b unsigned_ucast_eq take_bit_eq_mod)
  then have "unat (acc + (ucast a + push_bit 8 (ucast b))) = unat acc + (unat a + 256 * unat b)"
    using 1 by (simp add: unat_word_ariths)
  then show ?case using 1 by simp
next
  case (2 a acc)
  then show ?case
    by (simp add: unat_word_ariths unsigned_ucast_eq take_bit_eq_mod)
qed simp

lemma fold_sum_spec:
  "unat (fold_sum s) < 65536 \<and> unat (fold_sum s) mod 65535 = unat s mod 65535 \<and> (fold_sum s = 0 \<longleftrightarrow> s = 0)"
proof (induction s rule: fold_sum.induct)
  case (1 s)
  show ?case
  proof (cases "drop_bit 16 s = 0")
    case True
    then have "unat s div 65536 = 0"
      using unat_drop_bit_eq [of 16 s] by (simp add: drop_bit_eq_div)
    then show ?thesis by (subst (1 2 3) fold_sum.simps) (simp add: True div_eq_0_iff)
  next
    case False
    let ?t = "(s AND 0xffff) + drop_bit 16 s"
    have t: "unat ?t = unat s mod 65536 + unat s div 65536"
      by (rule fold_decreases) (rule False)
    have "unat s = unat ?t + 65535 * (unat s div 65536)"
      unfolding t using mult_div_mod_eq [of 65536 "unat s"] by arith
    then have m: "unat ?t mod 65535 = unat s mod 65535"
      by (metis mod_mult_self2)
    have "unat ?t \<noteq> 0"
      using False unfolding t by (metis (no_types) add_is_0 drop_bit_eq_div drop_bit_of_0 mult_div_mod_eq mult_zero_right
          unat_eq_zero)
    then have "?t \<noteq> 0" "s \<noteq> 0"
      using False by auto
    then show ?thesis
      using 1 [OF False] m by (subst (1 2 3) fold_sum.simps) (simp add: False)
  qed
qed

lemma residue_ones: "f < (65536::nat) \<Longrightarrow> f = 65535 \<longleftrightarrow> f \<noteq> 0 \<and> f mod 65535 = 0"
proof (cases "f < 65535")
  case False
  moreover assume "f < 65536"
  ultimately have "f = 65535" by linarith
  then show ?thesis by simp
qed auto

lemma checksum_spec:
  assumes "length bs \<le> 65536"
  shows "unat (checksum bs) \<le> 65535" "(unat (checksum bs) + word_sum bs) mod 65535 = 0"
    and "unat (checksum bs) = 65535 \<longleftrightarrow> word_sum bs = 0"
    and "checksum bs = 0 \<longleftrightarrow> word_sum bs \<noteq> 0 \<and> word_sum bs mod 65535 = 0"
proof -
  let ?f = "fold_sum (checksum_sum bs 0)"
  have "word_sum bs < 2 ^ 32"
    using word_sum_bound [of bs] assms by simp
  then have s: "unat (checksum_sum bs 0) = word_sum bs"
    using checksum_sum_eq [of 0 bs] by simp
  have f: "unat ?f < 65536" "unat ?f mod 65535 = word_sum bs mod 65535" "unat ?f = 0 \<longleftrightarrow> word_sum bs = 0"
    using fold_sum_spec [of "checksum_sum bs 0"] s by (auto simp: unat_eq_0)
  have c: "unat (checksum bs) = 65535 - unat ?f"
  proof -
    have "checksum bs = NOT (ucast ?f)"
      unfolding checksum_def by (rule bit_word_eqI) (simp add: bit_simps)
    also have "\<dots> = - 1 - ucast ?f"
      by (simp add: not_eq_complement)
    moreover have "unat (ucast ?f :: appInt16) = unat ?f"
      using f(1) by (simp add: unsigned_ucast_eq take_bit_eq_mod)
    moreover have "unat (- 1 :: appInt16) = 65535"
      by (simp add: unsigned_minus_1_eq_mask mask_eq_exp_minus_1)
    ultimately show ?thesis
      using f(1) by (simp add: unat_sub word_le_nat_alt)
  qed
  show "unat (checksum bs) \<le> 65535"
    by (simp add: c)
  have "(unat (checksum bs) + word_sum bs) mod 65535 = (unat (checksum bs) + unat ?f) mod 65535"
    using f(2) by (metis mod_add_right_eq)
  also have "unat (checksum bs) + unat ?f = 65535"
    using f(1) by (simp add: c)
  finally show "(unat (checksum bs) + word_sum bs) mod 65535 = 0"
    by simp
  show "unat (checksum bs) = 65535 \<longleftrightarrow> word_sum bs = 0"
    using f c by auto
  have "checksum bs = 0 \<longleftrightarrow> unat (checksum bs) = 0"
    by (simp add: unat_eq_0)
  also have "\<dots> \<longleftrightarrow> unat ?f = 65535"
    using f(1) by (auto simp: c)
  also have "\<dots> \<longleftrightarrow> unat ?f \<noteq> 0 \<and> unat ?f mod 65535 = 0"
    using f(1) by (rule residue_ones)
  finally show "checksum bs = 0 \<longleftrightarrow> word_sum bs \<noteq> 0 \<and> word_sum bs mod 65535 = 0"
    using f(2,3) by simp
qed

text \<open>Any place that stores the checksum of the data around it, on an even offset, makes the check succeed.\<close>

lemma word_sum_le16: "word_sum (le_bytes 2 (w :: appInt16)) = unat w"
proof -
  have "unat w div 256 < 256"
    using unat_16 [of w] by (simp add: div_less_iff_less_mult)
  then have "unat (ucast w :: appByte) = unat w mod 256" "unat (ucast (drop_bit 8 w) :: appByte) = unat w div 256"
    using unat_16 [of w]
    by (simp_all add: unsigned_ucast_eq take_bit_eq_mod drop_bit_eq_div unat_div)
  then show ?thesis
    using unat_16 [of w] mod_mult_div_eq [of "unat w" 256] by (simp add: le_bytes_def be_bytes_def upt_rec)
qed

lemma length_le_bytes [simp]: "length (le_bytes n w) = n"
  by (simp add: le_bytes_def)

lemma checksum_verifies:
  assumes "even (length xs)" "length xs + length ys < 65000" "c = checksum zs" "length zs < 65000"
    and "word_sum zs = word_sum xs + word_sum ys"
  shows "checksum (xs @ le_bytes 2 c @ ys) = 0"
proof -
  let ?d = "xs @ le_bytes 2 c @ ys"
  have w: "word_sum ?d = unat c + word_sum zs"
    using assms(1,5) by (simp add: word_sum_append word_sum_le16)
  have len: "length zs \<le> 65536" "length ?d \<le> 65536"
    using assms by auto
  have "unat c + word_sum zs \<noteq> 0" "(unat c + word_sum zs) mod 65535 = 0"
    using checksum_spec(2,3) [OF len(1)] assms(3) by auto
  then show ?thesis
    unfolding w [symmetric] using checksum_spec(4) [OF len(2)] by simp
qed


section \<open>The frame on the wire\<close>

text \<open>What a receiver's kernel sums up for a UDP datagram: the pseudo header, then header and data.\<close>

definition udp_check_data :: "appInt32 \<Rightarrow> appInt32 \<Rightarrow> appInt16 \<Rightarrow> appByte list \<Rightarrow> appByte list" where
  "udp_check_data src dst len datagram = pseudo_header src dst len @ datagram"

lemma store_checksum:
  assumes "even (length xs)" "length xs + length ys < 64000"
  shows "checksum (xs @ le_bytes 2 (checksum (xs @ [0, 0] @ ys @ replicate (length ys mod 2) 0)) @ ys) = 0"
  using assms by (intro checksum_verifies [OF _ _ refl]) (simp_all add: word_sum_append word_sum_pad)

lemma length_headers [simp]:
  "length (ip_header len chk src dst) = 20" "length (udp_header source dest len chk) = 8"
  by (simp_all add: ip_header_def udp_header_def)

lemma le_bytes_0: "le_bytes 2 0 = [0, 0]"
  by (simp add: le_bytes_def be_bytes_def upt_rec)

lemma ip_header_verifies: "checksum (ip_header len (checksum (ip_header len 0 src dst)) src dst) = 0"
  using store_checksum [of "[0x45, 0] @ be_bytes 2 len @ [0, 0, 0, 0, 255, IPPROTO_UDP]" "le_bytes 4 src @ le_bytes 4 dst"]
  by (simp add: ip_header_def le_bytes_0)

lemma udp_datagram_verifies:
  assumes "length payload < 60000"
  shows "checksum (udp_check_data src dst len
    (udp_header source dest len (udp4_checksum src dst source dest len payload) @ payload)) = 0"
  using store_checksum [of "pseudo_header src dst len @ le_bytes 2 source @ le_bytes 2 dest @ be_bytes 2 len" payload] assms
  by (simp add: udp_header_def udp4_checksum_def udp_check_data_def pseudo_header_def)

lemma ucast16_of_nat: "(ucast (of_nat k :: appInt) :: appInt16) = of_nat k"
  by (rule bit_word_eqI) (simp add: bit_simps)

lemma image_at_least_header: "28 \<le> length (packet_image pkt)"
  by (simp add: packet_image_def PACKET_HEADER_SIZE_def)

text \<open>
  For a well-formed packet that fits the message buffer, \<open>makeMsg\<close> builds one
  frame: a 20-byte IP header whose checksum a receiver accepts, an 8-byte UDP
  header whose checksum a receiver accepts for the pseudo header of the same
  addresses, and the bytes the decoder of Packet.cc turns back into the packet;
  the length of the frame covers exactly these bytes.
\<close>

lemma makeMsg_frame:
  assumes "wf_packet pkt" "length (packet_image pkt) \<le> 2020" "length junk = MY_UDP_PKT_SIZE"
  shows "\<exists>msg ip udp. makeMsg junk s pkt dst_ip dst_port = Inr (Some msg, set_OHLen pkt) \<and>
     take (nat (frame_len msg)) (ether_frame msg) = ip @ udp @ packet_image pkt \<and>
     length ip = 20 \<and> length udp = 8 \<and> length (ether_frame msg) = MY_UDP_PKT_SIZE \<and>
     checksum ip = 0 \<and> be_word (take 2 (drop 2 ip)) = (of_nat (28 + length (packet_image pkt)) :: appInt16) \<and>
     checksum (udp_check_data (src_ip s) dst_ip (of_nat (8 + length (packet_image pkt))) (udp @ packet_image pkt)) = 0"
proof -
  let ?img = "packet_image pkt" and ?buf = "drop (IP4_HDRLEN + UDP_HDRLEN) junk"
  let ?n = "of_nat (length ?img) :: appInt"
  have buf: "length ?buf = 2020"
    using assms(3) by (simp add: IP4_HDRLEN_def UDP_HDRLEN_def MY_UDP_PKT_SIZE_def)
  have enc: "encodeHeader pkt ?buf (of_nat (MY_UDP_PKT_SIZE - IP4_HDRLEN - UDP_HDRLEN))
      = Inr (?n, set_OHLen pkt, ?img @ drop (length ?img) ?buf)"
    using encodeHeader_image [OF assms(1), of ?buf] assms(2,3) buf
    by (simp add: sizeof_PacketHeader_def IP4_HDRLEN_def UDP_HDRLEN_def MY_UDP_PKT_SIZE_def)
  have n: "unat ?n = length ?img"
    using assms(2) by (simp add: unat_of_nat_small)
  then have n0: "?n \<noteq> 0"
    using image_at_least_header [of pkt] by (auto simp: unat_eq_0 [symmetric])
  let ?total = "of_nat (28 + length ?img) :: appInt16" and ?ulen = "of_nat (8 + length ?img) :: appInt16"
  have w: "(ucast (of_nat IP4_HDRLEN + of_nat UDP_HDRLEN + ?n) :: appInt16) = ?total"
    "(ucast (of_nat UDP_HDRLEN + ?n) :: appInt16) = ?ulen"
    using ucast16_of_nat [of "28 + length ?img"] ucast16_of_nat [of "8 + length ?img"]
    by (simp_all add: IP4_HDRLEN_def UDP_HDRLEN_def)
  let ?ip = "ip_header ?total (checksum (ip_header ?total 0 (src_ip s) dst_ip)) (src_ip s) dst_ip"
  let ?udp = "udp_header (ucast (src_port s)) (ucast dst_port) ?ulen
      (udp4_checksum (src_ip s) dst_ip (ucast (src_port s)) (ucast dst_port) ?ulen ?img)"
  have total: "be_word (take 2 (drop 2 ?ip)) = ?total"
    by (simp add: ip_header_def be_word_be_bytes)
  have msg: "makeMsg junk s pkt dst_ip dst_port = Inr (Some \<lparr> frame_len = int (length ?img) + 28,
      ether_frame = ?ip @ ?udp @ ?img @ drop (length ?img) ?buf, dev_addr = e_dst_addr s, dev_index = sll_ifindex s \<rparr>,
      set_OHLen pkt)"
    unfolding makeMsg_def enc bind_res.simps prod.case Let_def w n
    using n0 by (simp add: IP4_HDRLEN_def UDP_HDRLEN_def)
  have sums: "checksum ?ip = 0" "checksum (udp_check_data (src_ip s) dst_ip ?ulen (?udp @ ?img)) = 0"
    using ip_header_verifies udp_datagram_verifies [of ?img] assms(2) by simp_all
  have nat: "nat (int (length ?img) + 28) = 28 + length ?img"
    by simp
  show ?thesis
    by (intro exI [of _ "\<lparr> frame_len = int (length ?img) + 28,
      ether_frame = ?ip @ ?udp @ ?img @ drop (length ?img) ?buf, dev_addr = e_dst_addr s, dev_index = sll_ifindex s \<rparr>"]
        exI [of _ ?ip] exI [of _ ?udp] conjI msg total sums)
      (use assms(2) buf in \<open>simp_all add: nat total sums MY_UDP_PKT_SIZE_def del: of_nat_add\<close>)
qed

text \<open>A checksum that comes out as zero is sent as zero, which tells the receiver that there is none.\<close>

lemma udp_checksum_can_be_zero: "udp4_checksum 0 0 0 0 10 [0xFF, 0xDA] = 0"
  by code_simp

section \<open>The retries\<close>

text \<open>
  The socket asks at most ten times: it returns the first answer that is not
  \<open>ENOBUFS\<close>, and after ten of these gives the frame up; a frame it gave up is
  counted as sent.
\<close>

lemma sendto_loop_answer:
  assumes "\<forall>i < j. sys (r + i) = NoBuffers" "j < n" "sys (r + j) \<noteq> NoBuffers"
  shows "fst (sendto_loop n sys len r k) =
      (case sys (r + j) of Sent b \<Rightarrow> int b | NetDown \<Rightarrow> - ERROR_NETWORK_CLOSED | _ \<Rightarrow> - 1)"
    and "length (pauses (snd (sendto_loop n sys len r k))) = length (pauses k) + j"
  using assms
proof (induction n arbitrary: r j k)
  case (Suc n)
  {
    case 1
    then show ?case
    proof (cases j)
      case (Suc i)
      then have "sys r = NoBuffers" "\<forall>m < i. sys (r + 1 + m) = NoBuffers"
        using 1(1) by (auto dest: spec [of _ 0] spec [of _ "Suc _"])
      then show ?thesis
        using 1 Suc Suc.IH(1) [of i "r + 1"] by (simp add: Let_def)
    qed (auto split: sendto_result.split)
  next
    case 2
    then show ?case
    proof (cases j)
      case (Suc i)
      then have "sys r = NoBuffers" "\<forall>m < i. sys (r + 1 + m) = NoBuffers"
        using 2(1) by (auto dest: spec [of _ 0] spec [of _ "Suc _"])
      then show ?thesis
        using 2 Suc Suc.IH(2) [of i "r + 1"] by (simp add: Let_def)
    qed (auto split: sendto_result.split simp: count_frame_def)
  }
qed simp_all

lemma sendto_loop_gives_up:
  "\<forall>i < n. sys (r + i) = NoBuffers \<Longrightarrow> fst (sendto_loop n sys len r k) = - 1 \<and>
     packetCount (snd (sendto_loop n sys len r k)) = packetCount k + 1"
proof (induction n arbitrary: r k)
  case (Suc n)
  then have "sys r = NoBuffers" "\<forall>m < n. sys (r + 1 + m) = NoBuffers"
    by (auto dest: spec [of _ 0] spec [of _ "Suc _"])
  then show ?case
    using Suc.IH [of "r + 1"] by (simp add: Let_def)
qed (simp add: count_frame_def)

end
