(* ===== verification/IfcMonitor.thy ===== *)
theory IfcMonitor
  imports Datagram Scheduler
begin

text \<open>
  \<open>InterfaceMonitor\<close> (src/src/TunnelLib/InterfaceController/InterfaceMonitor.cc):
  the senders of the host's interfaces under small identifiers, which an address
  keeps while it comes and goes; the events of the network scripts; and the choice
  of an interface by the routing table.  The addresses \<open>SearchMac\<close> finds, the
  rows of the routing table and the results of the system calls are arguments.
\<close>

section \<open>State\<close>

definition INTERFACE_SENDER_CNT :: appInt8 where "INTERFACE_SENDER_CNT = 16"

record RouteEntry =
  re_destination :: appInt32
  re_gateway :: appInt32
  re_mask :: appInt32
  re_iface :: string

text \<open>\<open>children\<close>, a set of pointers, is the ascending list of the listeners.\<close>

record ifc_monitor =
  im_localPort :: appInt
  nextInterfaceId :: appInt8
  interfaceSender :: "appInt8 \<Rightarrow> sender option"
  ip2InterfaceIdMap :: "appInt32 \<rightharpoonup> appInt8"
  im_children :: "nat list"

definition new_ifc_monitor :: "appInt \<Rightarrow> ifc_monitor" where
  "new_ifc_monitor port = \<lparr> im_localPort = port, nextInterfaceId = 0, interfaceSender = (\<lambda>_. None),
     ip2InterfaceIdMap = Map.empty, im_children = [] \<rparr>"

text \<open>Every access to the array \<open>interfaceSender\<close> has to be inside it.\<close>

definition sender_at :: "appInt8 \<Rightarrow> ifc_monitor \<Rightarrow> sender option res" where
  "sender_at i m = check Out_Of_Bounds (i < INTERFACE_SENDER_CNT) (Inr (interfaceSender m i))"

definition set_sender :: "appInt8 \<Rightarrow> sender option \<Rightarrow> ifc_monitor \<Rightarrow> ifc_monitor res" where
  "set_sender i x m = check Out_Of_Bounds (i < INTERFACE_SENDER_CNT)
     (Inr (m\<lparr> interfaceSender := (interfaceSender m)(i := x) \<rparr>))"

definition im_attach :: "nat \<Rightarrow> ifc_monitor \<Rightarrow> ifc_monitor" where
  "im_attach x m = m\<lparr> im_children := insort_insert x (im_children m) \<rparr>"

definition im_detach :: "nat \<Rightarrow> ifc_monitor \<Rightarrow> ifc_monitor" where
  "im_detach x m = (if x \<in> set (im_children m) then m\<lparr> im_children := removeAll x (im_children m) \<rparr> else m)"

section \<open>The table of senders\<close>

definition getNextInterfaceId :: "ifc_monitor \<Rightarrow> appInt8 \<times> ifc_monitor" where
  "getNextInterfaceId m = (nextInterfaceId m + 1, m\<lparr> nextInterfaceId := nextInterfaceId m + 1 \<rparr>)"

definition htons16 :: "appInt16 \<Rightarrow> appInt16" where
  "htons16 w = push_bit 8 w OR drop_bit 8 w"

definition new_sender :: "ifc_system \<Rightarrow> InterfaceAddr \<Rightarrow> ifc_monitor \<Rightarrow> sender" where
  "new_sender sys a m =
     snd (init_sender sys (SendThroughInterface (a\<lparr> ia_localPort := ucast (htons16 (ucast (im_localPort m))) \<rparr>)))"

definition populate_one :: "ifc_system \<Rightarrow> InterfaceAddr \<Rightarrow> ifc_monitor \<Rightarrow> ifc_monitor res" where
  "populate_one sys a m =
     (case ip2InterfaceIdMap m (ia_ifcIp a) of
        Some i \<Rightarrow>
          bind_res (sender_at i m) (\<lambda>x.
          if x \<noteq> None then Inr m else set_sender i (Some (new_sender sys a m)) m)
      | None \<Rightarrow>
          let (i, m1) = getNextInterfaceId m;
              m2 = m1\<lparr> ip2InterfaceIdMap := (ip2InterfaceIdMap m1)(ia_ifcIp a \<mapsto> i) \<rparr> in
          set_sender i (Some (new_sender sys a m2)) m2)"

fun populateInterfaces :: "ifc_system \<Rightarrow> InterfaceAddr list \<Rightarrow> ifc_monitor \<Rightarrow> ifc_monitor res" where
  "populateInterfaces sys [] m = Inr m"
| "populateInterfaces sys (a # as) m = bind_res (populate_one sys a m) (populateInterfaces sys as)"

definition removeInterface :: "appInt8 \<Rightarrow> ifc_monitor \<Rightarrow> ifc_monitor res" where
  "removeInterface i m =
     bind_res (sender_at i m) (\<lambda>x. if x = None then Inr m else set_sender i None m)"

section \<open>The events of the network scripts\<close>

text \<open>
  A message on the named pipe is at most as long as the buffer, to which the code
  appends a zero byte; \<open>strtok_r\<close> splits the part before the first zero byte at
  spaces and drops empty pieces.
\<close>

fun split_tokens :: "string \<Rightarrow> string \<Rightarrow> string list" where
  "split_tokens [] acc = (if acc = [] then [] else [acc])"
| "split_tokens (c # cs) acc =
     (if c = CHR '' '' then (if acc = [] then split_tokens cs [] else acc # split_tokens cs [])
      else split_tokens cs (acc @ [c]))"

definition read_event :: "string \<Rightarrow> string list res" where
  "read_event msg = check Out_Of_Bounds (length msg < 1024)
     (Inr (split_tokens (takeWhile (\<lambda>c. c \<noteq> CHR 0x00) msg) []))"

datatype listener_call = AnyEvent nat | InterfaceAdded nat appInt8 | InterfaceRemoved nat appInt8

text \<open>One message: \<open>matrix\<close> is what \<open>SearchMac\<close> finds at that moment, \<open>inet\<close> is \<open>inet_addr\<close>.\<close>

definition network_event ::
    "ifc_system \<Rightarrow> InterfaceAddr list \<Rightarrow> (string \<Rightarrow> appInt32) \<Rightarrow> string list \<Rightarrow> ifc_monitor \<Rightarrow> (listener_call list \<times> ifc_monitor) res" where
  "network_event sys matrix inet toks m =
     (if length toks < 4 then Inr ([], m)
      else let ipaddr = inet (toks ! 2) in
        if toks ! 0 = ''ifup'' then
          bind_res (populateInterfaces sys matrix m) (\<lambda>m1.
          case ip2InterfaceIdMap m1 ipaddr of
            None \<Rightarrow> Inr ([], m1)
          | Some i \<Rightarrow> bind_res (sender_at i m1) (\<lambda>x.
              if x = None then Inr ([], m1)
              else Inr (concat (map (\<lambda>c. [AnyEvent c, InterfaceAdded c i]) (im_children m1)), m1)))
        else if toks ! 0 = ''ifdown'' then
          (case ip2InterfaceIdMap m ipaddr of
             None \<Rightarrow> Inr ([], m)
           | Some i \<Rightarrow> bind_res (removeInterface i m) (\<lambda>m1.
               Inr (concat (map (\<lambda>c. [AnyEvent c, InterfaceRemoved c i]) (im_children m)), m1)))
        else Inr ([], m))"

section \<open>Choosing an interface\<close>

definition sender_ids :: "appInt8 list" where
  "sender_ids = map of_nat [0..<16]"

definition getPrimaryInterfaceId :: "ifc_monitor \<Rightarrow> appInt8" where
  "getPrimaryInterfaceId m = (case find (\<lambda>i. interfaceSender m i \<noteq> None) sender_ids of None \<Rightarrow> 0 | Some i \<Rightarrow> i)"

definition sender_of_iface :: "string \<Rightarrow> ifc_monitor \<Rightarrow> appInt8 option" where
  "sender_of_iface iface m =
     find (\<lambda>i. case interfaceSender m i of None \<Rightarrow> False | Some x \<Rightarrow> checkIface iface x) sender_ids"

text \<open>The loop over the routing table; \<open>best\<close> (\<open>mask\<close> in the code) is an \<open>int\<close> the comparison converts to unsigned.\<close>

fun suitable_loop :: "RouteEntry list \<Rightarrow> appInt32 \<Rightarrow> ifc_monitor \<Rightarrow> appInt32 \<Rightarrow> appInt8 \<Rightarrow> appInt8" where
  "suitable_loop [] dst m best i = i"
| "suitable_loop (e # es) dst m best i =
     (if re_destination e = (dst AND re_mask e) \<and> (best < re_mask e \<or> best = 0 \<and> best = re_mask e)
      then case sender_of_iface (re_iface e) m of
          Some j \<Rightarrow> suitable_loop es dst m (re_mask e) j
        | None \<Rightarrow> suitable_loop es dst m best i
      else suitable_loop es dst m best i)"

definition getSuitableInterfaceId :: "RouteEntry list \<Rightarrow> appInt32 \<Rightarrow> ifc_monitor \<Rightarrow> appInt8" where
  "getSuitableInterfaceId routes dst m = suitable_loop routes dst m 0 0"

definition isReachable :: "RouteEntry list \<Rightarrow> appInt8 \<Rightarrow> appInt32 \<Rightarrow> ifc_monitor \<Rightarrow> bool res" where
  "isReachable routes i remIp m =
     (if routes = [] then Inr False
      else bind_res (sender_at i m) (\<lambda>x. Inr (case x of
          None \<Rightarrow> False
        | Some s \<Rightarrow> list_ex (\<lambda>e. checkIface (re_iface e) s \<and> re_destination e = (remIp AND re_mask e)) routes)))"

text \<open>
  What the scheduler reads of the monitor.  The table \<open>getInterfaceSender\<close> is
  never filled: the assignment is commented out.
\<close>

definition ifc_env_of :: "RouteEntry list \<Rightarrow> ifc_monitor \<Rightarrow> ifc_env" where
  "ifc_env_of routes m = \<lparr> ie_monitor = True, ie_ifc = (\<lambda>i. interfaceSender m i \<noteq> None), ie_sender = (\<lambda>_. False),
     ie_reachable = (\<lambda>i ip. isReachable routes i ip m = Inr True) \<rparr>"

section \<open>The table keeps its identifiers\<close>

text \<open>
  Identifiers are handed out in order from one; different addresses have
  different ones, and a sender stands under the identifier of its own address.
\<close>

definition mon_inv :: "ifc_monitor \<Rightarrow> bool" where
  "mon_inv m \<longleftrightarrow> nextInterfaceId m < 16 \<and>
     (\<forall>a b i. ip2InterfaceIdMap m a = Some i \<longrightarrow> ip2InterfaceIdMap m b = Some i \<longrightarrow> a = b) \<and>
     finite (dom (ip2InterfaceIdMap m)) \<and> card (dom (ip2InterfaceIdMap m)) = unat (nextInterfaceId m) \<and>
     (\<forall>ip i. ip2InterfaceIdMap m ip = Some i \<longrightarrow> 0 < i \<and> i \<le> nextInterfaceId m) \<and>
     (\<forall>i s. interfaceSender m i = Some s \<longrightarrow> ip2InterfaceIdMap m (src_ip s) = Some i)"

lemma new_monitor_inv: "mon_inv (new_ifc_monitor port)"
  by (auto simp: mon_inv_def new_ifc_monitor_def word_gt_0)

lemma src_ip_new_sender [simp]: "src_ip (new_sender sys a m) = ia_ifcIp a"
  by (simp add: new_sender_def init_sender_def SendThroughInterface_def Let_def split: option.split)

definition known :: "ifc_monitor \<Rightarrow> appInt32 set" where
  "known m = dom (ip2InterfaceIdMap m)"

lemma mon_invD:
  assumes "mon_inv m" "ip2InterfaceIdMap m ip = Some i"
  shows "0 < i" "i \<le> nextInterfaceId m" "i < INTERFACE_SENDER_CNT"
proof -
  show "0 < i" and le: "i \<le> nextInterfaceId m"
    using assms by (auto simp: mon_inv_def)
  have "nextInterfaceId m < 16"
    using assms(1) by (simp add: mon_inv_def)
  with le show "i < INTERFACE_SENDER_CNT"
    by (simp add: INTERFACE_SENDER_CNT_def)
qed

lemma set_sender_inv:
  assumes "mon_inv m" "ip2InterfaceIdMap m ip = Some i" "\<forall>s. x = Some s \<longrightarrow> src_ip s = ip"
  shows "\<exists>m'. set_sender i x m = Inr m' \<and> mon_inv m' \<and> ip2InterfaceIdMap m' = ip2InterfaceIdMap m \<and>
    interfaceSender m' = (interfaceSender m)(i := x) \<and> im_children m' = im_children m"
  using assms mon_invD(3) [OF assms(1,2)] by (auto simp: set_sender_def mon_inv_def)

lemma fresh_id_inv:
  assumes inv: "mon_inv m" and new: "ip2InterfaceIdMap m ip = None" and room: "card (known m) < 15"
  shows "mon_inv (m\<lparr> nextInterfaceId := nextInterfaceId m + 1,
    ip2InterfaceIdMap := (ip2InterfaceIdMap m)(ip \<mapsto> nextInterfaceId m + 1) \<rparr>)"
proof -
  let ?n = "nextInterfaceId m"
  have n: "unat ?n < 15"
    using inv room by (simp add: mon_inv_def known_def)
  then have s: "unat (?n + 1) = Suc (unat ?n)"
    by (simp add: unat_word_ariths)
  then have lt: "?n + 1 < 16" "?n < ?n + 1" "0 < ?n + 1"
    using n by (simp_all add: word_less_nat_alt)
  have old: "0 < i \<and> i < ?n + 1" if "ip2InterfaceIdMap m a = Some i" for a i
    using mon_invD(1,2) [OF inv that] lt(2) by auto
  have inj: "a = b" if "ip2InterfaceIdMap m a = Some i" "ip2InterfaceIdMap m b = Some i" for a b i
    using inv that by (auto simp: mon_inv_def)
  have fin: "finite (dom (ip2InterfaceIdMap m))" "card (dom (ip2InterfaceIdMap m)) = unat ?n"
    using inv by (simp_all add: mon_inv_def)
  have snd: "ip2InterfaceIdMap m (src_ip x) = Some i" if "interfaceSender m i = Some x" for x i
    using inv that by (simp add: mon_inv_def)
  have "ip \<notin> dom (ip2InterfaceIdMap m)"
    using new by auto
  then have "card (insert ip (dom (ip2InterfaceIdMap m))) = unat (?n + 1)"
    using fin s by simp
  moreover have "src_ip x \<noteq> ip" if "interfaceSender m i = Some x" for x i
    using snd [OF that] new by auto
  ultimately show ?thesis
    using lt fin(1) by (auto simp: mon_inv_def dest: old snd intro: inj less_imp_le)
qed

definition has_sender :: "appInt32 \<Rightarrow> ifc_monitor \<Rightarrow> bool" where
  "has_sender ip m \<longleftrightarrow> (\<exists>i. ip2InterfaceIdMap m ip = Some i \<and> interfaceSender m i \<noteq> None)"

definition extends :: "ifc_monitor \<Rightarrow> ifc_monitor \<Rightarrow> bool" where
  "extends m m' \<longleftrightarrow> ip2InterfaceIdMap m \<subseteq>\<^sub>m ip2InterfaceIdMap m' \<and> im_children m' = im_children m"

lemma extends_trans: "extends a b \<Longrightarrow> extends b c \<Longrightarrow> extends a c"
  by (auto simp: extends_def intro: map_le_trans)

lemma extends_refl [simp]: "extends m m"
  by (simp add: extends_def)

lemma populate_one_ok:
  assumes inv: "mon_inv m" and room: "card (insert (ia_ifcIp a) (known m)) \<le> 15"
  shows "\<exists>m'. populate_one sys a m = Inr m' \<and> mon_inv m' \<and> known m' = insert (ia_ifcIp a) (known m) \<and> extends m m' \<and>
    has_sender (ia_ifcIp a) m' \<and> (\<forall>ip. has_sender ip m \<longrightarrow> has_sender ip m')"
proof (cases "ip2InterfaceIdMap m (ia_ifcIp a)")
  case (Some i)
  show ?thesis
  proof (cases "interfaceSender m i")
    case None
    then show ?thesis
      using set_sender_inv [OF inv Some, of "Some (new_sender sys a m)"] Some mon_invD(3) [OF inv Some]
      by (fastforce simp: populate_one_def sender_at_def known_def extends_def has_sender_def)
  next
    case sx: (Some x)
    then show ?thesis
      using Some inv mon_invD(3) [OF inv Some]
      by (auto simp: populate_one_def sender_at_def known_def has_sender_def)
  qed
next
  case None
  let ?i = "nextInterfaceId m + 1"
  let ?m = "m\<lparr> nextInterfaceId := ?i, ip2InterfaceIdMap := (ip2InterfaceIdMap m)(ia_ifcIp a \<mapsto> ?i) \<rparr>"
  have "finite (known m)" "ia_ifcIp a \<notin> known m"
    using inv None by (auto simp: mon_inv_def known_def)
  then have "card (known m) < 15"
    using room by simp
  then have inv': "mon_inv ?m"
    by (rule fresh_id_inv [OF inv None])
  then obtain m' where m': "set_sender ?i (Some (new_sender sys a ?m)) ?m = Inr m'" "mon_inv m'"
    "ip2InterfaceIdMap m' = ip2InterfaceIdMap ?m" "interfaceSender m' = (interfaceSender m)(?i \<mapsto> new_sender sys a ?m)"
    "im_children m' = im_children m"
    using set_sender_inv [OF inv', of "ia_ifcIp a" ?i "Some (new_sender sys a ?m)"] by auto
  moreover have "populate_one sys a m = Inr m'"
    using None m'(1) by (simp add: populate_one_def getNextInterfaceId_def)
  moreover have "has_sender ip m'" if "has_sender ip m" for ip
    using that None m'(3,4) by (auto simp: has_sender_def)
  ultimately show ?thesis
    using None by (auto simp: known_def extends_def map_le_def has_sender_def)
qed

lemma populateInterfaces_ok:
  assumes "mon_inv m" "card (known m \<union> ia_ifcIp ` set as) \<le> 15"
  shows "\<exists>m'. populateInterfaces sys as m = Inr m' \<and> mon_inv m' \<and> known m' = known m \<union> ia_ifcIp ` set as \<and> extends m m' \<and>
    (\<forall>ip \<in> ia_ifcIp ` set as. has_sender ip m') \<and> (\<forall>ip. has_sender ip m \<longrightarrow> has_sender ip m')"
  using assms
proof (induction as arbitrary: m)
  case (Cons a as)
  have fin: "finite (known m \<union> ia_ifcIp ` set (a # as))"
    using Cons.prems(1) by (simp add: mon_inv_def known_def)
  have "insert (ia_ifcIp a) (known m) \<subseteq> known m \<union> ia_ifcIp ` set (a # as)"
    by auto
  then have "card (insert (ia_ifcIp a) (known m)) \<le> 15"
    using Cons.prems(2) card_mono [OF fin] by (meson le_trans)
  from populate_one_ok [OF Cons.prems(1) this, of sys] obtain m1 where m1: "populate_one sys a m = Inr m1" "mon_inv m1"
    "known m1 = insert (ia_ifcIp a) (known m)" "extends m m1" "has_sender (ia_ifcIp a) m1"
    "\<forall>ip. has_sender ip m \<longrightarrow> has_sender ip m1"
    by blast
  have "card (known m1 \<union> ia_ifcIp ` set as) \<le> 15"
    using Cons.prems(2) by (simp add: m1(3))
  from Cons.IH [OF m1(2) this] show ?case
    using m1 by (auto intro: extends_trans)
qed simp

lemma removeInterface_ok:
  assumes inv: "mon_inv m" and i: "ip2InterfaceIdMap m ip = Some i"
  shows "\<exists>m'. removeInterface i m = Inr m' \<and> mon_inv m' \<and> ip2InterfaceIdMap m' = ip2InterfaceIdMap m \<and>
    interfaceSender m' = (interfaceSender m)(i := None) \<and> im_children m' = im_children m"
proof (cases "interfaceSender m i")
  case None
  then show ?thesis
    using inv mon_invD(3) [OF inv i] by (auto simp: removeInterface_def sender_at_def fun_upd_idem)
next
  case (Some x)
  then show ?thesis
    using set_sender_inv [OF inv i, of None] mon_invD(3) [OF inv i] by (simp add: removeInterface_def sender_at_def)
qed

section \<open>Any sequence of events\<close>

fun network_events ::
    "ifc_system \<Rightarrow> (string \<Rightarrow> appInt32) \<Rightarrow> (string list \<times> InterfaceAddr list) list \<Rightarrow> ifc_monitor \<Rightarrow> (listener_call list \<times> ifc_monitor) res" where
  "network_events sys inet [] m = Inr ([], m)"
| "network_events sys inet ((toks, matrix) # evs) m =
     bind_res (network_event sys matrix inet toks m) (\<lambda>(calls, m1).
     bind_res (network_events sys inet evs m1) (\<lambda>(calls', m2). Inr (calls @ calls', m2)))"

definition seen :: "(string list \<times> InterfaceAddr list) list \<Rightarrow> appInt32 set" where
  "seen evs = (\<Union>(toks, matrix) \<in> set evs. ia_ifcIp ` set matrix)"

definition names_of :: "ifc_monitor \<Rightarrow> listener_call list \<Rightarrow> bool" where
  "names_of m calls \<longleftrightarrow> (\<forall>x i. InterfaceAdded x i \<in> set calls \<or> InterfaceRemoved x i \<in> set calls \<longrightarrow>
     x \<in> set (im_children m) \<and> i \<in> ran (ip2InterfaceIdMap m))"

lemma network_event_ok:
  assumes inv: "mon_inv m" and room: "card (known m \<union> ia_ifcIp ` set matrix) \<le> 15"
  shows "\<exists>calls m'. network_event sys matrix inet toks m = Inr (calls, m') \<and> mon_inv m' \<and> extends m m' \<and>
    known m' \<subseteq> known m \<union> ia_ifcIp ` set matrix \<and> names_of m' calls"
proof -
  consider (short) "length toks < 4" | (up) "\<not> length toks < 4" "toks ! 0 = ''ifup''"
    | (down) "\<not> length toks < 4" "toks ! 0 = ''ifdown''" | (other) "\<not> length toks < 4" "toks ! 0 \<noteq> ''ifup''" "toks ! 0 \<noteq> ''ifdown''"
    by blast
  then show ?thesis
  proof cases
    case up
    obtain m1 where m1: "populateInterfaces sys matrix m = Inr m1" "mon_inv m1"
      "known m1 = known m \<union> ia_ifcIp ` set matrix" "extends m m1"
      using populateInterfaces_ok [OF inv room, of sys] by blast
    show ?thesis
    proof (cases "ip2InterfaceIdMap m1 (inet (toks ! 2))")
      case None
      then show ?thesis using up m1 by (simp add: network_event_def names_of_def)
    next
      case (Some i)
      then show ?thesis
        using up m1 mon_invD(3) [OF m1(2) Some]
        by (cases "interfaceSender m1 i") (auto simp: network_event_def sender_at_def names_of_def intro: ranI)
    qed
  next
    case down
    show ?thesis
    proof (cases "ip2InterfaceIdMap m (inet (toks ! 2))")
      case None
      then show ?thesis using down inv by (auto simp: network_event_def names_of_def)
    next
      case (Some i)
      then show ?thesis
        using down removeInterface_ok [OF inv Some]
        by (auto simp: network_event_def names_of_def extends_def known_def intro: ranI)
    qed
  qed (use inv in \<open>auto simp: network_event_def names_of_def\<close>)
qed

lemma names_of_mono: "extends m m' \<Longrightarrow> names_of m calls \<Longrightarrow> names_of m' calls"
  by (fastforce simp: names_of_def extends_def map_le_def ran_def dom_def)

text \<open>
  C34: as long as the host has shown at most fifteen addresses in all, no sequence
  of network events makes the monitor leave its table of sixteen senders; every
  address keeps the identifier it was given first, different addresses have
  different ones, none has the identifier 0, a sender stands under the
  identifier of its own address, and the listeners are told known identifiers only.
\<close>

theorem interfaces_keep_ids:
  assumes "mon_inv m" "card (known m \<union> seen evs) \<le> 15"
  shows "\<exists>calls m'. network_events sys inet evs m = Inr (calls, m') \<and> mon_inv m' \<and> extends m m' \<and>
    known m' \<subseteq> known m \<union> seen evs \<and> names_of m' calls"
  using assms
proof (induction evs arbitrary: m)
  case Nil
  then show ?case by (simp add: names_of_def)
next
  case (Cons ev evs)
  obtain toks matrix where ev: "ev = (toks, matrix)" by fastforce
  have fin: "finite (known m \<union> seen (ev # evs))"
    using Cons.prems(1) by (auto simp: mon_inv_def known_def seen_def)
  have sub: "known m \<union> ia_ifcIp ` set matrix \<subseteq> known m \<union> seen (ev # evs)"
    by (auto simp: seen_def ev)
  obtain calls m1 where m1: "network_event sys matrix inet toks m = Inr (calls, m1)" "mon_inv m1" "extends m m1"
    "known m1 \<subseteq> known m \<union> ia_ifcIp ` set matrix" "names_of m1 calls"
    using network_event_ok [OF Cons.prems(1) le_trans [OF card_mono [OF fin sub] Cons.prems(2)]] by blast
  have sub1: "known m1 \<union> seen evs \<subseteq> known m \<union> seen (ev # evs)"
    using m1(4) by (auto simp: seen_def ev)
  obtain calls' m2 where m2: "network_events sys inet evs m1 = Inr (calls', m2)" "mon_inv m2" "extends m1 m2"
    "known m2 \<subseteq> known m1 \<union> seen evs" "names_of m2 calls'"
    using Cons.IH [OF m1(2) le_trans [OF card_mono [OF fin sub1] Cons.prems(2)]] by blast
  have "names_of m2 (calls @ calls')"
    using names_of_mono [OF m2(3) m1(5)] m2(5) by (auto simp: names_of_def)
  then show ?case
    using m1(1,3) m2 sub1 by (auto simp: ev intro: extends_trans)
qed

lemma interfaces_keep_ids_witness:
  "\<exists>calls m'. network_events \<lparr> sys_socket = True, sys_hwaddr = (\<lambda>_. Some []), sys_index = (\<lambda>_. 3) \<rparr> (\<lambda>_. 7)
       [([''ifup'', ''eth0'', ''7'', ''x''], [\<lparr> ia_ifc = ''eth0'', ia_gwIp = 1, ia_gwMac = [], ia_ifcIp = 7, ia_localPort = 9 \<rparr>]),
        ([''ifdown'', ''eth0'', ''7'', ''x''], [])] (new_ifc_monitor 9) = Inr (calls, m') \<and> mon_inv m' \<and>
     extends (new_ifc_monitor 9) m' \<and> known m' \<subseteq> known (new_ifc_monitor 9) \<union> {7} \<and> names_of m' calls"
  using interfaces_keep_ids [OF new_monitor_inv [of 9],
      of "[([''ifup'', ''eth0'', ''7'', ''x''], [\<lparr> ia_ifc = ''eth0'', ia_gwIp = 1, ia_gwMac = [], ia_ifcIp = 7, ia_localPort = 9 \<rparr>]),
        ([''ifdown'', ''eth0'', ''7'', ''x''], [])]"
      "\<lparr> sys_socket = True, sys_hwaddr = (\<lambda>_. Some []), sys_index = (\<lambda>_. 3) \<rparr>" "\<lambda>_. 7"]
  by (simp add: known_def new_ifc_monitor_def seen_def del: network_events.simps)

text \<open>
  An address beyond the fifteenth makes the monitor write past the end of its
  array of senders.
\<close>

theorem sixteenth_interface_overflows:
  assumes "mon_inv m" "card (known m) = 15" "ia_ifcIp a \<notin> known m"
  shows "populateInterfaces sys (a # as) m = Inl Out_Of_Bounds"
proof -
  have "unat (nextInterfaceId m) = 15"
    using assms(1,2) by (simp add: mon_inv_def known_def)
  then have "nextInterfaceId m = 15"
    by (simp add: word_unat_eq_iff)
  then show ?thesis
    using assms(3) by (simp add: populate_one_def known_def domIff getNextInterfaceId_def set_sender_def
        INTERFACE_SENDER_CNT_def check_def)
qed

definition sample_addr :: "nat \<Rightarrow> InterfaceAddr" where
  "sample_addr k = \<lparr> ia_ifc = ''eth'', ia_gwIp = 1, ia_gwMac = [], ia_ifcIp = of_nat k, ia_localPort = 9 \<rparr>"

definition sample_system :: ifc_system where
  "sample_system = \<lparr> sys_socket = True, sys_hwaddr = (\<lambda>_. Some []), sys_index = (\<lambda>_. 3) \<rparr>"

lemma sixteenth_interface_overflows_witness:
  "\<exists>m. populateInterfaces sample_system (map sample_addr [1..<16]) (new_ifc_monitor 9) = Inr m \<and>
     populateInterfaces sample_system [sample_addr 16] m = Inl Out_Of_Bounds"
proof -
  have addrs: "ia_ifcIp ` set (map sample_addr [1..<16]) = {1, 2, 3, 4, 5, 6, 7, 8, 9, 10, 11, 12, 13, 14, 15}"
    by (auto simp: sample_addr_def upt_rec)
  have known: "known (new_ifc_monitor 9) = {}"
    by (simp add: known_def new_ifc_monitor_def)
  obtain m where m: "populateInterfaces sample_system (map sample_addr [1..<16]) (new_ifc_monitor 9) = Inr m" "mon_inv m"
      "known m = {1, 2, 3, 4, 5, 6, 7, 8, 9, 10, 11, 12, 13, 14, 15}"
    using populateInterfaces_ok [OF new_monitor_inv [of 9], of "map sample_addr [1..<16]" sample_system]
    unfolding addrs known by auto
  have "card (known m) = 15" "ia_ifcIp (sample_addr 16) \<notin> known m"
    by (simp_all add: m(3) sample_addr_def)
  then show ?thesis
    using m(1) sixteenth_interface_overflows [OF m(2)] by blast
qed

section \<open>The longest prefix\<close>

text \<open>The rows that match the destination and belong to an interface with a sender.\<close>

definition live_route :: "ifc_monitor \<Rightarrow> appInt32 \<Rightarrow> RouteEntry \<Rightarrow> bool" where
  "live_route m dst e \<longleftrightarrow> re_destination e = (dst AND re_mask e) \<and> sender_of_iface (re_iface e) m \<noteq> None"

lemma suitable_loop_spec:
  "suitable_loop es dst m best i = i \<and> (\<forall>e \<in> set es. live_route m dst e \<longrightarrow> re_mask e \<le> best \<and> best \<noteq> 0) \<or>
   (\<exists>e \<in> set es. live_route m dst e \<and> sender_of_iface (re_iface e) m = Some (suitable_loop es dst m best i) \<and>
      best \<le> re_mask e \<and> (\<forall>e' \<in> set es. live_route m dst e' \<longrightarrow> re_mask e' \<le> re_mask e))"
proof (induction es arbitrary: best i)
  case (Cons e es)
  show ?case
  proof (cases "live_route m dst e \<and> (best < re_mask e \<or> best = 0 \<and> re_mask e = 0)")
    case True
    then obtain j where j: "sender_of_iface (re_iface e) m = Some j"
      by (auto simp: live_route_def)
    have step: "suitable_loop (e # es) dst m best i = suitable_loop es dst m (re_mask e) j"
      using True j by (auto simp: live_route_def)
    have le: "best \<le> re_mask e"
      using True by auto
    from Cons.IH [of "re_mask e" j] show ?thesis
    proof (elim disjE)
      assume "suitable_loop es dst m (re_mask e) j = j \<and>
        (\<forall>e' \<in> set es. live_route m dst e' \<longrightarrow> re_mask e' \<le> re_mask e \<and> re_mask e \<noteq> 0)"
      then show ?thesis
        using True j le by (intro disjI2 bexI [of _ e]) (auto simp: step simp del: suitable_loop.simps)
    next
      assume "\<exists>e1 \<in> set es. live_route m dst e1 \<and>
        sender_of_iface (re_iface e1) m = Some (suitable_loop es dst m (re_mask e) j) \<and>
        re_mask e \<le> re_mask e1 \<and> (\<forall>e' \<in> set es. live_route m dst e' \<longrightarrow> re_mask e' \<le> re_mask e1)"
      then obtain e1 where "e1 \<in> set es" "live_route m dst e1" "re_mask e \<le> re_mask e1"
        "sender_of_iface (re_iface e1) m = Some (suitable_loop es dst m (re_mask e) j)"
        "\<forall>e' \<in> set es. live_route m dst e' \<longrightarrow> re_mask e' \<le> re_mask e1" by blast
      then show ?thesis
        using le by (intro disjI2 bexI [of _ e1]) (auto simp: step simp del: suitable_loop.simps intro: order_trans)
    qed
  next
    case False
    then have step: "suitable_loop (e # es) dst m best i = suitable_loop es dst m best i"
      by (auto simp: live_route_def split: option.split)
    have no: "live_route m dst e \<Longrightarrow> re_mask e \<le> best \<and> best \<noteq> 0"
      using False by (auto simp: not_less word_gt_0)
    from Cons.IH [of best i] show ?thesis
    proof (elim disjE)
      assume "\<exists>e1 \<in> set es. live_route m dst e1 \<and>
        sender_of_iface (re_iface e1) m = Some (suitable_loop es dst m best i) \<and>
        best \<le> re_mask e1 \<and> (\<forall>e' \<in> set es. live_route m dst e' \<longrightarrow> re_mask e' \<le> re_mask e1)"
      then obtain e1 where "e1 \<in> set es" "live_route m dst e1" "best \<le> re_mask e1"
        "sender_of_iface (re_iface e1) m = Some (suitable_loop es dst m best i)"
        "\<forall>e' \<in> set es. live_route m dst e' \<longrightarrow> re_mask e' \<le> re_mask e1" by blast
      then show ?thesis
        using no by (intro disjI2 bexI [of _ e1]) (auto simp: step simp del: suitable_loop.simps intro: order_trans)
    qed (use no in \<open>auto simp: step simp del: suitable_loop.simps\<close>)
  qed
qed simp

text \<open>
  C35: \<open>getSuitableInterfaceId\<close> chooses by the longest prefix: unless no row of the
  routing table that matches the destination belongs to an interface with a
  sender (then it answers 0, the identifier no interface has), it answers the
  interface of a matching row whose mask is the greatest among these, and the
  scheduler finds this interface to reach the destination.
\<close>

theorem longest_prefix_interface:
  "(if \<exists>e \<in> set routes. live_route m dst e
    then \<exists>e \<in> set routes. live_route m dst e \<and> sender_of_iface (re_iface e) m = Some (getSuitableInterfaceId routes dst m) \<and>
      (\<forall>e' \<in> set routes. live_route m dst e' \<longrightarrow> re_mask e' \<le> re_mask e) \<and>
      ie_ifc (ifc_env_of routes m) (getSuitableInterfaceId routes dst m) \<and>
      ie_reachable (ifc_env_of routes m) (getSuitableInterfaceId routes dst m) dst
    else getSuitableInterfaceId routes dst m = 0)"
proof -
  have reach: "ie_ifc (ifc_env_of routes m) i \<and> ie_reachable (ifc_env_of routes m) i dst"
    if "e \<in> set routes" "live_route m dst e" "sender_of_iface (re_iface e) m = Some i" for e i
  proof -
    from that(3) obtain s where s: "i \<in> set sender_ids" "interfaceSender m i = Some s" "checkIface (re_iface e) s"
      by (auto simp: sender_of_iface_def find_Some_iff split: option.splits)
    then have "i < 16"
      by (auto simp: sender_ids_def word_less_nat_alt unat_of_nat_small)
    then show ?thesis
      using that(1,2) s by (auto simp: ifc_env_of_def isReachable_def sender_at_def INTERFACE_SENDER_CNT_def list_ex_iff live_route_def)
  qed
  show ?thesis
    using suitable_loop_spec [of routes dst m 0 0] reach by (auto simp: getSuitableInterfaceId_def)
qed

definition two_interfaces :: ifc_monitor where
  "two_interfaces = (new_ifc_monitor 9)\<lparr> nextInterfaceId := 2, ip2InterfaceIdMap := [0x0101A8C0 \<mapsto> 1, 0x0102A8C0 \<mapsto> 2],
     interfaceSender := (\<lambda>_. None)
       (1 \<mapsto> SendThroughInterface \<lparr> ia_ifc = ''eth0'', ia_gwIp = 1, ia_gwMac = [], ia_ifcIp = 0x0101A8C0, ia_localPort = 9 \<rparr>,
        2 \<mapsto> SendThroughInterface \<lparr> ia_ifc = ''wlan0'', ia_gwIp = 1, ia_gwMac = [], ia_ifcIp = 0x0102A8C0, ia_localPort = 9 \<rparr>) \<rparr>"

definition sample_routes :: "RouteEntry list" where
  "sample_routes = [\<lparr> re_destination = 0, re_gateway = 0x0101A8C0, re_mask = 0, re_iface = ''eth0'' \<rparr>,
     \<lparr> re_destination = 0x0002A8C0, re_gateway = 0, re_mask = 0x00FFFFFF, re_iface = ''wlan0'' \<rparr>,
     \<lparr> re_destination = 0x0000A8C0, re_gateway = 0, re_mask = 0x0000FFFF, re_iface = ''eth0'' \<rparr>]"

lemma sample_ifaces:
  "sender_of_iface ''eth0'' two_interfaces = Some 1" "sender_of_iface ''wlan0'' two_interfaces = Some 2"
  by (simp_all add: sender_of_iface_def sender_ids_def upt_rec two_interfaces_def new_ifc_monitor_def
      SendThroughInterface_def checkIface_def)

lemma longest_prefix_interface_witness:
  "getSuitableInterfaceId sample_routes 0x0502A8C0 two_interfaces = 2 \<and>
   ie_reachable (ifc_env_of sample_routes two_interfaces) 2 0x0502A8C0"
  using longest_prefix_interface [of sample_routes two_interfaces "0x0502A8C0"]
  by (auto simp: sample_routes_def live_route_def sample_ifaces getSuitableInterfaceId_def)

end
