(* ===== verification/Tunnel.thy ===== *)
theory Tunnel
  imports IfcMonitor Mux Common
begin

text \<open>
  What the two ends of a connection share: the environment of their operations,
  sending a packet through an interface of the monitor, collecting what the
  flows of a multiplexer have handed down, and the receiving loop of
  \<open>Connection\<close> (src/src/TunnelLib/Connection.cc).
\<close>

section \<open>The environment\<close>

text \<open>
  The environment of the channels, the routing table, the monitor, and the
  contents of fresh memory: of packet buffers (\<open>te_junk\<close>) and of the pad bytes.
\<close>

record tunnel_env =
  te_env :: env
  te_routes :: "RouteEntry list"
  te_mon :: ifc_monitor
  te_junk :: "appByte list"
  te_pad :: appInt8

definition te_ifc :: "tunnel_env \<Rightarrow> ifc_env" where
  "te_ifc t = ifc_env_of (te_routes t) (te_mon t)"

definition suitable :: "tunnel_env \<Rightarrow> appInt32 \<Rightarrow> appInt8" where
  "suitable t ip = getSuitableInterfaceId (te_routes t) ip (te_mon t)"

text \<open>
  \<open>(*ifcMon)[id]->sendPkt(...)\<close> needs a sender under the identifier, with an open
  socket; the callers ignore the result.
\<close>

definition on_ifc :: "tunnel_env \<Rightarrow> appInt8 \<Rightarrow> 'a res \<Rightarrow> 'a res" where
  "on_ifc t i r = bind_res (sender_at i (te_mon t)) (\<lambda>x.
     case x of None \<Rightarrow> Inl Null_Deref | Some s \<Rightarrow> check Null_Deref (opSock s) r)"

definition usable :: "tunnel_env \<Rightarrow> appInt8 \<Rightarrow> bool" where
  "usable t i \<longleftrightarrow> i < INTERFACE_SENDER_CNT \<and> (\<exists>s. interfaceSender (te_mon t) i = Some s \<and> opSock s)"

lemma on_ifc_usable [simp]: "usable t i \<Longrightarrow> on_ifc t i r = r"
  by (auto simp: usable_def on_ifc_def sender_at_def)

lemma on_ifc_Inr: "on_ifc t i r = Inr x \<longleftrightarrow> usable t i \<and> r = Inr x"
  by (auto simp: usable_def on_ifc_def sender_at_def bind_res_Inr_iff check_Inr_iff split: option.splits)

section \<open>What the flows hand down\<close>

fun sent_packets :: "stream_event list \<Rightarrow> Packet list" where
  "sent_packets [] = []"
| "sent_packets (St_Send p # es) = p # sent_packets es"
| "sent_packets (_ # es) = sent_packets es"

fun flow_sent :: "flow \<Rightarrow> Packet list" where
  "flow_sent (NewF s) = nf_out s"
| "flow_sent (StreamF s) = sent_packets (st_out s)"

fun flow_clear :: "flow \<Rightarrow> flow" where
  "flow_clear (NewF s) = NewF (s\<lparr> nf_out := [] \<rparr>)"
| "flow_clear (StreamF s) = StreamF (s\<lparr> st_out := [] \<rparr>)"

text \<open>An operation of the multiplexer hands down what one flow sends, then its own control packet.\<close>

definition mux_sends :: "mux \<Rightarrow> Packet list" where
  "mux_sends m = concat (map (flow_sent \<circ> snd) (children m)) @ mx_sent m"

definition mux_clear :: "mux \<Rightarrow> mux" where
  "mux_clear m = m\<lparr> children := map (\<lambda>(k, f). (k, flow_clear f)) (children m), mx_sent := [] \<rparr>"

lemma mux_clear_simps [simp]:
  "fingerPrint (mux_clear m) = fingerPrint m" "mux_sends (new_mux fp) = []" "mux_clear (new_mux fp) = new_mux fp"
  by (simp_all add: mux_clear_def mux_sends_def new_mux_def)

section \<open>The union in a flow number\<close>

definition key_fingerPrint :: "appInt32 \<Rightarrow> appInt16" where
  "key_fingerPrint k = ucast k"

lemma no_bit_16: "\<not> bit (w :: appInt16) (16 + n)"
  by (auto dest: bit_imp_le_length)

lemma key_of_clientFlowId [simp]:
  "key_fingerPrint (clientFlowId fp i) = fp" "key_flowId (clientFlowId fp i) = i"
  by (auto intro!: bit_word_eqI simp: no_bit_16 key_fingerPrint_def key_flowId_def clientFlowId_def bit_simps)

section \<open>Connection\<close>

text \<open>
  \<open>Connection::listen\<close> decodes one datagram of \<open>n\<close> bytes; the source and
  destination addresses are those \<open>recvfrom\<close> returned, the second a variable it
  does not set.
\<close>

definition listen_datagram ::
    "appInt8 \<Rightarrow> appByte list \<Rightarrow> sockaddr_in \<Rightarrow> sockaddr_in \<Rightarrow> PacketPool \<Rightarrow> (Packet option \<times> PacketPool) res" where
  "listen_datagram pad msg src dst pool =
     bind_res (decodeHeader pad pool (msg, of_nat (length msg))) (\<lambda>(pkt, pool').
     Inr (map_option (\<lambda>p. p\<lparr> p_src_addr := src, p_dest_addr := dst \<rparr>) pkt, pool'))"

section \<open>The wire\<close>

text \<open>What the other end makes of a packet that was sent: the packet the decoder returns, with its source.\<close>

definition arrives :: "appInt8 \<Rightarrow> sockaddr_in \<Rightarrow> sockaddr_in \<Rightarrow> Packet \<Rightarrow> Packet" where
  "arrives pad src dst p = (received pad p)\<lparr> p_src_addr := src, p_dest_addr := dst \<rparr>"


definition sample_sender :: sender where
  "sample_sender = SendThroughInterface \<lparr> ia_ifc = ''eth0'', ia_gwIp = 1, ia_gwMac = [], ia_ifcIp = 7, ia_localPort = 9 \<rparr>"


section \<open>A concrete tunnel\<close>

text \<open>One interface with the address 7 and a default route through it, on both ends.\<close>

definition sample_tunnel :: tunnel_env where
  "sample_tunnel = \<lparr> te_env = \<lparr> e_now = 1, e_net = (\<lambda>_. 0), e_fingerPrint = 0, e_status = None \<rparr>,
     te_routes = [\<lparr> re_destination = 0, re_gateway = 1, re_mask = 0, re_iface = ''eth0'' \<rparr>],
     te_mon = (new_ifc_monitor 9)\<lparr> nextInterfaceId := 1, ip2InterfaceIdMap := [7 \<mapsto> 1],
       interfaceSender := (\<lambda>_. None)(1 \<mapsto> sample_sender\<lparr> opSock := True \<rparr>) \<rparr>,
     te_junk = [], te_pad = 0 \<rparr>"

lemma sample_mon_inv: "mon_inv (te_mon sample_tunnel)"
  by (simp add: mon_inv_def sample_tunnel_def new_ifc_monitor_def sample_sender_def SendThroughInterface_def)

lemma sample_suitable: "suitable sample_tunnel ip = 1"
  by (simp add: suitable_def getSuitableInterfaceId_def sender_of_iface_def sender_ids_def upt_rec sample_tunnel_def
      new_ifc_monitor_def sample_sender_def SendThroughInterface_def checkIface_def)

lemma sample_usable: "usable sample_tunnel 1"
  by (simp add: usable_def sample_tunnel_def INTERFACE_SENDER_CNT_def)

lemma sample_primary: "getPrimaryInterfaceId (te_mon sample_tunnel) = 1"
  by (simp add: getPrimaryInterfaceId_def sender_ids_def upt_rec sample_tunnel_def new_ifc_monitor_def)

end
