(* ===== verification/Client.thy ===== *)
theory Client
  imports Tunnel
begin

text \<open>
  \<open>ClientConnection\<close> (src/src/TunnelLib/ClientConnection.cc): the client's end of
  a tunnel.  It says hello until the server answers, hands the packets of its
  multiplexer to its scheduler, the packets of the network to both, and closes.
  The packets a channel has processed come back through the queue of the
  client's thread.
\<close>

section \<open>State\<close>

text \<open>
  What the connection does to the outside: packets it sends itself through an
  interface to an address, packets its channels have given to their interfaces.
\<close>

datatype client_event =
    Cl_Send appInt8 Packet RemoteAddr
  | Cl_Net Packet

text \<open>
  Semaphores are their counts.  \<open>localAddr\<close> is cleared by the constructor and
  written by nobody; its port is \<open>localPort\<close>.
\<close>

record client =
  cl_fingerPrint :: appInt16
  connectedMux :: mux
  nextFlowId :: appInt16
  cl_connected :: bool
  syncTries :: appInt
  syncTime :: int
  remoteAddr :: RemoteAddr
  localPort :: appInt16
  waitToConnect :: nat
  ifcSch :: scheduler
  closeTry :: appInt
  cl_waitToClose :: nat
  threadSafetyUsr :: bool
  timeoutprod :: "appInt8 timeout_producer"
  recvPktQueue :: "Packet list"
  recvPktQueueLock :: nat
  cct_stop :: bool
  cct_waitToStop :: nat
  cl_out :: "client_event list"

definition new_client :: "RemoteAddr \<Rightarrow> client" where
  "new_client remote = \<lparr> cl_fingerPrint = EMPTY_FINGER_PRINT, connectedMux = new_mux EMPTY_FINGER_PRINT,
     nextFlowId = 0, cl_connected = False, syncTries = 0, syncTime = 0, remoteAddr = remote, localPort = 0,
     waitToConnect = 0, ifcSch = new_scheduler False, closeTry = 0, cl_waitToClose = 0, threadSafetyUsr = False,
     timeoutprod = new_timeout_producer, recvPktQueue = [], recvPktQueueLock = 0, cct_stop = False,
     cct_waitToStop = 0, cl_out = [] \<rparr>"

definition cl_emit :: "client_event \<Rightarrow> client \<Rightarrow> client" where
  "cl_emit e c = c\<lparr> cl_out := cl_out c @ [e] \<rparr>"

text \<open>The environment of the client's channels: the fingerprint and the receiver's status are the client's.\<close>

definition cl_env :: "tunnel_env \<Rightarrow> client \<Rightarrow> env" where
  "cl_env t c = (te_env t)\<lparr> e_fingerPrint := cl_fingerPrint c,
     e_status := Some (mux_getReceiverStatus (te_pad t) (connectedMux c)) \<rparr>"

section \<open>The handshake\<close>

text \<open>
  The union \<open>TempClientNonce\<close>, on a little-endian machine: the server's address,
  its port and the client's port, from the lowest bits up.
\<close>

definition client_nonce :: "client \<Rightarrow> appInt64" where
  "client_nonce c = ucast (ra_ip (remoteAddr c)) OR push_bit 32 (ucast (ra_port (remoteAddr c)) AND mask 16)
     OR push_bit 48 (ucast (localPort c))"

definition packet_with_data :: "tunnel_env \<Rightarrow> Packet" where
  "packet_with_data t = fst (getNewPacketWithData (te_junk t) new_PacketPool)"

definition syn_packet :: "tunnel_env \<Rightarrow> appInt8 \<Rightarrow> client \<Rightarrow> Packet" where
  "syn_packet t i c = (packet_with_data t)\<lparr> p_header := (p_header (packet_with_data t))
     \<lparr> h_fingerPrint := EMPTY_FINGER_PRINT, h_flag := FLAG_SYN, h_ifcsrc := i \<rparr>,
     p_optHeaders := [PacketNonceHeader (te_pad t) (client_nonce c)] \<rparr>"

definition to_remote :: "tunnel_env \<Rightarrow> appInt8 \<Rightarrow> Packet \<Rightarrow> client \<Rightarrow> client res" where
  "to_remote t i pkt c = on_ifc t i (Inr (cl_emit (Cl_Send i pkt (remoteAddr c)) c))"

text \<open>\<open>now\<close> is the clock in microseconds.\<close>

definition handShake1 :: "tunnel_env \<Rightarrow> int \<Rightarrow> client \<Rightarrow> client res" where
  "handShake1 t now c =
     (let i = suitable t (ra_ip (remoteAddr c)) in
      bind_res (to_remote t i (syn_packet t i c) c) (\<lambda>c1.
      Inr (c1\<lparr> syncTries := syncTries c1 + 1, syncTime := now \<rparr>)))"

text \<open>\<open>htonl\<close>.\<close>

definition htonl :: "appInt32 \<Rightarrow> appInt32" where
  "htonl w = be_word (rev (be_bytes 4 w))"

text \<open>What the scheduler asks of the connection, in order; \<open>connectedMux->recvAck\<close> changes nothing.\<close>

definition cct_recvPacket :: "Packet \<Rightarrow> client \<Rightarrow> int \<times> client" where
  "cct_recvPacket pkt c =
     (if cct_stop c then (- 1, c)
      else (0, c\<lparr> recvPktQueue := recvPktQueue c @ [pkt], recvPktQueueLock := recvPktQueueLock c + 1 \<rparr>))"

definition cl_recvProcPacket :: "Packet \<Rightarrow> client \<Rightarrow> (int \<times> client) res" where
  "cl_recvProcPacket pkt c = app_assert (p_processed pkt) (Inr (cct_recvPacket pkt c))"

definition cl_sendPacketTo :: "Packet \<Rightarrow> client \<Rightarrow> (int \<times> client) res" where
  "cl_sendPacketTo pkt c =
     bind_res (sendPacketTo (pkt\<lparr> p_header := (p_header pkt)\<lparr> h_fingerPrint := cl_fingerPrint c \<rparr> \<rparr>) (ifcSch c))
       (\<lambda>(ret, s). Inr (ret, c\<lparr> ifcSch := s \<rparr>))"

fun cl_sched_event :: "sched_event \<Rightarrow> client \<Rightarrow> client res" where
  "cl_sched_event (Sch_Net p) c = Inr (cl_emit (Cl_Net p) c)"
| "cl_sched_event (Sch_Ack fp f q) c = Inr c"
| "cl_sched_event (Sch_Proc p) c = bind_res (cl_recvProcPacket p c) (\<lambda>(_, c'). Inr c')"
| "cl_sched_event (Sch_Forward p) c = bind_res (sendPacketTo p (ifcSch c)) (\<lambda>(_, s). Inr (c\<lparr> ifcSch := s \<rparr>))"
| "cl_sched_event (Sch_Attach i) c = Inr (c\<lparr> timeoutprod := tp_attach i (timeoutprod c) \<rparr>)"
| "cl_sched_event (Sch_Detach i) c = Inr (c\<lparr> timeoutprod := tp_detach i (timeoutprod c) \<rparr>)"

definition cl_sched :: "scheduler \<Rightarrow> client \<Rightarrow> client res" where
  "cl_sched s c = do_all cl_sched_event (sc_out s) (c\<lparr> ifcSch := s\<lparr> sc_out := [] \<rparr> \<rparr>)"

text \<open>
  The loop of \<open>handShake2\<close> over the optional headers: a header that is not an
  address sends the code back to the loop test without advancing.
\<close>

fun add_remotes :: "tunnel_env \<Rightarrow> appInt16 \<Rightarrow> opt_header list \<Rightarrow> client \<Rightarrow> client res" where
  "add_remotes t port [] c = Inr c"
| "add_remotes t port (h # hs) c =
     (if opt_type h \<noteq> 2 then Inl Diverges
      else bind_res (addRemote (cl_env t c) (te_ifc t) (ip_ifcId h)
               \<lparr> ra_ip = htonl (ip_ip h), ra_port = ucast port \<rparr> (ifcSch c)) (\<lambda>s.
           bind_res (cl_sched s c) (add_remotes t port hs)))"

definition ack_packet :: "tunnel_env \<Rightarrow> appInt8 \<Rightarrow> appInt8 \<Rightarrow> appInt16 \<Rightarrow> Packet" where
  "ack_packet t i dst fp = (packet_with_data t)\<lparr> p_header := (p_header (packet_with_data t))
     \<lparr> h_fingerPrint := fp, h_flag := FLAG_ACK, h_ifcsrc := i, h_ifcdst := dst \<rparr> \<rparr>"

definition handShake2 :: "tunnel_env \<Rightarrow> Packet \<Rightarrow> client \<Rightarrow> client res" where
  "handShake2 t rcvPkt c =
     (let fp = h_fingerPrint (p_header rcvPkt);
          c1 = c\<lparr> cl_fingerPrint := fp, connectedMux := (connectedMux c)\<lparr> fingerPrint := fp \<rparr> \<rparr>;
          i = suitable t (ra_ip (remoteAddr c)); dst = h_ifcsrc (p_header rcvPkt) in
      app_assert (dst \<noteq> 0)
        (bind_res (to_remote t i (ack_packet t i dst fp) c1) (\<lambda>c2.
         bind_res (add_remotes t (snd (p_src_addr rcvPkt)) (p_optHeaders rcvPkt) c2) (\<lambda>c3.
         Inr (c3\<lparr> cl_connected := True, syncTries := 0, waitToConnect := waitToConnect c3 + 1 \<rparr>)))))"

text \<open>The waiting part of \<open>startClient\<close>: whether it succeeds.\<close>

definition startClient_wait :: "client \<Rightarrow> (bool \<times> client) res" where
  "startClient_wait c =
     (if waitToConnect c = 0 then Inl Blocked
      else Inr (cl_connected c, c\<lparr> waitToConnect := waitToConnect c - 1 \<rparr>))"

section \<open>Closing\<close>

definition fin_packet :: "appInt16 \<Rightarrow> appInt16 \<Rightarrow> Packet" where
  "fin_packet fp flag = (fst (getNewPacket new_PacketPool))\<lparr> p_header :=
     (p_header (fst (getNewPacket new_PacketPool)))\<lparr> h_fingerPrint := fp, h_flag := flag \<rparr> \<rparr>"

definition close1 :: "tunnel_env \<Rightarrow> client \<Rightarrow> client res" where
  "close1 t c =
     (let c1 = c\<lparr> closeTry := closeTry c + 1 \<rparr> in
      if closeTry c1 > 3 then Inr (c1\<lparr> cl_waitToClose := cl_waitToClose c1 + 1 \<rparr>)
      else to_remote t (suitable t (ra_ip (remoteAddr c1))) (fin_packet (cl_fingerPrint c1) FLAG_CFN) c1)"

definition close2 :: "tunnel_env \<Rightarrow> client \<Rightarrow> client res" where
  "close2 t c =
     bind_res (to_remote t (suitable t (ra_ip (remoteAddr c))) (fin_packet (cl_fingerPrint c) FLAG_ACK) c) (\<lambda>c1.
     Inr (c1\<lparr> cl_waitToClose := cl_waitToClose c1 + 1 \<rparr>))"

text \<open>\<open>close\<close> up to its wait, and the rest; the first result says whether it waits.\<close>

definition cl_close :: "tunnel_env \<Rightarrow> client \<Rightarrow> (bool \<times> client) res" where
  "cl_close t c =
     (if threadSafetyUsr c then Inl Blocked
      else let c1 = c\<lparr> threadSafetyUsr := True \<rparr> in
        if closeTry c1 \<noteq> 0 \<or> \<not> cl_connected c1 then Inr (False, c1)
        else bind_res (mux_close (connectedMux c1)) (\<lambda>m.
             bind_res (close_sched (cl_env t c1) (ifcSch c1)) (\<lambda>s.
             bind_res (cl_sched s (c1\<lparr> connectedMux := m \<rparr>)) (\<lambda>c2.
             bind_res (close1 t c2) (\<lambda>c3. Inr (True, c3))))))"

definition cl_close_end :: "client \<Rightarrow> client res" where
  "cl_close_end c =
     (if cl_waitToClose c = 0 then Inl Blocked
      else Inr (c\<lparr> cl_waitToClose := cl_waitToClose c - 1, threadSafetyUsr := False \<rparr>))"

section \<open>Packets\<close>

definition cl_flush :: "client \<Rightarrow> client res" where
  "cl_flush c = do_all (\<lambda>p c. bind_res (cl_sendPacketTo p c) (\<lambda>(_, c'). Inr c')) (mux_sends (connectedMux c))
     (c\<lparr> connectedMux := mux_clear (connectedMux c) \<rparr>)"

text \<open>The result of the scheduler's \<open>sendPacketTo\<close>, as the multiplexer sees it, is always zero.\<close>

definition cl_par :: "Packet \<Rightarrow> int" where
  "cl_par pkt = 0"

definition recvProcPacketFromQueue :: "Packet \<Rightarrow> client \<Rightarrow> (int \<times> client) res" where
  "recvProcPacketFromQueue pkt c =
     bind_res (mux_recvPacketFrom cl_par pkt (connectedMux c)) (\<lambda>(ret, _, m).
     bind_res (cl_flush (c\<lparr> connectedMux := m \<rparr>)) (\<lambda>c'. Inr (ret, c')))"

definition all_flags :: "appInt16 \<Rightarrow> appInt16 \<Rightarrow> bool" where
  "all_flags flag f \<longleftrightarrow> flag AND f = f"

definition recvPacketFromQueue :: "tunnel_env \<Rightarrow> Packet \<Rightarrow> client \<Rightarrow> (int \<times> client) res" where
  "recvPacketFromQueue t pkt c =
     (let h = p_header pkt in
      app_assert (h_ifcdst h \<noteq> 0 \<and> h_ifcsrc h \<noteq> 0 \<or> all_flags (h_flag h) (FLAG_CFN OR FLAG_ACK))
        (if all_flags (h_flag h) (FLAG_SYN OR FLAG_ACK) then bind_res (handShake2 t pkt c) (\<lambda>c'. Inr (0, c'))
         else if all_flags (h_flag h) (FLAG_CFN OR FLAG_ACK) then bind_res (close2 t c) (\<lambda>c'. Inr (0, c'))
         else
           bind_res (recvPacketFrom (cl_env t c) (te_ifc t) (te_junk t)
               \<lparr> ra_ip = fst (p_src_addr pkt), ra_port = ucast (snd (p_src_addr pkt)) \<rparr> pkt (ifcSch c)) (\<lambda>(_, pkt', s).
           bind_res (cl_sched s c) (recvProcPacketFromQueue pkt'))))"

definition cl_recvPacketFrom :: "Packet \<Rightarrow> client \<Rightarrow> int \<times> client" where
  "cl_recvPacketFrom pkt c = (0, snd (cct_recvPacket pkt c))"

text \<open>One round of the client's thread; the first result says whether it goes on.\<close>

definition cct_step :: "tunnel_env \<Rightarrow> client \<Rightarrow> (bool \<times> client) res" where
  "cct_step t c =
     (if recvPktQueueLock c = 0 then Inl Blocked
      else let c1 = c\<lparr> recvPktQueueLock := recvPktQueueLock c - 1 \<rparr> in
        if cct_stop c1 then Inr (False, c1\<lparr> cct_waitToStop := cct_waitToStop c1 + 1 \<rparr>)
        else case recvPktQueue c1 of
            [] \<Rightarrow> Inr (True, c1)
          | pkt # q \<Rightarrow>
              bind_res (if p_processed pkt then recvProcPacketFromQueue pkt (c1\<lparr> recvPktQueue := q \<rparr>)
                        else recvPacketFromQueue t pkt (c1\<lparr> recvPktQueue := q \<rparr>)) (\<lambda>(_, c2). Inr (True, c2)))"

section \<open>The calls of the application\<close>

definition getNextFlowId :: "client \<Rightarrow> appInt16 \<times> client" where
  "getNextFlowId c = (nextFlowId c + 1, c\<lparr> nextFlowId := nextFlowId c + 1 \<rparr>)"

definition cl_addNewFlow :: "client \<Rightarrow> (appInt32 \<times> client) res" where
  "cl_addNewFlow c =
     (if threadSafetyUsr c then Inl Blocked
      else let (flowId, c1) = getNextFlowId c in
        Inr (clientFlowId (cl_fingerPrint c1) flowId,
             c1\<lparr> connectedMux := getNewConnection (cl_fingerPrint c1) flowId NEW_FLOW_HANDLER (connectedMux c1) \<rparr>))"

definition cl_sendData :: "appInt32 \<Rightarrow> appByte list \<Rightarrow> client \<Rightarrow> (int \<times> client) res" where
  "cl_sendData k d c =
     bind_res (mux_sendData cl_par (key_fingerPrint k) (key_flowId k) d (connectedMux c)) (\<lambda>(ret, m).
     bind_res (cl_flush (c\<lparr> connectedMux := m \<rparr>)) (\<lambda>c'. Inr (ret, c')))"

definition cl_readData :: "tunnel_env \<Rightarrow> appInt32 \<Rightarrow> nat \<Rightarrow> client \<Rightarrow> (int \<times> appByte list \<times> client) res" where
  "cl_readData t k n c =
     bind_res (mux_readData cl_par (te_pad t) (key_fingerPrint k) (key_flowId k) n (connectedMux c)) (\<lambda>(ret, bs, m).
     bind_res (cl_flush (c\<lparr> connectedMux := m \<rparr>)) (\<lambda>c'. Inr (ret, bs, c')))"

definition cl_closeFlow :: "appInt32 \<Rightarrow> client \<Rightarrow> (bool \<times> bool \<times> client) res" where
  "cl_closeFlow k c =
     bind_res (mux_closeFlow cl_par (key_fingerPrint k) (key_flowId k) (connectedMux c)) (\<lambda>(st, waits, m).
     bind_res (cl_flush (c\<lparr> connectedMux := m \<rparr>)) (\<lambda>c'. Inr (st, waits, c')))"

section \<open>Timeouts\<close>

text \<open>
  \<open>time\<close> is the time of the event, \<open>now\<close> the clock when \<open>handShake1\<close> reads it; the
  result lists the channels whose own \<open>timeoutEvent\<close> is then called.
\<close>

definition cl_timeoutEvent :: "tunnel_env \<Rightarrow> int \<Rightarrow> int \<Rightarrow> client \<Rightarrow> (int \<times> appInt8 list \<times> client) res" where
  "cl_timeoutEvent t time now c =
     (if \<not> cl_connected c then
        if time - syncTime c > 1000000 then
          if syncTries c \<noteq> 0 \<and> syncTries c < 3 then bind_res (handShake1 t now c) (\<lambda>c'. Inr (0, [], c'))
          else Inr (0, [], c\<lparr> waitToConnect := waitToConnect c + 1 \<rparr>)
        else Inr (1, [], c)
      else
        bind_res (if closeTry c \<noteq> 0 \<and> time - syncTime c > 1000000 then close1 t c else Inr c) (\<lambda>c1.
        let (obs, tp) = tp_timeoutEvent (timeoutprod c1) in Inr (0, obs, c1\<lparr> timeoutprod := tp \<rparr>)))"

end
