(* ===== verification/ClientProps.thy ===== *)
theory ClientProps
  imports Client
begin

text \<open>
  The client's end: how often it says hello and when it gives up, what it puts
  into its nonce, what stops its handshake and its closing.
\<close>

section \<open>Saying hello\<close>

fun cl_ticks :: "tunnel_env \<Rightarrow> (int \<times> int) list \<Rightarrow> client \<Rightarrow> client res" where
  "cl_ticks t [] c = Inr c"
| "cl_ticks t ((time, now) # ts) c = bind_res (cl_timeoutEvent t time now c) (\<lambda>(_, _, c'). cl_ticks t ts c')"

text \<open>Timer events more than a second after the last reading of the clock before them.\<close>

fun spaced :: "int \<Rightarrow> (int \<times> int) list \<Rightarrow> bool" where
  "spaced prev [] \<longleftrightarrow> True"
| "spaced prev ((time, now) # ts) \<longleftrightarrow> prev + 1000000 < time \<and> time \<le> now \<and> spaced now ts"

lemma handShake1_effect:
  "handShake1 t now c = Inr c' \<longleftrightarrow> usable t (suitable t (ra_ip (remoteAddr c))) \<and>
     c' = c\<lparr> syncTries := syncTries c + 1, syncTime := now,
       cl_out := cl_out c @ [Cl_Send (suitable t (ra_ip (remoteAddr c))) (syn_packet t (suitable t (ra_ip (remoteAddr c))) c) (remoteAddr c)] \<rparr>"
  by (auto simp: handShake1_def to_remote_def on_ifc_Inr bind_res_Inr_iff cl_emit_def Let_def)

lemma syn_packet_cong:
  "remoteAddr c' = remoteAddr c \<Longrightarrow> localPort c' = localPort c \<Longrightarrow> syn_packet t i c' = syn_packet t i c"
  by (simp add: syn_packet_def client_nonce_def)

lemma cl_ticks_unanswered:
  assumes "usable t i" "i = suitable t (ra_ip (remoteAddr c))" "\<not> cl_connected c" "spaced prev ts" "syncTime c \<le> prev"
    and "0 < unat (syncTries c)" "unat (syncTries c) \<le> 3"
  shows "\<exists>c'. cl_ticks t ts c = Inr c' \<and> \<not> cl_connected c' \<and>
     waitToConnect c' = waitToConnect c + (unat (syncTries c) + length ts - 3) \<and>
     cl_out c' = cl_out c @ replicate (min 3 (unat (syncTries c) + length ts) - unat (syncTries c))
       (Cl_Send i (syn_packet t i c) (remoteAddr c))"
  using assms
proof (induction ts arbitrary: c prev)
  case (Cons tick ts)
  obtain time now where tick: "tick = (time, now)" by fastforce
  have due: "time - syncTime c > 1000000" "time \<le> now" "spaced now ts"
    using Cons.prems by (auto simp: tick)
  show ?case
  proof (cases "unat (syncTries c) < 3")
    case True
    then have few: "syncTries c \<noteq> 0" "syncTries c < 3"
      using Cons.prems(6) by (auto simp: word_less_nat_alt unat_gt_0 [symmetric])
    let ?c = "c\<lparr> syncTries := syncTries c + 1, syncTime := now,
      cl_out := cl_out c @ [Cl_Send i (syn_packet t i c) (remoteAddr c)] \<rparr>"
    have "handShake1 t now c = Inr ?c"
      using Cons.prems(1,2) by (simp add: handShake1_effect)
    then have step: "cl_timeoutEvent t time now c = Inr (0, [], ?c)"
      using due(1) few Cons.prems(3) by (simp add: cl_timeoutEvent_def)
    have n: "unat (syncTries c + 1) = Suc (unat (syncTries c))"
      using True by (simp add: unat_word_ariths)
    have "syn_packet t i ?c = syn_packet t i c"
      by (rule syn_packet_cong) simp_all
    then obtain c' where c': "cl_ticks t ts ?c = Inr c'" "\<not> cl_connected c'"
      "waitToConnect c' = waitToConnect c + (Suc (unat (syncTries c)) + length ts - 3)"
      "cl_out c' = (cl_out c @ [Cl_Send i (syn_packet t i c) (remoteAddr c)]) @
         replicate (min 3 (Suc (unat (syncTries c)) + length ts) - Suc (unat (syncTries c)))
           (Cl_Send i (syn_packet t i c) (remoteAddr c))"
      using Cons.IH [of ?c now] Cons.prems(1,2,3) due(3) True n by auto
    have "min 3 (unat (syncTries c) + length (tick # ts)) - unat (syncTries c)
        = Suc (min 3 (Suc (unat (syncTries c)) + length ts) - Suc (unat (syncTries c)))"
      using True by simp
    then show ?thesis
      using c' step by (auto simp: tick)
  next
    case False
    then have many: "unat (syncTries c) = 3" "\<not> syncTries c < 3"
      using Cons.prems(7) by (auto simp: word_less_nat_alt)
    let ?c = "c\<lparr> waitToConnect := waitToConnect c + 1 \<rparr>"
    have "cl_timeoutEvent t time now c = Inr (0, [], ?c)"
      using due(1) many Cons.prems(3) by (simp add: cl_timeoutEvent_def)
    moreover have "syn_packet t i ?c = syn_packet t i c"
      by (rule syn_packet_cong) simp_all
    ultimately show ?thesis
      using Cons.IH [of ?c now] Cons.prems(1,2,3,5,7) due many by (auto simp: tick)
  qed
qed simp


section \<open>A concrete client\<close>

definition sample_remote :: RemoteAddr where
  "sample_remote = \<lparr> ra_ip = 5, ra_port = 6 \<rparr>"

definition greeting :: Packet where
  "greeting = syn_packet sample_tunnel 1 (new_client sample_remote)"

definition greeted :: client where
  "greeted = (new_client sample_remote)\<lparr> syncTries := 1, syncTime := 10, cl_out := [Cl_Send 1 greeting sample_remote] \<rparr>"

lemma greets: "handShake1 sample_tunnel 10 (new_client sample_remote) = Inr greeted"
  using sample_suitable sample_usable by (simp add: handShake1_effect greeted_def greeting_def new_client_def)


section \<open>Faults of the client\<close>

text \<open>An answer whose list of options does not start with an address never lets the client go.\<close>

lemma handShake2_diverges:
  assumes "usable t (suitable t (ra_ip (remoteAddr c)))" "h_ifcsrc (p_header pkt) \<noteq> 0"
    and "p_optHeaders pkt = h # hs" "opt_type h \<noteq> 2"
  shows "handShake2 t pkt c = Inl Diverges"
  using assms by (simp add: handShake2_def Let_def to_remote_def cl_emit_def)

text \<open>\<open>close\<close> on a connection that is closing keeps the lock: the next call of the application blocks.\<close>

lemma close_keeps_lock:
  assumes "cl_close t c = Inr (False, c')"
  shows "cl_close t c' = Inl Blocked" "cl_addNewFlow c' = Inl Blocked"
  using assms by (auto simp: cl_close_def cl_addNewFlow_def Let_def bind_res_Inr_iff split: if_splits)

text \<open>The flow numbers wrap around: after 65535 flows comes the number 0, which no multiplexer accepts.\<close>

lemma flow_ids_wrap:
  assumes "nextFlowId c = 65535"
  shows "fst (getNextFlowId c) = 0" "getChild fp (fst (getNextFlowId c)) m = None"
  using assms by (simp_all add: getNextFlowId_def getChild_def)

end
