(* ===== verification/Server.thy ===== *)
theory Server
  imports Tunnel "HOL-Library.Product_Lexorder"
begin

text \<open>
  The server's end of the tunnels: \<open>Client4Server\<close>, one for every client
  (src/src/TunnelLib/ServerConnectionClientDetail.cc), and \<open>ServerConnection\<close>
  (ServerConnection.cc), which gives out the fingerprints, finds the client of a
  packet and forgets the clients that have gone.
\<close>

section \<open>The server's side of one client\<close>

text \<open>
  A deleted scheduler and a missing multiplexer are \<open>None\<close>; \<open>cs_lastUsed\<close> is in
  milliseconds.  \<open>cs_out\<close> lists what the object does to the outside, in order.
\<close>

datatype c4s_event =
    C4_Send appInt8 Packet sockaddr_in
  | C4_Net Packet
  | C4_Attach appInt8
  | C4_Detach appInt8

record client4server =
  clientFingerPrint :: appInt16
  cs_mux :: "mux option"
  cs_lastUsed :: int
  cs_ifcSch :: "scheduler option"
  stopThread :: bool
  cs_closed :: bool
  recvQueue :: "Packet list"
  recvSem :: nat
  cs_waitToClose :: nat
  cs_out :: "c4s_event list"

definition new_client4server :: "appInt16 \<Rightarrow> client4server" where
  "new_client4server fp = \<lparr> clientFingerPrint = fp, cs_mux = None, cs_lastUsed = 0,
     cs_ifcSch = Some (new_scheduler True), stopThread = False, cs_closed = False, recvQueue = [], recvSem = 0,
     cs_waitToClose = 0, cs_out = [] \<rparr>"

definition cs_emit :: "c4s_event \<Rightarrow> client4server \<Rightarrow> client4server" where
  "cs_emit e c = c\<lparr> cs_out := cs_out c @ [e] \<rparr>"

definition cs_env :: "tunnel_env \<Rightarrow> client4server \<Rightarrow> env" where
  "cs_env t c = (te_env t)\<lparr> e_fingerPrint := clientFingerPrint c,
     e_status := map_option (mux_getReceiverStatus (te_pad t)) (cs_mux c) \<rparr>"

definition cs_sendPacketTo :: "Packet \<Rightarrow> client4server \<Rightarrow> (int \<times> client4server) res" where
  "cs_sendPacketTo pkt c =
     (if has_flag (h_flag (p_header pkt)) FLAG_CTR \<and> cs_ifcSch c = None then Inr (- ERROR_NETWORK_CLOSED, c)
      else case cs_ifcSch c of
          None \<Rightarrow> Inl Null_Deref
        | Some s \<Rightarrow>
            bind_res (sendPacketTo (pkt\<lparr> p_header := (p_header pkt)\<lparr> h_fingerPrint := clientFingerPrint c \<rparr> \<rparr>) s)
              (\<lambda>(ret, s'). Inr (ret, c\<lparr> cs_ifcSch := Some s' \<rparr>)))"

definition enqueue :: "Packet \<Rightarrow> client4server \<Rightarrow> client4server" where
  "enqueue pkt c = c\<lparr> recvQueue := recvQueue c @ [pkt], recvSem := recvSem c + 1 \<rparr>"

definition cs_recvProcPacket :: "Packet \<Rightarrow> client4server \<Rightarrow> client4server res" where
  "cs_recvProcPacket pkt c = app_assert (p_processed pkt) (Inr (enqueue pkt c))"

definition cs_recvPacketFrom :: "Packet \<Rightarrow> client4server \<Rightarrow> client4server" where
  "cs_recvPacketFrom pkt c =
     (if h_fingerPrint (p_header pkt) \<noteq> clientFingerPrint c then c
      else if cs_mux c = None then c
      else enqueue pkt c)"

text \<open>What the scheduler asks of the object; acknowledgements go to \<open>mux->recvAck\<close>, which changes nothing.\<close>

fun cs_sched_event :: "sched_event \<Rightarrow> client4server \<Rightarrow> client4server res" where
  "cs_sched_event (Sch_Net p) c = Inr (cs_emit (C4_Net p) c)"
| "cs_sched_event (Sch_Ack fp f q) c = Inr c"
| "cs_sched_event (Sch_Proc p) c = cs_recvProcPacket p c"
| "cs_sched_event (Sch_Forward p) c =
     (case cs_ifcSch c of
        None \<Rightarrow> Inl Null_Deref
      | Some s \<Rightarrow> bind_res (sendPacketTo p s) (\<lambda>(_, s'). Inr (c\<lparr> cs_ifcSch := Some s' \<rparr>)))"
| "cs_sched_event (Sch_Attach i) c = Inr (cs_emit (C4_Attach i) c)"
| "cs_sched_event (Sch_Detach i) c = Inr (cs_emit (C4_Detach i) c)"

definition cs_sched :: "scheduler \<Rightarrow> client4server \<Rightarrow> client4server res" where
  "cs_sched s c = do_all cs_sched_event (sc_out s) (c\<lparr> cs_ifcSch := Some (s\<lparr> sc_out := [] \<rparr>) \<rparr>)"

definition setupInterfaces :: "tunnel_env \<Rightarrow> appInt8 \<Rightarrow> sockaddr_in \<Rightarrow> client4server \<Rightarrow> client4server res" where
  "setupInterfaces t ifcRem remAddr c =
     (case cs_ifcSch c of
        None \<Rightarrow> Inl Null_Deref
      | Some s \<Rightarrow> bind_res (addRemote (cs_env t c) (te_ifc t) ifcRem \<lparr> ra_ip = fst remAddr, ra_port = ucast (snd remAddr) \<rparr> s)
          (\<lambda>s'. cs_sched s' c))"

text \<open>
  The result of \<open>sendPacketTo\<close> as the multiplexer sees it, and the packets the
  flows have handed down, given to the scheduler.
\<close>

definition cs_par :: "client4server \<Rightarrow> Packet \<Rightarrow> int" where
  "cs_par c pkt = (if has_flag (h_flag (p_header pkt)) FLAG_CTR \<and> cs_ifcSch c = None then - ERROR_NETWORK_CLOSED else 0)"

definition cs_flush :: "mux \<Rightarrow> client4server \<Rightarrow> client4server res" where
  "cs_flush m c = do_all (\<lambda>p c. bind_res (cs_sendPacketTo p c) (\<lambda>(_, c'). Inr c')) (mux_sends m)
     (c\<lparr> cs_mux := Some (mux_clear m) \<rparr>)"

text \<open>A call of the multiplexer, which has to exist.\<close>

definition with_mux :: "(mux \<Rightarrow> ('a \<times> mux) res) \<Rightarrow> client4server \<Rightarrow> ('a \<times> client4server) res" where
  "with_mux f c =
     (case cs_mux c of
        None \<Rightarrow> Inl Null_Deref
      | Some m \<Rightarrow> bind_res (f m) (\<lambda>(x, m'). bind_res (cs_flush m' c) (\<lambda>c'. Inr (x, c'))))"

definition cs_readData :: "tunnel_env \<Rightarrow> appInt32 \<Rightarrow> nat \<Rightarrow> client4server \<Rightarrow> ((int \<times> appByte list) \<times> client4server) res" where
  "cs_readData t k n c =
     with_mux (\<lambda>m. bind_res (mux_readData (cs_par c) (te_pad t) (key_fingerPrint k) (key_flowId k) n m)
       (\<lambda>(ret, bs, m'). Inr ((ret, bs), m'))) c"

definition cs_sendData :: "appInt32 \<Rightarrow> appByte list \<Rightarrow> client4server \<Rightarrow> (int \<times> client4server) res" where
  "cs_sendData k d c = with_mux (mux_sendData (cs_par c) (key_fingerPrint k) (key_flowId k) d) c"

definition cs_closeFlow :: "appInt32 \<Rightarrow> client4server \<Rightarrow> ((bool \<times> bool) \<times> client4server) res" where
  "cs_closeFlow k c =
     with_mux (\<lambda>m. bind_res (mux_closeFlow (cs_par c) (key_fingerPrint k) (key_flowId k) m)
       (\<lambda>(st, waits, m'). Inr ((st, waits), m'))) c"

definition cs_acceptFlow :: "client4server \<Rightarrow> (appInt32 \<times> client4server) res" where
  "cs_acceptFlow c =
     with_mux (\<lambda>m. bind_res (acceptFlow m) (\<lambda>(k, m'). app_assert (key_fingerPrint k = clientFingerPrint c) (Inr (k, m')))) c"

definition cs_timeoutEvent :: "client4server \<Rightarrow> client4server res" where
  "cs_timeoutEvent c =
     (case cs_mux c of
        None \<Rightarrow> Inr c
      | Some m \<Rightarrow> bind_res (mux_timeoutEvent (children m)) (\<lambda>ch. cs_flush (m\<lparr> children := ch \<rparr>) c))"

text \<open>\<open>now\<close> is the clock in milliseconds.\<close>

definition cs_close :: "tunnel_env \<Rightarrow> int \<Rightarrow> client4server \<Rightarrow> client4server res" where
  "cs_close t now c =
     (case cs_ifcSch c of
        None \<Rightarrow> Inr (c\<lparr> cs_lastUsed := now \<rparr>)
      | Some s \<Rightarrow>
          bind_res (close_sched (cs_env t c) s) (\<lambda>s'.
          bind_res (cs_sched s' c) (\<lambda>c'. Inr (c'\<lparr> cs_ifcSch := None, cs_lastUsed := now \<rparr>))))"

definition isClosed :: "client4server \<Rightarrow> bool" where
  "isClosed c \<longleftrightarrow> cs_closed c \<and> (case cs_mux c of None \<Rightarrow> True | Some m \<Rightarrow> children m = [])"

text \<open>
  An unprocessed packet first passes through the scheduler, if there is one;
  the result says whether \<open>flags.newFlow\<close> was set.
\<close>

definition cs_schedule :: "tunnel_env \<Rightarrow> Packet \<Rightarrow> client4server \<Rightarrow> (Packet \<times> client4server) res" where
  "cs_schedule t pkt c =
     (case cs_ifcSch c of
        None \<Rightarrow> Inr (pkt, c)
      | Some s \<Rightarrow>
          if p_processed pkt then Inr (pkt, c)
          else bind_res (recvPacketFrom (cs_env t c) (te_ifc t) (te_junk t)
                   \<lparr> ra_ip = fst (p_src_addr pkt), ra_port = ucast (snd (p_src_addr pkt)) \<rparr> pkt s) (\<lambda>(_, pkt', s').
               bind_res (cs_sched s' c) (\<lambda>c'. Inr (pkt', c'))))"

definition recvPacketAfterThread :: "tunnel_env \<Rightarrow> Packet \<Rightarrow> client4server \<Rightarrow> (bool \<times> client4server) res" where
  "recvPacketAfterThread t pkt c =
     (if h_ifcdst (p_header pkt) = 0 \<or> h_ifcsrc (p_header pkt) = 0 then Inr (False, c)
      else bind_res (cs_schedule t pkt c) (\<lambda>(pkt', c1).
           with_mux (\<lambda>m. bind_res (mux_recvPacketFrom (cs_par c1) pkt' m) (\<lambda>(_, isnew, m'). Inr (isnew, m'))) c1))"

text \<open>
  One round of the thread of a client: whether it goes on, whether the server has
  to be told of a new flow.
\<close>

definition cfn_answer :: Packet where
  "cfn_answer = (fst (getNewPacket new_PacketPool))\<lparr> p_header :=
     (p_header (fst (getNewPacket new_PacketPool)))\<lparr> h_flag := FLAG_CFN OR FLAG_ACK \<rparr> \<rparr>"

definition c4s_step :: "tunnel_env \<Rightarrow> int \<Rightarrow> client4server \<Rightarrow> (bool \<times> bool \<times> client4server) res" where
  "c4s_step t now c =
     (if recvSem c = 0 then Inl Blocked
      else let c1 = c\<lparr> recvSem := recvSem c - 1 \<rparr> in
        if stopThread c1 then Inr (False, False, c1\<lparr> cs_waitToClose := cs_waitToClose c1 + 1 \<rparr>)
        else case recvQueue c1 of
            [] \<Rightarrow> Inl Null_Deref
          | pkt # q \<Rightarrow>
              let c2 = c1\<lparr> recvQueue := q \<rparr> in
              if has_flag (h_flag (p_header pkt)) FLAG_CFN
              then bind_res (cs_close t now c2) (\<lambda>c3.
                   let i = getPrimaryInterfaceId (te_mon t) in
                   on_ifc t i (Inr (True, False, cs_emit (C4_Send i cfn_answer (p_src_addr pkt)) (c3\<lparr> cs_closed := True \<rparr>))))
              else bind_res (recvPacketAfterThread t pkt c2) (\<lambda>(isnew, c3). Inr (True, isnew, c3)))"

section \<open>The server\<close>

text \<open>
  The clients answered and not heard of again are in \<open>pendingClients\<close>.
  \<open>nextFingerPrint\<close> is the counter of \<open>generateFingerPrint\<close>;
  \<open>sv_sent\<close> lists the packets the server sends itself, with their interface and
  destination.  Times are in milliseconds.
\<close>

record server =
  clients :: "appInt16 \<rightharpoonup> client4server"
  pendingClients :: "appInt16 \<rightharpoonup> client4server"
  nonce2FingerPrint :: "appInt64 \<rightharpoonup> appInt16"
  fingerPrint2Nonce :: "appInt16 \<rightharpoonup> appInt64"
  nextFingerPrint :: appInt32
  pendingFlowClientId :: "appInt16 \<rightharpoonup> appInt"
  sv_acceptSem :: nat
  lastTimeout :: int
  timeoutProd :: "(appInt16 \<times> appInt8) timeout_producer"
  sv_sent :: "(appInt8 \<times> Packet \<times> sockaddr_in) list"

definition new_server :: server where
  "new_server = \<lparr> clients = Map.empty, pendingClients = Map.empty, nonce2FingerPrint = Map.empty,
     fingerPrint2Nonce = Map.empty, nextFingerPrint = 1, pendingFlowClientId = Map.empty, sv_acceptSem = 0,
     lastTimeout = 0, timeoutProd = new_timeout_producer, sv_sent = [] \<rparr>"

fun getNonce :: "opt_header list \<Rightarrow> appInt64" where
  "getNonce [] = 0"
| "getNonce (h # hs) = (if opt_type h = 3 then nonce_nonce h else getNonce hs)"

text \<open>\<open>getIpHeaders\<close>: the addresses of the senders, the last one first.\<close>

definition ntohl :: "appInt32 \<Rightarrow> appInt32" where
  "ntohl w = be_word (rev (be_bytes 4 w))"

definition getIpHeaders :: "tunnel_env \<Rightarrow> opt_header list" where
  "getIpHeaders t = foldl (\<lambda>hs i. case interfaceSender (te_mon t) i of
       None \<Rightarrow> hs
     | Some s \<Rightarrow> PacketIpHeader (te_pad t) i 0 (ntohl (src_ip s)) # hs) [] sender_ids"

definition server_packet :: "tunnel_env \<Rightarrow> Packet" where
  "server_packet t = fst (getNewPacketWithData (te_junk t) new_PacketPool)"

definition synack_packet :: "tunnel_env \<Rightarrow> appInt8 \<Rightarrow> appInt16 \<Rightarrow> Packet \<Rightarrow> Packet" where
  "synack_packet t i fp pkt = (server_packet t)\<lparr> p_header := (p_header (server_packet t))
     \<lparr> h_fingerPrint := fp, h_flag := FLAG_ACK OR FLAG_SYN, h_ifcsrc := i, h_ifcdst := h_ifcsrc (p_header pkt),
       h_OHLen := of_nat (length (getIpHeaders t)) \<rparr>, p_optHeaders := getIpHeaders t \<rparr>"

definition sv_send :: "tunnel_env \<Rightarrow> appInt8 \<Rightarrow> Packet \<Rightarrow> sockaddr_in \<Rightarrow> server \<Rightarrow> server res" where
  "sv_send t i pkt dst s = on_ifc t i (Inr (s\<lparr> sv_sent := sv_sent s @ [(i, pkt, dst)] \<rparr>))"

text \<open>A hello: the first one with its nonce makes a client, the others are answered again.\<close>

definition admit :: "appInt64 \<Rightarrow> server \<Rightarrow> appInt16 \<times> server" where
  "admit nonce s =
     (let (fp, cnt) = generateFingerPrint (nextFingerPrint s) in
      (fp, s\<lparr> nextFingerPrint := cnt, nonce2FingerPrint := (nonce2FingerPrint s)(nonce \<mapsto> fp),
              fingerPrint2Nonce := (fingerPrint2Nonce s)(fp \<mapsto> nonce),
              pendingClients := (pendingClients s)(fp \<mapsto> new_client4server fp) \<rparr>))"

definition sv_hello :: "tunnel_env \<Rightarrow> Packet \<Rightarrow> server \<Rightarrow> server res" where
  "sv_hello t pkt s =
     (let nonce = getNonce (p_optHeaders pkt) in
      if \<not> has_flag (h_flag (p_header pkt)) FLAG_SYN \<or> nonce = 0 then Inr s
      else case nonce2FingerPrint s nonce of
          None \<Rightarrow>
            let (fp, s1) = admit nonce s; i = suitable t (fst (p_src_addr pkt)) in
            sv_send t i (synack_packet t i fp pkt) (p_src_addr pkt) s1
        | Some fp \<Rightarrow>
            let i = getPrimaryInterfaceId (te_mon t) in
            sv_send t i (synack_packet t i fp pkt) (p_src_addr pkt) s)"

text \<open>Any other packet goes to its client; the first one makes a pending client an active one.\<close>

definition sv_packet :: "tunnel_env \<Rightarrow> Packet \<Rightarrow> server \<Rightarrow> (int \<times> server) res" where
  "sv_packet t pkt s =
     (let fp = h_fingerPrint (p_header pkt); pkt' = pkt\<lparr> p_newFlow := False \<rparr> in
      case clients s fp of
        Some c \<Rightarrow> Inr (0, s\<lparr> clients := (clients s)(fp \<mapsto> cs_recvPacketFrom pkt' c) \<rparr>)
      | None \<Rightarrow>
          case pendingClients s fp of
            None \<Rightarrow>
              if has_flag (h_flag (p_header pkt)) FLAG_CFN
              then bind_res (sv_send t (getPrimaryInterfaceId (te_mon t)) cfn_answer (p_src_addr pkt) s) (\<lambda>s'. Inr (1, s'))
              else Inr (1, s)
          | Some c \<Rightarrow>
              let c1 = c\<lparr> cs_mux := Some (new_mux fp) \<rparr> in
              Inr (0, s\<lparr> pendingClients := (pendingClients s)(fp := None),
                        clients := (clients s)(fp \<mapsto> cs_recvPacketFrom pkt' c1) \<rparr>))"

definition sv_recvPacketFrom :: "tunnel_env \<Rightarrow> Packet \<Rightarrow> server \<Rightarrow> (int \<times> server) res" where
  "sv_recvPacketFrom t pkt s =
     (if h_fingerPrint (p_header pkt) = EMPTY_FINGER_PRINT
      then bind_res (sv_hello t pkt s) (\<lambda>s'. Inr (0, s'))
      else sv_packet t pkt s)"

definition newFlowNotification :: "appInt16 \<Rightarrow> server \<Rightarrow> server" where
  "newFlowNotification fp s =
     s\<lparr> pendingFlowClientId := (pendingFlowClientId s)
          (fp \<mapsto> (case pendingFlowClientId s fp of None \<Rightarrow> 1 | Some x \<Rightarrow> x + 1)),
        sv_acceptSem := sv_acceptSem s + 1 \<rparr>"

text \<open>
  The thread of client \<open>fp\<close> runs one round; what it did to the outside is carried
  out: the timers of its channels, the packet it sent itself.
\<close>

fun sv_event :: "appInt16 \<Rightarrow> c4s_event \<Rightarrow> server \<Rightarrow> server" where
  "sv_event fp (C4_Send i pkt dst) s = s\<lparr> sv_sent := sv_sent s @ [(i, pkt, dst)] \<rparr>"
| "sv_event fp (C4_Net pkt) s = s"
| "sv_event fp (C4_Attach i) s = s\<lparr> timeoutProd := tp_attach (fp, i) (timeoutProd s) \<rparr>"
| "sv_event fp (C4_Detach i) s = s\<lparr> timeoutProd := tp_detach (fp, i) (timeoutProd s) \<rparr>"

definition store_client :: "appInt16 \<Rightarrow> client4server \<Rightarrow> server \<Rightarrow> server" where
  "store_client fp c s = fold (sv_event fp) (cs_out c) (s\<lparr> clients := (clients s)(fp \<mapsto> c\<lparr> cs_out := [] \<rparr>) \<rparr>)"

definition sv_client_step :: "tunnel_env \<Rightarrow> int \<Rightarrow> appInt16 \<Rightarrow> server \<Rightarrow> (bool \<times> server) res" where
  "sv_client_step t now fp s =
     (case clients s fp of
        None \<Rightarrow> Inl Blocked
      | Some c \<Rightarrow> bind_res (c4s_step t now c) (\<lambda>(more, isnew, c').
          let s' = store_client fp c' s in
          Inr (more, if isnew then newFlowNotification (clientFingerPrint c') s' else s')))"

text \<open>The calls of the application; a flow of an unknown client is refused.\<close>

definition with_client :: "appInt32 \<Rightarrow> 'a \<Rightarrow> (client4server \<Rightarrow> ('a \<times> client4server) res) \<Rightarrow> server \<Rightarrow> ('a \<times> server) res" where
  "with_client k refused f s =
     (case clients s (key_fingerPrint k) of
        None \<Rightarrow> Inr (refused, s)
      | Some c \<Rightarrow> bind_res (f c) (\<lambda>(x, c'). Inr (x, store_client (key_fingerPrint k) c' s)))"

definition sv_readData :: "tunnel_env \<Rightarrow> appInt32 \<Rightarrow> nat \<Rightarrow> server \<Rightarrow> ((int \<times> appByte list) \<times> server) res" where
  "sv_readData t k n = with_client k (- 1, []) (cs_readData t k n)"

definition sv_sendData :: "appInt32 \<Rightarrow> appByte list \<Rightarrow> server \<Rightarrow> (int \<times> server) res" where
  "sv_sendData k d = with_client k (- 1) (cs_sendData k d)"

definition sv_closeFlow :: "appInt32 \<Rightarrow> server \<Rightarrow> ((bool \<times> bool) \<times> server) res" where
  "sv_closeFlow k = with_client k (False, False) (cs_closeFlow k)"

text \<open>
  \<open>first\<close> is the key \<open>begin()\<close> of the unordered map points to; on an empty map
  the code reads past its end.
\<close>

definition take_pending :: "appInt16 \<Rightarrow> server \<Rightarrow> server res" where
  "take_pending first s =
     (if sv_acceptSem s = 0 then Inl Blocked
      else case pendingFlowClientId s first of
          None \<Rightarrow> Inl Out_Of_Bounds
        | Some val \<Rightarrow>
            Inr (s\<lparr> sv_acceptSem := sv_acceptSem s - 1,
                    pendingFlowClientId := (pendingFlowClientId s)(first := if val - 1 = 0 then None else Some (val - 1)) \<rparr>))"

definition sv_acceptFlow :: "appInt16 \<Rightarrow> server \<Rightarrow> (appInt32 \<times> server) res" where
  "sv_acceptFlow first s =
     bind_res (take_pending first s) (\<lambda>s1.
     case clients s1 first of
       None \<Rightarrow> Inl Null_Deref
     | Some c \<Rightarrow> bind_res (cs_acceptFlow c) (\<lambda>(k, c'). Inr (k, store_client first c' s1)))"

text \<open>The clients closed and unused for five seconds are forgotten, with their nonces.\<close>

definition stale :: "int \<Rightarrow> server \<Rightarrow> appInt16 \<Rightarrow> bool" where
  "stale time s fp \<longleftrightarrow> (case clients s fp of None \<Rightarrow> False | Some c \<Rightarrow> isClosed c \<and> time - cs_lastUsed c > 5000)"

definition forget :: "appInt16 \<Rightarrow> server \<Rightarrow> server" where
  "forget fp s =
     (let s1 = (case fingerPrint2Nonce s fp of
            None \<Rightarrow> s
          | Some nonce \<Rightarrow> s\<lparr> fingerPrint2Nonce := (fingerPrint2Nonce s)(fp := None),
                           nonce2FingerPrint := (nonce2FingerPrint s)(nonce := None) \<rparr>) in
      s1\<lparr> clients := (clients s1)(fp := None) \<rparr>)"

definition all_fingerprints :: "appInt16 list" where
  "all_fingerprints = map of_nat [0..<65536]"

definition sv_timeoutEvent :: "int \<Rightarrow> server \<Rightarrow> (appInt16 \<times> appInt8) list \<times> server" where
  "sv_timeoutEvent time s =
     (let (obs, tp) = tp_timeoutEvent (timeoutProd s); s1 = s\<lparr> timeoutProd := tp \<rparr> in
      if time - lastTimeout s1 > 5000
      then (obs, fold forget (filter (stale time s1) all_fingerprints) (s1\<lparr> lastTimeout := time \<rparr>))
      else (obs, s1))"

end
