(* ===== verification/ServerProps.thy ===== *)
theory ServerProps
  imports Server MuxProps
begin

text \<open>
  The server: its tables stay consistent whatever arrives, a packet reaches the
  client whose fingerprint it carries, a hello said again is answered the same
  way.
\<close>

section \<open>The multiplexer keeps its fingerprint\<close>

named_theorems mux_fp "operations of the multiplexer that keep its fingerprint"

lemma ack_child_fp [mux_fp]: "ack_child fid n m = Inr m' \<Longrightarrow> fingerPrint m' = fingerPrint m"
  by (auto simp: ack_child_def bind_res_Inr_iff split: option.splits)

lemma ack_infos_fp [mux_fp]: "ack_infos is m = Inr m' \<Longrightarrow> fingerPrint m' = fingerPrint m"
  by (induction "is" m rule: ack_infos.induct) (auto simp: bind_res_Inr_iff dest!: ack_child_fp)

lemma processOptionalHeader_fp [mux_fp]: "processOptionalHeader h m = Inr m' \<Longrightarrow> fingerPrint m' = fingerPrint m"
  by (cases h) (auto split: option.splits dest: ack_infos_fp)

lemma processOptionalHeaders_fp [mux_fp]: "processOptionalHeaders hs m = Inr m' \<Longrightarrow> fingerPrint m' = fingerPrint m"
  by (induction hs m rule: processOptionalHeaders.induct) (auto simp: bind_res_Inr_iff dest!: processOptionalHeader_fp)

lemma addNewFlow_fp [simp]: "fingerPrint (addNewFlow pkt m) = fingerPrint m"
  by (simp add: addNewFlow_def getNewConnection_def Let_def)

lemma mux_recv_fp [mux_fp]: "mux_recvPacketFrom par pkt m = Inr (ret, nf, m') \<Longrightarrow> fingerPrint m' = fingerPrint m"
  by (auto simp: mux_recvPacketFrom_def Let_def bind_res_Inr_iff split: if_splits option.splits
      dest!: processOptionalHeaders_fp)

lemma erase_child_fp [simp]: "fingerPrint (erase_child fp fid m) = fingerPrint m"
  by (simp add: erase_child_def)

lemma mux_closeFlow_fp [mux_fp]: "mux_closeFlow par fp fid m = Inr (st, w, m') \<Longrightarrow> fingerPrint m' = fingerPrint m"
  by (auto simp: mux_closeFlow_def bind_res_Inr_iff split: if_splits option.splits)

lemma mux_readData_fp [mux_fp]: "mux_readData par pad fp fid n m = Inr (ret, bs, m') \<Longrightarrow> fingerPrint m' = fingerPrint m"
  by (auto simp: mux_readData_def Let_def bind_res_Inr_iff count_read_def split: if_splits option.splits
      dest!: mux_closeFlow_fp)

lemma mux_sendData_fp [mux_fp]: "mux_sendData par fp fid d m = Inr (ret, m') \<Longrightarrow> fingerPrint m' = fingerPrint m"
  by (auto simp: mux_sendData_def bind_res_Inr_iff split: option.splits)

lemma acceptFlow_fp [mux_fp]: "acceptFlow m = Inr (k, m') \<Longrightarrow> fingerPrint m' = fingerPrint m"
  by (auto simp: acceptFlow_def Let_def app_assert_Inr_iff split: if_splits list.splits)

section \<open>The server's side of a client keeps its identity\<close>

definition same_client :: "client4server \<Rightarrow> client4server \<Rightarrow> bool" where
  "same_client c c' \<longleftrightarrow> clientFingerPrint c' = clientFingerPrint c \<and>
     map_option fingerPrint (cs_mux c') = map_option fingerPrint (cs_mux c)"

lemma same_client_refl [simp]: "same_client c c"
  by (simp add: same_client_def)

lemma same_client_trans: "same_client a b \<Longrightarrow> same_client b c \<Longrightarrow> same_client a c"
  by (simp add: same_client_def)

named_theorems same "operations that keep the identity of a client"

lemma do_all_same: "(\<And>x c c'. f x c = Inr c' \<Longrightarrow> same_client c c') \<Longrightarrow> do_all f xs c = Inr c' \<Longrightarrow> same_client c c'"
proof (induction xs arbitrary: c)
  case (Cons x xs)
  then obtain c1 where "f x c = Inr c1" "do_all f xs c1 = Inr c'"
    by (auto simp: bind_res_Inr_iff)
  then show ?case using Cons by (blast intro: same_client_trans)
qed simp

lemma cs_sendPacketTo_same [same]: "cs_sendPacketTo p c = Inr (ret, c') \<Longrightarrow> same_client c c'"
  by (auto simp: cs_sendPacketTo_def same_client_def bind_res_Inr_iff split: if_splits option.splits)

lemma cs_sched_event_same: "cs_sched_event e c = Inr c' \<Longrightarrow> same_client c c'"
  by (cases e) (auto simp: cs_emit_def cs_recvProcPacket_def enqueue_def app_assert_Inr_iff bind_res_Inr_iff
      same_client_def split: option.splits)

lemma cs_sched_same [same]: "cs_sched s c = Inr c' \<Longrightarrow> same_client c c'"
  unfolding cs_sched_def by (drule do_all_same [rotated], erule cs_sched_event_same) (simp add: same_client_def)

lemma cs_flush_same: "cs_flush m c = Inr c' \<Longrightarrow> clientFingerPrint c' = clientFingerPrint c \<and>
    map_option fingerPrint (cs_mux c') = Some (fingerPrint m)"
  unfolding cs_flush_def
  by (drule do_all_same [rotated]) (auto simp: bind_res_Inr_iff same_client_def dest!: cs_sendPacketTo_same)

lemma with_mux_same:
  assumes "with_mux f c = Inr (x, c')" "\<And>m x m'. f m = Inr (x, m') \<Longrightarrow> fingerPrint m' = fingerPrint m"
  shows "same_client c c'"
  using assms by (auto simp: with_mux_def bind_res_Inr_iff same_client_def split: option.splits dest!: cs_flush_same)

lemma cs_readData_same [same]: "cs_readData t k n c = Inr (x, c') \<Longrightarrow> same_client c c'"
  unfolding cs_readData_def by (erule with_mux_same) (auto simp: bind_res_Inr_iff dest: mux_fp)

lemma cs_sendData_same [same]: "cs_sendData k d c = Inr (x, c') \<Longrightarrow> same_client c c'"
  unfolding cs_sendData_def by (erule with_mux_same) (auto dest: mux_fp)

lemma cs_closeFlow_same [same]: "cs_closeFlow k c = Inr (x, c') \<Longrightarrow> same_client c c'"
  unfolding cs_closeFlow_def by (erule with_mux_same) (auto simp: bind_res_Inr_iff dest: mux_fp)

lemma cs_acceptFlow_same [same]: "cs_acceptFlow c = Inr (x, c') \<Longrightarrow> same_client c c'"
  unfolding cs_acceptFlow_def by (erule with_mux_same) (auto simp: bind_res_Inr_iff app_assert_Inr_iff dest: mux_fp)

lemma cs_close_same [same]: "cs_close t now c = Inr c' \<Longrightarrow> same_client c c'"
  by (auto simp: cs_close_def bind_res_Inr_iff same_client_def split: option.splits dest!: cs_sched_same)

lemma cs_schedule_same [same]: "cs_schedule t pkt c = Inr (pkt', c') \<Longrightarrow> same_client c c'"
  by (auto simp: cs_schedule_def bind_res_Inr_iff split: option.splits if_splits dest: cs_sched_same)

lemma recvPacketAfterThread_same [same]:
  assumes "recvPacketAfterThread t pkt c = Inr (nf, c')"
  shows "same_client c c'"
proof (cases "h_ifcdst (p_header pkt) = 0 \<or> h_ifcsrc (p_header pkt) = 0")
  case False
  then obtain pkt' c1 where c1: "cs_schedule t pkt c = Inr (pkt', c1)"
    "with_mux (\<lambda>m. bind_res (mux_recvPacketFrom (cs_par c1) pkt' m) (\<lambda>(_, isnew, m'). Inr (isnew, m'))) c1 = Inr (nf, c')"
    using assms by (auto simp: recvPacketAfterThread_def bind_res_Inr_iff)
  have "same_client c1 c'"
    using c1(2) by (rule with_mux_same) (auto simp: bind_res_Inr_iff dest: mux_fp)
  then show ?thesis
    using c1(1) by (blast intro: same_client_trans dest: cs_schedule_same)
qed (use assms in \<open>simp add: recvPacketAfterThread_def\<close>)

lemma c4s_step_same [same]: "c4s_step t now c = Inr (go, nf, c') \<Longrightarrow> same_client c c'"
  by (auto simp: c4s_step_def Let_def bind_res_Inr_iff on_ifc_Inr cs_emit_def same_client_def split: if_splits list.splits
      dest!: cs_close_same recvPacketAfterThread_same)

lemma cs_recvPacketFrom_same [same]: "same_client c (cs_recvPacketFrom pkt c)"
  by (simp add: cs_recvPacketFrom_def enqueue_def same_client_def)

section \<open>Runs of the server\<close>

text \<open>
  What can happen to a server: a packet arrives, the thread of a client makes a
  round, the application calls, the timer fires.
\<close>

datatype sv_op =
    Recv Packet
  | Round int appInt16
  | Read appInt32 nat
  | Write appInt32 "appByte list"
  | Close appInt32
  | Accept appInt16
  | Tick int

fun sv_do :: "tunnel_env \<Rightarrow> sv_op \<Rightarrow> server \<Rightarrow> server res" where
  "sv_do t (Recv pkt) s = bind_res (sv_recvPacketFrom t pkt s) (\<lambda>(_, s'). Inr s')"
| "sv_do t (Round now fp) s = bind_res (sv_client_step t now fp s) (\<lambda>(_, s'). Inr s')"
| "sv_do t (Read k n) s = bind_res (sv_readData t k n s) (\<lambda>(_, s'). Inr s')"
| "sv_do t (Write k d) s = bind_res (sv_sendData k d s) (\<lambda>(_, s'). Inr s')"
| "sv_do t (Close k) s = bind_res (sv_closeFlow k s) (\<lambda>(_, s'). Inr s')"
| "sv_do t (Accept fp) s = bind_res (sv_acceptFlow fp s) (\<lambda>(_, s'). Inr s')"
| "sv_do t (Tick time) s = Inr (snd (sv_timeoutEvent time s))"

definition sv_inv :: "server \<Rightarrow> bool" where
  "sv_inv s \<longleftrightarrow>
     (\<forall>fp nonce. fingerPrint2Nonce s fp = Some nonce \<longrightarrow> nonce2FingerPrint s nonce = Some fp) \<and>
     (\<forall>fp c. clients s fp = Some c \<longrightarrow> clientFingerPrint c = fp \<and> map_option fingerPrint (cs_mux c) = Some fp) \<and>
     (\<forall>fp c. pendingClients s fp = Some c \<longrightarrow> c = new_client4server fp)"

lemma sv_invD:
  assumes "sv_inv s"
  shows "fingerPrint2Nonce s fp = Some nonce \<Longrightarrow> nonce2FingerPrint s nonce = Some fp"
    and "clients s fp = Some c \<Longrightarrow> clientFingerPrint c = fp"
    and "clients s fp = Some c \<Longrightarrow> map_option fingerPrint (cs_mux c) = Some fp"
    and "pendingClients s fp = Some p \<Longrightarrow> p = new_client4server fp"
  using assms unfolding sv_inv_def by blast+

text \<open>The tables a step of a client or a call of the application leaves alone.\<close>

definition same_tables :: "server \<Rightarrow> server \<Rightarrow> bool" where
  "same_tables s s' \<longleftrightarrow> nonce2FingerPrint s' = nonce2FingerPrint s \<and> fingerPrint2Nonce s' = fingerPrint2Nonce s \<and>
     pendingClients s' = pendingClients s \<and> nextFingerPrint s' = nextFingerPrint s"

lemma same_tables_refl [simp]: "same_tables s s"
  by (simp add: same_tables_def)

lemma same_tables_trans: "same_tables a b \<Longrightarrow> same_tables b c \<Longrightarrow> same_tables a c"
  by (simp add: same_tables_def)

lemma sv_events_frame: "same_tables s (fold (sv_event fp) es s) \<and> clients (fold (sv_event fp) es s) = clients s"
proof (induction es arbitrary: s)
  case (Cons e es)
  have "same_tables s (sv_event fp e s) \<and> clients (sv_event fp e s) = clients s"
    by (cases e) (simp_all add: same_tables_def)
  then show ?case using Cons [of "sv_event fp e s"] by (auto intro: same_tables_trans)
qed simp

lemma store_client_frame:
  "same_tables s (store_client fp c s)" "clients (store_client fp c s) = (clients s)(fp \<mapsto> c\<lparr> cs_out := [] \<rparr>)"
  using sv_events_frame [of "s\<lparr> clients := (clients s)(fp \<mapsto> c\<lparr> cs_out := [] \<rparr>) \<rparr>" fp "cs_out c"]
  by (simp_all add: store_client_def same_tables_def)

text \<open>
  What every operation but a hello and the timer does: at most one client moves
  on, keeping its identity.
\<close>

definition one_client :: "appInt16 \<Rightarrow> server \<Rightarrow> server \<Rightarrow> bool" where
  "one_client fp s s' \<longleftrightarrow> same_tables s s' \<and>
     (clients s' = clients s \<or> (\<exists>c c'. clients s fp = Some c \<and> same_client c c' \<and> clients s' = (clients s)(fp \<mapsto> c')))"

lemma one_client_inv:
  assumes "sv_inv s" "one_client fp s s'"
  shows "sv_inv s'"
proof -
  have t: "same_tables s s'" using assms(2) by (simp add: one_client_def)
  consider "clients s' = clients s"
    | c c' where "clients s fp = Some c" "same_client c c'" "clients s' = (clients s)(fp \<mapsto> c')"
    using assms(2) by (auto simp: one_client_def)
  then show ?thesis
  proof cases
    case 1
    then show ?thesis using t assms(1) by (simp add: sv_inv_def same_tables_def)
  next
    case 2
    then have "clientFingerPrint c' = fp \<and> map_option fingerPrint (cs_mux c') = Some fp"
      using assms(1) by (simp add: sv_inv_def same_client_def)
    then show ?thesis using 2(3) t assms(1) by (simp add: sv_inv_def same_tables_def)
  qed
qed

lemma store_one_client:
  assumes "clients s fp = Some c" "same_client c c'" "same_tables s s1" "clients s1 = clients s"
  shows "one_client fp s (store_client fp c' s1)"
  unfolding one_client_def
proof
  show "same_tables s (store_client fp c' s1)"
    using assms(3) store_client_frame(1) by (rule same_tables_trans)
  have "same_client c (c'\<lparr> cs_out := [] \<rparr>)"
    using assms(2) by (simp add: same_client_def)
  then show "clients (store_client fp c' s1) = clients s \<or>
      (\<exists>ca ca'. clients s fp = Some ca \<and> same_client ca ca' \<and> clients (store_client fp c' s1) = (clients s)(fp \<mapsto> ca'))"
    using assms(1,4) by (auto simp: store_client_frame(2))
qed

lemma with_client_one:
  assumes "with_client k refused f s = Inr (x, s')" "\<And>c x c'. f c = Inr (x, c') \<Longrightarrow> same_client c c'"
  shows "one_client (key_fingerPrint k) s s'"
proof (cases "clients s (key_fingerPrint k)")
  case None
  then show ?thesis using assms(1) by (simp add: with_client_def one_client_def)
next
  case (Some c)
  then obtain c' where "f c = Inr (x, c')" "s' = store_client (key_fingerPrint k) c' s"
    using assms(1) by (auto simp: with_client_def bind_res_Inr_iff)
  then show ?thesis
    using store_one_client [OF Some assms(2)] by simp
qed

lemma accept_one_client:
  assumes "sv_acceptFlow fp s = Inr (k, s')"
  shows "one_client fp s s'"
proof -
  obtain s1 where s1: "take_pending fp s = Inr s1"
    using assms by (auto simp: sv_acceptFlow_def bind_res_Inr_iff)
  then have frame: "same_tables s s1" "clients s1 = clients s"
    by (auto simp: take_pending_def same_tables_def split: if_splits option.splits)
  obtain c c' where "clients s fp = Some c" "cs_acceptFlow c = Inr (k, c')" "s' = store_client fp c' s1"
    using assms s1 frame(2) by (auto simp: sv_acceptFlow_def bind_res_Inr_iff split: option.splits)
  then show ?thesis
    using store_one_client [OF _ cs_acceptFlow_same frame] by blast
qed

lemma round_one_client:
  assumes "sv_client_step t now fp s = Inr (go, s')"
  shows "one_client fp s s'"
proof -
  obtain c isnew c' where c: "clients s fp = Some c" "c4s_step t now c = Inr (go, isnew, c')"
    "s' = (if isnew then newFlowNotification (clientFingerPrint c') (store_client fp c' s) else store_client fp c' s)"
    using assms by (auto simp: sv_client_step_def Let_def bind_res_Inr_iff split: option.splits)
  have "one_client fp s (store_client fp c' s)"
    by (rule store_one_client [OF c(1) c4s_step_same [OF c(2)]]) simp_all
  then show ?thesis
    by (simp add: c(3) one_client_def same_tables_def newFlowNotification_def)
qed

lemma packet_one_client:
  assumes "clients s fp = Some c" "fp = h_fingerPrint (p_header pkt)"
  shows "sv_packet t pkt s = Inr (0, s\<lparr> clients := (clients s)(fp \<mapsto> cs_recvPacketFrom (pkt\<lparr> p_newFlow := False \<rparr>) c) \<rparr>)"
  using assms by (simp add: sv_packet_def)

lemma admit_simps [simp]:
  "fst (admit nonce s) = ucast (nextFingerPrint s)"
  "nonce2FingerPrint (snd (admit nonce s)) = (nonce2FingerPrint s)(nonce \<mapsto> ucast (nextFingerPrint s))"
  "fingerPrint2Nonce (snd (admit nonce s)) = (fingerPrint2Nonce s)(ucast (nextFingerPrint s) \<mapsto> nonce)"
  "pendingClients (snd (admit nonce s)) = (pendingClients s)(ucast (nextFingerPrint s) \<mapsto> new_client4server (ucast (nextFingerPrint s)))"
  "clients (snd (admit nonce s)) = clients s" "sv_sent (snd (admit nonce s)) = sv_sent s"
  "nextFingerPrint (snd (admit nonce s)) = nextFingerPrint s + 1"
  by (simp_all add: admit_def generateFingerPrint_def)

lemma admit_inv:
  assumes inv: "sv_inv s" and new: "nonce2FingerPrint s nonce = None"
  shows "sv_inv (snd (admit nonce s))"
proof -
  have "n \<noteq> nonce" if "fingerPrint2Nonce s fp = Some n" for fp n
    using sv_invD(1) [OF inv that] new by auto
  then show ?thesis
    using sv_invD [OF inv] by (simp add: sv_inv_def)
qed

lemma sv_send_Inr:
  "sv_send t i pkt dst s = Inr s' \<longleftrightarrow> usable t i \<and> s' = s\<lparr> sv_sent := sv_sent s @ [(i, pkt, dst)] \<rparr>"
  by (auto simp: sv_send_def on_ifc_Inr)

lemma sv_sent_inv [simp]: "sv_inv (s\<lparr> sv_sent := x \<rparr>) = sv_inv s"
  by (simp add: sv_inv_def)

lemma sv_hello_inv:
  assumes inv: "sv_inv s" and "sv_hello t pkt s = Inr s'"
  shows "sv_inv s'"
proof (cases "nonce2FingerPrint s (getNonce (p_optHeaders pkt))")
  case None
  then show ?thesis
    using assms admit_inv [OF inv None] by (auto simp: sv_hello_def Let_def split_def sv_send_Inr split: if_splits)
next
  case (Some fp)
  then show ?thesis
    using assms by (auto simp: sv_hello_def Let_def sv_send_Inr split: if_splits)
qed

lemma sv_packet_inv:
  assumes inv: "sv_inv s" and "sv_packet t pkt s = Inr (r, s')"
  shows "sv_inv s'"
proof -
  let ?fp = "h_fingerPrint (p_header pkt)" and ?pkt = "pkt\<lparr> p_newFlow := False \<rparr>"
  consider (known) c where "clients s ?fp = Some c" "s' = s\<lparr> clients := (clients s)(?fp \<mapsto> cs_recvPacketFrom ?pkt c) \<rparr>"
    | (unknown) x where "s' = s\<lparr> sv_sent := x \<rparr>"
    | (pending) c where "pendingClients s ?fp = Some c" "s' = s\<lparr> pendingClients := (pendingClients s)(?fp := None),
         clients := (clients s)(?fp \<mapsto> cs_recvPacketFrom ?pkt (c\<lparr> cs_mux := Some (new_mux ?fp) \<rparr>)) \<rparr>"
    using assms(2) that(2) [of "sv_sent s"] by (auto simp: sv_packet_def sv_send_def on_ifc_Inr Let_def bind_res_Inr_iff split: if_splits option.splits)
  then show ?thesis
  proof cases
    case known
    then have "one_client ?fp s s'"
      using cs_recvPacketFrom_same by (auto simp: one_client_def same_tables_def)
    then show ?thesis using inv by (rule one_client_inv [rotated])
  next
    case unknown
    then show ?thesis using inv by (simp add: sv_inv_def)
  next
    case pending
    then have "c = new_client4server ?fp"
      using inv by (simp add: sv_inv_def)
    then show ?thesis
      using inv by (auto simp: pending(2) sv_inv_def cs_recvPacketFrom_def enqueue_def new_client4server_def new_mux_def)
  qed
qed

lemma forget_inv:
  assumes inv: "sv_inv s"
  shows "sv_inv (forget fp s)"
proof (cases "fingerPrint2Nonce s fp")
  case None
  then show ?thesis using inv by (auto simp: forget_def sv_inv_def)
next
  case (Some nonce)
  then have "n \<noteq> nonce" if "fingerPrint2Nonce s f = Some n" "f \<noteq> fp" for f n
    using sv_invD(1) [OF inv that(1)] sv_invD(1) [OF inv Some] that(2) by auto
  then show ?thesis
    using inv Some by (auto simp: forget_def sv_inv_def Let_def)
qed

lemma sv_timeoutEvent_inv:
  assumes "sv_inv s"
  shows "sv_inv (snd (sv_timeoutEvent time s))"
proof -
  have "sv_inv (fold forget fps s1)" if "sv_inv s1" for fps s1
    using that by (induction fps arbitrary: s1) (simp_all add: forget_inv)
  moreover have "sv_inv (s\<lparr> timeoutProd := x \<rparr>)" "sv_inv (s\<lparr> timeoutProd := x, lastTimeout := y \<rparr>)" for x y
    using assms by (simp_all add: sv_inv_def)
  ultimately show ?thesis
    by (simp add: sv_timeoutEvent_def Let_def split_def)
qed

lemma one_client_do:
  assumes "sv_do t op s = Inr s'" "\<And>pkt. op \<noteq> Recv pkt" "\<And>time. op \<noteq> Tick time"
  shows "\<exists>fp. one_client fp s s'"
proof (cases op)
  case (Round now fp)
  then show ?thesis using assms(1) by (auto simp: bind_res_Inr_iff dest: round_one_client)
next
  case (Read k n)
  then show ?thesis using assms(1) with_client_one [of k] cs_readData_same by (fastforce simp: bind_res_Inr_iff sv_readData_def)
next
  case (Write k d)
  then show ?thesis using assms(1) with_client_one [of k] cs_sendData_same by (fastforce simp: bind_res_Inr_iff sv_sendData_def)
next
  case (Close k)
  then show ?thesis using assms(1) with_client_one [of k] cs_closeFlow_same by (fastforce simp: bind_res_Inr_iff sv_closeFlow_def)
next
  case (Accept fp)
  then show ?thesis using assms(1) by (auto simp: bind_res_Inr_iff dest: accept_one_client)
qed (use assms(2,3) in auto)

lemma sv_do_inv:
  assumes "sv_inv s" "sv_do t op s = Inr s'"
  shows "sv_inv s'"
proof (cases op)
  case (Recv pkt)
  then show ?thesis
    using assms by (auto simp: sv_recvPacketFrom_def bind_res_Inr_iff split: if_splits dest: sv_hello_inv sv_packet_inv)
next
  case (Tick time)
  then show ?thesis using assms sv_timeoutEvent_inv by auto
qed (use one_client_do [OF assms(2)] one_client_inv [OF assms(1)] in auto)

text \<open>A run: every operation with the environment at its time.\<close>

abbreviation sv_run :: "(tunnel_env \<times> sv_op) list \<Rightarrow> server \<Rightarrow> server res" where
  "sv_run \<equiv> do_all (\<lambda>(t, op). sv_do t op)"

lemma sv_run_inv: "sv_inv s \<Longrightarrow> sv_run ops s = Inr s' \<Longrightarrow> sv_inv s'"
  by (induction ops arbitrary: s) (auto simp: bind_res_Inr_iff dest: sv_do_inv)

lemma new_server_inv: "sv_inv new_server"
  by (simp add: sv_inv_def new_server_def)


lemma sv_do_keeps_nonce:
  assumes "sv_do t op s = Inr s'" "\<And>time. op \<noteq> Tick time" "nonce2FingerPrint s nonce = Some fp"
  shows "nonce2FingerPrint s' nonce = Some fp"
proof (cases "\<exists>pkt. op = Recv pkt")
  case True
  then obtain pkt where "op = Recv pkt" by blast
  then show ?thesis
    using assms(1,3)
    by (auto simp: sv_recvPacketFrom_def sv_hello_def sv_packet_def Let_def split_def sv_send_Inr bind_res_Inr_iff
        split: if_splits option.splits)
next
  case False
  then obtain f where "one_client f s s'"
    using one_client_do [OF assms(1)] assms(2) by blast
  then show ?thesis
    using assms(3) by (simp add: one_client_def same_tables_def)
qed

lemma sv_run_keeps_nonce:
  "sv_run ops s = Inr s' \<Longrightarrow> \<forall>t time. (t, Tick time) \<notin> set ops \<Longrightarrow> nonce2FingerPrint s nonce = Some fp \<Longrightarrow>
     nonce2FingerPrint s' nonce = Some fp"
proof (induction ops arbitrary: s)
  case (Cons x ops)
  obtain t op where x: "x = (t, op)" by fastforce
  then obtain s1 where s1: "sv_do t op s = Inr s1" "sv_run ops s1 = Inr s'"
    using Cons.prems(1) by (auto simp: bind_res_Inr_iff)
  have "op \<noteq> Tick time" for time
    using Cons.prems(2) x by auto
  then have "nonce2FingerPrint s1 nonce = Some fp"
    using s1(1) Cons.prems(3) by (blast intro: sv_do_keeps_nonce)
  then show ?case
    using Cons.IH [OF s1(2)] Cons.prems(2) by simp
qed simp

text \<open>A packet that says hello: no fingerprint, the flag, and a nonce.\<close>

definition is_hello :: "appInt64 \<Rightarrow> Packet \<Rightarrow> bool" where
  "is_hello nonce pkt \<longleftrightarrow> h_fingerPrint (p_header pkt) = EMPTY_FINGER_PRINT \<and> has_flag (h_flag (p_header pkt)) FLAG_SYN \<and>
     getNonce (p_optHeaders pkt) = nonce \<and> nonce \<noteq> 0"

lemma hello_new:
  assumes "is_hello nonce pkt" "nonce2FingerPrint s nonce = None"
  shows "sv_do t (Recv pkt) s = Inr s' \<longleftrightarrow> usable t (suitable t (fst (p_src_addr pkt))) \<and>
    s' = (snd (admit nonce s))\<lparr> sv_sent := sv_sent s @ [(suitable t (fst (p_src_addr pkt)),
      synack_packet t (suitable t (fst (p_src_addr pkt))) (ucast (nextFingerPrint s)) pkt, p_src_addr pkt)] \<rparr>"
  using assms admit_simps [of nonce s]
  by (auto simp: is_hello_def sv_recvPacketFrom_def sv_hello_def Let_def split_def bind_res_Inr_iff sv_send_Inr)

lemma hello_again:
  assumes "is_hello nonce pkt" "nonce2FingerPrint s nonce = Some fp"
  shows "sv_do t (Recv pkt) s = Inr s' \<longleftrightarrow> usable t (getPrimaryInterfaceId (te_mon t)) \<and>
    s' = s\<lparr> sv_sent := sv_sent s @ [(getPrimaryInterfaceId (te_mon t),
      synack_packet t (getPrimaryInterfaceId (te_mon t)) fp pkt, p_src_addr pkt)] \<rparr>"
  using assms by (auto simp: is_hello_def sv_recvPacketFrom_def sv_hello_def Let_def bind_res_Inr_iff sv_send_Inr)

lemma synack_simps [simp]:
  "h_fingerPrint (p_header (synack_packet t i fp pkt)) = fp" "h_flag (p_header (synack_packet t i fp pkt)) = FLAG_ACK OR FLAG_SYN"
  "h_ifcsrc (p_header (synack_packet t i fp pkt)) = i" "h_ifcdst (p_header (synack_packet t i fp pkt)) = h_ifcsrc (p_header pkt)"
  "p_optHeaders (synack_packet t i fp pkt) = getIpHeaders t"
  by (simp_all add: synack_packet_def)

text \<open>What a hello with a nonce is answered: the fingerprint, and where the answer goes.\<close>

definition answered :: "server \<Rightarrow> appInt16 \<Rightarrow> Packet \<Rightarrow> bool" where
  "answered s fp pkt \<longleftrightarrow> (\<exists>i p. sv_sent s \<noteq> [] \<and> last (sv_sent s) = (i, p, p_src_addr pkt) \<and>
     h_fingerPrint (p_header p) = fp \<and> h_flag (p_header p) = FLAG_ACK OR FLAG_SYN)"

lemma hello_answered:
  assumes "is_hello nonce pkt" "sv_do t (Recv pkt) s = Inr s'"
  shows "\<exists>fp. nonce2FingerPrint s' nonce = Some fp \<and> answered s' fp pkt \<and> clients s' = clients s \<and>
    (\<forall>f. nonce2FingerPrint s nonce = Some f \<longrightarrow> f = fp \<and> same_tables s s')"
proof (cases "nonce2FingerPrint s nonce")
  case None
  show ?thesis
    using hello_new [OF assms(1) None, THEN iffD1, OF assms(2)] None by (auto simp: answered_def)
next
  case (Some fp)
  show ?thesis
    using hello_again [OF assms(1) Some, THEN iffD1, OF assms(2)] Some by (auto simp: answered_def same_tables_def)
qed

text \<open>
  A hello said again is answered the same way.  Whatever happens between two
  hellos with one nonce, short of the timer that forgets closed clients, the
  second is answered with the fingerprint the first was answered with, and makes
  no new client.
\<close>

theorem hello_answered_again:
  assumes "is_hello nonce pkt" "sv_do t (Recv pkt) s = Inr s1"
    and "sv_run ops s1 = Inr s2" "\<forall>t time. (t, Tick time) \<notin> set ops"
    and "is_hello nonce pkt'" "sv_do t' (Recv pkt') s2 = Inr s3"
  shows "\<exists>fp. answered s1 fp pkt \<and> answered s3 fp pkt' \<and> clients s3 = clients s2 \<and>
     pendingClients s3 = pendingClients s2 \<and> nextFingerPrint s3 = nextFingerPrint s2"
proof -
  obtain fp where fp: "nonce2FingerPrint s1 nonce = Some fp" "answered s1 fp pkt"
    using hello_answered [OF assms(1,2)] by blast
  have "nonce2FingerPrint s2 nonce = Some fp"
    using sv_run_keeps_nonce [OF assms(3,4) fp(1)] .
  then show ?thesis
    using hello_answered [OF assms(5,6)] fp(2) by (auto simp: same_tables_def)
qed

text \<open>
  C18: a packet with a fingerprint reaches the client that has it and no other: an
  active client finds it at the end of its queue; a client that was only
  answered becomes active, with a multiplexer of its fingerprint, and finds it
  as the first in its queue; nothing else changes, and an unknown fingerprint
  changes nothing but for the answer to a client that is leaving.
\<close>

theorem server_routes_packet:
  assumes "sv_inv s" "h_fingerPrint (p_header pkt) = fp" "fp \<noteq> EMPTY_FINGER_PRINT" "sv_do t (Recv pkt) s = Inr s'"
  shows "(\<forall>f. f \<noteq> fp \<longrightarrow> clients s' f = clients s f \<and> pendingClients s' f = pendingClients s f) \<and>
     nonce2FingerPrint s' = nonce2FingerPrint s \<and> fingerPrint2Nonce s' = fingerPrint2Nonce s \<and>
     (case clients s fp of
        Some c \<Rightarrow> clients s' fp = Some (enqueue (pkt\<lparr> p_newFlow := False \<rparr>) c) \<and> sv_sent s' = sv_sent s
      | None \<Rightarrow>
          if pendingClients s fp = None
          then clients s' fp = None \<and> pendingClients s' fp = None \<and> (sv_sent s' = sv_sent s \<or> has_flag (h_flag (p_header pkt)) FLAG_CFN)
          else pendingClients s' fp = None \<and> sv_sent s' = sv_sent s \<and> (\<exists>c. clients s' fp = Some c \<and>
                 recvQueue c = [pkt\<lparr> p_newFlow := False \<rparr>] \<and> cs_mux c = Some (new_mux fp)))"
proof -
  have do: "\<exists>r. sv_packet t pkt s = Inr (r, s')"
    using assms(2-4) by (auto simp: sv_recvPacketFrom_def bind_res_Inr_iff)
  show ?thesis
  proof (cases "clients s fp")
    case None
    show ?thesis
    proof (cases "pendingClients s fp")
      case pend: (Some c)
      then have "c = new_client4server fp"
        using sv_invD(4) [OF assms(1)] by blast
      then show ?thesis
        using do None pend assms(2) by (auto simp: sv_packet_def Let_def cs_recvPacketFrom_def enqueue_def new_client4server_def)
    qed (use do None assms(2) in \<open>auto simp: sv_packet_def Let_def sv_send_Inr bind_res_Inr_iff split: if_splits\<close>)
  next
    case (Some c)
    moreover have "clientFingerPrint c = fp" "cs_mux c \<noteq> None"
      using sv_invD(2,3) [OF assms(1) Some] by auto
    ultimately show ?thesis
      using do assms(2) by (auto simp: sv_packet_def Let_def cs_recvPacketFrom_def)
  qed
qed

section \<open>A concrete server\<close>

definition hello_from :: "sockaddr_in \<Rightarrow> Packet" where
  "hello_from src = new_Packet\<lparr> p_header := reinit_header\<lparr> h_flag := FLAG_SYN, h_ifcsrc := 1 \<rparr>,
     p_optHeaders := [PacketNonceHeader 0 5], p_src_addr := src \<rparr>"

lemma hello_from_hello: "is_hello 5 (hello_from src)"
  by (simp add: is_hello_def hello_from_def has_flag_def FLAG_SYN_def EMPTY_FINGER_PRINT_def reinit_header_def)

definition after_hello :: server where
  "after_hello = (snd (admit 5 new_server))\<lparr> sv_sent := [(1, synack_packet sample_tunnel 1 1 (hello_from (8, 9)), (8, 9))] \<rparr>"

lemma first_hello: "sv_do sample_tunnel (Recv (hello_from (8, 9))) new_server = Inr after_hello"
proof -
  have "p_src_addr (hello_from (8, 9)) = (8, 9)"
    by (simp add: hello_from_def)
  moreover have "nonce2FingerPrint new_server 5 = None" "nextFingerPrint new_server = 1" "sv_sent new_server = []"
    by (simp_all add: new_server_def)
  ultimately show ?thesis
    using hello_new [OF hello_from_hello, of new_server sample_tunnel "(8, 9)" after_hello]
    by (simp add: after_hello_def sample_suitable sample_usable)
qed

lemma after_hello_inv: "sv_inv after_hello"
  using first_hello new_server_inv by (rule sv_do_inv [rotated])


lemma second_hello: "\<exists>s3. sv_do sample_tunnel (Recv (hello_from (10, 11))) after_hello = Inr s3"
proof -
  have "nonce2FingerPrint after_hello 5 = Some 1"
    by (simp add: after_hello_def new_server_def)
  then show ?thesis
    using hello_again [OF hello_from_hello, of after_hello 1 sample_tunnel "(10, 11)"]
    by (simp add: sample_primary sample_usable del: sv_do.simps)
qed

lemma hello_answered_again_witness:
  "\<exists>s3 fp. sv_do sample_tunnel (Recv (hello_from (10, 11))) after_hello = Inr s3 \<and>
     answered after_hello fp (hello_from (8, 9)) \<and> answered s3 fp (hello_from (10, 11)) \<and>
     clients s3 = clients after_hello \<and> pendingClients s3 = pendingClients after_hello"
proof -
  obtain s3 where s3: "sv_do sample_tunnel (Recv (hello_from (10, 11))) after_hello = Inr s3"
    using second_hello by blast
  have "sv_run [] after_hello = Inr after_hello" "\<forall>t time. (t, Tick time) \<notin> set ([] :: (tunnel_env \<times> sv_op) list)"
    by simp_all
  from hello_answered_again [OF hello_from_hello first_hello this hello_from_hello s3] s3 show ?thesis
    by blast
qed

lemma server_routes_packet_witness:
  "\<exists>s' c. sv_do sample_tunnel (Recv (cfn_answer\<lparr> p_header := reinit_header\<lparr> h_fingerPrint := 1 \<rparr> \<rparr>)) after_hello = Inr s' \<and>
     clients s' 1 = Some c \<and> cs_mux c = Some (new_mux 1) \<and> pendingClients s' 1 = None"
proof -
  let ?pkt = "cfn_answer\<lparr> p_header := reinit_header\<lparr> h_fingerPrint := 1 \<rparr> \<rparr>"
  have fp: "h_fingerPrint (p_header ?pkt) = 1" "(1 :: appInt16) \<noteq> EMPTY_FINGER_PRINT"
    by (simp_all add: EMPTY_FINGER_PRINT_def)
  have tables: "clients after_hello 1 = None" "pendingClients after_hello 1 \<noteq> None"
    by (simp_all add: after_hello_def new_server_def)
  then obtain s' where s': "sv_do sample_tunnel (Recv ?pkt) after_hello = Inr s'"
    by (auto simp: sv_recvPacketFrom_def sv_packet_def Let_def EMPTY_FINGER_PRINT_def)
  show ?thesis
    using server_routes_packet [OF after_hello_inv fp s'] s' tables by auto
qed

text \<open>
  The fingerprints wrap around: the 65536th client is answered with the empty
  one, under which every packet it sends is taken for a hello and dropped.
\<close>

lemma empty_fingerprint_lost:
  assumes "is_hello nonce pkt" "nonce2FingerPrint s nonce = None" "ucast (nextFingerPrint s) = EMPTY_FINGER_PRINT"
    and "sv_do t (Recv pkt) s = Inr s1"
    and "h_fingerPrint (p_header pkt') = EMPTY_FINGER_PRINT" "\<not> has_flag (h_flag (p_header pkt')) FLAG_SYN"
  shows "answered s1 EMPTY_FINGER_PRINT pkt" "sv_do t' (Recv pkt') s1 = Inr s1"
proof -
  show "answered s1 EMPTY_FINGER_PRINT pkt"
    using hello_new [OF assms(1,2), THEN iffD1, OF assms(4)] assms(3) by (auto simp: answered_def)
  show "sv_do t' (Recv pkt') s1 = Inr s1"
    using assms(5,6) by (simp add: sv_recvPacketFrom_def sv_hello_def Let_def)
qed

end
