(* ===== verification/Handshake.thy ===== *)
theory Handshake
  imports ClientProps ServerProps
begin

text \<open>
  Client and server together: three packets, each encoded, sent and decoded, take
  a client that says hello and a server that has not heard of it to a tunnel
  whose two ends agree on the fingerprint, and give the client's scheduler a
  channel for every pair of interfaces that reach each other.  The nonce with
  which a server recognises a hello does not tell its clients apart.
\<close>

section \<open>Adding the addresses of the other side\<close>

text \<open>What adding channels does to the client's scheduler.\<close>

definition adds_channels :: "scheduler \<Rightarrow> scheduler \<Rightarrow> bool" where
  "adds_channels s s' \<longleftrightarrow> remoteAddresses s' = remoteAddresses s \<and> doNotAddChannel s' = doNotAddChannel s \<and>
     (\<exists>xs. sc_out s' = sc_out s @ map Sch_Attach xs) \<and>
     (\<forall>x. channelHandlers s x \<noteq> None \<longrightarrow> channelHandlers s' x \<noteq> None)"

lemma adds_channels_refl [simp]: "adds_channels s s"
  unfolding adds_channels_def by (auto intro: exI [of _ "[]"])

lemma adds_channels_trans: "adds_channels a b \<Longrightarrow> adds_channels b c \<Longrightarrow> adds_channels a c"
  by (auto simp: adds_channels_def map_append [symmetric] simp del: map_append)

lemma chan_id_chId_of: "l < 16 \<Longrightarrow> (ucast (chan_id l r) :: appInt8) = chId_of l r"
  by (rule bit_word_eqI) (auto simp: chan_id_def chId_of_def bit_simps)

lemma addChannel_ok:
  assumes "l \<noteq> 0" "l < 16" "ie_monitor ie" "ie_ifc ie l" "r \<noteq> 0" "r < 16" "remoteAddresses s r \<noteq> None"
  shows "\<exists>s'. addChannel env ie l r s = Inr s' \<and> adds_channels s s' \<and> channelHandlers s' (chId_of l r) \<noteq> None"
proof -
  let ?ch = "(init_new_channel env l r)\<lparr> ch_registered := True \<rparr>"
  have id: "(ucast (ch_id ?ch) :: appInt8) = chId_of l r"
    using chan_id_chId_of [OF assms(2)]
    by (simp add: init_new_channel_def init_sack_chan_def init_chan_def chan.defs sack_chan.defs new_channel.defs)
  have pre: "r \<noteq> 0 \<and> r < REMOTE_ADDRESS_COUNT \<and> remoteAddresses s r \<noteq> None"
    "l \<noteq> 0 \<and> l < REMOTE_ADDRESS_COUNT \<and> (ie_monitor ie \<and> ie_ifc ie l \<or> ie_sender ie l)"
    using assms by (simp_all add: REMOTE_ADDRESS_COUNT_def)
  show ?thesis
  proof (cases "channelHandlers s (chId_of l r) = None")
    case True
    then show ?thesis
      unfolding addChannel_def Let_def id by (simp add: pre log_sched_def adds_channels_def) (metis list.simps(8,9))
  next
    case False
    then show ?thesis
      unfolding addChannel_def Let_def id by (simp add: pre)
  qed
qed

lemma add_channels_ok:
  assumes "\<forall>(l, r) \<in> set ps. l \<noteq> 0 \<and> l < 16 \<and> ie_ifc ie l \<and> r \<noteq> 0 \<and> r < 16 \<and> remoteAddresses s r \<noteq> None" "ie_monitor ie"
  shows "\<exists>s'. add_channels env ie ps s = Inr s' \<and> adds_channels s s' \<and>
    (\<forall>(l, r) \<in> set ps. channelHandlers s' (chId_of l r) \<noteq> None)"
  using assms
proof (induction ps arbitrary: s)
  case (Cons p ps)
  obtain l r where p: "p = (l, r)" by fastforce
  obtain s1 where s1: "addChannel env ie l r s = Inr s1" "adds_channels s s1" "channelHandlers s1 (chId_of l r) \<noteq> None"
    using addChannel_ok [of l ie r s env] Cons.prems by (auto simp: p)
  have "\<forall>(l, r) \<in> set ps. l \<noteq> 0 \<and> l < 16 \<and> ie_ifc ie l \<and> r \<noteq> 0 \<and> r < 16 \<and> remoteAddresses s1 r \<noteq> None"
    using Cons.prems(1) s1(2) by (auto simp: adds_channels_def)
  then obtain s2 where s2: "add_channels env ie ps s1 = Inr s2" "adds_channels s1 s2"
    "\<forall>(l, r) \<in> set ps. channelHandlers s2 (chId_of l r) \<noteq> None"
    using Cons.IH [OF _ Cons.prems(2)] by blast
  have "channelHandlers s2 (chId_of l r) \<noteq> None"
    using s1(3) s2(2) by (auto simp: adds_channels_def)
  then show ?case
    using s1 s2 by (auto simp: p intro: adds_channels_trans)
qed simp

lemma ifc_of_monitor:
  assumes "mon_inv (te_mon t)" "ie_ifc (te_ifc t) l"
  shows "l \<noteq> 0" "l < 16"
proof -
  obtain x where "interfaceSender (te_mon t) l = Some x"
    using assms(2) by (auto simp: te_ifc_def ifc_env_of_def)
  then have "ip2InterfaceIdMap (te_mon t) (src_ip x) = Some l"
    using assms(1) by (simp add: mon_inv_def)
  from mon_invD [OF assms(1) this] show "l \<noteq> 0" "l < 16"
    by (auto simp: INTERFACE_SENDER_CNT_def)
qed

lemma addRemote_ok:
  assumes inv: "mon_inv (te_mon t)" and k: "k \<noteq> 0" "k < 16" "remoteAddresses s k = None" and go: "\<not> doNotAddChannel s"
  shows "\<exists>s'. addRemote env (te_ifc t) k a s = Inr s' \<and> adds_channels (s\<lparr> remoteAddresses := (remoteAddresses s)(k \<mapsto> a) \<rparr>) s' \<and>
    (\<forall>l. ie_ifc (te_ifc t) l \<and> ie_reachable (te_ifc t) l (ra_ip a) \<longrightarrow> channelHandlers s' (chId_of l k) \<noteq> None)"
proof -
  let ?s = "s\<lparr> remoteAddresses := (remoteAddresses s)(k \<mapsto> a) \<rparr>"
  let ?ls = "filter (\<lambda>l. ie_ifc (te_ifc t) l \<and> ie_reachable (te_ifc t) l (ra_ip a)) ifc_ids"
  have mon: "ie_monitor (te_ifc t)"
    by (simp add: te_ifc_def ifc_env_of_def)
  have ps: "\<forall>(l, r) \<in> set (map (\<lambda>l. (l, k)) ?ls). l \<noteq> 0 \<and> l < 16 \<and> ie_ifc (te_ifc t) l \<and> r \<noteq> 0 \<and> r < 16 \<and> remoteAddresses ?s r \<noteq> None"
    using k ifc_of_monitor [OF inv] by auto
  obtain s' where s': "add_channels env (te_ifc t) (map (\<lambda>l. (l, k)) ?ls) ?s = Inr s'" "adds_channels ?s s'"
    "\<forall>(l, r) \<in> set (map (\<lambda>l. (l, k)) ?ls). channelHandlers s' (chId_of l r) \<noteq> None"
    using add_channels_ok [OF ps mon] by blast
  have "l \<in> set ?ls" if "ie_ifc (te_ifc t) l" "ie_reachable (te_ifc t) l (ra_ip a)" for l
  proof -
    have "unat l \<in> {0..<16}" "l = of_nat (unat l)"
      using ifc_of_monitor(2) [OF inv that(1)] by (simp_all add: word_less_nat_alt)
    then have "l \<in> set ifc_ids"
      by (auto simp: ifc_ids_def intro: rev_image_eqI)
    then show ?thesis using that by simp
  qed
  then show ?thesis
    using s' k go mon by (auto simp: addRemote_def REMOTE_ADDRESS_COUNT_def)
qed

lemma cl_sched_attaches:
  assumes "sc_out s = map Sch_Attach xs"
  shows "cl_sched s c = Inr (c\<lparr> ifcSch := s\<lparr> sc_out := [] \<rparr>, timeoutprod := fold tp_attach xs (timeoutprod c) \<rparr>)"
proof -
  have "do_all cl_sched_event (map Sch_Attach xs) c = Inr (c\<lparr> timeoutprod := fold tp_attach xs (timeoutprod c) \<rparr>)" for c
    by (induction xs arbitrary: c) simp_all
  then show ?thesis
    using assms by (simp add: cl_sched_def)
qed

lemma add_remotes_ok:
  assumes inv: "mon_inv (te_mon t)"
    and "\<forall>h \<in> set hs. opt_type h = 2 \<and> ip_ifcId h \<noteq> 0 \<and> ip_ifcId h < 16 \<and> remoteAddresses (ifcSch c) (ip_ifcId h) = None"
    and "distinct (map ip_ifcId hs)" "\<not> doNotAddChannel (ifcSch c)" "sc_out (ifcSch c) = []"
  shows "\<exists>s tp. add_remotes t port hs c = Inr (c\<lparr> ifcSch := s, timeoutprod := tp \<rparr>) \<and>
    (\<forall>x. channelHandlers (ifcSch c) x \<noteq> None \<longrightarrow> channelHandlers s x \<noteq> None) \<and>
    (\<forall>k. k \<notin> ip_ifcId ` set hs \<longrightarrow> remoteAddresses s k = remoteAddresses (ifcSch c) k) \<and>
    (\<forall>h \<in> set hs. remoteAddresses s (ip_ifcId h) = Some \<lparr> ra_ip = htonl (ip_ip h), ra_port = ucast port \<rparr> \<and>
       (\<forall>l. ie_ifc (te_ifc t) l \<and> ie_reachable (te_ifc t) l (htonl (ip_ip h)) \<longrightarrow>
          channelHandlers s (chId_of l (ip_ifcId h)) \<noteq> None))"
  using assms(2-)
proof (induction hs arbitrary: c)
  case Nil
  show ?case by (intro exI [of _ "ifcSch c"] exI [of _ "timeoutprod c"]) simp
next
  case (Cons h hs)
  let ?a = "\<lparr> ra_ip = htonl (ip_ip h), ra_port = ucast port \<rparr>" and ?k = "ip_ifcId h"
  let ?s = "(ifcSch c)\<lparr> remoteAddresses := (remoteAddresses (ifcSch c))(?k \<mapsto> ?a) \<rparr>"
  have h: "opt_type h = 2" "?k \<noteq> 0" "?k < 16" "remoteAddresses (ifcSch c) ?k = None"
    using Cons.prems(1) by simp_all
  obtain s1 where s1: "addRemote (cl_env t c) (te_ifc t) ?k ?a (ifcSch c) = Inr s1" "adds_channels ?s s1"
    "\<forall>l. ie_ifc (te_ifc t) l \<and> ie_reachable (te_ifc t) l (htonl (ip_ip h)) \<longrightarrow> channelHandlers s1 (chId_of l ?k) \<noteq> None"
    using addRemote_ok [OF inv h(2-4) Cons.prems(3), of "cl_env t c" ?a] by auto
  then obtain xs where xs: "sc_out s1 = map Sch_Attach xs"
    using Cons.prems(4) by (auto simp: adds_channels_def)
  let ?c = "c\<lparr> ifcSch := s1\<lparr> sc_out := [] \<rparr>, timeoutprod := fold tp_attach xs (timeoutprod c) \<rparr>"
  have sched: "cl_sched s1 c = Inr ?c"
    by (rule cl_sched_attaches [OF xs])
  have frame: "remoteAddresses s1 = (remoteAddresses (ifcSch c))(?k \<mapsto> ?a)" "\<not> doNotAddChannel s1"
    "\<forall>x. channelHandlers (ifcSch c) x \<noteq> None \<longrightarrow> channelHandlers s1 x \<noteq> None"
    using s1(2) Cons.prems(3) by (simp_all add: adds_channels_def)
  have fresh: "?k \<notin> ip_ifcId ` set hs" "distinct (map ip_ifcId hs)"
    using Cons.prems(2) by auto
  have "\<forall>h' \<in> set hs. opt_type h' = 2 \<and> ip_ifcId h' \<noteq> 0 \<and> ip_ifcId h' < 16 \<and> remoteAddresses (ifcSch ?c) (ip_ifcId h') = None"
    using Cons.prems(1) fresh(1) by (auto simp: frame(1) rev_image_eqI)
  then obtain s tp where s: "add_remotes t port hs ?c = Inr (?c\<lparr> ifcSch := s, timeoutprod := tp \<rparr>)"
    "\<forall>x. channelHandlers (ifcSch ?c) x \<noteq> None \<longrightarrow> channelHandlers s x \<noteq> None"
    "\<forall>k. k \<notin> ip_ifcId ` set hs \<longrightarrow> remoteAddresses s k = remoteAddresses (ifcSch ?c) k"
    "\<forall>h \<in> set hs. remoteAddresses s (ip_ifcId h) = Some \<lparr> ra_ip = htonl (ip_ip h), ra_port = ucast port \<rparr> \<and>
       (\<forall>l. ie_ifc (te_ifc t) l \<and> ie_reachable (te_ifc t) l (htonl (ip_ip h)) \<longrightarrow> channelHandlers s (chId_of l (ip_ifcId h)) \<noteq> None)"
    using Cons.IH [of ?c] fresh(2) frame(2) by auto
  have step: "add_remotes t port (h # hs) c = Inr (c\<lparr> ifcSch := s, timeoutprod := tp \<rparr>)"
    using h(1) s1(1) sched s(1) by simp
  have chans: "\<forall>x. channelHandlers s1 x \<noteq> None \<longrightarrow> channelHandlers s x \<noteq> None"
    using s(2) by simp
  show ?case
    by (intro exI [of _ s] exI [of _ tp] conjI step) (use s(3,4) chans frame s1(3) fresh(1) in auto)
qed

section \<open>The addresses a server announces\<close>

definition ip_header_of :: "tunnel_env \<Rightarrow> appInt8 \<Rightarrow> opt_header" where
  "ip_header_of t i = PacketIpHeader (te_pad t) i 0 (ntohl (src_ip (the (interfaceSender (te_mon t) i))))"

definition live_ids :: "tunnel_env \<Rightarrow> appInt8 list" where
  "live_ids t = filter (\<lambda>i. interfaceSender (te_mon t) i \<noteq> None) sender_ids"

lemma getIpHeaders_eq: "getIpHeaders t = rev (map (ip_header_of t) (live_ids t))"
proof -
  have "foldl (\<lambda>hs i. case interfaceSender (te_mon t) i of None \<Rightarrow> hs
        | Some s \<Rightarrow> PacketIpHeader (te_pad t) i 0 (ntohl (src_ip s)) # hs) hs is
      = rev (map (ip_header_of t) (filter (\<lambda>i. interfaceSender (te_mon t) i \<noteq> None) is)) @ hs" for hs "is"
    by (induction "is" arbitrary: hs) (auto simp: ip_header_of_def split: option.split)
  then show ?thesis
    by (simp add: getIpHeaders_def live_ids_def)
qed

lemma swap_bytes: "(be_word (rev (be_bytes 4 w)) :: appInt32)
    = push_bit 24 (w AND 0xFF) OR push_bit 16 (drop_bit 8 w AND 0xFF) OR push_bit 8 (drop_bit 16 w AND 0xFF) OR (drop_bit 24 w AND 0xFF)"
proof -
  have "push_bit 8 (push_bit 8 (push_bit 8 (push_bit 8 0 OR ucast (ucast w :: appByte)) OR ucast (ucast (drop_bit 8 w) :: appByte))
      OR ucast (ucast (drop_bit 16 w) :: appByte)) OR ucast (ucast (drop_bit 24 w) :: appByte)
    = push_bit 24 (w AND mask 8) OR push_bit 16 (drop_bit 8 w AND mask 8) OR push_bit 8 (drop_bit 16 w AND mask 8) OR
        ((drop_bit 24 w AND mask 8) :: appInt32)"
    by (rule bit_word_eqI) (auto simp: bit_simps)
  then show ?thesis
    by (simp add: be_word_def be_bytes_def upt_rec mask_eq_exp_minus_1)
qed

lemma swapped_bits:
  fixes w :: appInt32
  assumes "j < 8"
  shows "bit (be_word (rev (be_bytes 4 w)) :: appInt32) j = bit w (24 + j)"
    and "bit (be_word (rev (be_bytes 4 w)) :: appInt32) (8 + j) = bit w (16 + j)"
    and "bit (be_word (rev (be_bytes 4 w)) :: appInt32) (16 + j) = bit w (8 + j)"
    and "bit (be_word (rev (be_bytes 4 w)) :: appInt32) (24 + j) = bit w j"
proof -
  have m: "(0xFF :: appInt32) = mask 8"
    by (simp add: mask_eq_exp_minus_1)
  show "bit (be_word (rev (be_bytes 4 w)) :: appInt32) j = bit w (24 + j)"
    "bit (be_word (rev (be_bytes 4 w)) :: appInt32) (8 + j) = bit w (16 + j)"
    "bit (be_word (rev (be_bytes 4 w)) :: appInt32) (16 + j) = bit w (8 + j)"
    "bit (be_word (rev (be_bytes 4 w)) :: appInt32) (24 + j) = bit w j"
    using assms by (simp_all add: swap_bytes m bit_simps)
qed

lemma htonl_ntohl [simp]: "htonl (ntohl w) = w"
proof (rule bit_word_eqI)
  fix n assume "n < LENGTH(32)"
  moreover obtain q j where "n = 8 * q + j" "j < 8"
    by (metis div_mult_mod_eq mod_less_divisor mult.commute zero_less_numeral)
  ultimately consider "n = j" "j < 8" | "n = 8 + j" "j < 8" | "n = 16 + j" "j < 8" | "n = 24 + j" "j < 8"
    by (cases "q = 0"; cases "q = 1"; cases "q = 2"; cases "q = 3") auto
  then show "bit (htonl (ntohl w)) n = bit w n"
    by cases (simp_all add: htonl_def ntohl_def swapped_bits)
qed

section \<open>The packets of the handshake\<close>

lemma arrives_simps [simp]:
  "h_flag (p_header (arrives pad src dst p)) = h_flag (p_header p)"
  "h_fingerPrint (p_header (arrives pad src dst p)) = h_fingerPrint (p_header p)"
  "h_ifcsrc (p_header (arrives pad src dst p)) = h_ifcsrc (p_header p)"
  "h_ifcdst (p_header (arrives pad src dst p)) = h_ifcdst (p_header p)"
  "p_src_addr (arrives pad src dst p) = src"
  "p_optHeaders (arrives pad src dst p) = rev (map (decoded_opt pad) (p_optHeaders p))"
  "p_processed (arrives pad src dst p) = False"
  by (simp_all add: arrives_def received_def set_OHLen_def new_Packet_def)

lemma nonce_ip: "(ucast (client_nonce c) :: appInt32) = ra_ip (remoteAddr c)"
  by (rule bit_word_eqI) (simp add: client_nonce_def bit_simps)

lemma nonce_nonzero: "ra_ip (remoteAddr c) \<noteq> 0 \<Longrightarrow> client_nonce c \<noteq> 0"
  using nonce_ip [of c] by auto

lemma syn_arrives_hello:
  assumes "ra_ip remote \<noteq> 0"
  shows "is_hello (client_nonce (new_client remote)) (arrives pad src dst (syn_packet t i (new_client remote)))"
  using nonce_nonzero [of "new_client remote"] assms
  by (simp add: is_hello_def syn_packet_def new_client_def has_flag_def FLAG_SYN_def)

text \<open>
  C36: the nonce of a client is the address of the server and nothing of its own.
  Any two clients that connect to one server, from whatever hosts, say hello with
  the same nonce; until the first is forgotten the server answers the second with
  the fingerprint of the first, and makes no client for it.
\<close>

theorem clients_share_fingerprint:
  assumes "ra_ip remote \<noteq> 0"
    and "handShake1 t1 now1 (new_client remote) = Inr c1" "cl_out c1 = [Cl_Send i1 p1 remote]"
    and "handShake1 t2 now2 (new_client remote) = Inr c2" "cl_out c2 = [Cl_Send i2 p2 remote]"
    and "sv_do ts (Recv (arrives pad1 src1 dst1 p1)) s = Inr s1"
    and "sv_run ops s1 = Inr s2" "\<forall>t time. (t, Tick time) \<notin> set ops"
    and "sv_do ts' (Recv (arrives pad2 src2 dst2 p2)) s2 = Inr s3"
  shows "\<exists>fp. answered s1 fp (arrives pad1 src1 dst1 p1) \<and> answered s3 fp (arrives pad2 src2 dst2 p2) \<and>
     clients s3 = clients s2 \<and> pendingClients s3 = pendingClients s2"
proof -
  have p: "p1 = syn_packet t1 i1 (new_client remote)" "p2 = syn_packet t2 i2 (new_client remote)"
    using assms(2-5) by (auto simp: handShake1_effect new_client_def)
  obtain fp where fp: "nonce2FingerPrint s1 (client_nonce (new_client remote)) = Some fp"
    "answered s1 fp (arrives pad1 src1 dst1 p1)"
    using hello_answered [OF syn_arrives_hello [OF assms(1)] assms(6) [unfolded p]] unfolding p by blast
  have "nonce2FingerPrint s2 (client_nonce (new_client remote)) = Some fp"
    using sv_run_keeps_nonce [OF assms(7,8) fp(1)] .
  then show ?thesis
    using hello_answered [OF syn_arrives_hello [OF assms(1)] assms(9) [unfolded p]] fp(2)
    unfolding p by (auto simp: same_tables_def)
qed

lemma live_ids_props:
  assumes "mon_inv (te_mon t)"
  shows "distinct (live_ids t)" "i \<in> set (live_ids t) \<longleftrightarrow> interfaceSender (te_mon t) i \<noteq> None"
    and "i \<in> set (live_ids t) \<Longrightarrow> i \<noteq> 0" "i \<in> set (live_ids t) \<Longrightarrow> i < 16"
proof -
  have "distinct sender_ids"
    by (simp add: sender_ids_def distinct_map inj_on_def word_unat_eq_iff unat_of_nat_small)
  then show "distinct (live_ids t)"
    by (simp add: live_ids_def)
  have "i \<noteq> 0 \<and> i < 16" if "interfaceSender (te_mon t) i \<noteq> None"
    using ifc_of_monitor [OF assms, of i] that by (simp add: te_ifc_def ifc_env_of_def)
  moreover have "i \<in> set sender_ids" if "i < 16"
    using that by (auto simp: sender_ids_def word_less_nat_alt intro!: rev_image_eqI [of "unat i"])
  ultimately show "i \<in> set (live_ids t) \<longleftrightarrow> interfaceSender (te_mon t) i \<noteq> None"
    "i \<in> set (live_ids t) \<Longrightarrow> i \<noteq> 0" "i \<in> set (live_ids t) \<Longrightarrow> i < 16"
    by (auto simp: live_ids_def)
qed

lemma usable_nonzero: "mon_inv (te_mon t) \<Longrightarrow> usable t i \<Longrightarrow> i \<noteq> 0"
  using ifc_of_monitor(1) [of t i] by (auto simp: usable_def te_ifc_def ifc_env_of_def)

section \<open>Three packets\<close>

lemma synack_flags: "all_flags (FLAG_ACK OR FLAG_SYN) (FLAG_SYN OR FLAG_ACK)"
  by (simp add: all_flags_def FLAG_ACK_def FLAG_SYN_def)

text \<open>The client takes the answer of a server whose interfaces it does not know yet.\<close>

lemma client_takes_answer:
  assumes inv: "mon_inv (te_mon tc)" "mon_inv (te_mon ts)" and i: "usable tc (suitable tc (ra_ip (remoteAddr c)))"
    and reply: "reply = synack_packet ts j fp hello" "j \<noteq> 0" "h_ifcsrc (p_header hello) \<noteq> 0"
    and fresh: "remoteAddresses (ifcSch c) = (\<lambda>_. None)" "\<not> doNotAddChannel (ifcSch c)" "sc_out (ifcSch c) = []"
  shows "\<exists>c2 ack i. recvPacketFromQueue tc (arrives pad src dst reply) c = Inr (0, c2) \<and>
     cl_out c2 = cl_out c @ [Cl_Send i ack (remoteAddr c)] \<and> cl_connected c2 \<and> waitToConnect c2 = waitToConnect c + 1 \<and>
     cl_fingerPrint c2 = fp \<and> fingerPrint (connectedMux c2) = fp \<and>
     ack = ack_packet tc i j fp \<and>
     (\<forall>k x. interfaceSender (te_mon ts) k = Some x \<longrightarrow>
        remoteAddresses (ifcSch c2) k = Some \<lparr> ra_ip = src_ip x, ra_port = ucast (snd src) \<rparr> \<and>
        (\<forall>l. ie_ifc (te_ifc tc) l \<and> ie_reachable (te_ifc tc) l (src_ip x) \<longrightarrow>
           channelHandlers (ifcSch c2) (chId_of l k) \<noteq> None))"
proof -
  let ?i = "suitable tc (ra_ip (remoteAddr c))" and ?hs = "map (decoded_opt pad \<circ> ip_header_of ts) (live_ids ts)"
  let ?p = "arrives pad src dst reply"
  let ?c1 = "c\<lparr> cl_fingerPrint := fp, connectedMux := (connectedMux c)\<lparr> fingerPrint := fp \<rparr>,
    cl_out := cl_out c @ [Cl_Send ?i (ack_packet tc ?i j fp) (remoteAddr c)] \<rparr>"
  have hs: "p_optHeaders ?p = ?hs"
    by (simp add: reply(1) getIpHeaders_eq rev_map)
  have hdr: "opt_type ((decoded_opt pad \<circ> ip_header_of ts) k) = 2" "ip_ifcId ((decoded_opt pad \<circ> ip_header_of ts) k) = k"
    "ip_ip ((decoded_opt pad \<circ> ip_header_of ts) k) = ntohl (src_ip (the (interfaceSender (te_mon ts) k)))" for k
    by (simp_all add: ip_header_of_def)
  have ids: "map ip_ifcId ?hs = live_ids ts"
    by (simp add: hdr comp_def ip_header_of_def)
  obtain sch tp where sch: "add_remotes tc (snd src) ?hs ?c1 = Inr (?c1\<lparr> ifcSch := sch, timeoutprod := tp \<rparr>)"
    "\<forall>h \<in> set ?hs. remoteAddresses sch (ip_ifcId h) = Some \<lparr> ra_ip = htonl (ip_ip h), ra_port = ucast (snd src) \<rparr> \<and>
       (\<forall>l. ie_ifc (te_ifc tc) l \<and> ie_reachable (te_ifc tc) l (htonl (ip_ip h)) \<longrightarrow> channelHandlers sch (chId_of l (ip_ifcId h)) \<noteq> None)"
  proof -
    have "\<forall>h \<in> set ?hs. opt_type h = 2 \<and> ip_ifcId h \<noteq> 0 \<and> ip_ifcId h < 16 \<and> remoteAddresses (ifcSch ?c1) (ip_ifcId h) = None"
      using live_ids_props(3,4) [OF inv(2)] fresh(1) by (auto simp: ip_header_of_def)
    moreover have "distinct (map ip_ifcId ?hs)"
      unfolding ids by (rule live_ids_props(1) [OF inv(2)])
    ultimately show thesis
      using add_remotes_ok [OF inv(1), of ?hs ?c1 "snd src"] fresh(2,3) that by auto
  qed
  let ?c2 = "?c1\<lparr> ifcSch := sch, timeoutprod := tp, cl_connected := True, syncTries := 0, waitToConnect := waitToConnect c + 1 \<rparr>"
  have fields: "h_fingerPrint (p_header ?p) = fp" "h_ifcsrc (p_header ?p) = j" "p_src_addr ?p = src"
    by (simp_all add: reply(1))
  have shake: "handShake2 tc ?p c = Inr ?c2"
    using i reply(2) sch(1) unfolding handShake2_def Let_def hs fields by (simp add: to_remote_def cl_emit_def)
  have recv: "recvPacketFromQueue tc ?p c = Inr (0, ?c2)"
    using reply shake synack_flags by (simp add: recvPacketFromQueue_def)
  have known: "remoteAddresses sch k = Some \<lparr> ra_ip = src_ip x, ra_port = ucast (snd src) \<rparr> \<and>
      (\<forall>l. ie_ifc (te_ifc tc) l \<and> ie_reachable (te_ifc tc) l (src_ip x) \<longrightarrow> channelHandlers sch (chId_of l k) \<noteq> None)"
    if "interfaceSender (te_mon ts) k = Some x" for k x
  proof -
    have "(decoded_opt pad \<circ> ip_header_of ts) k \<in> set ?hs"
      using live_ids_props(2) [OF inv(2), of k] that by auto
    from bspec [OF sch(2) this] show ?thesis
      unfolding hdr that by simp
  qed
  show ?thesis
    by (intro exI [of _ ?c2] exI [of _ "ack_packet tc ?i j fp"] exI [of _ ?i] conjI recv) (use known in auto)
qed

text \<open>
  C15: three packets make a tunnel.  A client whose hello leaves and a server that
  has not heard of it, whose next fingerprint is neither 0 nor in use, reach a
  state in which the client's caller is told that it is connected, both ends and
  both their multiplexers have the same fingerprint, the client's scheduler knows
  the address of every interface of the server, and has a channel for every pair
  of a server's interface and an own interface that reaches it.  Every packet
  arrives as the decoder gives it.
\<close>

theorem handshake_connects:
  assumes client: "mon_inv (te_mon tc)" "ra_ip remote \<noteq> 0" "handShake1 tc now (new_client remote) = Inr c1"
    and server: "mon_inv (te_mon ts)" "nonce2FingerPrint s (client_nonce c1) = None" "usable ts (suitable ts (fst caddr))"
    and fp: "fp = ucast (nextFingerPrint s)" "fp \<noteq> EMPTY_FINGER_PRINT" "clients s fp = None"
  shows "\<exists>i syn s1 j reply c2 i' ack s2 c. cl_out c1 = [Cl_Send i syn remote] \<and>
     sv_do ts (Recv (arrives pad1 caddr saddr syn)) s = Inr s1 \<and> sv_sent s1 = sv_sent s @ [(j, reply, caddr)] \<and>
     recvPacketFromQueue tc (arrives pad2 saddr caddr reply) c1 = Inr (0, c2) \<and>
     cl_out c2 = cl_out c1 @ [Cl_Send i' ack remote] \<and> (\<exists>c3. startClient_wait c2 = Inr (True, c3)) \<and>
     sv_do ts (Recv (arrives pad3 caddr saddr ack)) s1 = Inr s2 \<and>
     cl_fingerPrint c2 = fp \<and> fingerPrint (connectedMux c2) = fp \<and>
     clients s2 fp = Some c \<and> clientFingerPrint c = fp \<and> cs_mux c = Some (new_mux fp) \<and>
     (\<forall>k x. interfaceSender (te_mon ts) k = Some x \<longrightarrow>
        remoteAddresses (ifcSch c2) k = Some \<lparr> ra_ip = src_ip x, ra_port = ucast (snd saddr) \<rparr> \<and>
        (\<forall>l. ie_ifc (te_ifc tc) l \<and> ie_reachable (te_ifc tc) l (src_ip x) \<longrightarrow>
           channelHandlers (ifcSch c2) (chId_of l k) \<noteq> None))"
proof -
  let ?n = "new_client remote" and ?i = "suitable tc (ra_ip remote)" and ?j = "suitable ts (fst caddr)"
  let ?syn = "syn_packet tc ?i ?n" and ?nonce = "client_nonce (new_client remote)"
  have i: "usable tc ?i" and c1: "c1 = ?n\<lparr> syncTries := 1, syncTime := now, cl_out := [Cl_Send ?i ?syn remote] \<rparr>"
    using client(3) by (simp_all add: handShake1_effect new_client_def)
  have nonce: "client_nonce c1 = ?nonce"
    by (simp add: c1 client_nonce_def)
  let ?hello = "arrives pad1 caddr saddr ?syn" and ?reply = "synack_packet ts ?j fp (arrives pad1 caddr saddr ?syn)"
  let ?s1 = "(snd (admit ?nonce s))\<lparr> sv_sent := sv_sent s @ [(?j, ?reply, caddr)] \<rparr>"
  have s1: "sv_do ts (Recv ?hello) s = Inr ?s1"
    using hello_new [OF syn_arrives_hello [OF client(2)] server(2) [unfolded nonce], of ts pad1 caddr saddr tc ?i ?s1] server(3) fp(1)
    by simp
  have j: "?j \<noteq> 0" and src: "h_ifcsrc (p_header ?hello) \<noteq> 0"
    using usable_nonzero [OF server(1,3)] usable_nonzero [OF client(1) i] by (simp_all add: syn_packet_def)
  obtain c2 ack i' where c2: "recvPacketFromQueue tc (arrives pad2 saddr caddr ?reply) c1 = Inr (0, c2)"
    "cl_out c2 = cl_out c1 @ [Cl_Send i' ack remote]" "cl_connected c2" "waitToConnect c2 = waitToConnect c1 + 1"
    "cl_fingerPrint c2 = fp" "fingerPrint (connectedMux c2) = fp" "ack = ack_packet tc i' ?j fp"
    "\<forall>k x. interfaceSender (te_mon ts) k = Some x \<longrightarrow>
        remoteAddresses (ifcSch c2) k = Some \<lparr> ra_ip = src_ip x, ra_port = ucast (snd saddr) \<rparr> \<and>
        (\<forall>l. ie_ifc (te_ifc tc) l \<and> ie_reachable (te_ifc tc) l (src_ip x) \<longrightarrow>
           channelHandlers (ifcSch c2) (chId_of l k) \<noteq> None)"
    using client_takes_answer [OF client(1) server(1) _ refl j src, of c1 pad2 saddr caddr fp] i
    by (auto simp: c1 new_client_def new_scheduler_def)
  let ?ack = "(arrives pad3 caddr saddr ack)\<lparr> p_newFlow := False \<rparr>"
  let ?c = "cs_recvPacketFrom ?ack ((new_client4server fp)\<lparr> cs_mux := Some (new_mux fp) \<rparr>)"
  let ?s2 = "?s1\<lparr> pendingClients := (pendingClients ?s1)(fp := None), clients := (clients ?s1)(fp \<mapsto> ?c) \<rparr>"
  have ack_fp: "h_fingerPrint (p_header ack) = fp"
    by (simp add: c2(7) ack_packet_def)
  have s2: "sv_do ts (Recv (arrives pad3 caddr saddr ack)) ?s1 = Inr ?s2"
    using fp by (simp add: sv_recvPacketFrom_def sv_packet_def Let_def ack_fp)
  have c: "clientFingerPrint ?c = fp" "cs_mux ?c = Some (new_mux fp)"
    by (simp_all add: cs_recvPacketFrom_def enqueue_def new_client4server_def)
  have wait: "\<exists>c3. startClient_wait c2 = Inr (True, c3)"
    using c2(3,4) by (simp add: startClient_wait_def)
  have out: "cl_out c1 = [Cl_Send ?i ?syn remote]" "sv_sent ?s1 = sv_sent s @ [(?j, ?reply, caddr)]" "clients ?s2 fp = Some ?c"
    by (simp_all add: c1)
  show ?thesis
    using out(1) s1 out(2) c2(1,2) wait s2 c2(5,6) out(3) c c2(8) by blast
qed

lemma handshake_connects_witness:
  "\<exists>i syn s1 j reply c2 i' ack s2 c. cl_out greeted = [Cl_Send i syn sample_remote] \<and>
     sv_do sample_tunnel (Recv (arrives 0 (8, 9) (5, 6) syn)) new_server = Inr s1 \<and> sv_sent s1 = [(j, reply, (8, 9))] \<and>
     recvPacketFromQueue sample_tunnel (arrives 0 (5, 6) (8, 9) reply) greeted = Inr (0, c2) \<and>
     cl_out c2 = cl_out greeted @ [Cl_Send i' ack sample_remote] \<and> (\<exists>c3. startClient_wait c2 = Inr (True, c3)) \<and>
     sv_do sample_tunnel (Recv (arrives 0 (8, 9) (5, 6) ack)) s1 = Inr s2 \<and>
     cl_fingerPrint c2 = 1 \<and> clients s2 1 = Some c \<and> cs_mux c = Some (new_mux 1) \<and>
     remoteAddresses (ifcSch c2) 1 = Some \<lparr> ra_ip = 7, ra_port = 6 \<rparr>"
proof -
  have "ra_ip sample_remote \<noteq> 0" "nonce2FingerPrint new_server (client_nonce greeted) = None"
    "usable sample_tunnel (suitable sample_tunnel (fst (8, 9 :: appInt16)))"
    "(1 :: appInt16) = ucast (nextFingerPrint new_server)" "(1 :: appInt16) \<noteq> EMPTY_FINGER_PRINT" "clients new_server 1 = None"
    by (simp_all add: sample_remote_def new_server_def sample_suitable sample_usable EMPTY_FINGER_PRINT_def)
  from handshake_connects [OF sample_mon_inv this(1) greets sample_mon_inv this(2-6), of 0 "(5, 6)" 0 0]
  obtain i syn s1 j reply c2 i' ack s2 c where h: "cl_out greeted = [Cl_Send i syn sample_remote]"
     "sv_do sample_tunnel (Recv (arrives 0 (8, 9) (5, 6) syn)) new_server = Inr s1" "sv_sent s1 = sv_sent new_server @ [(j, reply, (8, 9))]"
     "recvPacketFromQueue sample_tunnel (arrives 0 (5, 6) (8, 9) reply) greeted = Inr (0, c2)"
     "cl_out c2 = cl_out greeted @ [Cl_Send i' ack sample_remote]" "\<exists>c3. startClient_wait c2 = Inr (True, c3)"
     "sv_do sample_tunnel (Recv (arrives 0 (8, 9) (5, 6) ack)) s1 = Inr s2"
     "cl_fingerPrint c2 = 1" "clients s2 1 = Some c" "cs_mux c = Some (new_mux 1)"
     "\<forall>k x. interfaceSender (te_mon sample_tunnel) k = Some x \<longrightarrow> remoteAddresses (ifcSch c2) k = Some \<lparr> ra_ip = src_ip x, ra_port = 6 \<rparr>"
    by auto
  have "interfaceSender (te_mon sample_tunnel) 1 = Some (sample_sender\<lparr> opSock := True \<rparr>)"
    by (simp add: sample_tunnel_def)
  with h(11) have "remoteAddresses (ifcSch c2) 1 = Some \<lparr> ra_ip = 7, ra_port = 6 \<rparr>"
    by (simp add: sample_sender_def SendThroughInterface_def)
  moreover have "sv_sent new_server = []"
    by (simp add: new_server_def)
  ultimately show ?thesis
    using h(1-10) by fastforce
qed

lemma clients_share_fingerprint_witness:
  "\<exists>s1 s3 fp. sv_do sample_tunnel (Recv (arrives 0 (8, 9) (5, 6) greeting)) new_server = Inr s1 \<and>
     sv_do sample_tunnel (Recv (arrives 0 (10, 11) (5, 6) greeting)) s1 = Inr s3 \<and>
     answered s1 fp (arrives 0 (8, 9) (5, 6) greeting) \<and> answered s3 fp (arrives 0 (10, 11) (5, 6) greeting) \<and>
     clients s3 = clients s1 \<and> pendingClients s3 = pendingClients s1"
proof -
  let ?n = "client_nonce (new_client sample_remote)"
  have ip: "ra_ip sample_remote \<noteq> 0"
    by (simp add: sample_remote_def)
  have hello: "is_hello ?n (arrives 0 src (5, 6) greeting)" for src
    unfolding greeting_def by (rule syn_arrives_hello [OF ip])
  have "nonce2FingerPrint new_server ?n = None"
    by (simp add: new_server_def)
  then obtain s1 where s1: "sv_do sample_tunnel (Recv (arrives 0 (8, 9) (5, 6) greeting)) new_server = Inr s1"
    using hello_new [OF hello] by (simp add: sample_suitable sample_usable del: sv_do.simps)
  obtain fp where "nonce2FingerPrint s1 ?n = Some fp"
    using hello_answered [OF hello s1] by blast
  then obtain s3 where s3: "sv_do sample_tunnel (Recv (arrives 0 (10, 11) (5, 6) greeting)) s1 = Inr s3"
    using hello_again [OF hello] by (simp add: sample_primary sample_usable del: sv_do.simps)
  have out: "cl_out greeted = [Cl_Send 1 greeting sample_remote]"
    by (simp add: greeted_def)
  have "sv_run [] s1 = Inr s1" "\<forall>t time. (t, Tick time) \<notin> set ([] :: (tunnel_env \<times> sv_op) list)"
    by simp_all
  from clients_share_fingerprint [OF ip greets out greets out s1 this s3] s1 s3 show ?thesis
    by blast
qed

end
