(* ===== verification/Cubic.thy ===== *)
theory Cubic
  imports Channel LinuxMath "HOL-Library.Signed_Division"
begin

text \<open>
  \<open>CubicChannelHandler\<close> (src/src/TunnelLib/ChannelHandler/CubicChannelHandler.cc
  and CongestionHandler.hh), an alternative channel handler with the congestion
  control of TCP CUBIC.  No scheduler creates it.  The sent packets and the
  numbers received lie in arrays of 65536 cells; a use of an index outside them
  is the fault \<open>Out_Of_Bounds\<close>.  The variables of type \<open>int\<close> and \<open>appSInt64\<close>
  are integers (none comes near its bounds), all others keep their width.  Every
  operation reads the clock once.
\<close>

section \<open>State\<close>

definition MAXBUFFER :: int where "MAXBUFFER = 65536"
definition BICTCP_BETA_SCALE :: appInt32 where "BICTCP_BETA_SCALE = 1024"
definition BICTCP_HZ :: nat where "BICTCP_HZ = 10"
definition ACK_RATIO_SHIFT :: nat where "ACK_RATIO_SHIFT = 4"
definition cubic_HZ :: appInt64 where "cubic_HZ = 1000"
definition cubic_beta :: appInt32 where "cubic_beta = 717"
definition bic_scale :: appInt32 where "bic_scale = 41"

text \<open>\<open>lastByteAcked\<close> is a signed number of 16 bits.\<close>

record sender_buffer =
  cu_buffer :: "int \<Rightarrow> Packet option"
  ACK_buffer :: "int \<Rightarrow> bool"
  Timeout_buffer :: "int \<Rightarrow> int"
  lastByteAcked :: "16 word"
  lastByteWritten :: int
  lastByteSent :: int
  snd_indicator :: bool
  lastDuplicateAck :: int
  countDuplicateAck :: int

definition new_sender_buffer :: sender_buffer where
  "new_sender_buffer = \<lparr> cu_buffer = (\<lambda>_. None), ACK_buffer = (\<lambda>_. True), Timeout_buffer = (\<lambda>_. - 1),
     lastByteAcked = - 1, lastByteWritten = 0, lastByteSent = 0, snd_indicator = False,
     lastDuplicateAck = 0, countDuplicateAck = 0 \<rparr>"

record receiver_buffer =
  rcv_seqs :: "int \<Rightarrow> appInt16"
  nextByteExpected :: int
  lastByteRcvd :: int
  lastByteRead :: int
  indicatorLastByteRead :: bool
  indicatorNextByteExpected :: bool
  indicatorLastByteRcvd :: bool
  rcv_indicator :: bool

definition new_receiver_buffer :: receiver_buffer where
  "new_receiver_buffer = \<lparr> rcv_seqs = (\<lambda>_. 0), nextByteExpected = 0, lastByteRcvd = 0, lastByteRead = 0,
     indicatorLastByteRead = False, indicatorNextByteExpected = False, indicatorLastByteRcvd = False,
     rcv_indicator = False \<rparr>"

text \<open>The fields of \<open>Congestion\<close> that some operation reads or writes.\<close>

record congestion =
  ca_cnt :: appInt32
  last_max_cwnd :: appInt32
  loss_cwnd :: appInt32
  last_cwnd :: appInt32
  last_time :: appInt32
  origin_point :: appInt32
  ca_K :: appInt32
  delay_min :: appInt32
  epoch_start :: appInt32
  ack_cnt :: appInt32
  tcp_cwnd :: appInt32
  delayed_ack :: appInt32

record cubic =
  cu_id :: appInt
  cu_ifcSrc :: appInt8
  cu_ifcDst :: appInt8
  cu_registered :: bool
  cu_out :: "chan_event list"
  send_buffer :: sender_buffer
  rcv_buffer :: receiver_buffer
  ca :: congestion
  advertisedWindow :: appInt16
  rcvrWindow :: appInt16
  seqNumberExpected :: appInt16
  seqNumberRcvd :: appInt16
  curr_ackno :: appInt16
  CWND :: appInt16
  prev_CWND :: appInt16
  snd_cwnd_cnt :: appInt16
  cu_senderWindow :: appInt16
  cu_RTT :: int
  cu_SRTT :: int
  cu_RTTVAR :: int
  cu_RTO :: int
  cu_ssthresh :: appInt16
  cube_rtt_scale :: appInt32
  beta_scale :: appInt32
  cube_factor :: appInt64

section \<open>Round trip time\<close>

definition cubic_rto :: "int \<Rightarrow> int" where
  "cubic_rto x = (if x < 1000 then 1000 else x)"

definition firstTimeoutCalculation :: "int \<Rightarrow> cubic \<Rightarrow> cubic" where
  "firstTimeoutCalculation r c =
     (let srtt = r; var = r sdiv 2 in c\<lparr> cu_SRTT := srtt, cu_RTTVAR := var, cu_RTO := cubic_rto (srtt + 4 * var) \<rparr>)"

text \<open>The parameter hides the member \<open>RTT\<close>, which keeps the value of the constructor.\<close>

definition timeoutCalculation :: "int \<Rightarrow> cubic \<Rightarrow> cubic" where
  "timeoutCalculation r c =
     (let var = (3 * cu_RTTVAR c) sdiv 4 + \<bar>cu_SRTT c - r\<bar> sdiv 4;
          srtt = (7 * cu_SRTT c) sdiv 8 + r sdiv 8 in
      c\<lparr> cu_RTTVAR := var, cu_SRTT := srtt, cu_RTO := cubic_rto (srtt + 4 * var) \<rparr>)"

section \<open>Congestion control\<close>

definition cc_init :: "cubic \<Rightarrow> cubic res" where
  "cc_init c = bind_res (do_div (push_bit (10 + 3 * BICTCP_HZ) 1) (bic_scale * 10)) (\<lambda>q. Inr (c\<lparr>
     beta_scale := 8 * (BICTCP_BETA_SCALE + cubic_beta) div 3 div (BICTCP_BETA_SCALE - cubic_beta),
     cube_rtt_scale := bic_scale * 10, cube_factor := q \<rparr>))"

text \<open>The constructor leaves \<open>ca\<close> as it finds it: its contents are an argument.\<close>

definition new_cubic :: "congestion \<Rightarrow> appInt8 \<Rightarrow> appInt8 \<Rightarrow> cubic res" where
  "new_cubic junk src dst =
     bind_res (cc_init \<lparr> cu_id = chan_id src dst, cu_ifcSrc = src, cu_ifcDst = dst, cu_registered = False, cu_out = [],
       send_buffer = new_sender_buffer, rcv_buffer = new_receiver_buffer, ca = junk,
       advertisedWindow = 1, rcvrWindow = 65535, seqNumberExpected = 0, seqNumberRcvd = 0, curr_ackno = 0,
       CWND = 1, prev_CWND = 0, snd_cwnd_cnt = 1, cu_senderWindow = 65535,
       cu_RTT = 1000, cu_SRTT = 0, cu_RTTVAR = 0, cu_RTO = 3000, cu_ssthresh = 65,
       cube_rtt_scale = 0, beta_scale = 0, cube_factor = 0 \<rparr>) (\<lambda>c. Inr (firstTimeoutCalculation (cu_RTT c) c))"

definition cc_reset :: "cubic \<Rightarrow> cubic" where
  "cc_reset c = c\<lparr> ca := \<lparr> ca_cnt = 0, last_max_cwnd = 0, loss_cwnd = 0, last_cwnd = 0, last_time = 0,
     origin_point = 0, ca_K = 0, delay_min = 0, epoch_start = 0, ack_cnt = 0, tcp_cwnd = 0,
     delayed_ack = push_bit ACK_RATIO_SHIFT 2 \<rparr> \<rparr>"

text \<open>
  \<open>cc_update\<close> in the order of the code.  \<open>cbrt\<close> is the cube root of the C
  library applied to the product as a \<open>double\<close> and converted to \<open>appInt32\<close>; it
  is an argument.
\<close>

definition start_epoch :: "(appInt64 \<Rightarrow> appInt32) \<Rightarrow> int \<Rightarrow> appInt64 \<Rightarrow> appInt32 \<Rightarrow> appInt32 \<Rightarrow> congestion \<Rightarrow> congestion" where
  "start_epoch cbrt now factor w acked a =
     (if epoch_start a \<noteq> 0 then a
      else let a' = a\<lparr> epoch_start := of_int now, ack_cnt := acked, tcp_cwnd := w \<rparr> in
        if w < last_max_cwnd a then a'\<lparr> ca_K := cbrt (ucast (last_max_cwnd a - w) * factor), origin_point := last_max_cwnd a \<rparr>
        else a'\<lparr> ca_K := 0, origin_point := w \<rparr>)"

text \<open>The time since the start of the epoch, in units of \<open>2 ^ -10\<close> seconds.\<close>

definition epoch_time :: "int \<Rightarrow> congestion \<Rightarrow> appInt64" where
  "epoch_time now a =
     (let t = (scast (of_int (now - uint (epoch_start a)) :: 32 word) :: appInt64) + ucast (drop_bit 3 (delay_min a)) in
      push_bit BICTCP_HZ t div cubic_HZ)"

definition cubic_target :: "appInt32 \<Rightarrow> appInt64 \<Rightarrow> congestion \<Rightarrow> appInt32" where
  "cubic_target scale t a =
     (let k = ucast (ca_K a); offs = (if t < k then k - t else t - k);
          delta = (ucast (drop_bit (10 + 3 * BICTCP_HZ) (ucast scale * offs * offs * offs)) :: appInt32) in
      if t < k then origin_point a - delta else origin_point a + delta)"

definition cubic_cnt :: "appInt32 \<Rightarrow> appInt32 \<Rightarrow> congestion \<Rightarrow> appInt32" where
  "cubic_cnt w target a =
     (if loss_cwnd a = 0 then 50 else if w < target then w div (target - w) else 100 * w)"

text \<open>The loop that lets the window of an ordinary TCP grow; with \<open>delta = 0\<close> it does not end.\<close>

function tcp_loop :: "appInt32 \<Rightarrow> appInt32 \<Rightarrow> appInt32 \<Rightarrow> (appInt32 \<times> appInt32) res" where
  "tcp_loop delta n w =
     (if delta < n then if delta = 0 then Inl Diverges else tcp_loop delta (n - delta) (w + 1) else Inr (n, w))"
  by pat_completeness auto
termination
proof (relation "measure (\<lambda>(delta, n, w). unat n)")
  fix delta n w :: appInt32
  assume "delta < n" "delta \<noteq> 0"
  moreover from this have "unat (n - delta) = unat n - unat delta" "0 < unat delta" "unat delta < unat n"
    by (auto simp: unat_sub word_less_nat_alt unat_gt_0 less_imp_le)
  ultimately show "((delta, n - delta, w + 1), (delta, n, w)) \<in> measure (\<lambda>(delta, n, w). unat n)" by simp
qed simp

declare tcp_loop.simps [simp del]

definition tcp_friendly :: "appInt32 \<Rightarrow> appInt32 \<Rightarrow> congestion \<Rightarrow> congestion res" where
  "tcp_friendly scale w a =
     bind_res (tcp_loop (drop_bit 3 (w * scale)) (ack_cnt a) (tcp_cwnd a)) (\<lambda>(n, tw).
       let cnt1 = (if w < tw \<and> w div (tw - w) < ca_cnt a then w div (tw - w) else ca_cnt a);
           cnt2 = (if delayed_ack a \<noteq> 0 then push_bit ACK_RATIO_SHIFT cnt1 div delayed_ack a else cnt1) in
       Inr (a\<lparr> ack_cnt := n, tcp_cwnd := tw, ca_cnt := (if cnt2 = 0 then 1 else cnt2) \<rparr>))"

definition cc_update :: "(appInt64 \<Rightarrow> appInt32) \<Rightarrow> int \<Rightarrow> appInt32 \<Rightarrow> appInt32 \<Rightarrow> cubic \<Rightarrow> cubic res" where
  "cc_update cbrt now w acked c =
     (let a1 = (ca c)\<lparr> ack_cnt := ack_cnt (ca c) + acked, last_cwnd := w, last_time := of_int now \<rparr>;
          a2 = start_epoch cbrt now (cube_factor c) w acked a1;
          target = cubic_target (cube_rtt_scale c) (epoch_time now a2) a2;
          a3 = a2\<lparr> ca_cnt := cubic_cnt w target a2 \<rparr> in
      bind_res (tcp_friendly (beta_scale c) w a3) (\<lambda>a4. Inr (c\<lparr> ca := a4 \<rparr>)))"

text \<open>The routine no operation calls any more; \<open>3 - beta\<close> is negative and wraps.\<close>

definition cc_friendliness :: "appInt32 \<Rightarrow> cubic \<Rightarrow> cubic res" where
  "cc_friendliness w c = check Div_By_Zero (w \<noteq> 0)
     (let tw = tcp_cwnd (ca c) + 3 * cubic_beta div (3 - cubic_beta) + ack_cnt (ca c) div w in
      Inr (c\<lparr> ca := (ca c)\<lparr> tcp_cwnd := tw, ack_cnt := 0,
        ca_cnt := (if w < tw \<and> w div (tw - w) < ca_cnt (ca c) then w div (tw - w) else ca_cnt (ca c)) \<rparr> \<rparr>))"

definition cubic_ack_rcv :: "(appInt64 \<Rightarrow> appInt32) \<Rightarrow> int \<Rightarrow> appInt16 \<Rightarrow> cubic \<Rightarrow> cubic res" where
  "cubic_ack_rcv cbrt now acked c0 =
     (let d = delay_min (ca c0);
          c = c0\<lparr> ca := (ca c0)\<lparr> delay_min := (if d \<noteq> 0 \<and> uint d < cu_RTT c0 then d else of_int (cu_RTT c0)) \<rparr> \<rparr> in
      if CWND c \<le> cu_ssthresh c
      then Inr (c\<lparr> cube_factor := ucast (CWND c) + ucast acked, CWND := CWND c + acked \<rparr>)
      else bind_res (cc_update cbrt now (ucast (CWND c)) (ucast acked) c) (\<lambda>c1.
        if ca_cnt (ca c1) < ucast (snd_cwnd_cnt c1) then Inr (c1\<lparr> CWND := CWND c1 + 1, snd_cwnd_cnt := 0 \<rparr>)
        else let n = snd_cwnd_cnt c1 + acked in
          if ca_cnt (ca c1) \<le> ucast n
          then check Div_By_Zero (ca_cnt (ca c1) \<noteq> 0)
            (let delta = (ucast (ucast n div ca_cnt (ca c1)) :: appInt16) in
             Inr (c1\<lparr> snd_cwnd_cnt := ucast (ucast n - ucast delta * ca_cnt (ca c1)), CWND := CWND c1 + delta \<rparr>))
          else Inr (c1\<lparr> snd_cwnd_cnt := n \<rparr>)))"

definition packet_loss :: "cubic \<Rightarrow> cubic res" where
  "packet_loss c =
     (let a = ca c; w = ucast (CWND c);
          less = (w * cubic_beta) div BICTCP_BETA_SCALE;
          w' = (ucast (if less \<le> 2 then 2 else less) :: appInt16) in
      check Div_By_Zero (\<not> w < last_max_cwnd a \<or> 2 * beta_scale c \<noteq> 0)
        (Inr (c\<lparr> ca := a\<lparr> epoch_start := 0,
                  last_max_cwnd := (if w < last_max_cwnd a then w * (BICTCP_BETA_SCALE + cubic_beta) div (2 * beta_scale c) else w),
                  loss_cwnd := w \<rparr>,
                CWND := w', cu_ssthresh := w' \<rparr>)))"

definition setSenderWindowSize :: "cubic \<Rightarrow> cubic" where
  "setSenderWindowSize c =
     c\<lparr> cu_senderWindow := (if advertisedWindow c \<le> CWND c then advertisedWindow c else CWND c) \<rparr>"

section \<open>Sending\<close>

definition cu_emit :: "chan_event \<Rightarrow> cubic \<Rightarrow> cubic" where
  "cu_emit e c = c\<lparr> cu_out := cu_out c @ [e] \<rparr>"

definition upd_snd :: "(sender_buffer \<Rightarrow> sender_buffer) \<Rightarrow> cubic \<Rightarrow> cubic" where
  "upd_snd f c = c\<lparr> send_buffer := f (send_buffer c) \<rparr>"

text \<open>
  \<open>ChannelHandler::send\<close>.  When the network is down the scheduler that has this
  channel in its table asks it for its undelivered packets, which this class
  does not implement: the call aborts.
\<close>

definition cu_send :: "env \<Rightarrow> Packet \<Rightarrow> cubic \<Rightarrow> (int \<times> cubic) res" where
  "cu_send env pkt c =
     (let pkt' = pkt\<lparr> p_header := (p_header pkt)\<lparr> h_ifcsrc := cu_ifcSrc c, h_ifcdst := cu_ifcDst c \<rparr> \<rparr>; ret = e_net env pkt' in
      app_assert (ret \<noteq> - ERROR_NETWORK_CLOSED \<or> \<not> cu_registered c) (Inr (ret, cu_emit (Ev_Send pkt') c)))"

definition mili :: "env \<Rightarrow> int" where
  "mili env = e_now env div 1000"

text \<open>Sending the packet of a cell and noting the time when the interface took it.\<close>

definition send_cell :: "env \<Rightarrow> int \<Rightarrow> int \<Rightarrow> cubic \<Rightarrow> (int \<times> cubic) res" where
  "send_cell env i slot c =
     (case cu_buffer (send_buffer c) i of
        None \<Rightarrow> Inl Null_Deref
      | Some pkt \<Rightarrow> bind_res (cu_send env pkt c) (\<lambda>(n, c').
          Inr (n, if 0 < n then upd_snd (\<lambda>b. b\<lparr> Timeout_buffer := (Timeout_buffer b)(slot := mili env) \<rparr>) c' else c')))"

definition cubic_sendPacket :: "env \<Rightarrow> Packet \<Rightarrow> cubic \<Rightarrow> (int \<times> cubic) res" where
  "cubic_sendPacket env pkt c =
     (let b = send_buffer c in
      if lastByteAcked b = - 1 \<and> lastByteWritten b = 0 \<and> lastByteSent b = 0 \<and> \<not> snd_indicator b then
        send_cell env 0 0 (upd_snd (\<lambda>b. b\<lparr> cu_buffer := (cu_buffer b)(0 := Some pkt), ACK_buffer := (ACK_buffer b)(0 := False),
          snd_indicator := True \<rparr>) c)
      else
        let idle = (sint (lastByteAcked b) = lastByteWritten b);
            i = (lastByteWritten b + 1) mod MAXBUFFER;
            pkt' = pkt\<lparr> p_header := (p_header pkt)\<lparr> h_seqNo := of_int i \<rparr> \<rparr>;
            b' = b\<lparr> cu_buffer := (if cu_buffer b i = None then (cu_buffer b)(i := Some pkt') else cu_buffer b),
                    ACK_buffer := (ACK_buffer b)(i := False), lastByteWritten := i \<rparr>;
            j = (lastByteSent b + 1) mod MAXBUFFER;
            c' = upd_snd (\<lambda>_. b') c in
        if cu_buffer b' j \<noteq> None \<and> idle
        then bind_res (send_cell env j j c') (\<lambda>(n, c''). Inr (1, upd_snd (\<lambda>b. b\<lparr> lastByteSent := j \<rparr>) c''))
        else Inr (- 1, c'))"

definition cubic_sendAck :: "env \<Rightarrow> appInt16 \<Rightarrow> appInt16 \<Rightarrow> appInt16 \<Rightarrow> cubic \<Rightarrow> (int \<times> cubic) res" where
  "cubic_sendAck env ackToSend fp flow c =
     (let pkt = fst (getNewPacket new_PacketPool) in
      cu_send env (pkt\<lparr> p_header := (p_header pkt)\<lparr> h_fingerPrint := fp, h_flowId := flow, h_ackNo := ackToSend,
        h_window := rcvrWindow c, h_flag := FLAG_ACK \<rparr> \<rparr>) c)"

section \<open>Acknowledgements\<close>

text \<open>0 a duplicate, 1 a valid and 2 an invalid acknowledgement.\<close>

definition checkValidAck :: "int \<Rightarrow> cubic \<Rightarrow> nat \<times> cubic" where
  "checkValidAck ackno c =
     (let b = send_buffer c; acked = sint (lastByteAcked b); next = (lastByteSent b + 1) mod MAXBUFFER in
      if ackno = lastDuplicateAck b then (0, upd_snd (\<lambda>b. b\<lparr> countDuplicateAck := countDuplicateAck b + 1 \<rparr>) c)
      else if (if acked \<le> lastByteSent b then acked < ackno \<and> ackno \<le> next
               else acked < ackno \<and> ackno < MAXBUFFER \<or> 0 \<le> ackno \<and> ackno \<le> next)
      then (1, upd_snd (\<lambda>b. b\<lparr> lastDuplicateAck := ackno, countDuplicateAck := 0 \<rparr>) c)
      else (2, c))"

definition cubic_freePacket :: "Packet \<Rightarrow> cubic \<Rightarrow> cubic" where
  "cubic_freePacket pkt c =
     (if has_flag (h_flag (p_header pkt)) FLAG_DAT
      then cu_emit (Ev_RecvAck (h_fingerPrint (p_header pkt)) (h_flowId (p_header pkt)) (h_flowSeqNo (p_header pkt))) c
      else c)"

text \<open>One round of the loop that releases the acknowledged cells.\<close>

definition release_next :: "cubic \<Rightarrow> cubic res" where
  "release_next c =
     (let l = (of_int ((1 + sint (lastByteAcked (send_buffer c))) smod MAXBUFFER) :: 16 word); i = sint l in
      check Out_Of_Bounds (0 \<le> i)
        (case cu_buffer (send_buffer c) i of
           None \<Rightarrow> Inl Null_Deref
         | Some pkt \<Rightarrow> Inr (upd_snd (\<lambda>b. b\<lparr> lastByteAcked := l, ACK_buffer := (ACK_buffer b)(i := True),
             cu_buffer := (cu_buffer b)(i := None), Timeout_buffer := (Timeout_buffer b)(i := - 1) \<rparr>) (cubic_freePacket pkt c))))"

fun release_loop :: "nat \<Rightarrow> cubic \<Rightarrow> cubic res" where
  "release_loop 0 c = Inr c"
| "release_loop (Suc n) c = bind_res (release_next c) (release_loop n)"

text \<open>One round of the loop that sends what the window now allows.\<close>

definition send_next :: "env \<Rightarrow> cubic \<Rightarrow> cubic res" where
  "send_next env c =
     (let j = (lastByteSent (send_buffer c) + 1) mod MAXBUFFER in
      if cu_buffer (send_buffer c) j = None then Inr c
      else bind_res (send_cell env j j c) (\<lambda>(n, c').
        Inr (if 0 < n then upd_snd (\<lambda>b. b\<lparr> lastByteSent := j \<rparr>) c' else c')))"

fun cubic_send_loop :: "env \<Rightarrow> nat \<Rightarrow> cubic \<Rightarrow> cubic res" where
  "cubic_send_loop env 0 c = Inr c"
| "cubic_send_loop env (Suc n) c = bind_res (send_next env c) (cubic_send_loop env n)"

definition cubic_valid_ack :: "(appInt64 \<Rightarrow> appInt32) \<Rightarrow> env \<Rightarrow> appInt16 \<Rightarrow> cubic \<Rightarrow> cubic res" where
  "cubic_valid_ack cbrt env ackno c =
     (let range = (MAXBUFFER + (uint ackno - sint (lastByteAcked (send_buffer c)) - 1)) smod MAXBUFFER in
      bind_res (release_loop (nat range) c) (\<lambda>c1.
      let i = (uint ackno - 1) smod MAXBUFFER in
      check Out_Of_Bounds (0 \<le> i)
        (bind_res (cubic_ack_rcv cbrt (mili env) (of_int range)
            (timeoutCalculation (mili env - Timeout_buffer (send_buffer c1) i) c1)) (\<lambda>c2.
         let c3 = setSenderWindowSize c2;
             k = uint (cu_senderWindow c3) - uint (prev_CWND c3) + range in
         cubic_send_loop env (nat (if k \<le> 0 then 4 else k)) (c3\<lparr> prev_CWND := cu_senderWindow c3 \<rparr>)))))"

text \<open>The third duplicate: send the packet again; a loss when the interface took it.\<close>

definition third_duplicate :: "env \<Rightarrow> cubic \<Rightarrow> (int \<times> cubic) res" where
  "third_duplicate env c =
     (let i = uint (of_int (lastDuplicateAck (send_buffer c)) :: appInt16) in
      if cu_buffer (send_buffer c) i = None then Inr (- 1, c)
      else bind_res (send_cell env i i c) (\<lambda>(n, c').
        if 0 < n then bind_res (packet_loss c') (\<lambda>c''. Inr (1, setSenderWindowSize c'')) else Inr (- 1, c')))"

definition cubic_ackRecv :: "(appInt64 \<Rightarrow> appInt32) \<Rightarrow> env \<Rightarrow> Packet \<Rightarrow> cubic \<Rightarrow> (int \<times> cubic) res" where
  "cubic_ackRecv cbrt env pkt c =
     (let (validity, c') = checkValidAck (uint (h_ackNo (p_header pkt))) c;
          c1 = c'\<lparr> advertisedWindow := h_window (p_header pkt) \<rparr> in
      if validity = 0 \<and> countDuplicateAck (send_buffer c1) = 3 then third_duplicate env c1
      else if validity = 1 \<and> countDuplicateAck (send_buffer c1) = 0
      then bind_res (cubic_valid_ack cbrt env (h_ackNo (p_header pkt)) c1) (\<lambda>c2. Inr (1, c2))
      else Inr (- 1, c1))"

section \<open>Timeout\<close>

text \<open>
  The loop goes on while timers have expired, one cell per round.  A round in
  which the interface does not take the packet is repeated; within one operation
  the interface answers a packet always the same way, so the loop does not end.
\<close>

definition cell_expired :: "int \<Rightarrow> int \<Rightarrow> cubic \<Rightarrow> bool" where
  "cell_expired now i c \<longleftrightarrow>
     Timeout_buffer (send_buffer c) i \<noteq> - 1 \<and> Timeout_buffer (send_buffer c) i + cu_RTO c \<le> now"

fun cubic_timeout_loop :: "nat \<Rightarrow> env \<Rightarrow> int \<Rightarrow> int \<Rightarrow> cubic \<Rightarrow> cubic res" where
  "cubic_timeout_loop 0 env now i c = Inl Diverges"
| "cubic_timeout_loop (Suc fuel) env now i c =
     (if \<not> cell_expired now i c then Inr c
      else bind_res (send_cell env i i c) (\<lambda>(n, c').
        if 0 < n then cubic_timeout_loop fuel env now ((i + 1) mod MAXBUFFER) (cc_reset c') else Inl Diverges))"

definition cubic_timeoutEvent :: "env \<Rightarrow> int \<Rightarrow> cubic \<Rightarrow> cubic res" where
  "cubic_timeoutEvent env now c =
     (let i = lastByteSent (send_buffer c) in
      bind_res (if cell_expired now i c \<and> snd_indicator (send_buffer c)
                then bind_res (send_cell env i i c) (\<lambda>(n, c'). Inr (if 0 < n then cc_reset c' else c'))
                else Inr c) (\<lambda>c1.
      cubic_timeout_loop 65537 env now ((i + 1) mod MAXBUFFER) c1))"

section \<open>Receiving\<close>

definition upd_rcv :: "(receiver_buffer \<Rightarrow> receiver_buffer) \<Rightarrow> cubic \<Rightarrow> cubic" where
  "upd_rcv f c = c\<lparr> rcv_buffer := f (rcv_buffer c) \<rparr>"

text \<open>The two indicators that an index has wrapped; all three set are all three reset.\<close>

definition fold_indicators :: "receiver_buffer \<Rightarrow> receiver_buffer" where
  "fold_indicators b =
     (if indicatorLastByteRcvd b \<and> indicatorNextByteExpected b \<and> indicatorLastByteRead b
      then b\<lparr> indicatorLastByteRcvd := False, indicatorNextByteExpected := False, indicatorLastByteRead := False \<rparr> else b)"

definition next_indicator :: "int \<Rightarrow> receiver_buffer \<Rightarrow> receiver_buffer" where
  "next_indicator v b =
     (if v < nextByteExpected b then fold_indicators (b\<lparr> indicatorNextByteExpected := True \<rparr>) else b)"

definition last_indicator :: "int \<Rightarrow> receiver_buffer \<Rightarrow> receiver_buffer" where
  "last_indicator v b =
     (if v < lastByteRcvd b then fold_indicators (b\<lparr> indicatorLastByteRcvd := True \<rparr>) else b)"

definition checkValidPacket :: "int \<Rightarrow> int \<Rightarrow> bool \<Rightarrow> bool \<Rightarrow> int \<Rightarrow> nat" where
  "checkValidPacket ex lr indNext indLast cur =
     (if indNext \<noteq> indLast then
        let d = (ex - lr) sdiv 2 in
        if lr < cur \<and> cur < lr + d then 2
        else if lr + d \<le> cur \<and> cur < ex then 0
        else 1
      else
        let d = (MAXBUFFER - (lr - ex)) sdiv 2 in
        if lr < (lr + d) smod MAXBUFFER then
          if ex \<le> cur \<and> cur < lr then 1
          else if lr < cur \<and> cur < lr + d then 2
          else 0
        else
          if ex \<le> cur \<and> cur < lr then 1
          else if cur < ex \<and> ex - d < cur then 0
          else 2)"

definition isOrdered :: "receiver_buffer \<Rightarrow> bool" where
  "isOrdered b \<longleftrightarrow> (lastByteRcvd b + 1) mod MAXBUFFER = nextByteExpected b"

definition update_window :: "cubic \<Rightarrow> cubic" where
  "update_window c = c\<lparr> rcvrWindow :=
     (if isOrdered (rcv_buffer c) then 65535
      else of_int ((MAXBUFFER + (nextByteExpected (rcv_buffer c) - lastByteRcvd (rcv_buffer c))) mod MAXBUFFER)) \<rparr>"

text \<open>The next expected index moves on by one; \<open>seqNo\<close> is the number of the packet just received.\<close>

definition advance_expected :: "appInt16 \<Rightarrow> cubic \<Rightarrow> cubic" where
  "advance_expected seqNo c =
     (let v = (nextByteExpected (rcv_buffer c) + 1) mod MAXBUFFER in
      (upd_rcv (\<lambda>b. (next_indicator v b)\<lparr> nextByteExpected := v \<rparr>) c)\<lparr> curr_ackno := of_int v, seqNumberExpected := seqNo + 1 \<rparr>)"

definition cubic_first_packet :: "appInt16 \<Rightarrow> cubic \<Rightarrow> cubic" where
  "cubic_first_packet seqNo c =
     (upd_rcv (\<lambda>b. b\<lparr> rcv_indicator := True, rcv_seqs := (rcv_seqs b)(lastByteRcvd b := seqNo), nextByteExpected := lastByteRcvd b + 1 \<rparr>) c)
     \<lparr> seqNumberExpected := seqNo + 1, rcvrWindow := 65535, seqNumberRcvd := seqNo, curr_ackno := seqNo + 1 \<rparr>"

text \<open>The packet that follows the last one received.\<close>

definition following_packet :: "appInt16 \<Rightarrow> cubic \<Rightarrow> cubic" where
  "following_packet seqNo c =
     (let c1 = (if isOrdered (rcv_buffer c) then advance_expected seqNo c else c);
          v = (lastByteRcvd (rcv_buffer c1) + 1) mod MAXBUFFER in
      (upd_rcv (\<lambda>b. let b' = last_indicator v b in b'\<lparr> lastByteRcvd := v, rcv_seqs := (rcv_seqs b')(v := seqNo) \<rparr>) c1)
      \<lparr> seqNumberRcvd := seqNo \<rparr>)"

text \<open>The packet that was missing: pass over all cells that hold a number other than 0.\<close>

fun skip_received :: "nat \<Rightarrow> appInt16 \<Rightarrow> cubic \<Rightarrow> cubic res" where
  "skip_received 0 seqNo c = Inl Diverges"
| "skip_received (Suc fuel) seqNo c =
     (if rcv_seqs (rcv_buffer c) (nextByteExpected (rcv_buffer c)) = 0 then Inr c
      else skip_received fuel seqNo (advance_expected seqNo c))"

definition missing_packet :: "appInt16 \<Rightarrow> cubic \<Rightarrow> cubic res" where
  "missing_packet seqNo c =
     skip_received 65537 seqNo (advance_expected seqNo
       (upd_rcv (\<lambda>b. b\<lparr> rcv_seqs := (rcv_seqs b)(nextByteExpected b := seqNo) \<rparr>) c))"

definition other_packet :: "appInt16 \<Rightarrow> cubic \<Rightarrow> cubic res" where
  "other_packet seqNo c =
     (let b = rcv_buffer c; i = (nextByteExpected b - 1) smod MAXBUFFER; s = uint seqNo in
      check Out_Of_Bounds (0 \<le> i)
        (let st = checkValidPacket (uint (rcv_seqs b i)) (uint (rcv_seqs b (lastByteRcvd b)))
               (indicatorNextByteExpected b) (indicatorLastByteRcvd b) s in
         if st = 1 then Inr (upd_rcv (\<lambda>b. b\<lparr> rcv_seqs := (rcv_seqs b)(s := seqNo) \<rparr>) c)
         else if st = 2 then
           Inr ((upd_rcv (\<lambda>b. (last_indicator s (b\<lparr> rcv_seqs := (rcv_seqs b)(s := seqNo) \<rparr>))\<lparr> lastByteRcvd := s \<rparr>) c)
             \<lparr> seqNumberRcvd := seqNo \<rparr>)
         else Inr c))"

definition packetRcv :: "env \<Rightarrow> Packet \<Rightarrow> cubic \<Rightarrow> cubic res" where
  "packetRcv env pkt c =
     (let seqNo = h_seqNo (p_header pkt); b = rcv_buffer c; d = uint seqNo - uint (seqNumberRcvd c) in
      bind_res
        (if lastByteRead b = 0 \<and> lastByteRcvd b = 0 \<and> \<not> rcv_indicator b then Inr (cubic_first_packet seqNo c)
         else bind_res (if d = 1 \<or> d = - 65535 then Inr (following_packet seqNo c)
                        else if seqNumberExpected c = seqNo then missing_packet seqNo c
                        else other_packet seqNo c) (\<lambda>c'. Inr (update_window c')))
        (\<lambda>c1. bind_res (cubic_sendAck env (curr_ackno c1) (h_fingerPrint (p_header pkt)) (h_flowId (p_header pkt)) c1)
           (\<lambda>(_, c2). Inr c2)))"

definition cubic_recv :: "(appInt64 \<Rightarrow> appInt32) \<Rightarrow> env \<Rightarrow> Packet \<Rightarrow> cubic \<Rightarrow> (int \<times> cubic) res" where
  "cubic_recv cbrt env pkt c =
     bind_res (if has_flag (h_flag (p_header pkt)) FLAG_ACK then cubic_ackRecv cbrt env pkt c else Inr (- 1, c)) (\<lambda>(ret, c1).
     if has_flag (h_flag (p_header pkt)) FLAG_DAT \<and> 0 < p_len pkt
     then bind_res (packetRcv env pkt c1) (\<lambda>c2. Inr (0, c2))
     else Inr (ret, c1))"

end
