(* ===== verification/CubicProps.thy ===== *)
theory CubicProps
  imports Cubic
begin

text \<open>
  The CUBIC handler: its congestion window moves within bounds and its loops end,
  packets that arrive in order are acknowledged one by one through every wrap of
  the numbers; and what is wrong with it: the maximum after a loss, the samples
  of the round trip time, the index that turns negative, the data it never hands
  on.
\<close>

section \<open>The congestion window\<close>

lemma tcp_loop_ends: "delta \<noteq> 0 \<Longrightarrow> \<exists>n' w'. tcp_loop delta n w = Inr (n', w') \<and> n' \<le> delta"
  by (induction delta n w rule: tcp_loop.induct) (subst tcp_loop.simps, auto)

lemma tcp_friendly_total:
  assumes "0 < unat w" "unat w < 65536"
  shows "\<exists>a'. tcp_friendly 15 w a = Inr a' \<and> ca_cnt a' \<noteq> 0"
proof -
  have m: "unat (w * 15) = unat w * 15" using assms(2) by (simp add: unat_word_ariths)
  have "unat (drop_bit 3 (w * 15)) = unat w * 15 div 8"
    by (simp only: unat_drop_bit_eq m) (simp add: drop_bit_eq_div)
  also have "\<dots> > 0" using assms(1) by (simp add: div_greater_zero_iff)
  finally have "drop_bit 3 (w * 15) \<noteq> 0" by (metis unat_0 less_irrefl)
  from tcp_loop_ends [OF this, of "ack_cnt a" "tcp_cwnd a"] obtain n t
    where "tcp_loop (drop_bit 3 (w * 15)) (ack_cnt a) (tcp_cwnd a) = Inr (n, t)" by blast
  then show ?thesis by (simp add: tcp_friendly_def Let_def)
qed

lemma cc_update_total:
  assumes "0 < unat w" "unat w < 65536" "beta_scale c = 15"
  shows "\<exists>a. cc_update cbrt now w acked c = Inr (c\<lparr> ca := a \<rparr>) \<and> ca_cnt a \<noteq> 0"
proof -
  obtain f where f: "\<And>a. tcp_friendly 15 w a = Inr (f a) \<and> ca_cnt (f a) \<noteq> 0"
    using tcp_friendly_total [OF assms(1,2)] by metis
  show ?thesis unfolding cc_update_def Let_def assms(3) by (simp only: f bind_res.simps) (metis f)
qed

text \<open>A quotient of the count of acknowledged packets by the packets one step takes.\<close>

lemma step_bound: "(s :: nat) \<le> k \<Longrightarrow> 0 < k \<Longrightarrow> (s + a) div k \<le> a + 1"
proof -
  assume "s \<le> k" "0 < k"
  then have "(s + a) div k \<le> (k + a) div k" by (intro div_le_mono) simp
  also have "\<dots> = 1 + a div k" using \<open>0 < k\<close> by simp
  also have "\<dots> \<le> a + 1" by simp
  finally show ?thesis .
qed

lemma unat_wide [simp]: "unat (ucast (x :: appInt16) :: appInt32) = unat x"
proof -
  have "unat x < 65536" using unsigned_less [of x, where 'a = nat] by simp
  then show ?thesis by (simp add: unsigned_ucast_eq take_bit_eq_mod)
qed

lemma unat_narrow: "unat (ucast (x :: appInt32) :: appInt16) \<le> unat x"
  by (simp only: unsigned_ucast_eq take_bit_eq_mod mod_less_eq_dividend)

text \<open>The branch of \<open>ack_rcv\<close> for a window above the threshold.\<close>

lemma cubic_step_bounds:
  assumes "beta_scale c = 15" "cu_ssthresh c < CWND c"
    and "unat (CWND c) + unat acked < 65535" "unat (snd_cwnd_cnt c) + unat acked < 65536"
  shows "\<exists>c'. cubic_ack_rcv cbrt now acked c = Inr c' \<and> beta_scale c' = 15 \<and> cu_ssthresh c' = cu_ssthresh c \<and>
    unat (CWND c) \<le> unat (CWND c') \<and> unat (CWND c') \<le> unat (CWND c) + unat acked + 1"
proof -
  define d where "d = c\<lparr> ca := (ca c)\<lparr> delay_min := (if delay_min (ca c) \<noteq> 0 \<and> uint (delay_min (ca c)) < cu_RTT c
    then delay_min (ca c) else of_int (cu_RTT c)) \<rparr> \<rparr>"
  have "0 < unat (CWND c)" using assms(2) by (simp add: word_less_nat_alt)
  then have w: "0 < unat (ucast (CWND c) :: appInt32)" "unat (ucast (CWND c) :: appInt32) < 65536"
    using unsigned_less [of "CWND c", where 'a = nat] by simp_all
  have "beta_scale d = 15" using assms(1) by (simp add: d_def)
  then obtain a where a: "cc_update cbrt now (ucast (CWND c)) (ucast acked) d = Inr (d\<lparr> ca := a \<rparr>)" "ca_cnt a \<noteq> 0"
    using cc_update_total [OF w] by blast
  let ?n = "snd_cwnd_cnt c + acked" and ?k = "ca_cnt a"
  let ?delta = "ucast (ucast ?n div ?k) :: appInt16"
  have n: "unat ?n = unat (snd_cwnd_cnt c) + unat acked" using assms(4) by (simp add: unat_word_ariths)
  have run: "cubic_ack_rcv cbrt now acked c =
    (if ?k < ucast (snd_cwnd_cnt c) then Inr (d\<lparr> ca := a, CWND := CWND c + 1, snd_cwnd_cnt := 0 \<rparr>)
     else if ?k \<le> ucast ?n then Inr (d\<lparr> ca := a, snd_cwnd_cnt := ucast (ucast ?n - ucast ?delta * ?k), CWND := CWND c + ?delta \<rparr>)
     else Inr (d\<lparr> ca := a, snd_cwnd_cnt := ?n \<rparr>))"
    using assms(2) a by (simp add: cubic_ack_rcv_def Let_def d_def not_le)
  consider (one) "?k < ucast (snd_cwnd_cnt c)" | (some) "\<not> ?k < ucast (snd_cwnd_cnt c)" "?k \<le> ucast ?n"
    | (none) "\<not> ?k < ucast (snd_cwnd_cnt c)" "\<not> ?k \<le> ucast ?n" by blast
  then show ?thesis
  proof cases
    case one
    then show ?thesis using run assms(1,3) unat_plus_1 [of "CWND c"] by (simp add: d_def)
  next
    case some
    have "unat (snd_cwnd_cnt c) \<le> unat ?k" using some(1) by (simp only: not_less word_le_nat_alt unat_wide)
    then have "(unat (snd_cwnd_cnt c) + unat acked) div unat ?k \<le> unat acked + 1"
      using a(2) by (intro step_bound) (simp_all add: unat_gt_0)
    then have "unat (ucast ?n div ?k) \<le> unat acked + 1" by (simp only: unat_div unat_wide n)
    then have "unat ?delta \<le> unat acked + 1" by (rule le_trans [OF unat_narrow])
    then have "unat (CWND c + ?delta) = unat (CWND c) + unat ?delta" "unat ?delta \<le> unat acked + 1"
      using assms(3) by (simp_all add: unat_word_ariths)
    then show ?thesis using run some assms(1) by (simp add: d_def)
  next
    case none
    then show ?thesis using run assms(1) by (simp add: d_def)
  qed
qed

lemma packet_loss_window:
  assumes "beta_scale c = 15"
  shows "\<exists>c'. packet_loss c = Inr c' \<and> beta_scale c' = 15 \<and> cu_ssthresh c' = CWND c' \<and>
    unat (CWND c') = max 2 (unat (CWND c) * 717 div 1024) \<and>
    (ucast (CWND c) < last_max_cwnd (ca c) \<longrightarrow> unat (last_max_cwnd (ca c')) = unat (CWND c) * 1741 div 30)"
proof -
  let ?w = "ucast (CWND c) :: appInt32"
  let ?l = "?w * cubic_beta div BICTCP_BETA_SCALE"
  have b: "unat (CWND c) < 65536" using unsigned_less [of "CWND c", where 'a = nat] by simp
  have "unat (?w * 717) = unat (CWND c) * 717" using b by (simp only: unat_word_ariths unat_wide) simp
  then have l: "unat ?l = unat (CWND c) * 717 div 1024"
    by (simp add: unat_div cubic_beta_def BICTCP_BETA_SCALE_def)
  then have small: "unat ?l < 65536" using b by simp
  have n: "unat (ucast ?l :: appInt16) = unat ?l"
    using small by (simp only: unsigned_ucast_eq take_bit_eq_mod) simp
  have le: "?l \<le> 2 \<longleftrightarrow> unat ?l \<le> 2" by (simp add: word_le_nat_alt)
  have w: "unat (ucast (if ?l \<le> 2 then 2 else ?l) :: appInt16) = max 2 (unat (CWND c) * 717 div 1024)"
    using n l unfolding le by (simp add: max_def)
  have "unat (?w * 1741) = unat (CWND c) * 1741" using b by (simp only: unat_word_ariths unat_wide) simp
  then have m: "unat (?w * (BICTCP_BETA_SCALE + cubic_beta) div 30) = unat (CWND c) * 1741 div 30"
    by (simp add: unat_div cubic_beta_def BICTCP_BETA_SCALE_def)
  show ?thesis using assms w m by (simp add: packet_loss_def Let_def)
qed

lemma new_cubic_scales:
  "\<exists>c. new_cubic junk src dst = Inr c \<and> beta_scale c = 15 \<and> cube_rtt_scale c = 410 \<and> cu_RTO c = 3000"
  by (simp add: new_cubic_def cc_init_def do_div_def bic_scale_def cubic_beta_def BICTCP_BETA_SCALE_def
      firstTimeoutCalculation_def cubic_rto_def Let_def)

text \<open>
  C37: the congestion window of the CUBIC handler moves within bounds and its loops
  end, with the scale the constructor sets.  An acknowledgement of \<open>n\<close> packets
  adds exactly \<open>n\<close> below the threshold and between 0 and \<open>n + 1\<close> above it, for any
  cube root, clock and history of the congestion record; a loss takes the window
  to 717/1024 of its size but not below 2, and the threshold with it.
\<close>
theorem cubic_window_bounds:
  assumes "beta_scale c = 15"
    and "unat (CWND c) + unat acked < 65535" "unat (snd_cwnd_cnt c) + unat acked < 65536"
  shows "(\<exists>c'. cubic_ack_rcv cbrt now acked c = Inr c' \<and> beta_scale c' = 15 \<and> cu_ssthresh c' = cu_ssthresh c \<and>
           (if CWND c \<le> cu_ssthresh c then unat (CWND c') = unat (CWND c) + unat acked
            else unat (CWND c) \<le> unat (CWND c') \<and> unat (CWND c') \<le> unat (CWND c) + unat acked + 1)) \<and>
         (\<exists>c'. packet_loss c = Inr c' \<and> beta_scale c' = 15 \<and> cu_ssthresh c' = CWND c' \<and>
           unat (CWND c') = max 2 (unat (CWND c) * 717 div 1024)) \<and>
         (\<exists>c0. new_cubic junk src dst = Inr c0 \<and> beta_scale c0 = 15)"
proof (intro conjI)
  show "\<exists>c'. cubic_ack_rcv cbrt now acked c = Inr c' \<and> beta_scale c' = 15 \<and> cu_ssthresh c' = cu_ssthresh c \<and>
           (if CWND c \<le> cu_ssthresh c then unat (CWND c') = unat (CWND c) + unat acked
            else unat (CWND c) \<le> unat (CWND c') \<and> unat (CWND c') \<le> unat (CWND c) + unat acked + 1)"
  proof (cases "CWND c \<le> cu_ssthresh c")
    case True
    then show ?thesis using assms by (simp add: cubic_ack_rcv_def Let_def unat_word_ariths)
  next
    case False
    then show ?thesis using cubic_step_bounds [OF assms(1) _ assms(2,3), of cbrt now] by (auto simp: not_le)
  qed
  show "\<exists>c'. packet_loss c = Inr c' \<and> beta_scale c' = 15 \<and> cu_ssthresh c' = CWND c' \<and>
           unat (CWND c') = max 2 (unat (CWND c) * 717 div 1024)"
    using packet_loss_window [OF assms(1)] by blast
  show "\<exists>c0. new_cubic junk src dst = Inr c0 \<and> beta_scale c0 = 15"
    using new_cubic_scales by blast
qed

definition sample_congestion :: congestion where
  "sample_congestion = \<lparr> ca_cnt = 0, last_max_cwnd = 200, loss_cwnd = 200, last_cwnd = 0, last_time = 0,
     origin_point = 0, ca_K = 0, delay_min = 0, epoch_start = 0, ack_cnt = 0, tcp_cwnd = 0, delayed_ack = 32 \<rparr>"

definition sample_cubic :: cubic where
  "sample_cubic = (case new_cubic sample_congestion 1 1 of Inr c \<Rightarrow> c\<lparr> CWND := 100 \<rparr>)"

lemma sample_cubic_simps:
  "beta_scale sample_cubic = 15" "CWND sample_cubic = 100" "snd_cwnd_cnt sample_cubic = 1"
  "ca sample_cubic = sample_congestion" "cu_ssthresh sample_cubic = 65" "rcv_buffer sample_cubic = new_receiver_buffer"
  "send_buffer sample_cubic = new_sender_buffer" "cu_SRTT sample_cubic = 1000" "cu_out sample_cubic = []" "cu_RTTVAR sample_cubic = 500"
  by (simp_all add: sample_cubic_def new_cubic_def cc_init_def do_div_def bic_scale_def cubic_beta_def BICTCP_BETA_SCALE_def
      firstTimeoutCalculation_def cubic_rto_def Let_def)

theorem cubic_window_bounds_witness:
  "\<exists>c'. packet_loss sample_cubic = Inr c' \<and> unat (CWND c') = 70"
  using cubic_window_bounds [of sample_cubic 3 "\<lambda>_. 0" 0 sample_congestion 1 1]
  by (auto simp: sample_cubic_simps)

text \<open>
  After a loss below the last maximum \<open>fast convergence\<close> should lower that maximum;
  dividing by twice \<open>beta_scale\<close>, which is 30, instead of twice \<open>BICTCP_BETA_SCALE\<close>
  raises it to 58 times the window.
\<close>

lemma fast_convergence_overshoots:
  assumes "beta_scale c = 15" "ucast (CWND c) < last_max_cwnd (ca c)"
  shows "\<exists>c'. packet_loss c = Inr c' \<and> 58 * unat (CWND c) \<le> unat (last_max_cwnd (ca c'))"
  using packet_loss_window [OF assms(1)] assms(2) by fastforce

section \<open>Receiving in order\<close>

lemma indicator_simps [simp]:
  "nextByteExpected (next_indicator v b) = nextByteExpected b" "lastByteRcvd (next_indicator v b) = lastByteRcvd b"
  "lastByteRead (next_indicator v b) = lastByteRead b" "rcv_indicator (next_indicator v b) = rcv_indicator b"
  "nextByteExpected (last_indicator v b) = nextByteExpected b" "lastByteRcvd (last_indicator v b) = lastByteRcvd b"
  "lastByteRead (last_indicator v b) = lastByteRead b" "rcv_indicator (last_indicator v b) = rcv_indicator b"
  by (simp_all add: next_indicator_def last_indicator_def fold_indicators_def)

text \<open>The receiver after the packets 0 to \<open>k - 1\<close>, each in its turn.\<close>

definition in_order :: "nat \<Rightarrow> cubic \<Rightarrow> bool" where
  "in_order k c \<longleftrightarrow> 0 < k \<and> rcv_indicator (rcv_buffer c) \<and> lastByteRead (rcv_buffer c) = 0 \<and>
     nextByteExpected (rcv_buffer c) = int k mod MAXBUFFER \<and> lastByteRcvd (rcv_buffer c) = (int k - 1) mod MAXBUFFER \<and>
     seqNumberRcvd c = of_nat (k - 1) \<and> curr_ackno c = of_nat k"

lemma of_int_mod [simp]: "(of_int (i mod MAXBUFFER) :: appInt16) = of_int i"
  by (simp add: word_of_int_eq_iff take_bit_eq_mod MAXBUFFER_def)

lemma uint_of_nat_16: "uint (of_nat k :: appInt16) = int k mod MAXBUFFER"
  by (simp add: MAXBUFFER_def unsigned_of_nat take_bit_eq_mod zmod_int)

lemma next_number: "int k mod MAXBUFFER - (int k - 1) mod MAXBUFFER \<in> {1, - 65535}"
proof -
  let ?r = "(int k - 1) mod MAXBUFFER"
  have "int k mod MAXBUFFER = (?r + 1) mod MAXBUFFER" by (simp add: mod_simps)
  moreover have "0 \<le> ?r" "?r < 65536" by (simp_all add: MAXBUFFER_def)
  ultimately show ?thesis
    by (cases "?r = 65535") (simp_all add: MAXBUFFER_def mod_pos_pos_trivial)
qed

lemma following_in_order:
  assumes "in_order k c"
  shows "in_order (Suc k) (update_window (following_packet (of_nat k) c))"
    "cu_out (update_window (following_packet (of_nat k) c)) = cu_out c"
    "rcvrWindow (update_window (following_packet (of_nat k) c)) = 65535"
proof -
  let ?c = "following_packet (of_nat k) c"
  have "(lastByteRcvd (rcv_buffer c) + 1) mod MAXBUFFER = nextByteExpected (rcv_buffer c)"
    using assms by (simp add: in_order_def mod_simps)
  then have ord: "isOrdered (rcv_buffer c)" by (simp add: isOrdered_def)
  then have b: "nextByteExpected (rcv_buffer ?c) = (int k + 1) mod MAXBUFFER"
    "lastByteRcvd (rcv_buffer ?c) = int k mod MAXBUFFER" "curr_ackno ?c = of_nat (Suc k)" "seqNumberRcvd ?c = of_nat k"
    "rcv_indicator (rcv_buffer ?c)" "lastByteRead (rcv_buffer ?c) = 0" "cu_out ?c = cu_out c"
    using assms by (simp_all add: following_packet_def advance_expected_def upd_rcv_def Let_def in_order_def mod_simps)
  then have "isOrdered (rcv_buffer ?c)" by (simp add: isOrdered_def mod_simps)
  with b show "in_order (Suc k) (update_window ?c)" "cu_out (update_window ?c) = cu_out c" "rcvrWindow (update_window ?c) = 65535"
    by (simp_all add: update_window_def in_order_def add.commute)
qed

lemma cubic_sendAck_ok:
  assumes "\<And>p. e_net env p \<noteq> - ERROR_NETWORK_CLOSED"
  shows "\<exists>ret p. cubic_sendAck env n fp fl c = Inr (ret, cu_emit (Ev_Send p) c) \<and> h_ackNo (p_header p) = n \<and>
     h_window (p_header p) = rcvrWindow c \<and> h_flag (p_header p) = FLAG_ACK"
  using assms by (auto simp: cubic_sendAck_def cu_send_def Let_def)

lemma in_order_emit [simp]: "in_order k (cu_emit e c) = in_order k c"
  by (simp add: in_order_def cu_emit_def)

lemma packetRcv_in_order:
  assumes "\<And>p. e_net env p \<noteq> - ERROR_NETWORK_CLOSED"
    and "h_seqNo (p_header pkt) = of_nat k" "rcv_buffer c = new_receiver_buffer \<and> k = 0 \<or> in_order k c"
  shows "\<exists>c' a. packetRcv env pkt c = Inr c' \<and> in_order (Suc k) c' \<and> cu_out c' = cu_out c @ [Ev_Send a] \<and>
    h_ackNo (p_header a) = of_nat (Suc k)"
proof -
  define c1 where "c1 = (if in_order k c then update_window (following_packet (of_nat k) c) else cubic_first_packet 0 c)"
  have "in_order (Suc k) c1 \<and> cu_out c1 = cu_out c"
  proof (cases "in_order k c")
    case True
    then show ?thesis using following_in_order [OF True] by (simp add: c1_def)
  next
    case False
    then have "c1 = cubic_first_packet 0 c" "rcv_buffer c = new_receiver_buffer" "k = 0" using assms(3) by (auto simp: c1_def)
    then show ?thesis by (simp add: cubic_first_packet_def in_order_def upd_rcv_def new_receiver_buffer_def MAXBUFFER_def)
  qed
  moreover have "packetRcv env pkt c = bind_res (cubic_sendAck env (curr_ackno c1) (h_fingerPrint (p_header pkt)) (h_flowId (p_header pkt)) c1)
    (\<lambda>(_, c2). Inr c2)"
  proof (cases "in_order k c")
    case True
    then have "seqNumberRcvd c = of_nat (k - 1)" "0 < k" by (simp_all only: in_order_def)
    then have "uint (seqNumberRcvd c) = (int k - 1) mod MAXBUFFER" by (simp only: uint_of_nat_16) (simp add: of_nat_diff)
    then have "uint (of_nat k :: appInt16) - uint (seqNumberRcvd c) \<in> {1, - 65535}"
      using next_number [of k] by (simp add: uint_of_nat_16)
    then show ?thesis using True by (simp add: packetRcv_def Let_def assms(2) c1_def) (auto simp: in_order_def)
  next
    case False
    then show ?thesis using assms(2,3) by (simp add: packetRcv_def Let_def c1_def new_receiver_buffer_def)
  qed
  moreover obtain ret a where "cubic_sendAck env (curr_ackno c1) (h_fingerPrint (p_header pkt)) (h_flowId (p_header pkt)) c1
      = Inr (ret, cu_emit (Ev_Send a) c1)" "h_ackNo (p_header a) = curr_ackno c1"
    using cubic_sendAck_ok [OF assms(1)] by blast
  ultimately show ?thesis by (auto simp: cu_emit_def in_order_def)
qed

text \<open>
  Packets that arrive in order at a new CUBIC receiver, however many, are
  acknowledged one by one: the \<open>k\<close>-th packet by the number \<open>k\<close> (modulo 2^16), each
  acknowledgement being the only thing the receiver sends; the indexes of its
  buffer follow through every wrap.
\<close>
theorem cubic_receives_in_order:
  assumes "rcv_buffer c = new_receiver_buffer" "\<And>p. e_net env p \<noteq> - ERROR_NETWORK_CLOSED"
    and "map (h_seqNo \<circ> p_header) pkts = map of_nat [0..<n]"
  shows "\<exists>c' acks. do_all (packetRcv env) pkts c = Inr c' \<and> cu_out c' = cu_out c @ map Ev_Send acks \<and>
    map (h_ackNo \<circ> p_header) acks = map of_nat [1..<Suc n] \<and> (0 < n \<longrightarrow> in_order n c')"
  using assms(3)
proof (induction n arbitrary: pkts)
  case (Suc n)
  from Suc.prems obtain ps pkt where p: "pkts = ps @ [pkt]" "map (h_seqNo \<circ> p_header) ps = map of_nat [0..<n]"
    "h_seqNo (p_header pkt) = of_nat n"
    by (auto simp: map_eq_append_conv)
  from Suc.IH [OF p(2)] obtain c1 acks where c1: "do_all (packetRcv env) ps c = Inr c1" "cu_out c1 = cu_out c @ map Ev_Send acks"
    "map (h_ackNo \<circ> p_header) acks = map of_nat [1..<Suc n]" "0 < n \<longrightarrow> in_order n c1" by blast
  have "rcv_buffer c1 = new_receiver_buffer \<and> n = 0 \<or> in_order n c1"
    using c1(1,4) p(2) assms(1) by (cases n) auto
  from packetRcv_in_order [OF assms(2) p(3) this] obtain c2 a where c2: "packetRcv env pkt c1 = Inr c2" "in_order (Suc n) c2"
    "cu_out c2 = cu_out c1 @ [Ev_Send a]" "h_ackNo (p_header a) = of_nat (Suc n)" by blast
  show ?case
    by (rule exI [of _ c2], rule exI [of _ "acks @ [a]"])
      (use c1(1-3) c2 p upt_Suc_append [of 1 "Suc n"] in \<open>simp add: do_all_append comp_def del: upt_Suc\<close>)
qed simp

theorem cubic_receives_in_order_witness:
  "\<exists>c'. do_all (packetRcv \<lparr> e_now = 0, e_net = \<lambda>_. 1, e_fingerPrint = 1, e_status = None \<rparr>)
     (map (\<lambda>k. new_Packet\<lparr> p_header := reinit_header\<lparr> h_seqNo := k \<rparr> \<rparr>) [0, 1, 2]) sample_cubic = Inr c' \<and> length (cu_out c') = 3"
  using cubic_receives_in_order [of sample_cubic "\<lparr> e_now = 0, e_net = \<lambda>_. 1, e_fingerPrint = 1, e_status = None \<rparr>"
      "map (\<lambda>k. new_Packet\<lparr> p_header := reinit_header\<lparr> h_seqNo := k \<rparr> \<rparr>) [0, 1, 2]" 3]
  by (auto simp: sample_cubic_simps ERROR_NETWORK_CLOSED_def upt_rec)

section \<open>Faults\<close>

text \<open>
  Whatever arrives, the receiver sends at most one acknowledgement and hands
  nothing to the flows above.
\<close>

lemma packetRcv_only_acknowledges:
  assumes "packetRcv env pkt c = Inr c'"
  shows "\<exists>a. cu_out c' = cu_out c @ [Ev_Send a] \<and> h_flag (p_header a) = FLAG_ACK"
proof -
  have skip: "skip_received n s d = Inr d' \<Longrightarrow> cu_out d' = cu_out d" for n s d d'
    by (induction n s d rule: skip_received.induct) (auto simp: advance_expected_def upd_rcv_def Let_def split: if_splits)
  have out: "cu_out (cubic_first_packet n d) = cu_out d" "cu_out (following_packet n d) = cu_out d" "cu_out (update_window d) = cu_out d"
    "missing_packet n d = Inr d' \<Longrightarrow> cu_out d' = cu_out d" "other_packet n d = Inr d' \<Longrightarrow> cu_out d' = cu_out d" for n d d'
    by (auto simp: cubic_first_packet_def following_packet_def update_window_def missing_packet_def other_packet_def advance_expected_def
        upd_rcv_def Let_def check_Inr_iff split: if_splits dest!: skip)
  from assms [unfolded packetRcv_def Let_def] obtain c1 where
    c1: "(if lastByteRead (rcv_buffer c) = 0 \<and> lastByteRcvd (rcv_buffer c) = 0 \<and> \<not> rcv_indicator (rcv_buffer c)
          then Inr (cubic_first_packet (h_seqNo (p_header pkt)) c)
          else bind_res (if uint (h_seqNo (p_header pkt)) - uint (seqNumberRcvd c) = 1 \<or>
                            uint (h_seqNo (p_header pkt)) - uint (seqNumberRcvd c) = - 65535
                         then Inr (following_packet (h_seqNo (p_header pkt)) c)
                         else if seqNumberExpected c = h_seqNo (p_header pkt) then missing_packet (h_seqNo (p_header pkt)) c
                         else other_packet (h_seqNo (p_header pkt)) c) (\<lambda>c'. Inr (update_window c'))) = Inr c1"
    and send: "bind_res (cubic_sendAck env (curr_ackno c1) (h_fingerPrint (p_header pkt)) (h_flowId (p_header pkt)) c1) (\<lambda>(_, c2). Inr c2) = Inr c'"
    by (rule bind_resE)
  have "cu_out c1 = cu_out c" using c1 by (auto simp: bind_res_Inr_iff out split: if_splits)
  with send show ?thesis
    by (auto simp: cubic_sendAck_def cu_send_def Let_def bind_res_Inr_iff app_assert_Inr_iff cu_emit_def)
qed

lemma of_int_smod [simp]: "(of_int (i smod MAXBUFFER) :: appInt16) = of_int i"
proof -
  have "(of_int MAXBUFFER :: appInt16) = 0" by (simp add: MAXBUFFER_def)
  then show ?thesis by (simp add: signed_modulo_int_eq_modulo_int)
qed

text \<open>\<open>lastByteAcked\<close> has 16 bits with a sign: after 32767 comes a negative index.\<close>

lemma release_next_overflows:
  assumes "lastByteAcked (send_buffer c) = 32767"
  shows "release_next c = Inl Out_Of_Bounds"
  using assms by (simp add: release_next_def Let_def)

lemma release_next_slot:
  assumes "release_next c = Inr c'"
  shows "Timeout_buffer (send_buffer c') (sint (lastByteAcked (send_buffer c'))) = - 1" "0 \<le> sint (lastByteAcked (send_buffer c'))"
    "lastByteAcked (send_buffer c') = lastByteAcked (send_buffer c) + 1"
    "cu_SRTT c' = cu_SRTT c" "cu_RTTVAR c' = cu_RTTVAR c"
  using assms
  by (auto simp: release_next_def Let_def check_Inr_iff upd_snd_def cubic_freePacket_def cu_emit_def split: option.splits)

lemma release_loop_slot:
  assumes "release_loop (Suc n) c = Inr c'"
  shows "Timeout_buffer (send_buffer c') (sint (lastByteAcked (send_buffer c'))) = - 1 \<and> 0 \<le> sint (lastByteAcked (send_buffer c')) \<and>
    lastByteAcked (send_buffer c') = lastByteAcked (send_buffer c) + of_nat (Suc n) \<and>
    cu_SRTT c' = cu_SRTT c \<and> cu_RTTVAR c' = cu_RTTVAR c"
  using assms
proof (induction n arbitrary: c)
  case 0
  then have "release_next c = Inr c'" by (cases "release_next c") simp_all
  from release_next_slot [OF this] show ?case by simp
next
  case (Suc n)
  then obtain c1 where c1: "release_next c = Inr c1" "release_loop (Suc n) c1 = Inr c'" by (auto simp: bind_res_Inr_iff)
  have "lastByteAcked (send_buffer c1) + of_nat (Suc n) = lastByteAcked (send_buffer c) + of_nat (Suc (Suc n))"
    using release_next_slot(3) [OF c1(1)] by (simp add: algebra_simps)
  from Suc.IH [OF c1(2), unfolded this release_next_slot(4,5) [OF c1(1)]] show ?case .
qed

lemma pos_int_Suc: "0 \<le> x \<Longrightarrow> x \<noteq> 0 \<Longrightarrow> \<exists>n. x = int (Suc n)"
  by (rule exI [of _ "nat x - 1"]) simp

lemma uint_of_sint:
  fixes l :: appInt16
  assumes "0 \<le> sint l"
  shows "uint l = sint l"
proof -
  have "uint (of_int (sint l) :: appInt16) = sint l mod 65536" by (simp only: uint_word_of_int_eq take_bit_eq_mod) simp
  moreover have "sint l < 65536" using sint_lt [of l] by simp
  ultimately show ?thesis using assms by simp
qed

lemma srtt_simps [simp]:
  "cu_SRTT (upd_snd f c) = cu_SRTT c" "cu_SRTT (cu_emit e c) = cu_SRTT c" "cu_SRTT (setSenderWindowSize c) = cu_SRTT c"
  by (simp_all add: upd_snd_def cu_emit_def setSenderWindowSize_def)

lemma send_cell_srtt: "send_cell env i j c = Inr (n, c') \<Longrightarrow> cu_SRTT c' = cu_SRTT c"
  by (auto simp: send_cell_def cu_send_def Let_def bind_res_Inr_iff app_assert_Inr_iff split: option.splits if_splits)

lemma cc_update_srtt: "cc_update cbrt now w acked c = Inr c' \<Longrightarrow> cu_SRTT c' = cu_SRTT c"
  unfolding cc_update_def Let_def by (erule bind_resE) auto

lemma cubic_ack_rcv_srtt:
  assumes "cubic_ack_rcv cbrt now acked c = Inr c'"
  shows "cu_SRTT c' = cu_SRTT c"
proof -
  define d where "d = c\<lparr> ca := (ca c)\<lparr> delay_min := (if delay_min (ca c) \<noteq> 0 \<and> uint (delay_min (ca c)) < cu_RTT c
    then delay_min (ca c) else of_int (cu_RTT c)) \<rparr> \<rparr>"
  have d: "cu_SRTT d = cu_SRTT c" by (simp add: d_def)
  show ?thesis
    using assms d cc_update_srtt [of cbrt now _ _ d]
    unfolding cubic_ack_rcv_def Let_def d_def [symmetric]
    by (cases "CWND d \<le> cu_ssthresh d") (fastforce elim!: bind_resE simp: check_Inr_iff split: if_split_asm)+
qed

lemma srtt_send_loop: "cubic_send_loop env n c = Inr c' \<Longrightarrow> cu_SRTT c' = cu_SRTT c"
  by (induction env n c rule: cubic_send_loop.induct)
    (auto simp: bind_res_Inr_iff send_next_def Let_def split: if_splits dest!: send_cell_srtt)

text \<open>
  The round trip estimate of the CUBIC handler follows the clock, not the
  round trips.  The handler empties the cells an acknowledgement releases, their
  times included, before it reads the time of the last one: the sample is the
  time of day in milliseconds plus one.
\<close>

theorem cubic_samples_the_clock:
  assumes "cubic_valid_ack cbrt env ackno c = Inr c'" "ackno \<noteq> lastByteAcked (send_buffer c) + 1"
  shows "cu_SRTT c' = (7 * cu_SRTT c) sdiv 8 + (mili env + 1) sdiv 8"
proof -
  let ?range = "(MAXBUFFER + (uint ackno - sint (lastByteAcked (send_buffer c)) - 1)) smod MAXBUFFER"
  let ?i = "(uint ackno - 1) smod MAXBUFFER"
  obtain c1 c2 where c1: "release_loop (nat ?range) c = Inr c1" "0 \<le> ?i"
    and c2: "cubic_ack_rcv cbrt (mili env) (of_int ?range) (timeoutCalculation (mili env - Timeout_buffer (send_buffer c1) ?i) c1) = Inr c2"
    and rest: "\<exists>n. cubic_send_loop env n ((setSenderWindowSize c2)\<lparr> prev_CWND := cu_senderWindow (setSenderWindowSize c2) \<rparr>) = Inr c'"
    using assms(1) by (auto simp: cubic_valid_ack_def Let_def bind_res_Inr_iff check_Inr_iff)
  have "(of_int MAXBUFFER :: appInt16) = 0" by (simp add: MAXBUFFER_def)
  then have r: "(of_int ?range :: appInt16) = ackno - (lastByteAcked (send_buffer c) + 1)"
    by (simp only: of_int_smod of_int_add of_int_diff of_int_1 of_int_uint of_int_sint) simp
  have "uint ackno \<noteq> 0"
  proof
    assume "uint ackno = 0"
    then have "?i = - 1" by (simp add: MAXBUFFER_def signed_modulo_int_def)
    then show False using c1(2) by simp
  qed
  moreover have "0 \<le> uint ackno" "uint ackno < 65536" using unsigned_less [of ackno, where 'a = int] by simp_all
  ultimately have pos: "0 < uint ackno" "uint ackno < 65536" by (metis le_neq_trans, blast)
  have "(u - 1) smod 65536 = u - 1" if "0 < u" "u < 65536" for u :: int using that by (simp add: smod_mod_positive)
  from this [OF pos] have i: "?i = uint ackno - 1" by (simp only: MAXBUFFER_def)
  have "sint (lastByteAcked (send_buffer c)) < 32768" using sint_lt [of "lastByteAcked (send_buffer c)"] by simp
  then have "0 \<le> ?range" using pos(1) by (intro smod_int_compares(2)) (simp_all add: MAXBUFFER_def del: uint_0_iff)
  moreover have "?range \<noteq> 0"
  proof
    assume "?range = 0"
    then have "ackno - (lastByteAcked (send_buffer c) + 1) = 0" using r by (simp only: of_int_0)
    then show False using assms(2) by (simp only: right_minus_eq)
  qed
  ultimately obtain n where n: "?range = int (Suc n)" using pos_int_Suc by blast
  then have slot: "release_loop (Suc n) c = Inr c1" using c1(1) by (simp only: nat_int)
  have d: "of_nat (Suc n) = ackno - (lastByteAcked (send_buffer c) + 1)" using r unfolding n by (simp only: of_int_of_nat_eq)
  have "lastByteAcked (send_buffer c1) = lastByteAcked (send_buffer c) + of_nat (Suc n)" using release_loop_slot [OF slot] by blast
  then have "lastByteAcked (send_buffer c1) = ackno - 1" unfolding d by (simp add: algebra_simps)
  moreover have "0 \<le> sint (lastByteAcked (send_buffer c1))" using release_loop_slot [OF slot] by blast
  ultimately have "sint (lastByteAcked (send_buffer c1)) = uint (ackno - 1)" by (metis uint_of_sint)
  also have "\<dots> = ?i" unfolding i using pos(1) by (simp add: uint_sub_if')
  finally have s: "sint (lastByteAcked (send_buffer c1)) = ?i" .
  have "Timeout_buffer (send_buffer c1) ?i = - 1" "cu_SRTT c1 = cu_SRTT c"
    using release_loop_slot [OF slot] unfolding s by blast+
  then have "cu_SRTT c2 = (7 * cu_SRTT c) sdiv 8 + (mili env + 1) sdiv 8"
    using cubic_ack_rcv_srtt [OF c2] by (simp add: timeoutCalculation_def Let_def)
  with rest show ?thesis by (auto dest!: srtt_send_loop)
qed

definition sent_one :: cubic where
  "sent_one = sample_cubic\<lparr> CWND := 1, advertisedWindow := 1,
     send_buffer := new_sender_buffer\<lparr> cu_buffer := (\<lambda>_. None)(0 := Some new_Packet) \<rparr> \<rparr>"

lemma send_loop_empty:
  "cu_buffer (send_buffer c) ((lastByteSent (send_buffer c) + 1) mod MAXBUFFER) = None \<Longrightarrow> cubic_send_loop env n c = Inr c"
  by (induction n) (simp_all add: send_next_def Let_def)

theorem cubic_samples_the_clock_witness:
  "\<exists>c'. cubic_valid_ack (\<lambda>_. 0) \<lparr> e_now = 8000000000, e_net = \<lambda>_. 1, e_fingerPrint = 1, e_status = None \<rparr> 1 sent_one = Inr c' \<and>
     cu_SRTT c' = 1000875"
proof -
  let ?env = "\<lparr> e_now = 8000000000, e_net = \<lambda>_. 1, e_fingerPrint = 1, e_status = None \<rparr>"
  have "prev_CWND sample_cubic = 0"
    by (simp add: sample_cubic_def new_cubic_def cc_init_def do_div_def bic_scale_def firstTimeoutCalculation_def Let_def)
  then have "\<exists>c'. cubic_valid_ack (\<lambda>_. 0) ?env 1 sent_one = Inr c'"
    by (simp add: cubic_valid_ack_def sent_one_def sample_cubic_simps new_sender_buffer_def Let_def release_next_def
        upd_snd_def cubic_freePacket_def reinit_header_def has_flag_def FLAG_DAT_def cubic_ack_rcv_def timeoutCalculation_def
        setSenderWindowSize_def send_loop_empty word_le_nat_alt MAXBUFFER_def)
  then obtain c' where "cubic_valid_ack (\<lambda>_. 0) ?env 1 sent_one = Inr c'" by blast
  moreover from cubic_samples_the_clock [OF this] have "cu_SRTT c' = 1000875"
    by (simp add: sent_one_def sample_cubic_simps new_sender_buffer_def mili_def)
  ultimately show ?thesis by blast
qed

end
