(* ===== verification/SearchMac.thy ===== *)
theory SearchMac
  imports Addresses OrderedMap "HOL-Library.List_Lexorder" "HOL-Library.Char_ord"
begin

text \<open>
  \<open>SearchMac\<close> (src/src/TunnelLib/InterfaceController/SearchMac.cc): where the
  interface monitor learns which interfaces there are, from a directory with one
  file per interface or else from the routing table and \<open>getifaddrs\<close>.  What the
  system answers is the record \<open>net_env\<close>; the rows of /proc/net/route and
  /proc/net/arp are given as the fields \<open>sscanf\<close> takes from them.  The only
  effect of these functions, the commands they run, is a list passed along, on
  which the ARP table depends.
\<close>

section \<open>What the system answers\<close>

record net_env =
  ne_dir :: "string option"
  ne_list :: "string \<Rightarrow> string list option"
  ne_file :: "string \<Rightarrow> string option"
  ne_route :: "(string \<times> appInt32 \<times> appInt32) list option"
  ne_addrs :: "(string \<times> appInt32 option) list option"
  ne_arp :: "string list \<Rightarrow> (string \<times> string) list option"
  inet_addr :: "string \<Rightarrow> appInt32"
  inet_ntoa :: "appInt32 \<Rightarrow> string"
  ether_aton :: "string \<Rightarrow> appByte list option"

section \<open>The files of the interfaces\<close>

text \<open>\<open>getline\<close>: the lines of a file, each with its newline if it has one.\<close>

fun getlines :: "string \<Rightarrow> string list" where
  "getlines [] = []"
| "getlines (c # cs) =
     (if c = CHR 0x0A then [c] # getlines cs
      else case getlines cs of [] \<Rightarrow> [[c]] | l # ls \<Rightarrow> (c # l) # ls)"

text \<open>The C string in the buffer, its newline overwritten by 0.\<close>

definition chomp :: "string \<Rightarrow> string" where
  "chomp l = takeWhile (\<lambda>c. c \<noteq> CHR 0x00) (if l \<noteq> [] \<and> last l = CHR 0x0A then butlast l else l)"

record ifc_conf =
  cf_iface :: string
  cf_gw :: appInt32
  cf_ip :: appInt32

text \<open>One line; \<open>strchr\<close> answers NULL for a line without an equals sign, and the code writes there.\<close>

definition conf_line :: "net_env \<Rightarrow> string \<Rightarrow> ifc_conf \<Rightarrow> ifc_conf res" where
  "conf_line ne line c =
     (let s = chomp line; key = takeWhile (\<lambda>x. x \<noteq> CHR ''='') s; val = tl (dropWhile (\<lambda>x. x \<noteq> CHR ''='') s) in
      check Null_Deref (CHR ''='' \<in> set s)
        (Inr (if key = ''iface'' then c\<lparr> cf_iface := val \<rparr>
              else if key = ''gw'' then c\<lparr> cf_gw := inet_addr ne val \<rparr>
              else if key = ''ip'' then c\<lparr> cf_ip := inet_addr ne val \<rparr>
              else c)))"

definition read_conf :: "net_env \<Rightarrow> string \<Rightarrow> ifc_conf res" where
  "read_conf ne s = do_all (conf_line ne) (getlines s) \<lparr> cf_iface = '''', cf_gw = 0, cf_ip = 0 \<rparr>"

text \<open>\<open>readdir\<close>: a set of names, in their order.\<close>

definition readdir :: "net_env \<Rightarrow> string \<Rightarrow> string list" where
  "readdir ne path = (case ne_list ne path of None \<Rightarrow> []
     | Some ns \<Rightarrow> remdups (sort (filter (\<lambda>n. n \<noteq> ''.'' \<and> n \<noteq> ''..'') ns)))"

definition conf_dir :: "net_env \<Rightarrow> string" where
  "conf_dir ne = (case ne_dir ne of Some d \<Rightarrow> if d \<noteq> '''' then d else ''/tmp/viscous_ifconf/'' | None \<Rightarrow> ''/tmp/viscous_ifconf/'')"

definition conf_path :: "string \<Rightarrow> string \<Rightarrow> string" where
  "conf_path path file = (if path \<noteq> '''' \<and> last path \<noteq> CHR ''/'' then path @ ''/'' @ file else path @ file)"

definition add_conf :: "net_env \<Rightarrow> string \<Rightarrow> (appInt32 \<times> string \<times> appInt32) list \<Rightarrow> (appInt32 \<times> string \<times> appInt32) list res" where
  "add_conf ne file m =
     (case ne_file ne (conf_path (conf_dir ne) file) of
        None \<Rightarrow> Inr m
      | Some s \<Rightarrow> bind_res (read_conf ne s) (\<lambda>c.
          Inr (if cf_ip c = 0 \<or> cf_gw c = 0 \<or> cf_iface c = '''' then m
               else om_update (cf_ip c) (cf_iface c, cf_gw c) m)))"

definition getAllGatewayAndIfaceUsingIfHack :: "net_env \<Rightarrow> (appInt32 \<times> string \<times> appInt32) list res" where
  "getAllGatewayAndIfaceUsingIfHack ne = do_all (add_conf ne) (readdir ne (conf_dir ne)) []"

section \<open>Hardware addresses\<close>

definition getMac :: "net_env \<Rightarrow> string list \<Rightarrow> string \<Rightarrow> appByte list option res" where
  "getMac ne cmds searchIp =
     (case ne_arp ne cmds of
        None \<Rightarrow> Inl Null_Deref
      | Some rows \<Rightarrow>
          (case find (\<lambda>(ip, hwa). ip = searchIp) rows of
             None \<Rightarrow> Inr None
           | Some (ip, hwa) \<Rightarrow>
               (case ether_aton ne hwa of None \<Rightarrow> Inl Null_Deref | Some mac \<Rightarrow> Inr (Some mac))))"

text \<open>An address that is not in the table is pinged; the command is put together in 100 bytes.\<close>

definition getMacR :: "net_env \<Rightarrow> string \<Rightarrow> string \<Rightarrow> string list \<Rightarrow> (appByte list option \<times> string list) res" where
  "getMacR ne ifc ip cmds =
     bind_res (getMac ne cmds ip) (\<lambda>mac.
     if mac \<noteq> None then Inr (mac, cmds)
     else let cmd = ''ping -c 2 -I '' @ ifc @ '' '' @ ip in
       check Out_Of_Bounds (length cmd < 100)
         (bind_res (getMac ne (cmds @ [cmd]) ip) (\<lambda>mac'. Inr (mac', cmds @ [cmd]))))"

section \<open>The routing table\<close>

definition getAllGatewayAndIface :: "net_env \<Rightarrow> (string \<times> appInt32) list" where
  "getAllGatewayAndIface ne = (case ne_route ne of None \<Rightarrow> []
     | Some rows \<Rightarrow> fold (\<lambda>(iface, dst, gw) m. if dst = 0 then om_update iface gw m else m) rows [])"

definition getGatewayAndIface :: "net_env \<Rightarrow> string \<Rightarrow> appInt32 option" where
  "getGatewayAndIface ne ifc = (case ne_route ne of None \<Rightarrow> None
     | Some rows \<Rightarrow> map_option (\<lambda>(iface, dst, gw). gw) (find (\<lambda>(iface, dst, gw). dst = 0 \<and> iface = ifc) rows))"

definition getGatewayAddress :: "net_env \<Rightarrow> string \<Rightarrow> string list \<Rightarrow> (int \<times> string list) res" where
  "getGatewayAddress ne ifc cmds =
     (case getGatewayAndIface ne ifc of
        None \<Rightarrow> Inr (1, cmds)
      | Some gw \<Rightarrow> bind_res (getMacR ne ifc (inet_ntoa ne gw) cmds) (\<lambda>(mac, cmds'). Inr (if mac = None then 2 else 0, cmds')))"

text \<open>169.254.0.0/16, as \<open>inet_addr\<close> gives it on a little endian machine.\<close>

definition link_local :: "appInt32 \<Rightarrow> bool" where
  "link_local a \<longleftrightarrow> a AND 0xFFFF = 0xFEA9"

definition add_ip :: "string \<times> appInt32 option \<Rightarrow> (string \<times> appInt32) list \<Rightarrow> (string \<times> appInt32) list res" where
  "add_ip e m =
     (case snd e of
        None \<Rightarrow> Inr m
      | Some a \<Rightarrow> if link_local a then Inr m
          else app_assert (map_of m (fst e) = None) (Inr (om_update (fst e) a m)))"

definition getAllIp :: "net_env \<Rightarrow> (string \<times> appInt32) list res" where
  "getAllIp ne = (case ne_addrs ne of None \<Rightarrow> Inr [] | Some es \<Rightarrow> do_all add_ip es [])"

section \<open>The list of interfaces\<close>

definition mk_addr :: "string \<Rightarrow> appInt32 \<Rightarrow> appByte list \<Rightarrow> appInt32 \<Rightarrow> InterfaceAddr" where
  "mk_addr ifc gw mac ip = \<lparr> ia_ifc = ifc, ia_gwIp = gw, ia_gwMac = mac, ia_ifcIp = ip, ia_localPort = 0 \<rparr>"

type_synonym found = "InterfaceAddr list \<times> string list"

definition route_one :: "net_env \<Rightarrow> (string \<times> appInt32) list \<Rightarrow> string \<times> appInt32 \<Rightarrow> found \<Rightarrow> found res" where
  "route_one ne ips ig acc =
     (case (ig, acc) of ((ifc, gw), (xs, cmds)) \<Rightarrow>
      bind_res (getMacR ne ifc (inet_ntoa ne gw) cmds) (\<lambda>(mac, cmds').
      Inr (case (mac, map_of ips ifc) of
             (Some e, Some ip) \<Rightarrow> (xs @ [mk_addr ifc gw e ip], cmds')
           | _ \<Rightarrow> (xs, cmds'))))"

definition getIpMatrixUsingRoute :: "net_env \<Rightarrow> string list \<Rightarrow> found res" where
  "getIpMatrixUsingRoute ne cmds =
     bind_res (getAllIp ne) (\<lambda>ips. do_all (route_one ne ips) (getAllGatewayAndIface ne) ([], cmds))"

definition hack_one :: "net_env \<Rightarrow> appInt32 \<times> string \<times> appInt32 \<Rightarrow> found \<Rightarrow> found res" where
  "hack_one ne e acc =
     (case (e, acc) of ((ip, ifc, gw), (xs, cmds)) \<Rightarrow>
      bind_res (getMacR ne ifc (inet_ntoa ne gw) cmds) (\<lambda>(mac, cmds').
      Inr (case mac of Some m \<Rightarrow> (xs @ [mk_addr ifc gw m ip], cmds') | None \<Rightarrow> (xs, cmds'))))"

definition getIpMatrixUsingHack :: "net_env \<Rightarrow> string list \<Rightarrow> found res" where
  "getIpMatrixUsingHack ne cmds =
     bind_res (getAllGatewayAndIfaceUsingIfHack ne) (\<lambda>m. do_all (hack_one ne) m ([], cmds))"

definition getIpMatrix :: "net_env \<Rightarrow> string list \<Rightarrow> found res" where
  "getIpMatrix ne cmds =
     bind_res (getIpMatrixUsingHack ne cmds) (\<lambda>(xs, cmds').
     if xs = [] then getIpMatrixUsingRoute ne cmds' else Inr (xs, cmds'))"

section \<open>One interface by its name\<close>

text \<open>The answers of the four \<open>ioctl\<close> calls of \<open>get_if_info\<close>.\<close>

record if_answers =
  if_socket :: bool
  if_index :: bool
  if_mac :: bool
  if_addr :: bool
  if_inet :: bool
  if_flags :: bool
  if_loopback :: bool

definition set_if :: "bool \<Rightarrow> appInt \<Rightarrow> appInt \<Rightarrow> appInt" where
  "set_if b v r = (if b then r OR v else r)"

definition get_if_info :: "if_answers \<Rightarrow> string \<Rightarrow> appInt" where
  "get_if_info a ifname =
     (if \<not> if_socket a \<or> 15 < length ifname then 1
      else let r1 = set_if (\<not> if_index a) 8 1; r2 = set_if (\<not> if_mac a) 16 r1; r3 = set_if (\<not> if_addr a) 4 r2;
               r4 = set_if (\<not> if_inet a) 4 r3; r5 = set_if (\<not> if_flags a) 32 r4; r6 = set_if (if_loopback a) 2 r5 in
           r6 AND NOT 1)"

section \<open>Reading back a file\<close>

text \<open>The file that describes an interface, and what makes a value readable.\<close>

definition show_conf :: "string \<Rightarrow> string \<Rightarrow> string \<Rightarrow> string" where
  "show_conf ifc gw ip = ''iface='' @ ifc @ [CHR 0x0A] @ ''gw='' @ gw @ [CHR 0x0A] @ ''ip='' @ ip @ [CHR 0x0A]"

definition plain :: "string \<Rightarrow> bool" where
  "plain s \<longleftrightarrow> CHR 0x0A \<notin> set s \<and> CHR 0x00 \<notin> set s"

lemma getlines_line: "CHR 0x0A \<notin> set l \<Longrightarrow> getlines (l @ CHR 0x0A # s) = (l @ [CHR 0x0A]) # getlines s"
  by (induction l) auto

lemma chomp_line: "plain l \<Longrightarrow> chomp (l @ [CHR 0x0A]) = l"
  by (auto simp: chomp_def plain_def takeWhile_eq_all_conv)

lemma conf_line_line:
  assumes "plain val" "plain key" "CHR ''='' \<notin> set key"
  shows "conf_line ne (key @ CHR ''='' # val @ [CHR 0x0A]) c =
    Inr (if key = ''iface'' then c\<lparr> cf_iface := val \<rparr> else if key = ''gw'' then c\<lparr> cf_gw := inet_addr ne val \<rparr>
         else if key = ''ip'' then c\<lparr> cf_ip := inet_addr ne val \<rparr> else c)"
proof -
  have "chomp ((key @ CHR ''='' # val) @ [CHR 0x0A]) = key @ CHR ''='' # val"
    using assms by (intro chomp_line) (auto simp: plain_def)
  moreover have "takeWhile (\<lambda>x. x \<noteq> CHR ''='') (key @ CHR ''='' # val) = key"
    using assms(3) by (subst takeWhile_append2) auto
  moreover have "dropWhile (\<lambda>x. x \<noteq> CHR ''='') (key @ CHR ''='' # val) = CHR ''='' # val"
    using assms(3) by (subst dropWhile_append2) auto
  ultimately show ?thesis by (simp add: conf_line_def Let_def)
qed

lemma read_show_conf:
  assumes "plain ifc" "plain gw" "plain ip"
  shows "read_conf ne (show_conf ifc gw ip) = Inr \<lparr> cf_iface = ifc, cf_gw = inet_addr ne gw, cf_ip = inet_addr ne ip \<rparr>"
proof -
  have lines: "getlines (show_conf ifc gw ip) =
    [''iface'' @ CHR ''='' # ifc @ [CHR 0x0A], ''gw'' @ CHR ''='' # gw @ [CHR 0x0A], ''ip'' @ CHR ''='' # ip @ [CHR 0x0A]]"
    using assms getlines_line [of "''iface='' @ ifc" "''gw='' @ gw @ CHR 0x0A # ''ip='' @ ip @ CHR 0x0A # []"]
      getlines_line [of "''gw='' @ gw" "''ip='' @ ip @ CHR 0x0A # []"] getlines_line [of "''ip='' @ ip" "[]"]
    by (simp add: show_conf_def plain_def)
  have p: "plain ''iface''" "plain ''gw''" "plain ''ip''" by (simp_all add: plain_def)
  show ?thesis
    unfolding read_conf_def lines do_all.simps
    using conf_line_line [OF assms(1) p(1)] conf_line_line [OF assms(2) p(2)] conf_line_line [OF assms(3) p(3)] by simp
qed

text \<open>A blank line, or any line without an equals sign, ends the process.\<close>

lemma blank_line_crashes: "read_conf ne ([CHR 0x0A] @ s) = Inl Null_Deref"
  by (simp add: read_conf_def conf_line_def chomp_def Let_def)

text \<open>Two addresses of one interface end it too.\<close>

lemma second_address_aborts:
  "\<not> link_local a \<Longrightarrow> \<not> link_local b \<Longrightarrow> ne_addrs ne = Some ((ifc, Some a) # (ifc, Some b) # es) \<Longrightarrow>
   getAllIp ne = Inl Assert_Failed"
  by (simp add: getAllIp_def add_ip_def)

section \<open>From the files to the interfaces\<close>

lemma om_update_sub: "set (om_update k v m) \<subseteq> insert (k, v) (set m)"
  by (induction k v m rule: om_update.induct) auto

text \<open>A description is the name of its file and the three texts in it.\<close>

type_synonym description = "string \<times> string \<times> string \<times> string"

definition describes :: "net_env \<Rightarrow> description \<Rightarrow> bool" where
  "describes ne d = (case d of (n, ifc, gw, ip) \<Rightarrow>
     ne_file ne (conf_path (conf_dir ne) n) = Some (show_conf ifc gw ip) \<and> plain ifc \<and> plain gw \<and> plain ip \<and>
     ifc \<noteq> '''' \<and> inet_addr ne gw \<noteq> 0 \<and> inet_addr ne ip \<noteq> 0)"

definition entry_of :: "net_env \<Rightarrow> description \<Rightarrow> appInt32 \<times> string \<times> appInt32" where
  "entry_of ne d = (case d of (n, ifc, gw, ip) \<Rightarrow> (inet_addr ne ip, ifc, inet_addr ne gw))"

definition to_addr :: "net_env \<Rightarrow> (string \<Rightarrow> appByte list) \<Rightarrow> appInt32 \<times> string \<times> appInt32 \<Rightarrow> InterfaceAddr" where
  "to_addr ne mac_of e = (case e of (ip, ifc, gw) \<Rightarrow> mk_addr ifc gw (mac_of (inet_ntoa ne gw)) ip)"

lemma add_conf_described:
  assumes "describes ne (n, ifc, gw, ip)"
  shows "add_conf ne n m = Inr (om_update (inet_addr ne ip) (ifc, inet_addr ne gw) m)"
  using assms read_show_conf [of ifc gw ip ne] by (simp add: describes_def add_conf_def)

lemma add_confs_described:
  assumes "\<forall>d\<in>set ds. describes ne d" "om_wf m"
  shows "\<exists>m'. do_all (add_conf ne) (map fst ds) m = Inr m' \<and> om_wf m' \<and>
    fst ` set m' = fst ` set m \<union> (fst \<circ> entry_of ne) ` set ds \<and> set m' \<subseteq> set m \<union> entry_of ne ` set ds"
  using assms
proof (induction ds arbitrary: m)
  case (Cons d ds)
  obtain n ifc gw ip where d: "d = (n, ifc, gw, ip)" by (cases d)
  let ?m = "om_update (inet_addr ne ip) (ifc, inet_addr ne gw) m"
  have "om_wf ?m" using Cons.prems(2) by (rule om_update_wf)
  then obtain m' where m': "do_all (add_conf ne) (map fst ds) ?m = Inr m'" "om_wf m'"
    "fst ` set m' = fst ` set ?m \<union> (fst \<circ> entry_of ne) ` set ds" "set m' \<subseteq> set ?m \<union> entry_of ne ` set ds"
    using Cons.IH [of ?m] Cons.prems(1) by auto
  have "add_conf ne n m = Inr ?m" using Cons.prems(1) by (intro add_conf_described) (simp add: d)
  then show ?case
    using m' om_update_sub [of "inet_addr ne ip" "(ifc, inet_addr ne gw)" m]
    by (intro exI [of _ m']) (auto simp: d om_update_set entry_of_def)
qed simp

lemma hack_all:
  assumes "\<And>e. e \<in> set m \<Longrightarrow> getMac ne cmds (inet_ntoa ne (snd (snd e))) = Inr (Some (mac_of (inet_ntoa ne (snd (snd e)))))"
  shows "do_all (hack_one ne) m (xs, cmds) = Inr (xs @ map (to_addr ne mac_of) m, cmds)"
  using assms
proof (induction m arbitrary: xs)
  case (Cons e m)
  obtain ip ifc gw where e: "e = (ip, ifc, gw)" by (cases e)
  have "getMacR ne ifc (inet_ntoa ne gw) cmds = Inr (Some (mac_of (inet_ntoa ne gw)), cmds)"
    using Cons.prems [of e] by (simp add: getMacR_def e)
  then show ?case using Cons.IH [of "xs @ [to_addr ne mac_of e]"] Cons.prems by (simp add: hack_one_def e to_addr_def)
qed simp

text \<open>
  C38: the interfaces described by the files of the directory are what
  \<open>getIpMatrix\<close> returns: one entry for each address, in the order of the
  addresses, every one made of the texts of one file and the hardware address
  of its gateway, and nothing is pinged when the ARP table knows the gateways.
\<close>
theorem interfaces_from_files:
  assumes "readdir ne (conf_dir ne) = map fst ds" "ds \<noteq> []" "\<forall>d\<in>set ds. describes ne d"
    and "\<forall>d\<in>set ds. let gw = inet_ntoa ne (snd (snd (entry_of ne d))) in getMac ne cmds gw = Inr (Some (mac_of gw))"
  shows "\<exists>xs. getIpMatrix ne cmds = Inr (xs, cmds) \<and> sorted_wrt (<) (map ia_ifcIp xs) \<and>
    ia_ifcIp ` set xs = (fst \<circ> entry_of ne) ` set ds \<and> set xs \<subseteq> (to_addr ne mac_of \<circ> entry_of ne) ` set ds"
proof -
  obtain m where m: "do_all (add_conf ne) (map fst ds) [] = Inr m" "om_wf m"
    "fst ` set m = (fst \<circ> entry_of ne) ` set ds" "set m \<subseteq> entry_of ne ` set ds"
    using add_confs_described [OF assms(3) om_wf_Nil] by auto
  let ?xs = "map (to_addr ne mac_of) m"
  have "do_all (hack_one ne) m ([], cmds) = Inr (?xs, cmds)"
    using hack_all [of m ne cmds mac_of "[]"] m(4) assms(4) by (fastforce simp: Let_def)
  moreover have "m \<noteq> []" using m(3) assms(2) by auto
  ultimately have run: "getIpMatrix ne cmds = Inr (?xs, cmds)"
    by (simp add: getIpMatrix_def getIpMatrixUsingHack_def getAllGatewayAndIfaceUsingIfHack_def assms(1) m(1))
  have ips: "ia_ifcIp (to_addr ne mac_of e) = fst e" for e by (cases e) (simp add: to_addr_def mk_addr_def)
  then have "map ia_ifcIp ?xs = map fst m" "ia_ifcIp ` set ?xs = fst ` set m" by (simp_all add: image_image)
  then have sorted: "sorted_wrt (<) (map ia_ifcIp ?xs)" using m(2) by (simp only: om_wf_def)
  show ?thesis
    by (rule exI [of _ ?xs]) (use run sorted \<open>ia_ifcIp ` set ?xs = fst ` set m\<close> m(3,4) in auto)
qed

text \<open>Two interfaces whose gateways are in the ARP table.\<close>


definition sample_net :: net_env where
  "sample_net = \<lparr> ne_dir = None, ne_list = (\<lambda>_. Some [''wlan0'', ''.'', ''eth0'']),
     ne_file = (\<lambda>p. if p = ''/tmp/viscous_ifconf/eth0'' then Some (show_conf ''eth0'' ''10.0.0.1'' ''10.0.0.2'')
       else if p = ''/tmp/viscous_ifconf/wlan0'' then Some (show_conf ''wlan0'' ''10.0.1.1'' ''10.0.1.2'') else None),
     ne_route = None, ne_addrs = None,
     ne_arp = (\<lambda>_. Some [(''10.0.0.1'', ''m0''), (''10.0.1.1'', ''m1'')]),
     inet_addr = (\<lambda>s. if s = ''10.0.0.1'' then 0x0100000A else if s = ''10.0.0.2'' then 0x0200000A
       else if s = ''10.0.1.1'' then 0x0101000A else if s = ''10.0.1.2'' then 0x0201000A else 0),
     inet_ntoa = (\<lambda>a. if a = 0x0100000A then ''10.0.0.1'' else ''10.0.1.1''),
     ether_aton = (\<lambda>s. if s = ''m0'' then Some [2, 0, 0, 0, 0, 1] else if s = ''m1'' then Some [2, 0, 0, 0, 0, 2] else None) \<rparr>"

lemma sort_pair: "(a :: 'a::linorder) < b \<Longrightarrow> sort [b, a] = [a, b]"
  by auto

lemma sample_readdir: "readdir sample_net (conf_dir sample_net) = [''eth0'', ''wlan0'']"
proof -
  have ls: "ne_list sample_net p = Some [''wlan0'', ''.'', ''eth0'']" for p by (simp add: sample_net_def)
  have f: "filter (\<lambda>n. n \<noteq> ''.'' \<and> n \<noteq> ''..'') [''wlan0'', ''.'', ''eth0''] = [''wlan0'', ''eth0'']" by simp
  have "''eth0'' < ''wlan0''" by simp
  then have "sort [''wlan0'', ''eth0''] = [''eth0'', ''wlan0'']" by (rule sort_pair)
  moreover have "remdups [''eth0'', ''wlan0''] = [''eth0'', ''wlan0'']" by simp
  ultimately show ?thesis by (simp only: readdir_def ls f option.case)
qed

theorem interfaces_from_files_witness:
  "\<exists>xs. getIpMatrix sample_net [] = Inr (xs, []) \<and> map ia_ifcIp xs = [0x0200000A, 0x0201000A]"
proof -
  have "\<exists>xs. getIpMatrix sample_net [] = Inr (xs, []) \<and> sorted_wrt (<) (map ia_ifcIp xs) \<and>
    ia_ifcIp ` set xs = (fst \<circ> entry_of sample_net) ` set [(''eth0'', ''eth0'', ''10.0.0.1'', ''10.0.0.2''), (''wlan0'', ''wlan0'', ''10.0.1.1'', ''10.0.1.2'')] \<and>
    set xs \<subseteq> (to_addr sample_net (\<lambda>g. if g = ''10.0.0.1'' then [2, 0, 0, 0, 0, 1] else [2, 0, 0, 0, 0, 2]) \<circ> entry_of sample_net) `
      set [(''eth0'', ''eth0'', ''10.0.0.1'', ''10.0.0.2''), (''wlan0'', ''wlan0'', ''10.0.1.1'', ''10.0.1.2'')]"
    by (rule interfaces_from_files, simp only: sample_readdir list.map fst_conv)
      (simp_all add: describes_def sample_net_def conf_dir_def conf_path_def plain_def entry_of_def getMac_def)
  then obtain xs where xs: "getIpMatrix sample_net [] = Inr (xs, [])" "sorted_wrt (<) (map ia_ifcIp xs)"
    "set (map ia_ifcIp xs) = {0x0200000A, 0x0201000A}"
    by (auto simp: entry_of_def sample_net_def)
  have "map ia_ifcIp xs = [0x0200000A, 0x0201000A]"
  proof (rule sorted_distinct_set_unique)
    show "sorted (map ia_ifcIp xs)" "distinct (map ia_ifcIp xs)" using xs(2) by (simp_all only: strict_sorted_iff)
    show "set (map ia_ifcIp xs) = set [0x0200000A, 0x0201000A]" by (simp only: xs(3) list.set)
    show "sorted [0x0200000A, 0x0201000A :: appInt32]" by simp
    show "distinct [0x0200000A, 0x0201000A :: appInt32]" by simp
  qed
  with xs(1) show ?thesis by (intro exI [of _ xs] conjI)
qed

end
