(* ===== verification/ObjPool.thy ===== *)
theory ObjPool
  imports Prelude
begin

text \<open>
  \<open>util::AppStack\<close> and \<open>util::AppPool\<close> (src/src/util/AppStack.hh, AppPool.hh): a
  stack in an array that doubles, and on it a pool that hands out objects from
  blocks of 128.  The build compiles the pool with \<open>-DNO_POOL\<close>, where every object
  is allocated on its own; both variants are modelled.  An object is its address;
  a new block lies beyond all earlier ones.
\<close>

section \<open>The stack\<close>

text \<open>What a cell beyond the top holds is never read; \<open>realloc\<close> keeps the cells below.\<close>

record 'a stack =
  st_p :: "int \<Rightarrow> 'a"
  st_top :: int
  st_length :: int

definition new_AppStack :: "(int \<Rightarrow> 'a) \<Rightarrow> int \<Rightarrow> 'a stack" where
  "new_AppStack junk n = \<lparr> st_p = junk, st_top = - 1, st_length = n \<rparr>"

definition stack_push :: "'a \<Rightarrow> 'a stack \<Rightarrow> 'a stack res" where
  "stack_push x s =
     (let n = (if st_top s = st_length s - 1 then if st_length s = 0 then 256 else st_length s * 2 else st_length s);
          t = st_top s + 1 in
      check Out_Of_Bounds (0 \<le> t \<and> t < n) (Inr (s\<lparr> st_length := n, st_top := t, st_p := (st_p s)(t := x) \<rparr>)))"

definition stack_pop :: "'a stack \<Rightarrow> 'a stack res" where
  "stack_pop s = app_assert (st_top s \<noteq> - 1) (Inr (s\<lparr> st_top := st_top s - 1 \<rparr>))"

definition stack_top :: "'a stack \<Rightarrow> 'a res" where
  "stack_top s = app_assert (st_top s \<noteq> - 1) (check Out_Of_Bounds (0 \<le> st_top s \<and> st_top s < st_length s) (Inr (st_p s (st_top s))))"

definition stack_empty :: "'a stack \<Rightarrow> bool" where
  "stack_empty s \<longleftrightarrow> st_top s \<le> - 1"

section \<open>What a client relies on\<close>

text \<open>\<open>rel s xs\<close>: the stack \<open>s\<close> holds \<open>xs\<close>, the top first.\<close>

locale lifo =
  fixes rel :: "'s \<Rightarrow> 'a list \<Rightarrow> bool"
    and push :: "'a \<Rightarrow> 's \<Rightarrow> 's res"
    and pop :: "'s \<Rightarrow> 's res"
    and top :: "'s \<Rightarrow> 'a res"
    and empty :: "'s \<Rightarrow> bool"
  assumes push_rel: "rel s xs \<Longrightarrow> \<exists>s'. push x s = Inr s' \<and> rel s' (x # xs)"
    and pop_rel: "rel s (x # xs) \<Longrightarrow> \<exists>s'. pop s = Inr s' \<and> rel s' xs"
    and pop_Nil: "rel s [] \<Longrightarrow> pop s = Inl Assert_Failed"
    and top_rel: "rel s (x # xs) \<Longrightarrow> top s = Inr x"
    and empty_rel: "rel s xs \<Longrightarrow> empty s \<longleftrightarrow> xs = []"
begin

text \<open>Taking the top of a stack that is not empty, the way the pool does.\<close>

lemma take_rel:
  assumes "rel s xs" "\<not> empty s"
  shows "\<exists>s'. bind_res (top s) (\<lambda>x. bind_res (pop s) (\<lambda>s'. Inr (x, s'))) = Inr (hd xs, s') \<and> rel s' (tl xs)"
proof -
  obtain x ys where xs: "xs = x # ys" using assms empty_rel by (cases xs) auto
  obtain s' where "pop s = Inr s'" "rel s' ys" using pop_rel assms(1) xs by blast
  then show ?thesis using top_rel [of s x ys] assms(1) by (simp add: xs)
qed

lemma push_all: "rel s xs \<Longrightarrow> \<exists>s'. do_all push ys s = Inr s' \<and> rel s' (rev ys @ xs)"
proof (induction ys arbitrary: s xs)
  case (Cons y ys)
  obtain s1 where "push y s = Inr s1" "rel s1 (y # xs)" using push_rel [OF Cons.prems] by blast
  then show ?case using Cons.IH [of s1 "y # xs"] by simp
qed simp

end

definition stack_rel :: "'a stack \<Rightarrow> 'a list \<Rightarrow> bool" where
  "stack_rel s xs \<longleftrightarrow> st_top s = int (length xs) - 1 \<and> int (length xs) \<le> st_length s \<and>
     (\<forall>i < length xs. st_p s (int i) = rev xs ! i)"

lemma stack_rel_new: "0 \<le> n \<Longrightarrow> stack_rel (new_AppStack junk n) []"
  by (simp add: stack_rel_def new_AppStack_def)

interpretation st: lifo stack_rel stack_push stack_pop stack_top stack_empty
proof
  fix s :: "'a stack" and x and xs
  assume s: "stack_rel s xs"
  then show "\<exists>s'. stack_push x s = Inr s' \<and> stack_rel s' (x # xs)"
    by (auto simp: stack_rel_def stack_push_def Let_def check_def nth_append less_Suc_eq)
  show "stack_empty s \<longleftrightarrow> xs = []" using s by (auto simp: stack_rel_def stack_empty_def)
next
  fix s :: "'a stack" and x and xs
  assume s: "stack_rel s (x # xs)"
  then show "\<exists>s'. stack_pop s = Inr s' \<and> stack_rel s' xs"
    by (auto simp: stack_rel_def stack_pop_def app_assert_def nth_append)
  from s have "st_p s (int (length xs)) = (rev xs @ [x]) ! length xs" by (simp add: stack_rel_def)
  then show "stack_top s = Inr x" using s by (simp add: stack_rel_def stack_top_def nth_append)
next
  fix s :: "'a stack"
  assume "stack_rel s []"
  then show "stack_pop s = Inl Assert_Failed" by (simp add: stack_rel_def stack_pop_def)
qed

section \<open>The pool\<close>

definition PACKETS_PER_POOL :: nat where "PACKETS_PER_POOL = 128"

text \<open>\<open>heap_end\<close> is the first address never allocated.\<close>

record obj_pool =
  op_pool :: "nat stack"
  localPool :: "nat option"
  localPoolTop :: nat
  allocatedPacket :: int
  heap_end :: nat

definition new_AppPool :: "(int \<Rightarrow> nat) \<Rightarrow> obj_pool" where
  "new_AppPool junk = \<lparr> op_pool = new_AppStack junk 0, localPool = None, localPoolTop = 0, allocatedPacket = 0, heap_end = 0 \<rparr>"

text \<open>When the block is used up: an object given back, or the first of a new block.\<close>

definition reuse_or_grow :: "obj_pool \<Rightarrow> (nat \<times> obj_pool) res" where
  "reuse_or_grow p =
     (if stack_empty (op_pool p)
      then Inr (heap_end p, p\<lparr> localPool := Some (heap_end p), localPoolTop := 1, heap_end := heap_end p + PACKETS_PER_POOL \<rparr>)
      else bind_res (bind_res (stack_top (op_pool p)) (\<lambda>x. bind_res (stack_pop (op_pool p)) (\<lambda>s. Inr (x, s)))) (\<lambda>(x, s).
             Inr (x, p\<lparr> op_pool := s \<rparr>)))"

definition getNew :: "obj_pool \<Rightarrow> (nat \<times> obj_pool) res" where
  "getNew p =
     bind_res (case localPool p of
        None \<Rightarrow> reuse_or_grow p
      | Some b \<Rightarrow> if localPoolTop p = PACKETS_PER_POOL then reuse_or_grow p
                  else Inr (b + localPoolTop p, p\<lparr> localPoolTop := localPoolTop p + 1 \<rparr>))
       (\<lambda>(x, p'). Inr (x, p'\<lparr> allocatedPacket := allocatedPacket p' + 1 \<rparr>))"

definition pool_free :: "nat \<Rightarrow> obj_pool \<Rightarrow> obj_pool res" where
  "pool_free x p = bind_res (stack_push x (op_pool p)) (\<lambda>s. Inr (p\<lparr> op_pool := s, allocatedPacket := allocatedPacket p - 1 \<rparr>))"

text \<open>With \<open>NO_POOL\<close> an object is allocated by itself and given back to the system.\<close>

definition getNew_no_pool :: "obj_pool \<Rightarrow> nat \<times> obj_pool" where
  "getNew_no_pool p = (heap_end p, p\<lparr> heap_end := heap_end p + 1, allocatedPacket := allocatedPacket p + 1 \<rparr>)"

definition free_no_pool :: "nat \<Rightarrow> obj_pool \<Rightarrow> obj_pool" where
  "free_no_pool x p = p\<lparr> allocatedPacket := allocatedPacket p - 1 \<rparr>"

section \<open>No object is handed out twice\<close>

text \<open>
  A history of the pool with the set of the objects in use; an object is freed
  only while it is in use.
\<close>

inductive objs_run :: "nat set \<Rightarrow> obj_pool \<Rightarrow> bool" where
  start: "objs_run {} (new_AppPool junk)"
| get: "objs_run L p \<Longrightarrow> getNew p = Inr (x, p') \<Longrightarrow> objs_run (insert x L) p'"
| free: "objs_run L p \<Longrightarrow> x \<in> L \<Longrightarrow> pool_free x p = Inr p' \<Longrightarrow> objs_run (L - {x}) p'"

definition objs_inv :: "nat set \<Rightarrow> obj_pool \<Rightarrow> bool" where
  "objs_inv L p \<longleftrightarrow> (\<exists>xs. stack_rel (op_pool p) xs \<and> distinct xs \<and> set xs \<inter> L = {} \<and> finite L \<and>
     (\<forall>x \<in> set xs \<union> L. x < heap_end p) \<and> allocatedPacket p = int (card L) \<and>
     (case localPool p of None \<Rightarrow> True
      | Some b \<Rightarrow> b + PACKETS_PER_POOL \<le> heap_end p \<and> localPoolTop p \<le> PACKETS_PER_POOL \<and>
          {b + localPoolTop p..<b + PACKETS_PER_POOL} \<inter> (set xs \<union> L) = {}))"

lemma reuse_or_grow_inv:
  assumes "objs_inv L p" "\<And>b. localPool p = Some b \<Longrightarrow> localPoolTop p = PACKETS_PER_POOL"
  shows "\<exists>x p'. reuse_or_grow p = Inr (x, p') \<and> x \<notin> L \<and> objs_inv (insert x L) (p'\<lparr> allocatedPacket := allocatedPacket p' + 1 \<rparr>)"
proof -
  from assms(1) obtain xs where xs: "stack_rel (op_pool p) xs" "distinct xs" "set xs \<inter> L = {}" "finite L"
    "\<forall>x \<in> set xs \<union> L. x < heap_end p" "allocatedPacket p = int (card L)"
    "\<And>b. localPool p = Some b \<Longrightarrow> b + PACKETS_PER_POOL \<le> heap_end p"
    by (auto simp: objs_inv_def split: option.splits)
  show ?thesis
  proof (cases "stack_empty (op_pool p)")
    case True
    then have "xs = []" using st.empty_rel [OF xs(1)] by simp
    moreover have "heap_end p \<notin> L" using xs(5) by auto
    moreover have "objs_inv (insert (heap_end p) L) (p\<lparr> localPool := Some (heap_end p), localPoolTop := 1,
        heap_end := heap_end p + PACKETS_PER_POOL, allocatedPacket := allocatedPacket p + 1 \<rparr>)"
      unfolding objs_inv_def by (intro exI [of _ "[]"]) (use calculation xs(1,4-6) in \<open>auto simp: PACKETS_PER_POOL_def\<close>)
    ultimately show ?thesis using True by (simp add: reuse_or_grow_def)
  next
    case False
    obtain s where s: "bind_res (stack_top (op_pool p)) (\<lambda>x. bind_res (stack_pop (op_pool p)) (\<lambda>s. Inr (x, s))) = Inr (hd xs, s)"
      "stack_rel s (tl xs)" using st.take_rel [OF xs(1) False] by blast
    have "xs \<noteq> []" using st.empty_rel [OF xs(1)] False by simp
    then obtain y ys where ys: "xs = y # ys" by (cases xs) auto
    show ?thesis
      using s xs ys assms(2)
      by (intro exI [of _ y] exI [of _ "p\<lparr> op_pool := s \<rparr>"] conjI)
        (auto simp: reuse_or_grow_def False objs_inv_def split: option.splits intro!: exI [of _ ys])
  qed
qed

lemma getNew_inv:
  assumes "objs_inv L p"
  shows "\<exists>x p'. getNew p = Inr (x, p') \<and> x \<notin> L \<and> objs_inv (insert x L) p'"
proof (cases "\<exists>b. localPool p = Some b \<and> localPoolTop p \<noteq> PACKETS_PER_POOL")
  case True
  then obtain b where b: "localPool p = Some b" "localPoolTop p \<noteq> PACKETS_PER_POOL" by blast
  from assms obtain xs where xs: "stack_rel (op_pool p) xs" "distinct xs" "set xs \<inter> L = {}" "finite L"
    "\<forall>x \<in> set xs \<union> L. x < heap_end p" "allocatedPacket p = int (card L)"
    "b + PACKETS_PER_POOL \<le> heap_end p" "localPoolTop p < PACKETS_PER_POOL"
    "{b + localPoolTop p..<b + PACKETS_PER_POOL} \<inter> (set xs \<union> L) = {}"
    using b by (auto simp: objs_inv_def)
  have "b + localPoolTop p \<in> {b + localPoolTop p..<b + PACKETS_PER_POOL}" using xs(8) by simp
  then have new: "b + localPoolTop p \<notin> set xs \<union> L" using xs(9) by blast
  have "{b + (localPoolTop p + 1)..<b + PACKETS_PER_POOL} \<subseteq> {b + localPoolTop p..<b + PACKETS_PER_POOL}" by auto
  then have rest: "{b + (localPoolTop p + 1)..<b + PACKETS_PER_POOL} \<inter> (set xs \<union> L) = {}" using xs(9) by blast
  from new have "objs_inv (insert (b + localPoolTop p) L) (p\<lparr> localPoolTop := localPoolTop p + 1, allocatedPacket := allocatedPacket p + 1 \<rparr>)"
    unfolding objs_inv_def by (intro exI [of _ xs]) (use xs(1-8) rest b in \<open>auto simp: add.assoc\<close>)
  then show ?thesis using b new by (simp add: getNew_def)
next
  case False
  then obtain x p' where "reuse_or_grow p = Inr (x, p')" "x \<notin> L" "objs_inv (insert x L) (p'\<lparr> allocatedPacket := allocatedPacket p' + 1 \<rparr>)"
    using reuse_or_grow_inv [OF assms] by blast
  then show ?thesis using False by (auto simp: getNew_def split: option.splits)
qed

lemma free_inv:
  assumes "objs_inv L p" "x \<in> L"
  shows "\<exists>p'. pool_free x p = Inr p' \<and> objs_inv (L - {x}) p'"
proof -
  from assms(1) obtain xs where xs: "stack_rel (op_pool p) xs" "distinct xs" "set xs \<inter> L = {}" "finite L"
    "\<forall>x \<in> set xs \<union> L. x < heap_end p" "allocatedPacket p = int (card L)"
    "case localPool p of None \<Rightarrow> True
      | Some b \<Rightarrow> b + PACKETS_PER_POOL \<le> heap_end p \<and> localPoolTop p \<le> PACKETS_PER_POOL \<and>
          {b + localPoolTop p..<b + PACKETS_PER_POOL} \<inter> (set xs \<union> L) = {}"
    by (auto simp: objs_inv_def)
  obtain s where s: "stack_push x (op_pool p) = Inr s" "stack_rel s (x # xs)" using st.push_rel [OF xs(1)] by blast
  have "0 < card L" using xs(4) assms(2) by (auto simp: card_gt_0_iff)
  then have "objs_inv (L - {x}) (p\<lparr> op_pool := s, allocatedPacket := allocatedPacket p - 1 \<rparr>)"
    unfolding objs_inv_def
    by (intro exI [of _ "x # xs"]) (use xs s(2) assms(2) in \<open>auto simp: card_Diff_singleton of_nat_diff split: option.splits\<close>)
  then show ?thesis using s(1) by (simp add: pool_free_def)
qed

lemma objs_run_inv: "objs_run L p \<Longrightarrow> objs_inv L p"
proof (induction rule: objs_run.induct)
  case (start junk)
  show ?case using stack_rel_new [of 0 junk] by (auto simp: objs_inv_def new_AppPool_def intro!: exI [of _ "[]"])
next
  case (get L p x p')
  then show ?case using getNew_inv [of L p] by auto
next
  case (free L p x p')
  then show ?case using free_inv [of L p x] by auto
qed

text \<open>
  A pool never hands out an object that is in use, whatever was allocated and
  freed before, neither operation ever fails, and the count of objects in
  circulation is right.
\<close>
theorem pool_objects_distinct:
  assumes "objs_run L p"
  shows "(\<exists>x p'. getNew p = Inr (x, p') \<and> x \<notin> L \<and> objs_run (insert x L) p') \<and>
    (\<forall>x\<in>L. \<exists>p'. pool_free x p = Inr p' \<and> objs_run (L - {x}) p') \<and> allocatedPacket p = int (card L)"
proof (intro conjI ballI)
  have inv: "objs_inv L p" using assms by (rule objs_run_inv)
  show "\<exists>x p'. getNew p = Inr (x, p') \<and> x \<notin> L \<and> objs_run (insert x L) p'"
    using getNew_inv [OF inv] objs_run.get [OF assms] by blast
  show "\<exists>p'. pool_free x p = Inr p' \<and> objs_run (L - {x}) p'" if "x \<in> L" for x
    using free_inv [OF inv that] objs_run.free [OF assms that] by blast
  show "allocatedPacket p = int (card L)" using inv by (auto simp: objs_inv_def)
qed

theorem pool_objects_distinct_witness:
  "objs_run {} (new_AppPool (\<lambda>_. 0)) \<and> (\<exists>x p'. getNew (new_AppPool (\<lambda>_. 0)) = Inr (x, p'))"
  using pool_objects_distinct [OF objs_run.start [of "\<lambda>_. 0"]] objs_run.start by blast

end
