(* ===== verification/EventHandler.thy ===== *)
theory EventHandler
  imports Tunnel
begin

text \<open>
  \<open>PacketEventHandler\<close> (src/src/TunnelLib/PacketEventHandler.cc): the thread that
  listens on the socket, the thread that produces the timer events, and \<open>close\<close>,
  which ends both.  \<open>start\<close>, \<open>close\<close> and the two threads are cut between any two
  accesses to what they share; \<open>eh_step\<close> interleaves the pieces.  The semaphores
  are counters.  The destructor calls \<open>close\<close> when \<open>closed\<close> is not set, and
  nothing sets it.  The loop over a queue of packets that no thread runs any more
  (\<open>bigLoop\<close>) is at the end.
\<close>

section \<open>State\<close>

text \<open>
  Where a thread is: about to set its flag, in its loop, about to clear the flag,
  about to notify, ended.  The timer thread notifies before it clears its flag.
\<close>

datatype con_pc = C_None | C_Set | C_Listen | C_Clear | C_Notify | C_End
datatype timer_pc = T_None | T_Set | T_Sleep | T_Check | T_Fire | T_Notify | T_Clear | T_End

text \<open>The thread that calls \<open>start\<close>, then \<open>close\<close>, then the destructor.\<close>

datatype main_pc = M_Create_Con | M_Set_Con | M_Create_Timer | M_Set_Timer | M_Open
  | M_Shut | M_Flag | M_Ask_Con | M_Wait_Con | M_Ask_Timer | M_Wait_Timer | M_Closed

type_synonym datagram = "appByte list \<times> sockaddr_in \<times> sockaddr_in"

text \<open>The socket holds what has arrived; after \<open>shutdown\<close> nothing more arrives.\<close>

record event_handler =
  conLoopThreadRunning :: bool
  timerLoopThreadRunning :: bool
  timerLoopThreadClosed :: bool
  conLoopThreadClosedWait :: nat
  timerLoopThreadClosedWait :: nat
  sock_shut :: bool
  sock_queue :: "datagram list"
  eh_pool :: PacketPool
  eh_handed :: "Packet list"
  eh_ticks :: nat
  con_at :: con_pc
  timer_at :: timer_pc
  main_at :: main_pc

definition new_PacketEventHandler :: "PacketPool \<Rightarrow> event_handler" where
  "new_PacketEventHandler pool = \<lparr> conLoopThreadRunning = False, timerLoopThreadRunning = False, timerLoopThreadClosed = False,
     conLoopThreadClosedWait = 0, timerLoopThreadClosedWait = 0, sock_shut = False, sock_queue = [], eh_pool = pool,
     eh_handed = [], eh_ticks = 0, con_at = C_None, timer_at = T_None, main_at = M_Create_Con \<rparr>"

section \<open>The threads\<close>

text \<open>
  One round of \<open>Connection::listen\<close>: an empty datagram ends it, and so does
  \<open>recvfrom\<close> on a socket that was shut down, which returns 0.
\<close>

definition eh_listen :: "appInt8 \<Rightarrow> event_handler \<Rightarrow> event_handler res" where
  "eh_listen pad h =
     (case sock_queue h of
        [] \<Rightarrow> if sock_shut h then Inr (h\<lparr> con_at := C_Clear \<rparr>) else Inl Blocked
      | (msg, src, dst) # q \<Rightarrow>
          if msg = [] then Inr (h\<lparr> sock_queue := q, con_at := C_Clear \<rparr>)
          else bind_res (listen_datagram pad msg src dst (eh_pool h)) (\<lambda>(pkt, pool).
            Inr (h\<lparr> sock_queue := q, eh_pool := pool,
                    eh_handed := eh_handed h @ (case pkt of None \<Rightarrow> [] | Some p \<Rightarrow> [p]) \<rparr>)))"

definition con_step :: "appInt8 \<Rightarrow> event_handler \<Rightarrow> event_handler res" where
  "con_step pad h =
     (case con_at h of
        C_Set \<Rightarrow> Inr (h\<lparr> conLoopThreadRunning := True, con_at := C_Listen \<rparr>)
      | C_Listen \<Rightarrow> eh_listen pad h
      | C_Clear \<Rightarrow> Inr (h\<lparr> conLoopThreadRunning := False, con_at := C_Notify \<rparr>)
      | C_Notify \<Rightarrow> Inr (h\<lparr> conLoopThreadClosedWait := conLoopThreadClosedWait h + 1, con_at := C_End \<rparr>)
      | _ \<Rightarrow> Inl Blocked)"

definition timer_step :: "event_handler \<Rightarrow> event_handler res" where
  "timer_step h =
     (case timer_at h of
        T_Set \<Rightarrow> Inr (h\<lparr> timerLoopThreadRunning := True, timer_at := T_Sleep \<rparr>)
      | T_Sleep \<Rightarrow> Inr (h\<lparr> timer_at := T_Check \<rparr>)
      | T_Check \<Rightarrow> Inr (h\<lparr> timer_at := if timerLoopThreadClosed h then T_Notify else T_Fire \<rparr>)
      | T_Fire \<Rightarrow> Inr (h\<lparr> eh_ticks := eh_ticks h + 1, timer_at := T_Sleep \<rparr>)
      | T_Notify \<Rightarrow> Inr (h\<lparr> timerLoopThreadClosedWait := timerLoopThreadClosedWait h + 1, timer_at := T_Clear \<rparr>)
      | T_Clear \<Rightarrow> Inr (h\<lparr> timerLoopThreadRunning := False, timer_at := T_End \<rparr>)
      | _ \<Rightarrow> Inl Blocked)"

section \<open>start and close\<close>

definition main_step :: "event_handler \<Rightarrow> event_handler res" where
  "main_step h =
     (case main_at h of
        M_Create_Con \<Rightarrow> Inr (h\<lparr> con_at := C_Set, main_at := M_Set_Con \<rparr>)
      | M_Set_Con \<Rightarrow> Inr (h\<lparr> conLoopThreadRunning := True, main_at := M_Create_Timer \<rparr>)
      | M_Create_Timer \<Rightarrow> Inr (h\<lparr> timer_at := T_Set, main_at := M_Set_Timer \<rparr>)
      | M_Set_Timer \<Rightarrow> Inr (h\<lparr> timerLoopThreadRunning := True, main_at := M_Open \<rparr>)
      | M_Shut \<Rightarrow> Inr (h\<lparr> sock_shut := True, main_at := M_Flag \<rparr>)
      | M_Flag \<Rightarrow> Inr (h\<lparr> timerLoopThreadClosed := True, main_at := M_Ask_Con \<rparr>)
      | M_Ask_Con \<Rightarrow> Inr (h\<lparr> main_at := if conLoopThreadRunning h then M_Wait_Con else M_Ask_Timer \<rparr>)
      | M_Wait_Con \<Rightarrow>
          if conLoopThreadClosedWait h = 0 then Inl Blocked
          else Inr (h\<lparr> conLoopThreadClosedWait := conLoopThreadClosedWait h - 1, main_at := M_Ask_Timer \<rparr>)
      | M_Ask_Timer \<Rightarrow> Inr (h\<lparr> main_at := if timerLoopThreadRunning h then M_Wait_Timer else M_Closed \<rparr>)
      | M_Wait_Timer \<Rightarrow>
          if timerLoopThreadClosedWait h = 0 then Inl Blocked
          else Inr (h\<lparr> timerLoopThreadClosedWait := timerLoopThreadClosedWait h - 1, main_at := M_Closed \<rparr>)
      | _ \<Rightarrow> Inl Blocked)"

section \<open>Interleavings\<close>

text \<open>\<open>Call_Close\<close>: the application closes an open handler, or the destructor closes it again.\<close>

datatype eh_label = Arrive datagram | Call_Close | Main | Con | Timer

definition eh_exec :: "appInt8 \<Rightarrow> eh_label \<Rightarrow> event_handler \<Rightarrow> event_handler res" where
  "eh_exec pad l h =
     (case l of
        Arrive d \<Rightarrow> if sock_shut h then Inl Blocked else Inr (h\<lparr> sock_queue := sock_queue h @ [d] \<rparr>)
      | Call_Close \<Rightarrow> if main_at h = M_Open \<or> main_at h = M_Closed then Inr (h\<lparr> main_at := M_Shut \<rparr>) else Inl Blocked
      | Main \<Rightarrow> main_step h
      | Con \<Rightarrow> con_step pad h
      | Timer \<Rightarrow> timer_step h)"

fun eh_runs :: "appInt8 \<Rightarrow> eh_label list \<Rightarrow> event_handler \<Rightarrow> event_handler res" where
  "eh_runs pad [] h = Inr h"
| "eh_runs pad (l # ls) h = bind_res (eh_exec pad l h) (eh_runs pad ls)"

text \<open>The states before the destructor: one call of \<open>close\<close> at most.\<close>

inductive eh_reach :: "appInt8 \<Rightarrow> event_handler \<Rightarrow> bool" for pad :: appInt8 where
  new: "eh_reach pad (new_PacketEventHandler pool)"
| step: "eh_reach pad h \<Longrightarrow> eh_exec pad l h = Inr h' \<Longrightarrow> \<not> (l = Call_Close \<and> main_at h = M_Closed) \<Longrightarrow> eh_reach pad h'"

lemma eh_runs_append: "eh_runs pad (ls @ ls') h = bind_res (eh_runs pad ls h) (eh_runs pad ls')"
proof (induction ls arbitrary: h)
  case (Cons l ls)
  then show ?case by (cases "eh_exec pad l h") simp_all
qed simp

lemmas eh_simps = eh_exec_def main_step_def con_step_def timer_step_def eh_listen_def

section \<open>What holds until the handler is closed for the first time\<close>

definition closing :: "event_handler \<Rightarrow> bool" where
  "closing h \<longleftrightarrow> main_at h \<in> {M_Ask_Con, M_Wait_Con, M_Ask_Timer, M_Wait_Timer, M_Closed}"

definition con_waited :: "event_handler \<Rightarrow> bool" where
  "con_waited h \<longleftrightarrow> main_at h \<in> {M_Ask_Timer, M_Wait_Timer, M_Closed}"

text \<open>
  The notification of the listening thread lies in its semaphore until \<open>close\<close>
  has taken it, and so does that of the timer thread; the flag of the timer
  thread is set until the thread has ended, and nothing ends it before \<open>close\<close>
  asks for it.
\<close>

definition con_inv :: "event_handler \<Rightarrow> bool" where
  "con_inv h \<longleftrightarrow> (con_at h = C_None \<longleftrightarrow> main_at h = M_Create_Con) \<and>
     (\<not> con_waited h \<longrightarrow> conLoopThreadClosedWait h = of_bool (con_at h = C_End)) \<and>
     (main_at h = M_Flag \<or> closing h \<longrightarrow> sock_shut h)"

definition timer_inv :: "event_handler \<Rightarrow> bool" where
  "timer_inv h \<longleftrightarrow>
     (timer_at h = T_None \<longleftrightarrow> main_at h \<in> {M_Create_Con, M_Set_Con, M_Create_Timer}) \<and>
     (closing h \<longleftrightarrow> timerLoopThreadClosed h) \<and>
     (timer_at h = T_Notify \<or> timer_at h = T_Clear \<or> timer_at h = T_End \<longrightarrow> closing h) \<and>
     (main_at h = M_Open \<or> main_at h = M_Shut \<or> main_at h = M_Flag \<or> closing h \<longrightarrow>
       timerLoopThreadRunning h = (timer_at h \<noteq> T_End)) \<and>
     (main_at h \<noteq> M_Closed \<longrightarrow> timerLoopThreadClosedWait h = of_bool (timer_at h = T_Clear \<or> timer_at h = T_End)) \<and>
     (main_at h = M_Closed \<and> timer_at h \<noteq> T_End \<longrightarrow> timerLoopThreadClosedWait h = 0 \<and> timer_at h = T_Clear)"

lemma con_step_frame:
  assumes "con_step pad h = Inr h'"
  shows "main_at h' = main_at h" "timer_at h' = timer_at h" "sock_shut h' = sock_shut h"
    "timerLoopThreadClosed h' = timerLoopThreadClosed h" "timerLoopThreadRunning h' = timerLoopThreadRunning h"
    "timerLoopThreadClosedWait h' = timerLoopThreadClosedWait h" "set (sock_queue h') \<subseteq> set (sock_queue h)"
    "con_at h \<noteq> C_None \<and> con_at h' \<noteq> C_None \<and> con_at h \<noteq> C_End"
    "conLoopThreadClosedWait h' = conLoopThreadClosedWait h + of_bool (con_at h' = C_End)"
  using assms by (cases "con_at h"; force simp: con_step_def eh_listen_def bind_res_Inr_iff split: list.splits if_splits)+

lemma timer_step_frame:
  assumes "timer_step h = Inr h'"
  shows "main_at h' = main_at h" "con_at h' = con_at h" "sock_shut h' = sock_shut h" "sock_queue h' = sock_queue h"
    "conLoopThreadRunning h' = conLoopThreadRunning h" "conLoopThreadClosedWait h' = conLoopThreadClosedWait h"
  using assms by (cases "timer_at h"; force simp: timer_step_def)+

definition keeps :: "(event_handler \<Rightarrow> bool) \<Rightarrow> event_handler res \<Rightarrow> bool" where
  "keeps I r \<longleftrightarrow> (case r of Inl _ \<Rightarrow> True | Inr h \<Rightarrow> I h)"

lemma keeps_simps [simp]: "keeps I (Inl e)" "keeps I (Inr h) = I h"
  by (simp_all add: keeps_def)

lemma con_inv_main: "con_inv h \<Longrightarrow> keeps con_inv (main_step h)"
  by (cases "main_at h"; cases "con_at h"; simp add: con_inv_def con_waited_def closing_def main_step_def)

lemma inv_sock_queue [simp]: "con_inv (h\<lparr> sock_queue := q \<rparr>) = con_inv h" "timer_inv (h\<lparr> sock_queue := q \<rparr>) = timer_inv h"
  by (simp_all add: con_inv_def con_waited_def timer_inv_def closing_def)

lemma timer_inv_main: "timer_inv h \<Longrightarrow> keeps timer_inv (main_step h)"
  by (cases "main_at h"; cases "timer_at h"; simp add: timer_inv_def closing_def main_step_def)

lemma timer_inv_timer: "timer_inv h \<Longrightarrow> keeps timer_inv (timer_step h)"
  by (cases "main_at h"; cases "timer_at h"; simp add: timer_inv_def closing_def timer_step_def)

lemma con_inv_step:
  assumes "con_inv h" "eh_exec pad l h = Inr h'" "\<not> (l = Call_Close \<and> main_at h = M_Closed)"
  shows "con_inv h'"
proof (cases l)
  case Main
  then show ?thesis using con_inv_main [OF assms(1)] assms(2) by (simp add: eh_exec_def)
next
  case Con
  then have "con_step pad h = Inr h'" using assms(2) by (simp add: eh_exec_def)
  from con_step_frame [OF this] assms(1) show ?thesis
    by (simp add: con_inv_def con_waited_def closing_def)
next
  case Timer
  then have "timer_step h = Inr h'" using assms(2) by (simp add: eh_exec_def)
  from timer_step_frame [OF this] assms(1) show ?thesis
    by (simp add: con_inv_def con_waited_def closing_def)
next
  case Call_Close
  then show ?thesis using assms
    by (auto simp: con_inv_def con_waited_def closing_def eh_exec_def split: if_splits)
next
  case (Arrive d)
  then have "h' = h\<lparr> sock_queue := sock_queue h @ [d] \<rparr>" using assms(2) by (simp add: eh_exec_def split: if_splits)
  then show ?thesis using assms(1) by simp
qed

lemma timer_inv_step:
  assumes "timer_inv h" "eh_exec pad l h = Inr h'" "\<not> (l = Call_Close \<and> main_at h = M_Closed)"
  shows "timer_inv h'"
proof (cases l)
  case Main
  then show ?thesis using timer_inv_main [OF assms(1)] assms(2) by (simp add: eh_exec_def)
next
  case Timer
  then show ?thesis using timer_inv_timer [OF assms(1)] assms(2) by (simp add: eh_exec_def)
next
  case Call_Close
  then have "main_at h = M_Open" "h' = h\<lparr> main_at := M_Shut \<rparr>"
    using assms(2,3) by (auto simp: eh_exec_def split: if_splits)
  then show ?thesis using assms(1) by (cases "timer_at h"; simp add: timer_inv_def closing_def)
next
  case (Arrive d)
  then have "h' = h\<lparr> sock_queue := sock_queue h @ [d] \<rparr>" using assms(2) by (simp add: eh_exec_def split: if_splits)
  then show ?thesis using assms(1) by simp
next
  case Con
  then have st: "con_step pad h = Inr h'" using assms(2) by (simp add: eh_exec_def)
  show ?thesis using assms(1) unfolding timer_inv_def closing_def con_step_frame(1-6) [OF st] .
qed

lemma eh_reach_inv: "eh_reach pad h \<Longrightarrow> con_inv h \<and> timer_inv h"
proof (induction rule: eh_reach.induct)
  case (new pool)
  show ?case by (simp add: con_inv_def timer_inv_def closing_def con_waited_def new_PacketEventHandler_def)
next
  case (step h l h')
  then show ?case using con_inv_step timer_inv_step by blast
qed

section \<open>The first close\<close>

text \<open>What is left to do once \<open>close\<close> has set the flag of the timer thread, in steps.\<close>

fun con_work :: "con_pc \<Rightarrow> nat \<Rightarrow> nat" where
  "con_work C_Set n = 4 + n"
| "con_work C_Listen n = 3 + n"
| "con_work C_Clear n = 2"
| "con_work C_Notify n = 1"
| "con_work _ n = 0"

fun timer_work :: "timer_pc \<Rightarrow> nat" where
  "timer_work T_Set = 5"
| "timer_work T_Fire = 5"
| "timer_work T_Sleep = 4"
| "timer_work T_Check = 3"
| "timer_work T_Notify = 2"
| "timer_work T_Clear = 1"
| "timer_work _ = 0"

fun main_work :: "main_pc \<Rightarrow> nat" where
  "main_work M_Ask_Con = 4"
| "main_work M_Wait_Con = 3"
| "main_work M_Ask_Timer = 2"
| "main_work M_Wait_Timer = 1"
| "main_work _ = 0"

definition close_work :: "event_handler \<Rightarrow> nat" where
  "close_work h = con_work (con_at h) (length (sock_queue h)) + timer_work (timer_at h) + main_work (main_at h)"

text \<open>A datagram that does not make the decoder abort the process.\<close>

definition decodes :: "appInt8 \<Rightarrow> datagram \<Rightarrow> bool" where
  "decodes pad d \<longleftrightarrow> (\<forall>pool. \<exists>x. listen_datagram pad (fst d) (fst (snd d)) (snd (snd d)) pool = Inr x)"

definition stuck :: "appInt8 \<Rightarrow> event_handler \<Rightarrow> bool" where
  "stuck pad h \<longleftrightarrow> (\<forall>l h'. eh_exec pad l h = Inr h' \<longrightarrow> l = Call_Close)"

lemma stuckD: "stuck pad h \<Longrightarrow> l \<noteq> Call_Close \<Longrightarrow> \<nexists>h'. eh_exec pad l h = Inr h'"
  by (auto simp: stuck_def)

lemma con_step_work:
  assumes "con_step pad h = Inr h'"
  shows "con_work (con_at h') (length (sock_queue h')) < con_work (con_at h) (length (sock_queue h))"
  using assms by (cases "con_at h"; force simp: con_step_def eh_listen_def bind_res_Inr_iff split: list.splits if_splits)

lemma timer_step_work:
  assumes "timer_step h = Inr h'" "timerLoopThreadClosed h"
  shows "timer_work (timer_at h') < timer_work (timer_at h)" "timerLoopThreadClosed h'"
  using assms by (cases "timer_at h"; force simp: timer_step_def)+

lemma main_step_work:
  assumes "main_step h = Inr h'" "closing h"
  shows "main_work (main_at h') < main_work (main_at h)" "closing h'" "con_at h' = con_at h" "timer_at h' = timer_at h"
    "sock_queue h' = sock_queue h"
proof -
  have "keeps (\<lambda>h'. main_work (main_at h') < main_work (main_at h) \<and> closing h' \<and> con_at h' = con_at h \<and>
      timer_at h' = timer_at h \<and> sock_queue h' = sock_queue h) (main_step h)"
    using assms(2) by (cases "main_at h"; simp add: closing_def main_step_def)
  then show "main_work (main_at h') < main_work (main_at h)" "closing h'" "con_at h' = con_at h" "timer_at h' = timer_at h"
    "sock_queue h' = sock_queue h" using assms(1) by simp_all
qed

lemma closing_step:
  assumes "eh_reach pad h" "closing h" "\<forall>d\<in>set (sock_queue h). decodes pad d"
    and "eh_exec pad l h = Inr h'" "l \<noteq> Call_Close"
  shows "eh_reach pad h'" "closing h'" "\<forall>d\<in>set (sock_queue h'). decodes pad d" "close_work h' < close_work h"
proof -
  note inv = eh_reach_inv [OF assms(1)]
  show "eh_reach pad h'" using eh_reach.step [OF assms(1,4)] assms(5) by blast
  have sh: "sock_shut h" and tc: "timerLoopThreadClosed h" using inv assms(2) by (auto simp: con_inv_def timer_inv_def)
  consider "main_step h = Inr h'" | "con_step pad h = Inr h'" | "timer_step h = Inr h'"
    using assms(4,5) sh by (cases l) (auto simp: eh_exec_def)
  then have "closing h' \<and> set (sock_queue h') \<subseteq> set (sock_queue h) \<and> close_work h' < close_work h"
  proof cases
    case 1
    then show ?thesis using main_step_work [OF 1 assms(2)] by (simp add: close_work_def)
  next
    case 2
    then show ?thesis using con_step_work [OF 2] con_step_frame [OF 2] assms(2) by (simp add: close_work_def closing_def)
  next
    case 3
    then show ?thesis using timer_step_work [OF 3 tc] timer_step_frame [OF 3] assms(2)
      by (simp add: close_work_def closing_def)
  qed
  then show "closing h'" "\<forall>d\<in>set (sock_queue h'). decodes pad d" "close_work h' < close_work h"
    using assms(3) by auto
qed

lemma closing_progress:
  assumes "eh_reach pad h" "closing h" "\<forall>d\<in>set (sock_queue h). decodes pad d" "stuck pad h"
  shows "main_at h = M_Closed \<and> con_at h = C_End \<and> timer_at h = T_End"
proof -
  have c: "con_inv h" and t: "timer_inv h" using eh_reach_inv [OF assms(1)] by auto
  have blocked: "\<nexists>h'. main_step h = Inr h'" "\<nexists>h'. con_step pad h = Inr h'" "\<nexists>h'. timer_step h = Inr h'"
    using stuckD [OF assms(4), of Main] stuckD [OF assms(4), of Con] stuckD [OF assms(4), of Timer]
    by (simp_all add: eh_exec_def)
  have pcs: "con_at h \<noteq> C_None" "timer_at h \<noteq> T_None" "sock_shut h"
    using c t assms(2) by (cases "main_at h"; simp add: con_inv_def timer_inv_def closing_def)+
  have con: "con_at h = C_End"
  proof (cases "con_at h")
    case C_Listen
    have "\<exists>h'. con_step pad h = Inr h'"
    proof (cases "sock_queue h")
      case (Cons d q)
      obtain msg src dst where d: "d = (msg, src, dst)" by (cases d)
      obtain x where "listen_datagram pad msg src dst (eh_pool h) = Inr x"
        using bspec [OF assms(3), of d] Cons unfolding d decodes_def by fastforce
      then show ?thesis using C_Listen Cons d by (cases x) (simp add: con_step_def eh_listen_def)
    qed (use C_Listen pcs(3) in \<open>simp add: con_step_def eh_listen_def\<close>)
    with blocked(2) show ?thesis by simp
  qed (use blocked(2) pcs(1) in \<open>simp_all add: con_step_def\<close>)
  have timer: "timer_at h = T_End"
    using blocked(3) pcs(2) by (cases "timer_at h"; simp add: timer_step_def)
  have "main_at h = M_Wait_Con \<Longrightarrow> conLoopThreadClosedWait h = 1" "main_at h = M_Wait_Timer \<Longrightarrow> timerLoopThreadClosedWait h = 1"
    using c t con timer by (simp_all add: con_inv_def timer_inv_def con_waited_def)
  then have "main_at h = M_Closed"
    using blocked(1) assms(2) by (cases "main_at h"; simp add: main_step_def closing_def)
  then show ?thesis using con timer by simp
qed

text \<open>
  C39: the first \<open>close\<close> returns.  In whatever state of its threads a handler is
  closed, once \<open>close\<close> has shut the socket down and set its flag no schedule of
  the three threads is longer than the work left, and where none of them can go on
  \<open>close\<close> has returned and both threads have ended; the datagrams still in the
  socket must be such that decoding them does not abort the process.
\<close>

theorem first_close_returns:
  assumes "eh_reach pad h" "closing h" "\<forall>d\<in>set (sock_queue h). decodes pad d"
    and "eh_runs pad ls h = Inr h'" "Call_Close \<notin> set ls"
  shows "length ls \<le> close_work h \<and>
    (stuck pad h' \<longrightarrow> main_at h' = M_Closed \<and> con_at h' = C_End \<and> timer_at h' = T_End)"
  using assms
proof (induction ls arbitrary: h)
  case Nil
  then show ?case using closing_progress by auto
next
  case (Cons l ls)
  then obtain h1 where h1: "eh_exec pad l h = Inr h1" "eh_runs pad ls h1 = Inr h'" by (auto simp: bind_res_Inr_iff)
  note n = closing_step [OF Cons.prems(1-3) h1(1)]
  have l: "l \<noteq> Call_Close" using Cons.prems(5) by auto
  show ?case using Cons.IH [OF n(1) [OF l] n(2) [OF l] n(3) [OF l] h1(2)] n(4) [OF l] Cons.prems(5) by auto
qed

section \<open>The second close\<close>

text \<open>
  \<open>main_at = M_Closed\<close>: the first \<open>close\<close> has returned.  The timer thread may still
  be between its notification and the clearing of its flag; the listening thread
  may even be before its notification, since it clears its flag first.
\<close>

lemma waits_forever:
  assumes "main_at h = M_Wait_Timer" "timer_at h = T_Clear \<or> timer_at h = T_End" "timerLoopThreadClosedWait h = 0"
    and "eh_runs pad ls h = Inr h'"
  shows "main_at h' = M_Wait_Timer"
  using assms
proof (induction ls arbitrary: h)
  case (Cons l ls)
  then obtain h1 where h1: "eh_exec pad l h = Inr h1" "eh_runs pad ls h1 = Inr h'" by (auto simp: bind_res_Inr_iff)
  have "main_at h1 = M_Wait_Timer \<and> (timer_at h1 = T_Clear \<or> timer_at h1 = T_End) \<and> timerLoopThreadClosedWait h1 = 0"
  proof (cases l)
    case Con
    then have "con_step pad h = Inr h1" using h1(1) by (simp add: eh_exec_def)
    then show ?thesis using con_step_frame Cons.prems(1-3) by metis
  qed (use h1(1) Cons.prems(1-3) in \<open>auto simp: eh_exec_def main_step_def timer_step_def split: if_splits\<close>)
  then show ?case using Cons.IH h1(2) by blast
qed simp

text \<open>
  C40: the destructor of a closed handler can block forever.  When the first
  \<open>close\<close> has returned while the timer thread, having notified, has not yet
  cleared its flag, the \<open>close\<close> of the destructor sees the flag and waits for a
  notification that was already taken: whatever the threads do afterwards, it
  does not return.
\<close>

theorem second_close_blocks:
  assumes "eh_reach pad h" "main_at h = M_Closed" "timer_at h \<noteq> T_End" "\<not> conLoopThreadRunning h"
  shows "\<exists>h'. eh_runs pad [Call_Close, Main, Main, Main, Main] h = Inr h' \<and>
    (\<forall>ls h''. eh_runs pad ls h' = Inr h'' \<longrightarrow> main_at h'' = M_Wait_Timer)"
proof -
  have "timer_inv h" using eh_reach_inv [OF assms(1)] by simp
  then have t: "timer_at h = T_Clear" "timerLoopThreadRunning h" "timerLoopThreadClosedWait h = 0"
    using assms(2,3) by (simp_all add: timer_inv_def closing_def)
  let ?h = "h\<lparr> sock_shut := True, timerLoopThreadClosed := True, main_at := M_Wait_Timer \<rparr>"
  have "eh_runs pad [Call_Close, Main, Main, Main, Main] h = Inr ?h"
    using assms(2,4) t by (simp add: eh_exec_def main_step_def)
  moreover have "main_at h'' = M_Wait_Timer" if "eh_runs pad ls ?h = Inr h''" for ls h''
    using waits_forever [OF _ _ _ that] t by simp
  ultimately show ?thesis by blast
qed

lemma eh_reach_runs:
  assumes "eh_reach pad h" "eh_runs pad ls h = Inr h'" "Call_Close \<notin> set ls"
  shows "eh_reach pad h'"
  using assms
proof (induction ls arbitrary: h)
  case (Cons l ls)
  then obtain h1 where h1: "eh_exec pad l h = Inr h1" "eh_runs pad ls h1 = Inr h'" by (auto simp: bind_res_Inr_iff)
  have "eh_reach pad h1" using eh_reach.step [OF Cons.prems(1) h1(1)] Cons.prems(3) by auto
  then show ?case using Cons.IH h1(2) Cons.prems(3) by simp
qed simp

text \<open>
  A schedule that opens a handler, closes it and leaves the listening thread before
  its notification; and one in which the listening thread ends first and the timer
  thread is still to clear its flag.
\<close>

definition eh_start :: "datagram list \<Rightarrow> eh_label list" where
  "eh_start ds = [Main, Main, Main, Main, Con, Timer] @ map Arrive ds"

definition eh_open :: "datagram list \<Rightarrow> event_handler" where
  "eh_open ds = (new_PacketEventHandler new_PacketPool)\<lparr> conLoopThreadRunning := True, timerLoopThreadRunning := True,
     sock_queue := ds, con_at := C_Listen, timer_at := T_Sleep, main_at := M_Open \<rparr>"

lemma run_arrivals:
  "\<not> sock_shut h \<Longrightarrow> eh_runs pad (map Arrive ds) h = Inr (h\<lparr> sock_queue := sock_queue h @ ds \<rparr>)"
  by (induction ds arbitrary: h) (simp_all add: eh_exec_def)

lemma eh_open_reach: "eh_reach pad (eh_open ds)"
proof -
  have "eh_runs pad (eh_start ds) (new_PacketEventHandler new_PacketPool) = Inr (eh_open ds)"
    by (simp add: eh_start_def eh_runs_append eh_simps new_PacketEventHandler_def run_arrivals eh_open_def)
  from eh_reach_runs [OF eh_reach.new this] show ?thesis by (auto simp: eh_start_def)
qed

lemma eh_close_reach:
  assumes "eh_runs pad ls ((eh_open ds)\<lparr> main_at := M_Shut \<rparr>) = Inr h" "Call_Close \<notin> set ls"
  shows "eh_reach pad h"
proof -
  have "eh_reach pad ((eh_open ds)\<lparr> main_at := M_Shut \<rparr>)"
    using eh_reach.step [OF eh_open_reach, of pad Call_Close] by (simp add: eh_exec_def eh_open_def)
  then show ?thesis using eh_reach_runs assms by blast
qed

lemma close_leaves_listener:
  "\<exists>h. eh_reach pad h \<and> main_at h = M_Closed \<and> con_at h = C_Notify"
proof -
  let ?ls = "[Main, Main, Con, Con, Main, Timer, Timer, Timer, Timer, Main]"
  have "eh_runs pad ?ls ((eh_open [])\<lparr> main_at := M_Shut \<rparr>) = Inr ((eh_open [])\<lparr> sock_shut := True, timerLoopThreadClosed := True,
     conLoopThreadRunning := False, timerLoopThreadRunning := False, timerLoopThreadClosedWait := 1,
     con_at := C_Notify, timer_at := T_End, main_at := M_Closed \<rparr>)"
    by (simp add: eh_simps eh_open_def new_PacketEventHandler_def)
  from eh_close_reach [OF this] show ?thesis by (intro exI conjI) auto
qed

definition junk_datagram :: datagram where
  "junk_datagram = ([7], (0, 0), (0, 0))"

definition eh_closing :: event_handler where
  "eh_closing = (eh_open [junk_datagram])\<lparr> sock_shut := True, timerLoopThreadClosed := True, main_at := M_Ask_Con \<rparr>"

lemma eh_closing_reach: "eh_reach pad eh_closing"
proof -
  have "eh_runs pad [Main, Main] ((eh_open [junk_datagram])\<lparr> main_at := M_Shut \<rparr>) = Inr eh_closing"
    by (simp add: eh_closing_def eh_simps eh_open_def new_PacketEventHandler_def)
  then show ?thesis by (rule eh_close_reach) simp
qed

theorem first_close_returns_witness:
  "close_work eh_closing = 12 \<and>
   (\<exists>h. eh_runs 0 [Main, Con, Con, Con, Con, Main, Main, Timer, Timer, Timer, Timer, Main] eh_closing = Inr h \<and>
      (stuck 0 h \<longrightarrow> main_at h = M_Closed))"
proof -
  have d: "\<forall>d\<in>set (sock_queue eh_closing). decodes 0 d"
    by (simp add: eh_closing_def eh_open_def decodes_def listen_datagram_def decodeHeader_def junk_datagram_def PACKET_HEADER_SIZE_def)
  have "\<exists>h. eh_runs 0 [Main, Con, Con, Con, Con, Main, Main, Timer, Timer, Timer, Timer, Main] eh_closing = Inr h"
    by (simp add: eh_closing_def eh_simps eh_open_def new_PacketEventHandler_def listen_datagram_def decodeHeader_def
        junk_datagram_def PACKET_HEADER_SIZE_def)
  moreover have "closing eh_closing" "close_work eh_closing = 12"
    by (simp_all add: closing_def close_work_def eh_closing_def eh_open_def)
  ultimately show ?thesis using first_close_returns [OF eh_closing_reach _ d] by fastforce
qed

definition eh_half_closed :: event_handler where
  "eh_half_closed = (eh_open [])\<lparr> sock_shut := True, timerLoopThreadClosed := True, conLoopThreadRunning := False,
     con_at := C_End, timer_at := T_Clear, main_at := M_Closed \<rparr>"

theorem second_close_blocks_witness:
  "\<exists>h. eh_runs 0 [Call_Close, Main, Main, Main, Main] eh_half_closed = Inr h \<and>
    (\<forall>ls h'. eh_runs 0 ls h = Inr h' \<longrightarrow> main_at h' = M_Wait_Timer)"
proof (rule second_close_blocks)
  have "eh_runs 0 [Main, Main, Main, Con, Con, Con, Main, Timer, Timer, Timer, Main, Main] ((eh_open [])\<lparr> main_at := M_Shut \<rparr>) = Inr eh_half_closed"
    by (simp add: eh_half_closed_def eh_simps eh_open_def new_PacketEventHandler_def)
  then show "eh_reach 0 eh_half_closed" by (rule eh_close_reach) simp
qed (simp_all add: eh_half_closed_def eh_open_def)

section \<open>The queue of packets\<close>

text \<open>
  The packets between \<open>begQ\<close> and \<open>endQ\<close>, in their order; \<open>queueSize\<close> is kept on
  the side.  \<open>bigLoop\<close> has a variable for the packet it fetched, without an initial
  value, that it also uses when it fetched none.
\<close>

record packet_loop =
  pl_queue :: "Packet list"
  queueSize :: int
  pendingTimeOut :: bool
  pl_closed :: bool
  pl_notify :: nat
  waitToClose :: nat
  pl_pkt :: "Packet option"
  pl_given :: "Packet list"
  pl_timeouts :: nat

definition getNextPacket :: "packet_loop \<Rightarrow> (Packet \<times> packet_loop) res" where
  "getNextPacket s =
     (case pl_queue s of
        [] \<Rightarrow> Inl Assert_Failed
      | p # ps \<Rightarrow> Inr (p, s\<lparr> pl_queue := ps, queueSize := queueSize s - 1 \<rparr>))"

definition addNextPacket :: "Packet \<Rightarrow> packet_loop \<Rightarrow> packet_loop" where
  "addNextPacket p s = s\<lparr> pl_queue := pl_queue s @ [p], queueSize := queueSize s + 1 \<rparr>"

text \<open>One round of \<open>bigLoop\<close>; the result tells whether the loop goes on.\<close>

definition bigLoop_fetch :: "packet_loop \<Rightarrow> packet_loop res" where
  "bigLoop_fetch s =
     (if pendingTimeOut s then Inr (s\<lparr> pendingTimeOut := False \<rparr>)
      else if queueSize s \<noteq> 0 then bind_res (getNextPacket s) (\<lambda>(p, s'). Inr (s'\<lparr> pl_pkt := Some p \<rparr>))
      else Inr s)"

definition bigLoop_round :: "packet_loop \<Rightarrow> (bool \<times> packet_loop) res" where
  "bigLoop_round s =
     (if pl_notify s = 0 then Inl Blocked
      else bind_res (bigLoop_fetch (s\<lparr> pl_notify := pl_notify s - 1 \<rparr>)) (\<lambda>s'.
        if pl_closed s' then Inr (False, s'\<lparr> waitToClose := waitToClose s' + 1 \<rparr>)
        else if pendingTimeOut s then Inr (True, s'\<lparr> pl_timeouts := pl_timeouts s' + 1 \<rparr>)
        else (case pl_pkt s' of None \<Rightarrow> Inl Null_Deref | Some p \<Rightarrow> Inr (True, s'\<lparr> pl_given := pl_given s' @ [p] \<rparr>))))"

text \<open>With a token for every packet, and no timeout, the loop hands over the packets in their order.\<close>

lemma bigLoop_round_packet:
  assumes "pl_queue s = p # ps" "queueSize s = int (length (pl_queue s))" "0 < pl_notify s" "\<not> pl_closed s" "\<not> pendingTimeOut s"
  shows "bigLoop_round s = Inr (True, s\<lparr> pl_queue := ps, queueSize := int (length ps), pl_notify := pl_notify s - 1,
    pl_pkt := Some p, pl_given := pl_given s @ [p] \<rparr>)"
  using assms by (simp add: bigLoop_round_def bigLoop_fetch_def getNextPacket_def)

text \<open>A token without a packet hands the last packet over a second time.\<close>

lemma bigLoop_repeats:
  assumes "pl_queue s = []" "queueSize s = 0" "0 < pl_notify s" "\<not> pl_closed s" "\<not> pendingTimeOut s" "pl_pkt s = Some p"
  shows "bigLoop_round s = Inr (True, s\<lparr> pl_notify := pl_notify s - 1, pl_given := pl_given s @ [p] \<rparr>)"
  using assms by (simp add: bigLoop_round_def bigLoop_fetch_def)

end
