(* ===== verification/Link.thy ===== *)
theory Link
  imports PacketCodec NewChannelAck NewChannelRecv
begin

text \<open>
  Two ends of a channel and the network between them: the composition of
  \<open>sendPacket\<close>, \<open>timeoutEvent\<close> and \<open>ackRecv\<close> at the sender with \<open>pktRecv\<close> at
  the receiver.  The network is unreliable: it keeps every datagram that ever
  left and delivers any of them, any number of times, in any order, or never;
  a datagram arrives as \<open>decodeHeader\<close> reads it back.  Its only promise is a
  lifetime: a datagram is gone before the sequence numbers have moved on by
  half their range.  The state remembers the history that the properties speak
  of: the packets accepted by \<open>sendPacket\<close>, how many of them are acknowledged
  for good, and the ordinals of the packets the receiver took.
\<close>

fun sends :: "chan_event list \<Rightarrow> Packet list" where
  "sends [] = []"
| "sends (Ev_Send p # es) = p # sends es"
| "sends (_ # es) = sends es"

definition new_events :: "new_channel \<Rightarrow> new_channel \<Rightarrow> chan_event list" where
  "new_events c c' = drop (length (ch_out c)) (ch_out c')"

text \<open>A packet as the peer reads it from its socket at time \<open>ts\<close>.\<close>

definition arrived :: "appInt8 \<Rightarrow> appInt64 \<Rightarrow> Packet \<Rightarrow> Packet" where
  "arrived upad ts p = (received upad p)\<lparr> p_recvTS := ts \<rparr>"

text \<open>
  The state.  A datagram with data is kept with its ordinal, an acknowledgement
  with the number of packets it acknowledges and the ordinal it answers.
\<close>

record link =
  lk_snd :: new_channel
  lk_rcv :: new_channel
  lk_queue :: "Packet list"
  lk_base :: nat
  lk_data :: "(nat \<times> Packet) list"
  lk_acks :: "(nat \<times> nat \<times> Packet) list"
  lk_got :: "nat list"

definition lk_exp :: "link \<Rightarrow> nat" where
  "lk_exp L = first_missing (set (lk_got L))"

definition link_init :: "env \<Rightarrow> env \<Rightarrow> appInt8 \<Rightarrow> appInt8 \<Rightarrow> link" where
  "link_init env env' src dst = \<lparr> lk_snd = init_new_channel env src dst, lk_rcv = init_new_channel env' dst src,
     lk_queue = [], lk_base = 0, lk_data = [], lk_acks = [], lk_got = [] \<rparr>"

definition ordinal :: "nat \<Rightarrow> new_channel \<Rightarrow> Packet \<Rightarrow> nat" where
  "ordinal B c p = B + off (senderBuffer c) (h_seqNo (p_header p)) - 1"

text \<open>The sender becomes \<open>c'\<close>: what it sent is on the wire.\<close>

definition moved :: "new_channel \<Rightarrow> link \<Rightarrow> link" where
  "moved c' L =
     (let B = lk_base L + off (senderBuffer (lk_snd L)) (lastAcked (senderBuffer c')) in
      L\<lparr> lk_snd := c', lk_base := B,
         lk_data := lk_data L @ map (\<lambda>p. (ordinal B c' p, p)) (sends (new_events (lk_snd L) c')) \<rparr>)"

text \<open>The receiver becomes \<open>c'\<close> upon packet \<open>n\<close>: it took it if it marked it as accepted.\<close>

definition took :: "nat \<Rightarrow> new_channel \<Rightarrow> link \<Rightarrow> link" where
  "took n c' L =
     (let es = new_events (lk_rcv L) c';
          got = lk_got L @ map (\<lambda>_. n) (filter p_accepted (processed es)) in
      L\<lparr> lk_rcv := c', lk_got := got,
         lk_acks := lk_acks L @ map (\<lambda>q. (first_missing (set got), n, q)) (sends es) \<rparr>)"

definition queue_packet :: "env \<Rightarrow> Packet \<Rightarrow> int \<Rightarrow> link \<Rightarrow> link" where
  "queue_packet env pkt r L = (if r = 0 then L\<lparr> lk_queue := lk_queue L @ [enqueued (lk_snd L) pkt] \<rparr> else L)"

inductive link_step :: "link \<Rightarrow> link \<Rightarrow> bool" where
  Send: "net_up env \<Longrightarrow> \<not> has_flag (h_flag (p_header pkt)) FLAG_CHF \<Longrightarrow>
    sendPacket env pkt (lk_snd L) = Inr (r, c') \<Longrightarrow> link_step L (moved c' (queue_packet env pkt r L))"
| Timeout: "net_up env \<Longrightarrow> 0 < now \<Longrightarrow> now \<le> e_now env \<Longrightarrow>
    \<not> deadChannel (lk_snd L) \<Longrightarrow> \<not> shutDown_complete (lk_snd L) \<Longrightarrow>
    timeoutEvent (Suc (length (timerList (senderBuffer (lk_snd L))))) env now (lk_snd L) = Inr (r, c') \<Longrightarrow>
    \<not> deadChannel c' \<Longrightarrow> link_step L (moved c' L)"
| Data: "net_up env \<Longrightarrow> (n, p) \<in> set (lk_data L) \<Longrightarrow> lk_exp L \<le> n + 32768 \<Longrightarrow>
    pktRecv_list env [arrived upad ts p] (lk_rcv L) = Inr c' \<Longrightarrow> link_step L (took n c' L)"
| Ack: "net_up env \<Longrightarrow> (E, n, p) \<in> set (lk_acks L) \<Longrightarrow> lk_base L < E + 32768 \<Longrightarrow> lk_base L < n + 32768 \<Longrightarrow>
    rtt_sample_ok env (arrived upad ts p) (lk_snd L) \<Longrightarrow>
    ackRecv env (arrived upad ts p) (lk_snd L) = Inr (r, c') \<Longrightarrow> link_step L (moved c' L)"

inductive link_reach :: "env \<Rightarrow> env \<Rightarrow> appInt8 \<Rightarrow> appInt8 \<Rightarrow> link \<Rightarrow> bool" for env env' src dst where
  Init: "link_reach env env' src dst (link_init env env' src dst)"
| Step: "link_reach env env' src dst L \<Longrightarrow> link_step L L' \<Longrightarrow> link_reach env env' src dst L'"

text \<open>What a packet says: its header without the fields filled in on the way, and its data.\<close>

definition payload :: "Packet \<Rightarrow> PacketHeader \<times> appByte list" where
  "payload p = ((p_header p)\<lparr> h_sentTS := 0, h_ifcsrc := 0, h_ifcdst := 0, h_OHLen := 0 \<rparr>, body p)"

section \<open>The invariant\<close>

definition snd_inv :: "link \<Rightarrow> bool" where
  "snd_inv L \<longleftrightarrow> chan_inv (lk_snd L) \<and> rec_ok (lk_snd L) \<and>
     lastAcked (senderBuffer (lk_snd L)) = of_nat (lk_base L) - 1 \<and>
     lk_base L + unacked (lk_snd L) = length (lk_queue L) \<and>
     (\<forall>m. lk_base L \<le> m \<and> m < length (lk_queue L) \<longrightarrow>
        contents (lk_snd L) (of_nat m) \<in> {None, Some (unstamp (lk_queue L ! m))}) \<and>
     (\<forall>m<length (lk_queue L). h_seqNo (p_header (lk_queue L ! m)) = of_nat m \<and>
        \<not> has_flag (h_flag (p_header (lk_queue L ! m))) FLAG_CHF)"

text \<open>The packets sent so far are the first \<open>lk_sent\<close> of the queue.\<close>

definition lk_sent :: "link \<Rightarrow> nat" where
  "lk_sent L = lk_base L + in_flight (lk_snd L)"

definition net_inv :: "link \<Rightarrow> bool" where
  "net_inv L \<longleftrightarrow> (\<forall>(n, p)\<in>set (lk_data L). n < lk_sent L \<and> unstamp p = unstamp (lk_queue L ! n))"

text \<open>A packet as \<open>decodeHeader\<close> makes it: its data array is exactly its data.\<close>

definition off_wire :: "Packet \<Rightarrow> bool" where
  "off_wire p \<longleftrightarrow> p_data p = Some (body p) \<and> unat (p_len p) = length (body p)"

definition rcv_inv :: "link \<Rightarrow> bool" where
  "rcv_inv L \<longleftrightarrow> recv_rel (lk_exp L) (set (lk_got L)) (recieverBuff (lk_rcv L)) \<and> distinct (lk_got L) \<and>
     set (lk_got L) \<subseteq> {..<lk_sent L} \<and> lk_base L \<le> lk_exp L \<and>
     map payload (filter p_accepted (processed (ch_out (lk_rcv L)))) = map (\<lambda>n. payload (lk_queue L ! n)) (lk_got L) \<and>
     (\<forall>q\<in>set (filter p_accepted (processed (ch_out (lk_rcv L)))). off_wire q)"

definition ack_inv :: "link \<Rightarrow> bool" where
  "ack_inv L \<longleftrightarrow> (\<forall>(E, n, p)\<in>set (lk_acks L). h_ackNo (p_header p) = of_nat E - 1 \<and>
       h_origAckNo (p_header p) = of_nat n \<and> n \<in> set (lk_got L) \<and> n \<noteq> E \<and> E \<le> lk_exp L) \<and>
     (\<forall>(E, n, p)\<in>set (lk_acks L). \<forall>(E', n', p')\<in>set (lk_acks L). n' = E \<longrightarrow> E < E')"

definition held :: "link \<Rightarrow> nat \<Rightarrow> bool" where
  "held L m \<longleftrightarrow> contents (lk_snd L) (of_nat m) \<noteq> None"

definition sel_inv :: "link \<Rightarrow> bool" where
  "sel_inv L \<longleftrightarrow> (\<forall>m. lk_base L \<le> m \<and> m < length (lk_queue L) \<and> \<not> held L m \<longrightarrow>
     (\<exists>E p. (E, m, p) \<in> set (lk_acks L) \<and> E \<le> lk_base L))"

definition rep_inv :: "link \<Rightarrow> bool" where
  "rep_inv L \<longleftrightarrow> (\<exists>ms. distinct ms \<and>
     set ms = {m. m < length (lk_queue L) \<and> (m < lk_base L \<or> \<not> held L m)} \<and>
     recv_acks (ch_out (lk_snd L)) = concat (map (\<lambda>m. data_ack (Some (lk_queue L ! m))) ms))"

definition link_inv :: "link \<Rightarrow> bool" where
  "link_inv L \<longleftrightarrow> snd_inv L \<and> net_inv L \<and> rcv_inv L \<and> ack_inv L \<and> sel_inv L \<and> rep_inv L"

end
