(* ===== verification/LinkProps.thy ===== *)
theory LinkProps
  imports Link
begin

text \<open>
  What two ends of a channel promise each other over a network that loses,
  repeats and reorders: the link's invariant holds in every reachable state.
\<close>

section \<open>Ordinals and sequence numbers\<close>

lemma off_ord:
  assumes "lastAcked s = of_nat B - 1" "B \<le> m" "m < B + 65535"
  shows "off s (of_nat m) = Suc (m - B)"
proof -
  have "(of_nat m :: appInt16) - lastAcked s = of_nat (Suc (m - B))"
    using assms(1,2) by (simp add: of_nat_diff)
  then show ?thesis
    using assms(3) by (simp only: off_def) (intro unat_of_nat_small, simp)
qed

lemma off_before:
  assumes "lastAcked s = of_nat B - 1" "m < B" "B < m + 65536"
  shows "off s (of_nat m) = 65537 - (B - m) \<or> B = Suc m"
proof (cases "B = Suc m")
  case False
  have "(of_nat m :: appInt16) - lastAcked s = of_nat (65537 - (B - m))"
    using assms by (simp add: of_nat_diff)
  then show ?thesis
    using assms False by (simp only: off_def) (intro disjI1 unat_of_nat_small, simp)
qed simp

lemma ord_of_off:
  assumes "lastAcked s = of_nat B - 1" "0 < off s i"
  shows "of_nat (B + off s i - 1) = i"
proof -
  have "(of_nat (B + off s i - 1) :: appInt16) = of_nat B - 1 + of_nat (off s i)"
    using assms(2) by (simp add: of_nat_diff)
  also have "\<dots> = i" by (simp add: off_def flip: assms(1))
  finally show ?thesis .
qed

lemma sends_iff: "p \<in> set (sends es) \<longleftrightarrow> Ev_Send p \<in> set es"
  by (induction es rule: sends.induct) auto

lemma sends_append [simp]: "sends (xs @ ys) = sends xs @ sends ys"
  by (induction xs rule: sends.induct) simp_all

lemma new_events_eq [simp]: "ch_out c' = ch_out c @ es \<Longrightarrow> new_events c c' = es"
  by (simp add: new_events_def)

lemma body_simps [simp]: "body (p\<lparr> p_recvTS := ts \<rparr>) = body p" "body (p\<lparr> p_header := h \<rparr>) = body p"
    "body (p\<lparr> p_accepted := b \<rparr>) = body p" "body (p\<lparr> p_processed := b \<rparr>) = body p"
  by (cases "p_data p"; simp add: body_def)+

lemma payload_unstamp: "payload (unstamp p) = payload p"
  by (simp add: payload_def unstamp_def)

lemma body_received: "body (received upad p) = body p"
proof -
  have "length (body p) < 2 ^ 32"
    using unsigned_less [of "p_len p", where 'a = nat] by (auto simp: body_def split: option.split)
  then have "take (unat (of_nat (length (body p)) :: appInt)) (body p) = body p"
    by (simp add: unat_of_nat_small)
  moreover have "p_data (received upad p) = Some (body p)" "p_len (received upad p) = of_nat (length (body p))"
    by (simp_all add: received_def)
  ultimately show ?thesis by (simp only: body_def [of "received upad p"] option.case)
qed

lemma payload_arrived [simp]: "payload (arrived upad ts p) = payload p" "\<not> p_accepted (arrived upad ts p)"
  "p_header (arrived upad ts p) = p_header (set_OHLen p)"
proof -
  have "body (arrived upad ts p) = body p"
    by (simp add: arrived_def body_received)
  then show "payload (arrived upad ts p) = payload p"
    by (simp add: payload_def) (simp add: arrived_def received_def set_OHLen_def)
qed (simp_all add: arrived_def received_def new_Packet_def)

lemma off_wire_arrived [simp]: "off_wire (arrived upad ts p)"
proof -
  have "length (body p) < 2 ^ 32"
    using unsigned_less [of "p_len p", where 'a = nat] by (auto simp: body_def split: option.split)
  moreover have "body (arrived upad ts p) = body p" by (simp add: arrived_def body_received)
  ultimately show ?thesis by (simp add: off_wire_def) (simp add: arrived_def received_def unat_of_nat_small)
qed

lemma off_wire_flags [simp]: "off_wire (p\<lparr> p_accepted := a \<rparr>) = off_wire p" "off_wire (p\<lparr> p_processed := b \<rparr>) = off_wire p"
  by (simp_all add: off_wire_def)

lemma header_set_OHLen [simp]:
  "h_seqNo (p_header (set_OHLen p)) = h_seqNo (p_header p)" "h_flag (p_header (set_OHLen p)) = h_flag (p_header p)"
  "h_ackNo (p_header (set_OHLen p)) = h_ackNo (p_header p)" "h_origAckNo (p_header (set_OHLen p)) = h_origAckNo (p_header p)"
  by (simp_all add: set_OHLen_def)

lemma unstamp_header:
  assumes "unstamp p = unstamp q"
  shows "h_seqNo (p_header p) = h_seqNo (p_header q)" "h_flag (p_header p) = h_flag (p_header q)" "payload p = payload q"
    "data_ack (Some p) = data_ack (Some q)"
proof -
  have "f (p_header (unstamp p)) = f (p_header (unstamp q))" for f :: "PacketHeader \<Rightarrow> appInt16"
    using assms by simp
  from this [of h_seqNo] this [of h_flag] this [of h_fingerPrint] this [of h_flowId] this [of h_flowSeqNo]
  show "h_seqNo (p_header p) = h_seqNo (p_header q)" "h_flag (p_header p) = h_flag (p_header q)"
    "data_ack (Some p) = data_ack (Some q)"
    by (simp_all add: unstamp_def data_ack_def)
  show "payload p = payload q" using assms payload_unstamp by metis
qed

section \<open>What the sender puts on the wire\<close>

lemma snd_invD:
  assumes "snd_inv L"
  shows "chan_inv (lk_snd L)" "rec_ok (lk_snd L)" "sb_inv (senderBuffer (lk_snd L))"
    "lastAcked (senderBuffer (lk_snd L)) = of_nat (lk_base L) - 1"
    "lk_base L + unacked (lk_snd L) = length (lk_queue L)" "unacked (lk_snd L) \<le> 32768"
    "in_flight (lk_snd L) \<le> unacked (lk_snd L)"
  using assms sb_invD(1,2) [of "senderBuffer (lk_snd L)"]
  by (simp_all add: snd_inv_def chan_inv_def unacked_def in_flight_def)

lemma snd_inv_queue:
  assumes "snd_inv L" "m < length (lk_queue L)"
  shows "h_seqNo (p_header (lk_queue L ! m)) = of_nat m" "\<not> has_flag (h_flag (p_header (lk_queue L ! m))) FLAG_CHF"
  using assms by (simp_all add: snd_inv_def)

lemma held_contents:
  assumes "snd_inv L" "lk_base L \<le> m" "m < length (lk_queue L)" "held L m"
  shows "contents (lk_snd L) (of_nat m) = Some (unstamp (lk_queue L ! m))"
  using assms by (auto simp: snd_inv_def held_def)

lemma net_moved:
  assumes "net_inv L" "snd_inv (moved c' L)" "sends_ok (lk_snd L) c'" "lk_sent L \<le> lk_sent (moved c' L)"
  shows "net_inv (moved c' L)"
proof -
  let ?M = "moved c' L" and ?c = "lk_snd L"
  obtain es where es: "ch_out c' = ch_out ?c @ es"
      "\<And>p. Ev_Send p \<in> set es \<Longrightarrow> contents c' (h_seqNo (p_header p)) = Some (unstamp p) \<and>
         off (senderBuffer c') (h_seqNo (p_header p)) \<le> in_flight c'"
    using assms(3) by (auto simp: sends_ok_def)
  have S: "lk_snd ?M = c'" "lk_queue ?M = lk_queue L"
    "lk_data ?M = lk_data L @ map (\<lambda>p. (ordinal (lk_base ?M) c' p, p)) (sends es)"
    using new_events_eq [OF es(1)] by (simp_all add: moved_def Let_def)
  note D = snd_invD [OF assms(2), unfolded S]
  have new: "ordinal (lk_base ?M) c' p < lk_sent ?M \<and> unstamp p = unstamp (lk_queue L ! ordinal (lk_base ?M) c' p)"
    if p: "Ev_Send p \<in> set es" for p
  proof -
    let ?i = "h_seqNo (p_header p)" and ?n = "ordinal (lk_base ?M) c' p"
    note E = es(2) [OF p]
    have "0 < off (senderBuffer c') ?i"
      using sb_invD(3) [OF D(3), of ?i] E by (auto simp: contents_def)
    then have "of_nat ?n = ?i" and n: "lk_base ?M \<le> ?n" "?n < lk_sent ?M"
      using ord_of_off [OF D(4)] E by (auto simp: ordinal_def lk_sent_def S)
    moreover have "?n < length (lk_queue ?M)" using n D(5,7) by (simp add: lk_sent_def S)
    ultimately show ?thesis
      using held_contents [OF assms(2) n(1)] E by (simp add: held_def S)
  qed
  show ?thesis
    using assms(1,4) new unfolding net_inv_def S by (auto simp: sends_iff dest: order_less_le_trans)
qed

section \<open>Steps of the sender\<close>

lemma moved_simps [simp]:
  "lk_snd (moved c' L) = c'" "lk_rcv (moved c' L) = lk_rcv L" "lk_queue (moved c' L) = lk_queue L"
  "lk_acks (moved c' L) = lk_acks L" "lk_got (moved c' L) = lk_got L" "lk_exp (moved c' L) = lk_exp L"
  "lk_base (moved c' L) = lk_base L + off (senderBuffer (lk_snd L)) (lastAcked (senderBuffer c'))"
  by (simp_all add: moved_def Let_def lk_exp_def)

lemma off_last: "lastAcked s' = lastAcked s \<Longrightarrow> off s (lastAcked s') = 0"
  by (simp add: off_def)

text \<open>A step that releases nothing: a timeout, a stale acknowledgement.\<close>

lemma moved_quiet:
  assumes "link_inv L" "quiet (lk_snd L) c'" "rec_ok c'"
  shows "link_inv (moved c' L)"
proof -
  let ?c = "lk_snd L" and ?M = "moved c' L"
  have Q: "chan_inv c'" "contents c' = contents ?c" "lastAcked (senderBuffer c') = lastAcked (senderBuffer ?c)"
    "maxPacket (senderBuffer c') = maxPacket (senderBuffer ?c)" "in_flight ?c \<le> in_flight c'"
    "recv_acks (ch_out c') = recv_acks (ch_out ?c)" "sends_ok ?c c'"
    using assms(2) by (simp_all add: quiet_def)
  have B: "lk_base ?M = lk_base L" using off_last [OF Q(3)] by simp
  have un: "unacked c' = unacked ?c" by (simp add: unacked_def off_def Q)
  have sent: "lk_sent L \<le> lk_sent ?M" using Q(5) B by (simp add: lk_sent_def)
  have h: "held ?M = held L" by (simp add: held_def fun_eq_iff Q(2))
  have I: "snd_inv L" "net_inv L" "rcv_inv L" "ack_inv L" "sel_inv L" "rep_inv L"
    using assms(1) by (simp_all add: link_inv_def)
  have s: "snd_inv ?M" using I(1) Q assms(3) un unfolding snd_inv_def B by simp
  moreover have "net_inv ?M" by (rule net_moved [OF I(2) s Q(7) sent])
  moreover have "rcv_inv ?M" using I(3) sent unfolding rcv_inv_def B by auto
  moreover have "ack_inv ?M" using I(4) by (simp add: ack_inv_def)
  moreover have "sel_inv ?M" using I(5) unfolding sel_inv_def B h by simp
  moreover have "rep_inv ?M" using I(6) unfolding rep_inv_def B h by (simp add: Q(6))
  ultimately show ?thesis by (simp add: link_inv_def)
qed

lemma moved_self: "moved (lk_snd L) L = L"
  by (simp add: moved_def new_events_def Let_def)

lemma timeout_step:
  assumes "link_inv L" "net_up env" "0 < now" "now \<le> e_now env" "\<not> deadChannel (lk_snd L)" "\<not> shutDown_complete (lk_snd L)"
    and "timeoutEvent (Suc (length (timerList (senderBuffer (lk_snd L))))) env now (lk_snd L) = Inr (r, c')" "\<not> deadChannel c'"
  shows "link_inv (moved c' L)"
proof -
  let ?c = "lk_snd L"
  have S: "snd_inv L" using assms(1) by (simp add: link_inv_def)
  note D = snd_invD [OF S]
  have T: "chan_inv c'" "\<forall>i. contents c' i = contents ?c i" "same_marks (senderBuffer ?c) (senderBuffer c')"
    "sends_ok ?c c'" "recv_acks (ch_out c') = recv_acks (ch_out ?c)" "recover c' = recover ?c"
    using timeoutEvent_ok [OF D(1) assms(2-4,6,5), of "Suc (length (timerList (senderBuffer ?c)))"] assms(7,8) by auto
  note M = same_marksD [OF T(3)]
  have "quiet ?c c'"
    using T(1,2,4,5) by (simp add: quiet_def M in_flight_def off_def fun_eq_iff)
  moreover have "rec_ok c'" using D(2) T(6) by (simp add: rec_ok_def in_flight_def off_def M)
  ultimately show ?thesis by (rule moved_quiet [OF assms(1)])
qed

lemma has_flag_CHS_CHF: "has_flag (f OR FLAG_CHS) FLAG_CHF = has_flag f FLAG_CHF"
proof -
  have "FLAG_CHS AND FLAG_CHF = 0" by code_simp
  then show ?thesis by (simp add: has_flag_def word_ao_dist)
qed

lemma recv_acks_Sends: "recv_acks (map Ev_Send ps) = []"
  by (induction ps) simp_all

lemma send_step:
  assumes L: "link_inv L" and up: "net_up env" and flag: "\<not> has_flag (h_flag (p_header pkt)) FLAG_CHF"
    and run: "sendPacket env pkt (lk_snd L) = Inr (r, c')"
  shows "link_inv (moved c' (queue_packet env pkt r L))"
proof -
  let ?c = "lk_snd L" and ?e = "enqueued (lk_snd L) pkt"
  have I: "snd_inv L" "net_inv L" "rcv_inv L" "ack_inv L" "sel_inv L" "rep_inv L"
    using L by (simp_all add: link_inv_def)
  note D = snd_invD [OF I(1)]
  have F: "chan_inv c'" "sends_ok ?c c'" "lastAcked (senderBuffer c') = lastAcked (senderBuffer ?c)"
    "recover c' = recover ?c" "\<exists>ps. ch_out c' = ch_out ?c @ map Ev_Send ps"
    "r \<noteq> 0 \<Longrightarrow> c' = ?c" "r = 0 \<Longrightarrow> unacked c' = Suc (unacked ?c)"
    "r = 0 \<Longrightarrow> in_flight c' = in_flight ?c + min 1 (send_wnd ?c - in_flight ?c)"
    "r = 0 \<Longrightarrow> \<forall>i. contents c' i = (if i = maxPacket (senderBuffer ?c) + 1 then Some (unstamp ?e) else contents ?c i)"
    using sendPacket_full [OF D(1) up, of pkt] run by auto
  show ?thesis
  proof (cases "r = 0")
    case False
    then show ?thesis using F(6) L by (simp add: queue_packet_def moved_self)
  next
    case True
    let ?L = "L\<lparr> lk_queue := lk_queue L @ [?e] \<rparr>"
    let ?M = "moved c' ?L" and ?n = "length (lk_queue L)"
    have eq: "queue_packet env pkt r L = ?L" using True by (simp add: queue_packet_def)
    have B: "lk_base ?M = lk_base L" using off_last [OF F(3)] by simp
    have mx: "maxPacket (senderBuffer ?c) + 1 = of_nat ?n"
    proof -
      have "maxPacket (senderBuffer ?c) = lastAcked (senderBuffer ?c) + of_nat (unacked ?c)"
        by (simp add: unacked_def off_def)
      then show ?thesis using D(4) by (simp flip: D(5))
    qed
    have new: "of_nat m \<noteq> (of_nat ?n :: appInt16)" if "lk_base L \<le> m" "m < ?n" for m
      using that D(5,6) off_ord [OF D(4), of m] off_ord [OF D(4), of ?n] by auto
    have ct: "contents c' (of_nat m) = (if m = ?n then Some (unstamp ?e) else contents ?c (of_nat m))"
      if "lk_base L \<le> m" "m \<le> ?n" for m
      using F(9) [OF True] new that by (auto simp: mx)
    have h: "held ?M m = held L m" if "lk_base L \<le> m" "m < ?n" for m
      using ct [of m] that by (simp add: held_def)
    have hn: "held ?M ?n" using ct [of ?n] D(5) by (simp add: held_def)
    have sent: "lk_sent L \<le> lk_sent ?M" using F(8) [OF True] off_last [OF F(3)] by (simp add: lk_sent_def)
    have snt: "lk_sent L \<le> ?n" using D(5,7) by (simp add: lk_sent_def)
    have "h_seqNo (p_header ?e) = of_nat ?n" "\<not> has_flag (h_flag (p_header ?e)) FLAG_CHF"
      using flag mx by (simp_all add: enqueued_def has_flag_CHS_CHF)
    then have s: "snd_inv ?M"
      using I(1) F(1,3,4,7,8) True ct unfolding snd_inv_def B
      by (auto simp: rec_ok_def nth_append less_Suc_eq)
    moreover have "net_inv ?M"
    proof (rule net_moved)
      show "net_inv ?L" using I(2) snt by (auto simp: net_inv_def lk_sent_def nth_append)
    qed (use s F(2) sent in \<open>simp_all add: lk_sent_def\<close>)
    moreover have "rcv_inv ?M"
      using I(3) sent snt unfolding rcv_inv_def B by (auto simp: lk_exp_def nth_append)
    moreover have "ack_inv ?M" using I(4) by (simp add: ack_inv_def lk_exp_def)
    moreover have "sel_inv ?M"
      using I(5) h hn unfolding sel_inv_def B by (auto simp: less_Suc_eq)
    moreover have "rep_inv ?M"
    proof -
      obtain ms where ms: "distinct ms" "set ms = {m. m < ?n \<and> (m < lk_base L \<or> \<not> held L m)}"
          "recv_acks (ch_out ?c) = concat (map (\<lambda>m. data_ack (Some (lk_queue L ! m))) ms)"
        using I(6) by (auto simp: rep_inv_def)
      have "{m. m < length (lk_queue ?M) \<and> (m < lk_base ?M \<or> \<not> held ?M m)} = set ms"
        using h hn ms(2) D(5) unfolding B by (auto simp: less_Suc_eq not_less)
      moreover have "recv_acks (ch_out c') = recv_acks (ch_out ?c)"
        using F(5) recv_acks_Sends by fastforce
      moreover have "map (\<lambda>m. data_ack (Some (lk_queue ?M ! m))) ms = map (\<lambda>m. data_ack (Some (lk_queue L ! m))) ms"
        using ms(2) by (intro map_cong refl) (auto simp: nth_append)
      ultimately show ?thesis
        using ms(1,3) unfolding rep_inv_def by (intro exI [of _ ms] conjI) (simp_all only: moved_simps(1))
    qed
    ultimately show ?thesis by (simp add: link_inv_def eq)
  qed
qed

section \<open>Steps of the receiver\<close>

lemma processed_acks: "\<forall>e\<in>set es. \<exists>p. e = Ev_Send p \<and> P p \<Longrightarrow> processed es = []"
  by (induction es) auto

lemma first_missing_grows: "finite R \<Longrightarrow> first_missing R \<le> first_missing (insert n R)"
  by (intro first_missing_mono) auto

text \<open>What the arrival of packet \<open>n\<close> does: it is taken when it is new and the channel has started.\<close>

lemma data_arrival:
  assumes L: "link_inv L" and up: "net_up env" and p: "(n, p) \<in> set (lk_data L)" and life: "lk_exp L \<le> n + 32768"
  defines "R \<equiv> set (lk_got L)"
  obtains c' q es where "pktRecv_list env [arrived upad ts p] (lk_rcv L) = Inr c'"
    "ch_out c' = ch_out (lk_rcv L) @ es @ [Ev_ProcPacket q]" "payload q = payload p \<and> off_wire q" "p_accepted q \<longrightarrow> n \<notin> R"
    "recv_rel (first_missing (if p_accepted q then insert n R else R)) (if p_accepted q then insert n R else R) (recieverBuff c')"
    "\<forall>e\<in>set es. \<exists>a. e = Ev_Send a \<and> (h_ackNo (p_header a) = of_nat (first_missing (if p_accepted q then insert n R else R)) - 1 \<and>
       h_origAckNo (p_header a) = of_nat n \<and> n \<in> (if p_accepted q then insert n R else R))"
proof -
  let ?c = "lk_rcv L" and ?p = "arrived upad ts p"
  have S: "snd_inv L" and N: "net_inv L" and V: "rcv_inv L" using L by (simp_all add: link_inv_def)
  have rel: "recv_rel (lk_exp L) R (recieverBuff ?c)" and B: "lk_base L \<le> lk_exp L"
    using V by (simp_all add: rcv_inv_def R_def)
  have n: "n < lk_sent L" "unstamp p = unstamp (lk_queue L ! n)" using N p by (auto simp: net_inv_def)
  have len: "lk_sent L \<le> length (lk_queue L)" "lk_sent L \<le> lk_base L + 32768"
    using snd_invD(5-7) [OF S] by (simp_all add: lk_sent_def)
  have hdr: "h_seqNo (p_header ?p) = of_nat n" "\<not> has_flag (h_flag (p_header ?p)) FLAG_CHF"
    using snd_inv_queue [OF S, of n] unstamp_header(1,2) [OF n(2)] n(1) len(1) by simp_all
  have win: "n < lk_exp L + 32768" using n(1) len(2) B by simp
  show thesis
  proof (cases "recvStarted (recieverBuff ?c) \<or> has_flag (h_flag (p_header ?p)) FLAG_CHS")
    case True
    obtain c1 where c1: "pktRecv env ?p ?c = Inr (0, if n \<in> R then ?p else ?p\<lparr> p_accepted := True \<rparr>, c1)"
        "recv_rel (first_missing (insert n R)) (insert n R) (recieverBuff c1)"
        "acks_out ?c c1 (of_nat (first_missing (insert n R)) - 1) (of_nat n)"
      using pktRecv_ordinal [OF up rel True hdr(1) win life hdr(2)] by blast
    obtain es where es: "ch_out c1 = ch_out ?c @ es"
        "\<forall>e\<in>set es. \<exists>a. e = Ev_Send a \<and> h_ackNo (p_header a) = of_nat (first_missing (insert n R)) - 1 \<and> h_origAckNo (p_header a) = of_nat n"
      using c1(3) by (auto simp: acks_out_def)
    let ?q = "(if n \<in> R then ?p else ?p\<lparr> p_accepted := True \<rparr>)\<lparr> p_processed := True \<rparr>"
    have q: "p_accepted ?q \<longleftrightarrow> n \<notin> R" "payload ?q = payload p \<and> off_wire ?q"
      using payload_arrived(1) [of upad ts p] by (simp_all add: payload_def)
    have ins: "(if p_accepted ?q then insert n R else R) = insert n R" using q(1) by auto
    show thesis
      by (rule that [of "emit (Ev_ProcPacket ?q) c1" es ?q, unfolded ins]) (use c1(1,2) es q in \<open>auto simp: emit_def\<close>)
  next
    case False
    let ?q = "?p\<lparr> p_processed := True \<rparr>"
    have "pktRecv env ?p ?c = Inr (- 1, ?p, ?c)" using False by (simp add: pktRecv_def)
    moreover have "payload ?q = payload p \<and> off_wire ?q" "\<not> p_accepted ?q"
      using payload_arrived [of upad ts p] by (simp_all add: payload_def)
    ultimately show thesis
      using rel recv_rel_first [OF rel] by (intro that [of "emit (Ev_ProcPacket ?q) ?c" "[]" ?q]) (simp_all add: emit_def)
  qed
qed

lemma data_step:
  assumes L: "link_inv L" and up: "net_up env" and p: "(n, p) \<in> set (lk_data L)" and life: "lk_exp L \<le> n + 32768"
    and run: "pktRecv_list env [arrived upad ts p] (lk_rcv L) = Inr c'"
  shows "link_inv (took n c' L)"
proof -
  let ?R = "set (lk_got L)" and ?M = "took n c' L"
  obtain c1 q es where c1: "pktRecv_list env [arrived upad ts p] (lk_rcv L) = Inr c1"
    and q: "ch_out c1 = ch_out (lk_rcv L) @ es @ [Ev_ProcPacket q]" "payload q = payload p \<and> off_wire q" "p_accepted q \<longrightarrow> n \<notin> ?R"
    "recv_rel (first_missing (if p_accepted q then insert n ?R else ?R)) (if p_accepted q then insert n ?R else ?R) (recieverBuff c1)"
    "\<forall>e\<in>set es. \<exists>a. e = Ev_Send a \<and> (h_ackNo (p_header a) = of_nat (first_missing (if p_accepted q then insert n ?R else ?R)) - 1 \<and>
       h_origAckNo (p_header a) = of_nat n \<and> n \<in> (if p_accepted q then insert n ?R else ?R))"
    by (rule data_arrival [OF L up p life, of upad ts])
  have eq: "c1 = c'" using run unfolding c1 by (simp only: sum.inject)
  note q = q [unfolded eq]
  have I: "snd_inv L" "net_inv L" "rcv_inv L" "ack_inv L" "sel_inv L" "rep_inv L"
    using L by (simp_all add: link_inv_def)
  have n: "n < lk_sent L" and un: "unstamp p = unstamp (lk_queue L ! n)" using I(2) p by (auto simp: net_inv_def)
  have pl: "payload p = payload (lk_queue L ! n)" using un by (rule unstamp_header(3))
  have none: "processed es = []" by (rule processed_acks [OF q(5)])
  let ?got = "lk_got L @ (if p_accepted q then [n] else [])"
  have ev: "processed (new_events (lk_rcv L) c') = [q]" "sends (new_events (lk_rcv L) c') = sends es"
    by (simp_all add: new_events_eq [OF q(1)] none)
  have one: "map (\<lambda>_. n) (filter p_accepted [q]) = (if p_accepted q then [n] else [])" by simp
  have got: "lk_got ?M = ?got" unfolding took_def Let_def ev one by simp
  have acks: "lk_acks ?M = lk_acks L @ map (\<lambda>a. (lk_exp ?M, n, a)) (sends es)"
    unfolding took_def Let_def lk_exp_def ev one by simp
  have same: "lk_snd ?M = lk_snd L" "lk_rcv ?M = c'" "lk_queue ?M = lk_queue L" "lk_base ?M = lk_base L" "lk_data ?M = lk_data L"
    "lk_sent ?M = lk_sent L" "held ?M = held L"
    by (simp_all add: took_def Let_def lk_sent_def held_def fun_eq_iff)
  have set: "set (lk_got ?M) = (if p_accepted q then insert n ?R else ?R)" by (simp add: got)
  have rel: "recv_rel (lk_exp ?M) (set (lk_got ?M)) (recieverBuff c')" using q(4) by (simp add: lk_exp_def set)
  have gap: "lk_exp ?M \<notin> set (lk_got ?M)" using rel by (simp add: recv_rel_def)
  have ge: "lk_exp L \<le> lk_exp ?M" using first_missing_grows [of ?R n] by (simp add: lk_exp_def set)
  have new: "h_ackNo (p_header a) = of_nat (lk_exp ?M) - 1 \<and> h_origAckNo (p_header a) = of_nat n \<and> n \<in> set (lk_got ?M)"
    if "a \<in> set (sends es)" for a
    using bspec [OF q(5), of "Ev_Send a"] that by (simp add: sends_iff lk_exp_def set)
  have "snd_inv ?M" "net_inv ?M" using I(1,2) by (simp_all add: snd_inv_def net_inv_def same)
  moreover have "rcv_inv ?M"
    using I(3) q(1-3) n pl rel ge unfolding rcv_inv_def same got by (auto simp: none)
  moreover have "ack_inv ?M"
    unfolding ack_inv_def
  proof (intro conjI ballI; clarify)
    fix E m a assume "(E, m, a) \<in> set (lk_acks ?M)"
    then consider "(E, m, a) \<in> set (lk_acks L)" | "E = lk_exp ?M" "m = n" "a \<in> set (sends es)"
      by (auto simp: acks)
    then show "h_ackNo (p_header a) = of_nat E - 1 \<and> h_origAckNo (p_header a) = of_nat m \<and> m \<in> set (lk_got ?M) \<and> m \<noteq> E \<and> E \<le> lk_exp ?M"
    proof cases
      case 1
      then show ?thesis using I(4) ge by (fastforce simp: ack_inv_def set)
    next
      case 2
      then show ?thesis using new [of a] gap by auto
    qed
  next
    fix E m a E' b assume e: "(E, m, a) \<in> set (lk_acks ?M)" "(E', E, b) \<in> set (lk_acks ?M)"
    have old: "m' \<in> ?R \<and> E1 \<le> lk_exp L" if "(E1, m', a') \<in> set (lk_acks L)" for E1 m' a'
      using I(4) that by (fastforce simp: ack_inv_def)
    have "E \<in> set (lk_got ?M)"
      using e(2) old new by (fastforce simp: acks set)
    then have "E \<noteq> lk_exp ?M" using gap by metis
    then have e1: "(E, m, a) \<in> set (lk_acks L)" using e(1) by (auto simp: acks)
    show "E < E'"
    proof (cases "(E', E, b) \<in> set (lk_acks L)")
      case True
      then show ?thesis using e1 I(4) by (fastforce simp: ack_inv_def)
    next
      case False
      then have "E' = lk_exp ?M" using e(2) by (auto simp: acks)
      then show ?thesis using old [OF e1] ge \<open>E \<noteq> lk_exp ?M\<close> by simp
    qed
  qed
  moreover have "sel_inv ?M" using I(5) unfolding sel_inv_def same acks by fastforce
  moreover have "rep_inv ?M" using I(6) unfolding rep_inv_def same .
  ultimately show ?thesis by (simp add: link_inv_def)
qed

section \<open>Acknowledgements\<close>

text \<open>A stale acknowledgement, or one for a channel that has not sent: only the window is noted.\<close>

lemma ack_ignored:
  assumes "chan_inv c" "rec_ok c"
    and "\<not> sb_started (senderBuffer c) \<or> 32768 < unat (h_ackNo (p_header a) - lastAcked (senderBuffer c))"
  obtains r c' where "ackRecv env a c = Inr (r, c')" "quiet c c'" "rec_ok c'"
proof -
  let ?c = "if h_window (p_header a) \<noteq> 0 then c\<lparr> senderWindow := h_window (p_header a) \<rparr> else c"
  have q: "quiet c ?c" "rec_ok ?c"
    using assms(1,2) by (simp_all add: quiet_refl rec_ok_def in_flight_def)
  have s: "senderBuffer ?c = senderBuffer c" by simp
  show thesis
  proof (cases "sb_started (senderBuffer c)")
    case False
    then have "ackRecv env a c = Inr (0, ?c)" by (simp add: ackRecv_def Let_def)
    then show thesis using that q by blast
  next
    case True
    then have "32768 < unat (h_ackNo (p_header a) - lastAcked (senderBuffer c))" using assms(3) by simp
    then have "ack_kind ?c (h_ackNo (p_header a) - lastAcked (senderBuffer ?c)) = Ack_Outside"
      unfolding s by (auto simp: ack_kind_def)
    then have "ackRecv env a c = Inr (- 1, ?c)"
      using True by (simp only: ackRecv_def Let_def s note_kind_def if_False if_True simp_thms ack_kind.distinct)
    then show thesis using that q by blast
  qed
qed

lemma acks_from_ord:
  "acks_from P k (of_nat B) = concat (map (\<lambda>m. data_ack (P (of_nat m))) [B..<B + k])"
proof (induction k arbitrary: B)
  case (Suc k)
  have "acks_from P k (of_nat B + 1) = concat (map (\<lambda>m. data_ack (P (of_nat m))) [Suc B..<Suc B + k])"
    using Suc.IH [of "Suc B"] by (simp add: add.commute)
  moreover have "[B..<B + Suc k] = B # [Suc B..<Suc B + k]" by (subst upt_conv_Cons) simp_all
  ultimately show ?case by (simp only: acks_from.simps list.map concat.simps)
qed simp

lemma concat_filter: "(\<And>m. m \<in> set xs \<Longrightarrow> f m = (if h m then g m else [])) \<Longrightarrow>
    concat (map f xs) = concat (map g (filter h xs))"
  by (induction xs) auto

text \<open>What the sender still holds of the packets: those from \<open>lk_base\<close> on that were not acknowledged.\<close>

lemma pkts_held:
  assumes "snd_inv L" "lk_base L \<le> m" "m < length (lk_queue L)"
  shows "data_ack (pkts_of (lk_snd L) (of_nat m)) = (if held L m then data_ack (Some (lk_queue L ! m)) else [])"
proof (cases "pkts_of (lk_snd L) (of_nat m)")
  case None
  then show ?thesis by (simp add: held_def contents_pkts data_ack_def)
next
  case (Some p)
  then have h: "held L m" "contents (lk_snd L) (of_nat m) = Some (unstamp p)"
    by (simp_all add: held_def contents_pkts)
  then have "unstamp p = unstamp (lk_queue L ! m)" using held_contents [OF assms h(1)] by simp
  then have "data_ack (Some p) = data_ack (Some (lk_queue L ! m))" by (rule unstamp_header(4))
  then show ?thesis using Some h by simp
qed

lemma not_held_before:
  assumes "snd_inv L" "m < lk_base L" "lk_base L < m + 32768"
  shows "\<not> held L m"
proof -
  note D = snd_invD [OF assms(1)]
  have "off (senderBuffer (lk_snd L)) (of_nat m) = 0 \<or> 32768 < off (senderBuffer (lk_snd L)) (of_nat m)"
  proof (cases "lk_base L = Suc m")
    case True
    then have "of_nat m = lastAcked (senderBuffer (lk_snd L))" by (simp add: D(4))
    then show ?thesis by (intro disjI1) (simp only: off_lastAcked)
  next
    case False
    have "off (senderBuffer (lk_snd L)) (of_nat m) = 65537 - (lk_base L - m)"
      using off_before [OF D(4) assms(2)] False assms(3) by simp
    then show ?thesis using assms(2,3) by simp
  qed
  then have "sb_pkt (cells (senderBuffer (lk_snd L)) (of_nat m)) = None"
    using sb_invD(3) [OF D(3), of "of_nat m"] sb_invD(2) [OF D(3)]
    by (cases "sb_pkt (cells (senderBuffer (lk_snd L)) (of_nat m))") auto
  then show ?thesis by (simp add: held_def contents_def)
qed

text \<open>The position of an acknowledgement on the wire relative to what sender and receiver know.\<close>

lemma ack_invD:
  assumes "link_inv L" "(E, n, p) \<in> set (lk_acks L)"
  shows "h_ackNo (p_header p) = of_nat E - 1" "h_origAckNo (p_header p) = of_nat n" "n \<in> set (lk_got L)" "n \<noteq> E"
    "E \<le> lk_exp L" "{..<E} \<subseteq> set (lk_got L)" "n < lk_sent L" "E \<le> lk_sent L"
proof -
  have "ack_inv L" and V: "rcv_inv L" using assms(1) by (simp_all add: link_inv_def)
  then show A: "h_ackNo (p_header p) = of_nat E - 1" "h_origAckNo (p_header p) = of_nat n" "n \<in> set (lk_got L)" "n \<noteq> E"
    "E \<le> lk_exp L"
    using assms(2) by (fastforce simp: ack_inv_def)+
  have sub: "set (lk_got L) \<subseteq> {..<lk_sent L}" and "{..<lk_exp L} \<subseteq> set (lk_got L)"
    using V by (simp_all add: rcv_inv_def recv_rel_def)
  then show E: "{..<E} \<subseteq> set (lk_got L)" using A(5) by auto
  show "n < lk_sent L" using sub A(3) by auto
  have "{..<E} \<subseteq> {..<lk_sent L}" by (rule subset_trans [OF E sub])
  then show "E \<le> lk_sent L" by simp
qed

lemma held_gap:
  assumes "link_inv L" "(E, n, p) \<in> set (lk_acks L)" "lk_base L \<le> E" "E < length (lk_queue L)"
  shows "held L E"
proof (rule ccontr)
  assume "\<not> held L E"
  then obtain E1 p1 where e1: "(E1, E, p1) \<in> set (lk_acks L)" "E1 \<le> lk_base L"
    using assms(1,3,4) by (auto simp: link_inv_def sel_inv_def)
  have "ack_inv L" using assms(1) by (simp add: link_inv_def)
  then have "E < E1" using assms(2) e1(1) by (fastforce simp: ack_inv_def)
  then show False using e1(2) assms(3) by simp
qed

lemma ack_is_honest:
  assumes L: "link_inv L" and p: "(E, n, p) \<in> set (lk_acks L)" and E: "lk_base L \<le> E" and life: "lk_base L < n + 32768"
    and a: "h_ackNo (p_header a) = h_ackNo (p_header p)" "h_origAckNo (p_header a) = h_origAckNo (p_header p)"
  shows "honest_ack (lk_snd L) a" "off (senderBuffer (lk_snd L)) (h_ackNo (p_header a)) = E - lk_base L"
proof -
  let ?c = "lk_snd L" and ?s = "senderBuffer (lk_snd L)"
  note A = ack_invD [OF L p]
  have S: "snd_inv L" using L by (simp add: link_inv_def)
  note D = snd_invD [OF S]
  have in_q: "lk_sent L \<le> length (lk_queue L)" "lk_sent L \<le> lk_base L + 32768" using D(5-7) by (simp_all add: lk_sent_def)
  have "h_ackNo (p_header a) - lastAcked ?s = of_nat (E - lk_base L)"
    using E by (simp add: a A(1) D(4) of_nat_diff)
  then show offE: "off ?s (h_ackNo (p_header a)) = E - lk_base L"
    using A(8) in_q(2) by (simp only: off_def) (intro unat_of_nat_small, simp)
  have ms: "maxSent ?s = of_nat (lk_sent L) - 1"
  proof -
    have "maxSent ?s = lastAcked ?s + of_nat (in_flight ?c)" by (simp add: in_flight_def off_def)
    then show ?thesis by (simp add: D(4) lk_sent_def)
  qed
  show "honest_ack ?c a"
    unfolding honest_ack_def Let_def offE
  proof (intro conjI impI)
    show "E - lk_base L \<le> in_flight ?c" using A(8) by (simp add: lk_sent_def)
    show "off ?s (h_origAckNo (p_header a)) \<le> in_flight ?c" if "pkts_of ?c (h_origAckNo (p_header a)) \<noteq> None"
    proof -
      have "held L n" using that by (simp add: held_def contents_pkts a A(2))
      then have "lk_base L \<le> n" using not_held_before [OF S _ life] by force
      then show ?thesis using off_ord [OF D(4), of n] A(7) in_q(2) by (simp add: a A(2) lk_sent_def)
    qed
    assume "h_ackNo (p_header a) \<noteq> maxSent ?s"
    then have "E \<noteq> lk_sent L" by (auto simp: a A(1) ms)
    then have "E < lk_sent L" using A(8) by simp
    then have "E < length (lk_queue L)" using in_q(1) by simp
    from held_gap [OF L p E this] show "pkts_of ?c (h_ackNo (p_header a) + 1) \<noteq> None"
      by (simp add: held_def contents_pkts a A(1))
    show "h_origAckNo (p_header a) \<noteq> h_ackNo (p_header a) + 1"
      using of_nat_eq16 [of n E] A(4,7,8) in_q(2) life E by (auto simp: a A(1,2))
  qed
qed

text \<open>The packets reported are those now released, each once.\<close>

lemma acks_due_new:
  assumes L: "link_inv L" and p: "(E, n, p) \<in> set (lk_acks L)" and E: "lk_base L \<le> E" and life: "lk_base L < n + 32768"
    and a: "h_ackNo (p_header a) = h_ackNo (p_header p)" "h_origAckNo (p_header a) = h_origAckNo (p_header p)"
  obtains ns where "distinct ns" "set ns = {m. lk_base L \<le> m \<and> m < length (lk_queue L) \<and> held L m \<and> (m < E \<or> m = n)}"
    "acks_due (lk_snd L) a = concat (map (\<lambda>m. data_ack (Some (lk_queue L ! m))) ns)"
proof -
  let ?c = "lk_snd L" and ?s = "senderBuffer (lk_snd L)" and ?B = "lk_base L" and ?g = "\<lambda>m. data_ack (Some (lk_queue L ! m))"
  note A = ack_invD [OF L p]
  have S: "snd_inv L" using L by (simp add: link_inv_def)
  note D = snd_invD [OF S]
  have in_q: "lk_sent L \<le> length (lk_queue L)" "lk_sent L \<le> lk_base L + 32768" using D(5-7) by (simp_all add: lk_sent_def)
  have la: "lastAcked ?s + 1 = of_nat ?B" by (simp add: D(4))
  have kn: "off ?s (h_ackNo (p_header a)) = E - ?B" by (rule ack_is_honest(2) [OF L p E life a])
  have kn2: "?B + (E - ?B) = E" using E by simp
  have same: "h_ackNo (p_header a) = h_origAckNo (p_header a) \<longleftrightarrow> E = Suc n"
    using of_nat_eq16 [of E "Suc n"] A(7,8) in_q(2) life E by (auto simp: a A(1,2) diff_eq_eq)
  have P: "data_ack (pkts_of ?c (of_nat m)) = (if held L m then ?g m else [])" if "m \<in> set [?B..<E]" for m
    using pkts_held [OF S, of m] that A(8) in_q(1) by auto
  show thesis
  proof (cases "E = Suc n")
    case True
    have due: "acks_due ?c a = concat (map (\<lambda>m. data_ack (pkts_of ?c (of_nat m))) [?B..<E])"
    proof -
      have "acks_due ?c a = acks_from (pkts_of ?c) (off ?s (h_ackNo (p_header a))) (lastAcked ?s + 1)"
        using True same by (simp add: acks_due_def Let_def)
      then show ?thesis unfolding kn la acks_from_ord kn2 .
    qed
    have "acks_due ?c a = concat (map ?g (filter (held L) [?B..<E]))"
      unfolding due by (rule concat_filter [OF P])
    moreover have "set (filter (held L) [?B..<E]) = {m. ?B \<le> m \<and> m < length (lk_queue L) \<and> held L m \<and> (m < E \<or> m = n)}"
      using A(8) in_q(1) unfolding True by (auto simp del: upt_Suc)
    ultimately show thesis using that [of "filter (held L) [?B..<E]"] by (simp del: upt_Suc)
  next
    case False
    let ?P = "(pkts_of ?c)(of_nat n := None)"
    have P': "data_ack (?P (of_nat m)) = (if held L m \<and> m \<noteq> n then ?g m else [])" if m: "m \<in> set [?B..<E]" for m
    proof (cases "m = n")
      case True
      then show ?thesis by (simp add: data_ack_def)
    next
      case False
      have "m < n + 65536" "n < m + 65536" using m life A(7,8) in_q(2) by auto
      then have "of_nat m \<noteq> (of_nat n :: appInt16)" using of_nat_eq16 [of m n] False by blast
      then show ?thesis using P [OF m] False by simp
    qed
    have one: "data_ack (pkts_of ?c (of_nat n)) = concat (map ?g (if held L n then [n] else []))"
    proof (cases "held L n")
      case True
      then have "?B \<le> n" using not_held_before [OF S _ life] by force
      then show ?thesis using pkts_held [OF S, of n] True A(7) in_q(1) by simp
    next
      case False
      then show ?thesis by (simp add: held_def contents_pkts data_ack_def)
    qed
    have due: "acks_due ?c a = data_ack (pkts_of ?c (of_nat n)) @ concat (map (\<lambda>m. data_ack (?P (of_nat m))) [?B..<E])"
    proof -
      have o1: "h_origAckNo (p_header a) = of_nat n" by (simp add: a A(2))
      have "acks_due ?c a = data_ack (pkts_of ?c (of_nat n)) @ acks_from ?P (off ?s (h_ackNo (p_header a))) (lastAcked ?s + 1)"
        using False same unfolding acks_due_def Let_def o1 by (simp only: if_False)
      then show ?thesis unfolding kn la acks_from_ord kn2 .
    qed
    let ?ns = "(if held L n then [n] else []) @ filter (\<lambda>m. held L m \<and> m \<noteq> n) [?B..<E]"
    have "acks_due ?c a = concat (map ?g ?ns)"
      unfolding due one map_append concat_append by (simp only: concat_filter [OF P'])
    moreover have "set ?ns = {m. ?B \<le> m \<and> m < length (lk_queue L) \<and> held L m \<and> (m < E \<or> m = n)}"
      using A(7,8) in_q(1) not_held_before [OF S _ life] by (auto intro: leI)
    ultimately show thesis using that [of ?ns] by simp
  qed
qed

lemma ack_step:
  assumes L: "link_inv L" and up: "net_up env" and p: "(E, n, p) \<in> set (lk_acks L)"
    and life: "lk_base L < E + 32768" "lk_base L < n + 32768"
    and rtt: "rtt_sample_ok env (arrived upad ts p) (lk_snd L)"
  shows "\<exists>r c'. ackRecv env (arrived upad ts p) (lk_snd L) = Inr (r, c') \<and> link_inv (moved c' L) \<and>
    (sb_started (senderBuffer (lk_snd L)) \<longrightarrow> lk_base (moved c' L) = max (lk_base L) E)"
proof -
  let ?c = "lk_snd L" and ?s = "senderBuffer (lk_snd L)" and ?B = "lk_base L" and ?a = "arrived upad ts p"
  have I: "snd_inv L" "net_inv L" "rcv_inv L" "ack_inv L" "sel_inv L" "rep_inv L"
    using L by (simp_all add: link_inv_def)
  note D = snd_invD [OF I(1)] and A = ack_invD [OF L p]
  have hdr: "h_ackNo (p_header ?a) = h_ackNo (p_header p)" "h_origAckNo (p_header ?a) = h_origAckNo (p_header p)" by simp_all
  have in_q: "lk_sent L \<le> length (lk_queue L)" "lk_sent L \<le> lk_base L + 32768" using D(5-7) by (simp_all add: lk_sent_def)
  show ?thesis
  proof (cases "sb_started ?s \<and> ?B \<le> E")
    case False
    have "\<not> sb_started ?s \<or> 32768 < unat (h_ackNo (p_header ?a) - lastAcked ?s)"
    proof (intro disjCI)
      assume "\<not> 32768 < unat (h_ackNo (p_header ?a) - lastAcked ?s)"
      moreover have "unat (h_ackNo (p_header ?a) - lastAcked ?s) = 65536 - (?B - E)" if "E < ?B"
      proof -
        have "h_ackNo (p_header ?a) - lastAcked ?s = of_nat (65536 - (?B - E))"
          using that life(1) by (simp add: A(1) D(4) of_nat_diff)
        then show ?thesis using that by (simp only:) (intro unat_of_nat_small, simp)
      qed
      ultimately show "\<not> sb_started ?s" using False life(1) by (cases "E < ?B") auto
    qed
    then obtain r c' where c': "ackRecv env ?a ?c = Inr (r, c')" "quiet ?c c'" "rec_ok c'"
      by (rule ack_ignored [OF D(1,2)])
    have "lastAcked (senderBuffer c') = lastAcked ?s" using c'(2) by (simp add: quiet_def)
    then have "lk_base (moved c' L) = ?B" using off_last by simp
    then show ?thesis using c' moved_quiet [OF L c'(2,3)] False by auto
  next
    case True
    then have E: "?B \<le> E" by simp
    note H = ack_is_honest [OF L p E life(2) hdr]
    obtain c' where c': "ackRecv env ?a ?c = Inr (0, c')" "chan_inv c'" "rec_ok c'"
      "lastAcked (senderBuffer c') = h_ackNo (p_header ?a)" "maxPacket (senderBuffer c') = maxPacket ?s"
      "\<forall>i. contents c' i = (if off ?s i \<le> off ?s (h_ackNo (p_header ?a)) \<or> i = h_origAckNo (p_header ?a) then None else contents ?c i)"
      "recv_acks (ch_out c') = recv_acks (ch_out ?c) @ acks_due ?c ?a" "sends_ok ?c c'"
      "in_flight ?c \<le> off ?s (h_ackNo (p_header ?a)) + in_flight c'"
      using ackRecv_honest_ok [OF D(1,2) up conjunct1 [OF True] H(1) rtt] by blast
    let ?M = "moved c' L"
    have B: "lk_base ?M = E" using H(2) E by (simp add: c'(4))
    have la: "lastAcked (senderBuffer c') = of_nat E - 1" by (simp add: c'(4) A(1))
    have sent: "lk_sent L \<le> lk_sent ?M" using c'(9) H(2) E unfolding lk_sent_def B by simp
    have un: "E + unacked c' = length (lk_queue L)"
    proof -
      have "maxPacket ?s = lastAcked ?s + of_nat (unacked ?c)" by (simp add: unacked_def off_def)
      then have "maxPacket ?s = of_nat (length (lk_queue L)) - 1" using D(4) by (simp flip: D(5))
      then have "maxPacket (senderBuffer c') - lastAcked (senderBuffer c') = of_nat (length (lk_queue L) - E)"
        using A(8) in_q(1) by (simp add: c'(5) la of_nat_diff)
      then have "unacked c' = length (lk_queue L) - E"
        using D(5,6) E by (simp only: unacked_def off_def) (intro unat_of_nat_small, simp)
      then show ?thesis using A(8) in_q(1) by simp
    qed
    have ct: "contents c' (of_nat m) = (if m = n then None else contents ?c (of_nat m))" if m: "E \<le> m" "m < length (lk_queue L)" for m
    proof -
      have "off ?s (of_nat m) = Suc (m - ?B)" using m E D(5,6) by (intro off_ord [OF D(4)]) auto
      moreover have "of_nat m = (of_nat n :: appInt16) \<longleftrightarrow> m = n"
        using of_nat_eq16 [of m n] m E D(5,6) A(7) in_q life(2) by auto
      moreover have "\<not> Suc (m - ?B) \<le> E - ?B" using m(1) E by linarith
      ultimately show ?thesis using c'(6) H(2) by (simp add: A(2))
    qed
    have h: "held ?M m \<longleftrightarrow> m \<noteq> n \<and> held L m" if "E \<le> m" "m < length (lk_queue L)" for m
      using ct [OF that] by (simp add: held_def)
    have s: "snd_inv ?M"
      using I(1) c'(2,3) la un ct E unfolding snd_inv_def B by auto
    moreover have "net_inv ?M" by (rule net_moved [OF I(2) s c'(8) sent])
    moreover have "rcv_inv ?M" using I(3) A(5) sent unfolding rcv_inv_def B by auto
    moreover have "ack_inv ?M" using I(4) by (simp add: ack_inv_def)
    moreover have "sel_inv ?M"
      unfolding sel_inv_def B
    proof (intro allI impI)
      fix m assume m: "E \<le> m \<and> m < length (lk_queue ?M) \<and> \<not> held ?M m"
      show "\<exists>F q. (F, m, q) \<in> set (lk_acks ?M) \<and> F \<le> E"
      proof (cases "m = n")
        case True
        then show ?thesis using p by auto
      next
        case False
        then have "?B \<le> m \<and> m < length (lk_queue L) \<and> \<not> held L m" using m h [of m] E by auto
        then obtain F q where "(F, m, q) \<in> set (lk_acks L)" "F \<le> ?B" using I(5) unfolding sel_inv_def by blast
        then show ?thesis using E by (intro exI [of _ F] exI [of _ q]) simp
      qed
    qed
    moreover have "rep_inv ?M"
    proof -
      let ?g = "\<lambda>m. data_ack (Some (lk_queue L ! m))"
      obtain ms where ms: "distinct ms" "set ms = {m. m < length (lk_queue L) \<and> (m < ?B \<or> \<not> held L m)}"
          "recv_acks (ch_out ?c) = concat (map ?g ms)"
        using I(6) by (auto simp: rep_inv_def)
      obtain ns where ns: "distinct ns" "set ns = {m. ?B \<le> m \<and> m < length (lk_queue L) \<and> held L m \<and> (m < E \<or> m = n)}"
          "acks_due ?c ?a = concat (map ?g ns)"
        by (rule acks_due_new [OF L p E life(2) hdr])
      have "m < length (lk_queue L) \<and> (m < E \<or> \<not> held ?M m) \<longleftrightarrow> m \<in> set (ms @ ns)" for m
        using h [of m] E not_held_before [OF I(1) _ life(2)] unfolding set_append ms(2) ns(2)
        by (cases "E \<le> m") auto
      then have "set (ms @ ns) = {m. m < length (lk_queue ?M) \<and> (m < lk_base ?M \<or> \<not> held ?M m)}"
        unfolding B by auto
      moreover have "set ms \<inter> set ns = {}" unfolding ms(2) ns(2) by auto
      then have "distinct (ms @ ns)" using ms(1) ns(1) by (simp only: distinct_append simp_thms)
      moreover have "recv_acks (ch_out (lk_snd ?M)) = concat (map (\<lambda>m. data_ack (Some (lk_queue ?M ! m))) (ms @ ns))"
        by (simp add: c'(7) ms(3) ns(3))
      ultimately show ?thesis unfolding rep_inv_def by (intro exI [of _ "ms @ ns"]) (simp only: simp_thms)
    qed
    ultimately show ?thesis using c'(1) B E by (auto simp: link_inv_def)
  qed
qed

end
