(* ===== verification/LinkDelivery.thy ===== *)
theory LinkDelivery
  imports LinkProps
begin

text \<open>
  The promises of the link: every reachable state satisfies the invariant of
  LinkProps, so the receiver's parent gets accepted packets once and as they
  were sent, the sender's parent learns only of packets that were delivered,
  and no datagram of the peer makes either end fail.
\<close>

section \<open>Reachable states\<close>

lemma first_missing_empty [simp]: "first_missing {} = 0"
  by (intro first_missing_eq) simp_all

lemma link_inv_init: "link_inv (link_init env env' src dst)"
proof -
  have out: "ch_out (init_new_channel e s d) = []" for e s d
    by (simp add: init_new_channel_def init_sack_chan_def init_chan_def chan.defs sack_chan.defs)
  have "(65535 :: appInt16) = - 1" using minus_one_16 [of "- 1"] by simp
  then have "snd_inv (link_init env env' src dst)"
    by (simp add: snd_inv_def link_init_def init_new_channel_inv rec_ok_def init_new_channel_simps)
  then show ?thesis
    by (simp add: link_inv_def net_inv_def rcv_inv_def ack_inv_def sel_inv_def rep_inv_def)
      (simp add: link_init_def lk_exp_def lk_sent_def init_new_channel_recv recv_rel_new out)
qed

inductive_cases link_stepE: "link_step L L'"

lemma link_step_inv:
  assumes "link_inv L" "link_step L L'"
  shows "link_inv L'"
  using assms(2)
proof cases
  case (Send env pkt r c')
  then show ?thesis using send_step [OF assms(1)] by simp
next
  case (Timeout env now r c')
  then show ?thesis using timeout_step [OF assms(1)] by simp
next
  case (Data env n p upad ts c')
  show ?thesis unfolding Data(1) by (rule data_step [OF assms(1) Data(2-5)])
next
  case (Ack env E n p upad ts r c')
  then show ?thesis using ack_step [OF assms(1) Ack(2-6)] by auto
qed

lemma link_reach_inv: "link_reach env env' src dst L \<Longrightarrow> link_inv L"
  by (induction rule: link_reach.induct) (auto intro: link_inv_init link_step_inv)

text \<open>What the two parents were told, in terms of the packets accepted for sending.\<close>

lemma link_inv_delivery:
  assumes "link_inv L"
  obtains ms where "distinct (lk_got L)" "set (lk_got L) \<subseteq> {..<length (lk_queue L)}"
    "map payload (filter p_accepted (processed (ch_out (lk_rcv L)))) = map (\<lambda>n. payload (lk_queue L ! n)) (lk_got L)"
    "distinct ms" "set ms \<subseteq> set (lk_got L)" "set ms = {m. m < length (lk_queue L) \<and> (m < lk_base L \<or> \<not> held L m)}"
    "recv_acks (ch_out (lk_snd L)) = concat (map (\<lambda>m. data_ack (Some (lk_queue L ! m))) ms)"
proof -
  have I: "snd_inv L" "rcv_inv L" "ack_inv L" "sel_inv L" "rep_inv L" using assms by (simp_all add: link_inv_def)
  have sub: "set (lk_got L) \<subseteq> {..<length (lk_queue L)}"
    using I(2) snd_invD(5,7) [OF I(1)] by (force simp: rcv_inv_def lk_sent_def)
  obtain ms where ms: "distinct ms" "set ms = {m. m < length (lk_queue L) \<and> (m < lk_base L \<or> \<not> held L m)}"
      "recv_acks (ch_out (lk_snd L)) = concat (map (\<lambda>m. data_ack (Some (lk_queue L ! m))) ms)"
    using I(5) by (auto simp: rep_inv_def)
  have "m \<in> set (lk_got L)" if "m \<in> set ms" for m
  proof (cases "m < lk_base L")
    case True
    then show ?thesis using I(2) by (auto simp: rcv_inv_def recv_rel_def)
  next
    case False
    then have "lk_base L \<le> m \<and> m < length (lk_queue L) \<and> \<not> held L m" using that ms(2) by auto
    then obtain E p where "(E, m, p) \<in> set (lk_acks L)" using I(4) unfolding sel_inv_def by blast
    then show ?thesis by (rule ack_invD(3) [OF assms])
  qed
  then have "set ms \<subseteq> set (lk_got L)" by blast
  then show thesis using that [OF _ sub _ ms(1) _ ms(2,3)] I(2) by (simp add: rcv_inv_def)
qed

section \<open>Exactly once\<close>

text \<open>
  C2: two ends of a channel keep their promise over a network that loses,
  repeats and reorders datagrams, as long as none outlives half the range of
  sequence numbers.  In every reachable state the packets the receiver's parent
  got as accepted are packets that \<open>sendPacket\<close> accepted, with the header and
  the data they had then, no packet twice; and the acknowledgements the sender
  reported to its own parent are those of data packets that the receiver's
  parent has got, each reported once.
\<close>

theorem link_delivery:
  assumes "link_reach env env' src dst L"
  shows "\<exists>ns ms. distinct ns \<and> set ns \<subseteq> {..<length (lk_queue L)} \<and>
     map payload (filter p_accepted (processed (ch_out (lk_rcv L)))) = map (\<lambda>n. payload (lk_queue L ! n)) ns \<and>
     distinct ms \<and> set ms \<subseteq> set ns \<and>
     recv_acks (ch_out (lk_snd L)) = concat (map (\<lambda>m. data_ack (Some (lk_queue L ! m))) ms)"
  by (rule link_inv_delivery [OF link_reach_inv [OF assms]]) blast


section \<open>A first exchange\<close>

lemma rtt_same_instant:
  assumes "srtt c = 0" "p_recvTS a = h_sentTS (p_header a)"
  shows "rtt_sample_ok env a c"
proof (cases "sint (h_sentTS (p_header a)) = 0")
  case False
  then have "rtt_sample env a = 0" using assms(2) by (auto simp: rtt_sample_def)
  then show ?thesis using assms(1) by (simp add: rtt_sample_ok_def rtt_step_def Let_def rtt_G_def TIMER_SECOND_IN_US_def
        trunc_def APP_MAX_def)
qed (simp add: rtt_sample_ok_def)

lemma first_send:
  assumes "\<not> has_flag (h_flag (p_header pkt)) FLAG_CHF"
  obtains c L p where "sendPacket env0 pkt (init_new_channel env0 1 2) = Inr (0, c)"
    "L = moved c (queue_packet env0 pkt 0 (link_init env0 env0 1 2))" "link_reach env0 env0 1 2 L" "lk_data L = [(0, p)]" "lk_queue L = [enqueued (init_new_channel env0 1 2) pkt]"
    "lk_rcv L = init_new_channel env0 2 1" "lk_got L = []" "lk_acks L = []" "lk_base L = 0" "srtt (lk_snd L) = 0"
    "sb_started (senderBuffer (lk_snd L))"
proof -
  let ?c = "init_new_channel env0 1 2" and ?L = "link_init env0 env0 1 2"
  have i: "closed ?c = False" "deadChannel ?c = False" "unacked ?c = 0" "in_flight ?c = 0" "send_wnd ?c = 1" "srtt ?c = 0" "ch_out ?c = []"
    by (simp_all add: init_new_channel_simps send_wnd_init)
      (simp_all add: init_new_channel_def init_sack_chan_def init_chan_def chan.defs sack_chan.defs)
  obtain c ps where c: "sendPacket env0 pkt ?c = Inr (0, c)" "ch_out c = map Ev_Send ps" "length ps = 1" "srtt c = 0"
      "sb_started (senderBuffer c)"
    using sendPacket_full [OF init_new_channel_inv net_up_env0, of pkt env0 1 2] i by (auto simp: frame_start_def)
  let ?M = "moved c (queue_packet env0 pkt 0 ?L)"
  have snd: "lk_snd ?L = ?c" by (simp add: link_init_def)
  have "link_step ?L ?M" using link_step.Send [OF net_up_env0 assms, of ?L 0 c] c(1) by (simp add: snd)
  then have reach: "link_reach env0 env0 1 2 ?M" by (rule link_reach.Step [OF link_reach.Init])
  obtain p where p: "ps = [p]" using c(3) by (cases ps) auto
  have "new_events ?c c = [Ev_Send p]" using new_events_eq [of c ?c "[Ev_Send p]"] c(2) p i(7) by simp
  then have wire: "\<exists>n. lk_data ?M = [(n, p)]" by (simp add: moved_def Let_def queue_packet_def link_init_def)
  have I: "link_inv ?M" by (rule link_reach_inv [OF reach])
  have "length (lk_queue ?M) = 1" by (simp add: queue_packet_def link_init_def)
  then have "lk_data ?M = [(0, p)]"
    using wire I snd_invD(5,7) [of ?M] by (auto simp: link_inv_def net_inv_def lk_sent_def)
  moreover have "lastAcked (senderBuffer c) = lastAcked (senderBuffer ?c)"
    using sendPacket_full [OF init_new_channel_inv net_up_env0, of pkt env0 1 2] c(1) by auto
  ultimately show thesis
    using that [OF c(1) refl reach, of p] c(4,5) by (simp add: queue_packet_def link_init_def off_last)
qed

lemma enqueued_first:
  "has_flag (h_flag (p_header (enqueued (init_new_channel env0 1 2) pkt))) FLAG_CHS"
proof -
  have "has_flag (f OR FLAG_CHS) FLAG_CHS" for f
    by (simp add: has_flag_def word_ao_dist or_eq_0_iff FLAG_CHS_def)
  then show ?thesis by (simp add: enqueued_def init_new_channel_simps)
qed

lemma sent_acks_sends: "length (sent_acks es) = length (sends es)"
  by (induction es rule: sends.induct) simp_all

text \<open>The first packet of a burst opens a channel that has not started.\<close>

lemma first_arrival:
  assumes "lk_rcv L = init_new_channel env0 2 1" "lk_got L = []" "lk_acks L = []"
    and p: "h_seqNo (p_header p) = 0" "has_flag (h_flag (p_header p)) FLAG_CHS" "\<not> has_flag (h_flag (p_header p)) FLAG_CHF"
  obtains c' a where "pktRecv_list env0 [arrived 0 0 p] (lk_rcv L) = Inr c'" "lk_got (took 0 c' L) = [0]"
    "lk_acks (took 0 c' L) = [(1, 0, a)]"
proof -
  let ?c = "init_new_channel env0 2 1" and ?p = "arrived 0 0 p"
  have out: "ch_out ?c = []"
    by (simp add: init_new_channel_def init_sack_chan_def init_chan_def chan.defs sack_chan.defs)
  have rel: "recv_rel 0 {} (recieverBuff ?c)" by (simp add: init_new_channel_recv recv_rel_new)
  have seq: "0 = unat (h_seqNo (p_header ?p) - expectedSeq (recieverBuff ?c))"
    by (simp add: p init_new_channel_recv new_ReceivingBuffer_def)
  have flags: "recvStarted (recieverBuff ?c) \<or> has_flag (h_flag (p_header ?p)) FLAG_CHS"
    "\<not> has_flag (h_flag (p_header ?p)) FLAG_CHF" using p by simp_all
  have fm: "first_missing {0} = 1" by (intro first_missing_eq) auto
  obtain c1 where c1: "pktRecv env0 ?p ?c = Inr (0, ?p\<lparr> p_accepted := True \<rparr>, c1)"
      "length (sent_acks (ch_out c1)) = 1" "processed (ch_out c1) = []"
    using pktRecv_inside [OF net_up_env0 rel flags seq] by (auto simp: out)
  let ?q = "?p\<lparr> p_accepted := True, p_processed := True \<rparr>"
  let ?c2 = "emit (Ev_ProcPacket ?q) c1"
  have run: "pktRecv_list env0 [?p] ?c = Inr ?c2" using c1(1) by simp
  obtain a where a: "sends (ch_out c1) = [a]"
    using c1(2) by (cases "sends (ch_out c1)") (auto simp: sent_acks_sends)
  have ev: "processed (new_events (lk_rcv L) ?c2) = [?q]" "sends (new_events (lk_rcv L) ?c2) = [a]"
    by (simp_all add: new_events_def assms(1) out emit_def a c1(3))
  have one: "map (\<lambda>_. 0) (filter p_accepted [?q]) = [0 :: nat]" by simp
  have got: "lk_got (took 0 ?c2 L) = [0]" and acks: "lk_acks (took 0 ?c2 L) = [(1, 0, a)]"
    unfolding took_def Let_def ev one by (simp_all add: assms(2,3) fm)
  show thesis by (rule that [OF run [folded assms(1)] got acks])
qed

text \<open>
  On fresh channels, with the network up, for any packet that does not close the
  channel, the steps send, arrival and acknowledgement lead to a state in which
  the receiver's parent has got this packet as accepted, the sender's parent has
  been told so when it carries data, and nothing is left to acknowledge.
\<close>

lemma first_exchange:
  assumes "\<not> has_flag (h_flag (p_header pkt)) FLAG_CHF"
  defines "q \<equiv> enqueued (init_new_channel env0 1 2) pkt"
  shows "\<exists>L. link_reach env0 env0 1 2 L \<and> lk_queue L = [q] \<and>
     map payload (filter p_accepted (processed (ch_out (lk_rcv L)))) = [payload q] \<and>
     recv_acks (ch_out (lk_snd L)) = data_ack (Some q) \<and> unacked (lk_snd L) = 0"
proof -
  obtain L1 p where L1: "link_reach env0 env0 1 2 L1" "lk_data L1 = [(0, p)]" "lk_queue L1 = [q]"
    "lk_rcv L1 = init_new_channel env0 2 1" "lk_got L1 = []" "lk_acks L1 = []" "lk_base L1 = 0" "srtt (lk_snd L1) = 0"
    "sb_started (senderBuffer (lk_snd L1))"
    unfolding q_def by (rule first_send [OF assms(1)])
  note I1 = link_reach_inv [OF L1(1)]
  have "unstamp p = unstamp q" using I1 by (simp add: link_inv_def net_inv_def L1)
  note H = unstamp_header [OF this]
  have q0: "h_seqNo (p_header q) = 0" "has_flag (h_flag (p_header q)) FLAG_CHS" "\<not> has_flag (h_flag (p_header q)) FLAG_CHF"
    using snd_inv_queue [of L1 0] I1 enqueued_first [of pkt] by (simp_all add: link_inv_def q_def L1(3))
  have exp: "lk_exp L1 = 0" by (simp add: lk_exp_def L1(5))
  obtain c' a where d: "pktRecv_list env0 [arrived 0 0 p] (lk_rcv L1) = Inr c'" "lk_got (took 0 c' L1) = [0]"
    "lk_acks (took 0 c' L1) = [(1, 0, a)]"
    using first_arrival [OF L1(4-6)] H(1,2) q0 by metis
  let ?L2 = "took 0 c' L1"
  have "link_step L1 ?L2"
    by (rule link_step.Data [OF net_up_env0 _ _ d(1)]) (simp_all add: L1(2) exp)
  then have reach2: "link_reach env0 env0 1 2 ?L2" by (rule link_reach.Step [OF L1(1)])
  have L2: "lk_snd ?L2 = lk_snd L1" "lk_base ?L2 = 0" "lk_queue ?L2 = [q]"
    by (simp_all add: took_def Let_def L1)
  let ?ts = "h_sentTS (p_header a)"
  have rtt: "rtt_sample_ok env0 (arrived 0 ?ts a) (lk_snd ?L2)"
    by (rule rtt_same_instant) (simp_all add: L2(1) L1(8) set_OHLen_def, simp add: arrived_def)
  have mem: "(1, 0, a) \<in> set (lk_acks ?L2)" by (simp add: d(3))
  obtain r c'' where e: "ackRecv env0 (arrived 0 ?ts a) (lk_snd ?L2) = Inr (r, c'')" "link_inv (moved c'' ?L2)"
    "lk_base (moved c'' ?L2) = 1"
    using ack_step [OF link_reach_inv [OF reach2] net_up_env0 mem _ _ rtt] L2(1,2) L1(9) by auto
  let ?L3 = "moved c'' ?L2"
  have "link_step ?L2 ?L3" by (rule link_step.Ack [OF net_up_env0 mem _ _ rtt e(1)]) (simp_all add: L2)
  then have reach3: "link_reach env0 env0 1 2 ?L3" by (rule link_reach.Step [OF reach2])
  have L3: "lk_queue ?L3 = [q]" "lk_got ?L3 = [0]" using L2(3) d(2) by simp_all
  obtain ms where ms: "map payload (filter p_accepted (processed (ch_out (lk_rcv ?L3)))) = map (\<lambda>n. payload (lk_queue ?L3 ! n)) (lk_got ?L3)"
    "distinct ms" "set ms = {m. m < length (lk_queue ?L3) \<and> (m < lk_base ?L3 \<or> \<not> held ?L3 m)}"
    "recv_acks (ch_out (lk_snd ?L3)) = concat (map (\<lambda>m. data_ack (Some (lk_queue ?L3 ! m))) ms)"
    by (rule link_inv_delivery [OF e(2)])
  have "set ms = {0}" unfolding ms(3) L3(1) e(3) by auto
  then have "length ms = 1" using distinct_card [OF ms(2)] by simp
  then obtain m where "ms = [m]" by (cases ms) auto
  then have ms0: "ms = [0]" using \<open>set ms = {0}\<close> by simp
  have "snd_inv ?L3" using e(2) by (simp add: link_inv_def)
  then have "1 + unacked (lk_snd ?L3) = 1" using snd_invD(5) [of ?L3] unfolding e(3) L3(1) by simp
  moreover have "map payload (filter p_accepted (processed (ch_out (lk_rcv ?L3)))) = [payload q]"
    unfolding ms(1) L3 by simp
  moreover have "recv_acks (ch_out (lk_snd ?L3)) = data_ack (Some q)"
    unfolding ms(4) ms0 L3(1) by simp
  ultimately show ?thesis using reach3 L3(1) by (intro exI [of _ ?L3] conjI) (assumption | simp)+
qed

lemma data_ack_first: "length (data_ack (Some (enqueued c (data_pkt 0)))) = 1"
proof -
  have "has_flag (FLAG_DAT OR FLAG_CHS) FLAG_DAT" "has_flag (FLAG_DAT OR FLAG_CHS OR FLAG_CHS) FLAG_DAT" by code_simp+
  then show ?thesis by (simp add: data_ack_def enqueued_def data_pkt_def)
qed

lemma link_delivery_witness:
  "\<exists>L ns ms. link_reach env0 env0 1 2 L \<and> length (lk_queue L) = 1 \<and> length (recv_acks (ch_out (lk_snd L))) = 1 \<and>
     distinct ns \<and> set ns \<subseteq> {..<length (lk_queue L)} \<and> distinct ms \<and> set ms \<subseteq> set ns \<and>
     map payload (filter p_accepted (processed (ch_out (lk_rcv L)))) = map (\<lambda>n. payload (lk_queue L ! n)) ns \<and>
     recv_acks (ch_out (lk_snd L)) = concat (map (\<lambda>m. data_ack (Some (lk_queue L ! m))) ms)"
proof -
  obtain L where L: "link_reach env0 env0 1 2 L" "lk_queue L = [enqueued (init_new_channel env0 1 2) (data_pkt 0)]"
      "recv_acks (ch_out (lk_snd L)) = data_ack (Some (enqueued (init_new_channel env0 1 2) (data_pkt 0)))"
    using first_exchange [OF data_pkt_flags(2) [of 0]] by (elim exE conjE) (rule that)
  then have n: "length (lk_queue L) = 1" "length (recv_acks (ch_out (lk_snd L))) = 1" by (simp_all add: data_ack_first)
  from link_delivery [OF L(1)] show ?thesis
    by (elim exE conjE) (intro exI conjI, rule L(1), rule n(1), rule n(2), assumption+)
qed


end
