(* ===== verification/Pipe.thy ===== *)
theory Pipe
  imports NewFlowProps LinkDelivery
begin

text \<open>
  One flow between two hosts: the flow of the writer, one channel that carries
  its packets over the network, and the flow of the reader.  Between flow and
  channel the client adds its fingerprint and the scheduler \<open>FLAG_DAT\<close>
  (\<open>handed\<close>); the scheduler may give packets to the channel in any order, each
  once, and among those of other flows.  At the other end the parent takes the
  packets the channel marked as accepted, one after the other, and gives those
  of this flow to it.  The reader reports how far it has read; a report may come
  late or twice.  Nothing is assumed of the windows of the two flows: that no
  packet is outside them is proved.
\<close>

definition handed :: "appInt16 \<Rightarrow> Packet \<Rightarrow> Packet" where
  "handed fp pkt = pkt\<lparr> p_header := (p_header pkt)\<lparr> h_fingerPrint := fp, h_flag := h_flag (p_header pkt) OR FLAG_DAT \<rparr> \<rparr>"

definition accept_all :: "Packet \<Rightarrow> int" where
  "accept_all p = 0"

text \<open>
  \<open>pp_ord\<close>: which packet of the writer's flow each packet of the channel is;
  \<open>pp_up\<close>: how many accepted packets the reader's side has taken; \<open>pp_read\<close>: how
  many packets the reader has consumed; \<open>pp_acked\<close>: how many of them the writer
  knows of.
\<close>

record pipe =
  pp_out :: new_flow
  pp_link :: link
  pp_in :: new_flow
  pp_written :: "appByte list"
  pp_ord :: "nat option list"
  pp_acked :: nat
  pp_up :: nat
  pp_read :: nat
  pp_got :: "appByte list"

definition pipe_init :: "env \<Rightarrow> env \<Rightarrow> appInt8 \<Rightarrow> appInt8 \<Rightarrow> appInt16 \<Rightarrow> appInt16 \<Rightarrow> pipe" where
  "pipe_init env env' src dst fid w = \<lparr> pp_out = init_new_flow fid w, pp_link = link_init env env' src dst,
     pp_in = init_new_flow fid w, pp_written = [], pp_ord = [], pp_acked = 0, pp_up = 0, pp_read = 0, pp_got = [] \<rparr>"

definition accepted :: "pipe \<Rightarrow> Packet list" where
  "accepted P = filter p_accepted (processed (ch_out (lk_rcv (pp_link P))))"

definition give :: "env \<Rightarrow> Packet \<Rightarrow> int \<Rightarrow> new_channel \<Rightarrow> nat option \<Rightarrow> pipe \<Rightarrow> pipe" where
  "give env pkt r c' n P = P\<lparr> pp_link := moved c' (queue_packet env pkt r (pp_link P)),
     pp_ord := pp_ord P @ (if r = 0 then [n] else []) \<rparr>"

inductive pipe_step :: "appInt16 \<Rightarrow> pipe \<Rightarrow> pipe \<Rightarrow> bool" for fid where
  Write: "c \<noteq> [] \<Longrightarrow> length c \<le> MAX_PACKET_SENT_DATA_SIZE \<Longrightarrow> send_chunk accept_all c (pp_out P) = Inr (ret, s') \<Longrightarrow>
    pipe_step fid P (P\<lparr> pp_out := s', pp_written := pp_written P @ (if ret = 0 then c else []) \<rparr>)"
| Close: "closeFlow accept_all (pp_out P) = Inr (b, waits, s') \<Longrightarrow> pipe_step fid P (P\<lparr> pp_out := s' \<rparr>)"
| Report: "r \<le> pp_read P \<Longrightarrow> pp_acked P < r + 32768 \<Longrightarrow> nf_recvAck (of_nat r - 1) (pp_out P) = (ret, s') \<Longrightarrow>
    pipe_step fid P (P\<lparr> pp_out := s', pp_acked := pp_acked P + unat (ackedUpto s' - ackedUpto (pp_out P)) \<rparr>)"
| Down: "n < length (nf_out (pp_out P)) \<Longrightarrow> Some n \<notin> set (pp_ord P) \<Longrightarrow> net_up env \<Longrightarrow>
    sendPacket env (handed fp (nf_out (pp_out P) ! n)) (lk_snd (pp_link P)) = Inr (r, c') \<Longrightarrow>
    pipe_step fid P (give env (handed fp (nf_out (pp_out P) ! n)) r c' (Some n) P)"
| Other: "net_up env \<Longrightarrow> \<not> has_flag (h_flag (p_header pkt)) FLAG_CHF \<Longrightarrow> h_flowId (p_header pkt) \<noteq> fid \<Longrightarrow>
    sendPacket env pkt (lk_snd (pp_link P)) = Inr (r, c') \<Longrightarrow> pipe_step fid P (give env pkt r c' None P)"
| Net: "link_step (pp_link P) L' \<Longrightarrow> lk_queue L' = lk_queue (pp_link P) \<Longrightarrow> pipe_step fid P (P\<lparr> pp_link := L' \<rparr>)"
| Up: "pp_up P < length (accepted P) \<Longrightarrow> q = accepted P ! pp_up P \<Longrightarrow> h_flowId (p_header q) = fid \<Longrightarrow>
    nf_recvPacketFrom accept_all q (pp_in P) = Inr (ret, s') \<Longrightarrow> pipe_step fid P (P\<lparr> pp_in := s', pp_up := Suc (pp_up P) \<rparr>)"
| Skip: "pp_up P < length (accepted P) \<Longrightarrow> h_flowId (p_header (accepted P ! pp_up P)) \<noteq> fid \<Longrightarrow>
    pipe_step fid P (P\<lparr> pp_up := Suc (pp_up P) \<rparr>)"
| Read: "readData bufsize (pp_in P) = Inr (ret, bs, s') \<Longrightarrow>
    pipe_step fid P (P\<lparr> pp_in := s', pp_got := pp_got P @ bs,
      pp_read := (if readUpto s' = readUpto (pp_in P) then pp_read P else Suc (pp_read P)) \<rparr>)"

inductive pipe_reach :: "env \<Rightarrow> env \<Rightarrow> appInt8 \<Rightarrow> appInt8 \<Rightarrow> appInt16 \<Rightarrow> appInt16 \<Rightarrow> pipe \<Rightarrow> bool"
  for env env' src dst fid w where
  Init: "pipe_reach env env' src dst fid w (pipe_init env env' src dst fid w)"
| Step: "pipe_reach env env' src dst fid w P \<Longrightarrow> pipe_step fid P P' \<Longrightarrow> pipe_reach env env' src dst fid w P'"

section \<open>The invariant\<close>

definition flow_pkt :: "appInt16 \<Rightarrow> nat \<Rightarrow> Packet \<Rightarrow> bool" where
  "flow_pkt fid n p \<longleftrightarrow> h_flowSeqNo (p_header p) = of_nat n \<and> h_flowId (p_header p) = fid \<and>
     (h_flag (p_header p) = 0 \<and> length (body p) \<le> MAX_PACKET_SENT_DATA_SIZE \<or> h_flag (p_header p) = FLAG_FFN \<and> body p = [])"

text \<open>What matters of a packet to the reader's flow.\<close>

definition like :: "Packet \<Rightarrow> Packet \<Rightarrow> bool" where
  "like q p \<longleftrightarrow> h_flowSeqNo (p_header q) = h_flowSeqNo (p_header p) \<and> h_flowId (p_header q) = h_flowId (p_header p) \<and>
     has_flag (h_flag (p_header q)) FLAG_DAT \<and> \<not> has_flag (h_flag (p_header q)) FLAG_CHF \<and>
     has_flag (h_flag (p_header q)) FLAG_FFN = has_flag (h_flag (p_header p)) FLAG_FFN \<and> body q = body p"

definition out_data :: "pipe \<Rightarrow> nat \<Rightarrow> appByte list" where
  "out_data P n = (if n < length (nf_out (pp_out P)) then body (nf_out (pp_out P) ! n) else [])"

definition out_fin :: "pipe \<Rightarrow> nat \<Rightarrow> bool" where
  "out_fin P n \<longleftrightarrow> n < length (nf_out (pp_out P)) \<and> has_flag (h_flag (p_header (nf_out (pp_out P) ! n))) FLAG_FFN"

definition out_inv :: "appInt16 \<Rightarrow> appInt16 \<Rightarrow> pipe \<Rightarrow> bool" where
  "out_inv fid w P \<longleftrightarrow> nf_flowId (pp_out P) = fid \<and> wf_BitField (ackedBitField (pp_out P)) \<and>
     (\<forall>n<length (nf_out (pp_out P)). flow_pkt fid n (nf_out (pp_out P) ! n)) \<and>
     pp_written P = concat (map body (nf_out (pp_out P))) \<and>
     (closeInitiated (pp_out P) \<or> nf_closed (pp_out P) \<or> nextSeqNumber (pp_out P) = of_nat (length (nf_out (pp_out P))) - 1) \<and>
     ackedUpto (pp_out P) = of_nat (pp_acked P) - 1 \<and> pp_acked P \<le> pp_read P \<and> pp_read P \<le> length (nf_out (pp_out P)) \<and>
     length (nf_out (pp_out P)) + remoteFreeWindow (pp_out P) = pp_acked P + unat w \<and>
     recvWindow (pp_out P) = w \<and> unat w \<le> 32768 \<and>
     (\<forall>n. out_fin P n \<longrightarrow> Suc n = length (nf_out (pp_out P)) \<and> closeInitiated (pp_out P))"

definition ord_inv :: "appInt16 \<Rightarrow> pipe \<Rightarrow> bool" where
  "ord_inv fid P \<longleftrightarrow> length (pp_ord P) = length (lk_queue (pp_link P)) \<and>
     (\<forall>m<length (pp_ord P). case pp_ord P ! m of
        None \<Rightarrow> h_flowId (p_header (lk_queue (pp_link P) ! m)) \<noteq> fid
      | Some n \<Rightarrow> n < length (nf_out (pp_out P)) \<and> like (lk_queue (pp_link P) ! m) (nf_out (pp_out P) ! n)) \<and>
     (\<forall>m m' n. m < length (pp_ord P) \<and> m' < length (pp_ord P) \<and> pp_ord P ! m = Some n \<and> pp_ord P ! m' = Some n \<longrightarrow> m = m')"

text \<open>The packets of the flow that the reader's side has taken.\<close>

definition arrivals :: "pipe \<Rightarrow> nat set" where
  "arrivals P = {n. \<exists>i<pp_up P. pp_ord P ! (lk_got (pp_link P) ! i) = Some n}"

definition in_inv :: "pipe \<Rightarrow> bool" where
  "in_inv P \<longleftrightarrow> pp_up P \<le> length (accepted P) \<and>
     (\<exists>a R. flow_rel (out_data P) (out_fin P) (pp_read P) a R (pp_in P) \<and>
       flow_live (out_fin P) (pp_read P) a R (pp_in P) \<and> {..<pp_read P} \<union> R = arrivals P) \<and>
     pp_got P = concat (map body (take (pp_read P) (nf_out (pp_out P))))"

definition pipe_inv :: "appInt16 \<Rightarrow> appInt16 \<Rightarrow> pipe \<Rightarrow> bool" where
  "pipe_inv fid w P \<longleftrightarrow> link_inv (pp_link P) \<and> out_inv fid w P \<and> ord_inv fid P \<and> in_inv P"

end
