(* ===== verification/PipeProps.thy ===== *)
theory PipeProps
  imports Pipe
begin

text \<open>
  The invariant of the pipe in every reachable state: what the reader's flow
  holds are copies of packets of the writer's flow, never outside its window.
\<close>

section \<open>What the parts of the invariant say\<close>

lemma pipe_invD:
  assumes "pipe_inv fid w P"
  shows "link_inv (pp_link P)" "out_inv fid w P" "ord_inv fid P" "in_inv P"
  using assms by (simp_all add: pipe_inv_def)

lemma accepted_got:
  assumes "link_inv (pp_link P)"
  shows "length (accepted P) = length (lk_got (pp_link P))" "distinct (lk_got (pp_link P))"
    "set (lk_got (pp_link P)) \<subseteq> {..<length (lk_queue (pp_link P))}"
    "i < length (accepted P) \<Longrightarrow>
       payload (accepted P ! i) = payload (lk_queue (pp_link P) ! (lk_got (pp_link P) ! i)) \<and> off_wire (accepted P ! i)"
proof -
  obtain ms where A: "distinct (lk_got (pp_link P))" "set (lk_got (pp_link P)) \<subseteq> {..<length (lk_queue (pp_link P))}"
    "map payload (accepted P) = map (\<lambda>n. payload (lk_queue (pp_link P) ! n)) (lk_got (pp_link P))"
    unfolding accepted_def by (rule link_inv_delivery [OF assms])
  show len: "length (accepted P) = length (lk_got (pp_link P))" using arg_cong [OF A(3), of length] by simp
  show "distinct (lk_got (pp_link P))" "set (lk_got (pp_link P)) \<subseteq> {..<length (lk_queue (pp_link P))}" by (fact A)+
  assume i: "i < length (accepted P)"
  have "map payload (accepted P) ! i = map (\<lambda>n. payload (lk_queue (pp_link P) ! n)) (lk_got (pp_link P)) ! i"
    by (simp only: A(3))
  moreover have "\<forall>q\<in>set (accepted P). off_wire q" using assms by (simp add: link_inv_def rcv_inv_def accepted_def)
  ultimately show "payload (accepted P ! i) = payload (lk_queue (pp_link P) ! (lk_got (pp_link P) ! i)) \<and> off_wire (accepted P ! i)"
    using i by (simp add: len)
qed

lemma got_less:
  assumes "pipe_inv fid w P" "i < pp_up P"
  shows "lk_got (pp_link P) ! i < length (pp_ord P)" "i < length (lk_got (pp_link P))"
proof -
  note I = pipe_invD [OF assms(1)]
  show i: "i < length (lk_got (pp_link P))"
    using I(4) assms(2) accepted_got(1) [OF I(1)] by (simp add: in_inv_def)
  then have "lk_got (pp_link P) ! i \<in> set (lk_got (pp_link P))" by simp
  then have "lk_got (pp_link P) ! i < length (lk_queue (pp_link P))" using accepted_got(3) [OF I(1)] by blast
  then show "lk_got (pp_link P) ! i < length (pp_ord P)" using I(3) by (simp add: ord_inv_def)
qed

lemma ord_SomeD:
  assumes "ord_inv fid P" "m < length (pp_ord P)" "pp_ord P ! m = Some n"
  shows "n < length (nf_out (pp_out P))" "like (lk_queue (pp_link P) ! m) (nf_out (pp_out P) ! n)"
  using assms by (force simp: ord_inv_def)+

lemma ord_NoneD:
  assumes "ord_inv fid P" "m < length (pp_ord P)" "pp_ord P ! m = None"
  shows "h_flowId (p_header (lk_queue (pp_link P) ! m)) \<noteq> fid"
  using assms by (force simp: ord_inv_def)

lemma ord_unique:
  assumes "ord_inv fid P" "m < length (pp_ord P)" "m' < length (pp_ord P)" "pp_ord P ! m = Some n" "pp_ord P ! m' = Some n"
  shows "m = m'"
  using assms unfolding ord_inv_def by blast

lemma ord_inv_same:
  assumes "pp_ord P' = pp_ord P" "lk_queue (pp_link P') = lk_queue (pp_link P)" "nf_out (pp_out P') = nf_out (pp_out P)"
  shows "ord_inv fid P' = ord_inv fid P"
  unfolding ord_inv_def assms ..

lemma out_fin_upd [simp]:
  "out_fin (P\<lparr> pp_in := s \<rparr>) = out_fin P" "out_fin (P\<lparr> pp_up := u \<rparr>) = out_fin P" "out_fin (P\<lparr> pp_got := g \<rparr>) = out_fin P"
  "out_fin (P\<lparr> pp_read := r \<rparr>) = out_fin P" "out_fin (P\<lparr> pp_link := l \<rparr>) = out_fin P"
  by (simp_all add: out_fin_def fun_eq_iff)

lemma has_flag_zero [simp]: "\<not> has_flag 0 f"
  by (simp add: has_flag_def)

lemma arrivals_less:
  assumes "pipe_inv fid w P"
  shows "arrivals P \<subseteq> {..<length (nf_out (pp_out P))}"
proof
  fix n assume "n \<in> arrivals P"
  then obtain i where i: "i < pp_up P" "pp_ord P ! (lk_got (pp_link P) ! i) = Some n" by (auto simp: arrivals_def)
  from ord_SomeD(1) [OF pipe_invD(3) [OF assms] got_less(1) [OF assms i(1)] i(2)]
  show "n \<in> {..<length (nf_out (pp_out P))}" by simp
qed

lemma flow_rel_cong:
  assumes "flow_rel D fin r a R s" "\<And>n. n \<in> R \<Longrightarrow> D' n = D n \<and> fin' n = fin n"
  shows "flow_rel D' fin' r a R s"
  using assms by (auto simp: flow_rel_def queue_rel_def copy_of_def split: option.splits)

lemma flow_live_mono:
  assumes "flow_live fin r a R s" "\<And>n. fin n \<Longrightarrow> fin' n"
  shows "flow_live fin' r a R s"
  using assms by (auto simp: flow_live_def flow_open_def split: if_splits)

lemma flow_live_closed: "flow_live fin r a R s \<Longrightarrow> nf_closed s \<Longrightarrow> 0 < a \<and> fin (a - 1)"
  by (simp only: flow_live_def flow_open_def if_True)

section \<open>Steps of the writer\<close>

lemma pipe_out:
  assumes P: "pipe_inv fid w P" and out: "nf_out s' = nf_out (pp_out P) @ ps"
    and P': "P' = P\<lparr> pp_out := s', pp_written := v, pp_acked := k \<rparr>" and inv: "out_inv fid w P'"
  shows "pipe_inv fid w P'"
proof -
  note I = pipe_invD [OF P] and less = arrivals_less [OF P]
  let ?N = "length (nf_out (pp_out P))"
  have S: "pp_out P' = s'" "pp_link P' = pp_link P" "pp_in P' = pp_in P" "pp_ord P' = pp_ord P" "pp_up P' = pp_up P"
    "pp_read P' = pp_read P" "pp_got P' = pp_got P" "accepted P' = accepted P" "arrivals P' = arrivals P"
    by (simp_all add: P' accepted_def arrivals_def)
  have "ord_inv fid P'"
    using I(3) unfolding ord_inv_def S out by (auto simp: nth_append split: option.splits)
  moreover have "in_inv P'"
  proof -
    obtain a R where R: "flow_rel (out_data P) (out_fin P) (pp_read P) a R (pp_in P)" "{..<pp_read P} \<union> R = arrivals P"
        "flow_live (out_fin P) (pp_read P) a R (pp_in P)"
      using I(4) by (auto simp: in_inv_def)
    have "flow_live (out_fin P') (pp_read P) a R (pp_in P)"
      by (rule flow_live_mono [OF R(3)]) (auto simp: out_fin_def S out nth_append)
    moreover have "flow_rel (out_data P') (out_fin P') (pp_read P) a R (pp_in P)"
      by (rule flow_rel_cong [OF R(1)]) (use R(2) less in \<open>auto simp: out_data_def out_fin_def S out nth_append\<close>)
    moreover have "pp_read P \<le> ?N" using I(2) by (simp add: out_inv_def)
    then have "take (pp_read P) (nf_out s') = take (pp_read P) (nf_out (pp_out P))" by (simp add: out)
    ultimately show ?thesis using I(4) R(2) unfolding in_inv_def S by auto
  qed
  ultimately show ?thesis using I(1) inv by (simp add: pipe_inv_def S)
qed

lemma flow_sends:
  assumes "nf_sendPacketTo accept_all pkt s = Inr (ret, s')" "wf_BitField (ackedBitField s)"
  shows "ret = 0" "0 < remoteFreeWindow s" "\<exists>b. wf_BitField b \<and> s' = s\<lparr> remoteFreeWindow := remoteFreeWindow s - 1,
    ackedBitField := b, nf_out := nf_out s @ [pkt\<lparr> p_header := (p_header pkt)\<lparr> h_flowId := nf_flowId s \<rparr> \<rparr>] \<rparr>"
proof -
  obtain b where b: "bf_reset (ackedBitField s) (h_flowSeqNo (p_header pkt)) = Inr b" "wf_BitField b"
    using bf.reset_members [OF assms(2)] .
  show "ret = 0" "0 < remoteFreeWindow s" "\<exists>b. wf_BitField b \<and> s' = s\<lparr> remoteFreeWindow := remoteFreeWindow s - 1,
    ackedBitField := b, nf_out := nf_out s @ [pkt\<lparr> p_header := (p_header pkt)\<lparr> h_flowId := nf_flowId s \<rparr> \<rparr>] \<rparr>"
    using assms(1) b by (auto simp: nf_sendPacketTo_def accept_all_def Let_def split: if_splits)
qed

lemma window_left:
  assumes "out_inv fid w P"
  shows "length (nf_out (pp_out P)) \<le> pp_acked P + 32768" "length (nf_out (pp_out P)) \<le> pp_read P + unat w"
  using assms by (auto simp: out_inv_def)

lemma out_inv_grow:
  assumes I: "out_inv fid w P" and open_: "\<not> closeInitiated (pp_out P)" "\<not> nf_closed (pp_out P)" and "0 < remoteFreeWindow (pp_out P)"
    and s': "wf_BitField b" "nf_flowId s' = fid" "ackedBitField s' = b" "nf_out s' = nf_out (pp_out P) @ [p]"
      "nextSeqNumber s' = nextSeqNumber (pp_out P) + 1" "remoteFreeWindow s' = remoteFreeWindow (pp_out P) - 1"
      "ackedUpto s' = ackedUpto (pp_out P)" "recvWindow s' = recvWindow (pp_out P)"
    and p: "h_flowSeqNo (p_header p) = nextSeqNumber (pp_out P) + 1" "h_flowId (p_header p) = fid"
      "h_flag (p_header p) = 0 \<and> length (body p) \<le> MAX_PACKET_SENT_DATA_SIZE \<or> h_flag (p_header p) = FLAG_FFN \<and> body p = []"
    and closing: "h_flag (p_header p) = FLAG_FFN \<Longrightarrow> closeInitiated s'"
  shows "out_inv fid w (P\<lparr> pp_out := s', pp_written := pp_written P @ body p, pp_acked := pp_acked P \<rparr>)"
proof -
  let ?N = "length (nf_out (pp_out P))"
  have nx: "nextSeqNumber (pp_out P) = of_nat ?N - 1" using I open_ by (simp add: out_inv_def)
  have "flow_pkt fid ?N p" using p by (simp add: flow_pkt_def nx)
  moreover have "\<not> out_fin P n" for n using I open_ by (auto simp: out_inv_def)
  then have "\<not> has_flag (h_flag (p_header (nf_out (pp_out P) ! n))) FLAG_FFN" if "n < ?N" for n
    using that by (auto simp: out_fin_def)
  ultimately show ?thesis using I s' assms(4) nx p(3) closing
    by (auto simp: out_inv_def out_fin_def nth_append less_Suc_eq)
qed

lemma body_data_packet:
  assumes "length c \<le> MAX_PACKET_SENT_DATA_SIZE"
  shows "body ((data_packet c seq)\<lparr> p_header := h \<rparr>) = c"
proof -
  have "unat (of_nat (length c) :: appInt) = length c"
    using assms by (intro unat_of_nat_small) (simp add: MAX_PACKET_SENT_DATA_SIZE_def)
  then show ?thesis by (simp add: body_def data_packet_def)
qed

lemma write_step:
  assumes I: "pipe_inv fid w P" and c: "c \<noteq> []" "length c \<le> MAX_PACKET_SENT_DATA_SIZE"
    and run: "send_chunk accept_all c (pp_out P) = Inr (ret, s')"
  shows "pipe_inv fid w (P\<lparr> pp_out := s', pp_written := pp_written P @ (if ret = 0 then c else []) \<rparr>)"
proof -
  let ?s = "pp_out P"
  note O = pipe_invD(2) [OF I]
  show ?thesis
  proof (cases "closeInitiated ?s \<or> nf_closed ?s")
    case True
    then have r: "ret = - ERROR_FLOW_CLOSED" "s' = ?s\<lparr> nextSeqNumber := nextSeqNumber ?s + 1 \<rparr>"
      using run by (simp_all add: send_chunk_def getNextSeqNo_def)
    show ?thesis
      by (rule pipe_out [OF I, where ps = "[]" and v = "pp_written P" and k = "pp_acked P"])
        (use r True O in \<open>auto simp: ERROR_FLOW_CLOSED_def out_inv_def out_fin_def\<close>)
  next
    case False
    let ?p = "data_packet c (nextSeqNumber ?s + 1)" and ?s1 = "?s\<lparr> nextSeqNumber := nextSeqNumber ?s + 1 \<rparr>"
    let ?q = "?p\<lparr> p_header := (p_header ?p)\<lparr> h_flowId := nf_flowId ?s1 \<rparr> \<rparr>"
    have run1: "nf_sendPacketTo accept_all ?p ?s1 = Inr (ret, s')"
      using run False by (simp add: send_chunk_def getNextSeqNo_def)
    have wf: "wf_BitField (ackedBitField ?s1)" using O by (simp add: out_inv_def)
    note S = flow_sends [OF run1 wf]
    obtain b where b: "wf_BitField b" "s' = ?s1\<lparr> remoteFreeWindow := remoteFreeWindow ?s1 - 1, ackedBitField := b,
        nf_out := nf_out ?s1 @ [?q] \<rparr>" using S(3) by blast
    have bd: "body ?q = c" by (rule body_data_packet [OF c(2)])
    have fl: "nf_flowId ?s = fid" using O by (simp add: out_inv_def)
    have "out_inv fid w (P\<lparr> pp_out := s', pp_written := pp_written P @ body ?q, pp_acked := pp_acked P \<rparr>)"
    proof (rule out_inv_grow [OF O, of b])
      show "h_flag (p_header ?q) = 0 \<and> length (body ?q) \<le> MAX_PACKET_SENT_DATA_SIZE \<or> h_flag (p_header ?q) = FLAG_FFN \<and> body ?q = []"
        unfolding bd using c(2) by (simp add: data_packet_def reinit_header_def)
    qed (use False S(2) b fl in \<open>simp_all add: data_packet_def reinit_header_def FLAG_FFN_def\<close>)
    then show ?thesis
      by (intro pipe_out [OF I, where ps = "[?q]" and v = "pp_written P @ c" and k = "pp_acked P"]) (use S(1) bd b(2) in \<open>simp_all\<close>)
  qed
qed

lemma close_step:
  assumes I: "pipe_inv fid w P" and run: "closeFlow accept_all (pp_out P) = Inr (b, waits, s')"
  shows "pipe_inv fid w (P\<lparr> pp_out := s' \<rparr>)"
proof -
  let ?s = "pp_out P"
  note O = pipe_invD(2) [OF I]
  show ?thesis
  proof (cases "closeInitiated ?s \<or> nf_closed ?s")
    case True
    then have "s' = ?s" using run by (auto simp: closeFlow_def)
    then show ?thesis using I by simp
  next
    case False
    let ?p = "new_Packet\<lparr> p_header := reinit_header\<lparr> h_flowSeqNo := nextSeqNumber ?s + 1, h_flag := FLAG_FFN \<rparr> \<rparr>"
      and ?s1 = "?s\<lparr> nextSeqNumber := nextSeqNumber ?s + 1 \<rparr>"
    let ?q = "?p\<lparr> p_header := (p_header ?p)\<lparr> h_flowId := nf_flowId ?s1 \<rparr> \<rparr>"
    obtain r s2 where s2: "nf_sendPacketTo accept_all ?p ?s1 = Inr (r, s2)" "s' = s2\<lparr> closeInitiated := True \<rparr>"
      using run False by (auto simp: closeFlow_def sendClosePacket_def getNextSeqNo_def bind_res_Inr_iff)
    have wf: "wf_BitField (ackedBitField ?s1)" using O by (simp add: out_inv_def)
    note S = flow_sends [OF s2(1) wf]
    obtain b where b: "wf_BitField b" "s2 = ?s1\<lparr> remoteFreeWindow := remoteFreeWindow ?s1 - 1, ackedBitField := b,
        nf_out := nf_out ?s1 @ [?q] \<rparr>" using S(3) by blast
    have bd: "body ?q = []" by (simp add: body_def new_Packet_def)
    have fl: "nf_flowId ?s = fid" using O by (simp add: out_inv_def)
    have "out_inv fid w (P\<lparr> pp_out := s', pp_written := pp_written P @ body ?q, pp_acked := pp_acked P \<rparr>)"
    proof (rule out_inv_grow [OF O, of b])
      show "h_flag (p_header ?q) = 0 \<and> length (body ?q) \<le> MAX_PACKET_SENT_DATA_SIZE \<or> h_flag (p_header ?q) = FLAG_FFN \<and> body ?q = []"
        unfolding bd by simp
    qed (use False S(2) b s2(2) fl in simp_all)
    then show ?thesis
      by (intro pipe_out [OF I, where ps = "[?q]" and v = "pp_written P" and k = "pp_acked P"]) (use bd b(2) s2(2) in simp_all)
  qed
qed

text \<open>A report of an honest reader is taken as it is or, when it is stale, ignored.\<close>

lemma report_step:
  assumes I: "pipe_inv fid w P" and r: "r \<le> pp_read P" "pp_acked P < r + 32768"
    and run: "nf_recvAck (of_nat r - 1) (pp_out P) = (ret, s')"
  shows "pipe_inv fid w (P\<lparr> pp_out := s', pp_acked := pp_acked P + unat (ackedUpto s' - ackedUpto (pp_out P)) \<rparr>)"
proof -
  let ?s = "pp_out P" and ?A = "pp_acked P"
  note O = pipe_invD(2) [OF I]
  have w: "recvWindow ?s = w" "unat w \<le> 32768" "ackedUpto ?s = of_nat ?A - 1" "pp_read P \<le> length (nf_out ?s)"
    using O by (simp_all add: out_inv_def)
  have d: "of_nat r - 1 - ackedUpto ?s = of_nat r - of_nat ?A" by (simp add: w(3))
  show ?thesis
  proof (cases "r < ?A")
    case True
    have "(of_nat r :: appInt16) - of_nat ?A = of_nat (65536 - (?A - r))"
      using True r(2) by (simp add: of_nat_diff)
    then have "unat ((of_nat r :: appInt16) - of_nat ?A) = 65536 - (?A - r)"
      using True by (simp only:) (intro unat_of_nat_small, simp)
    then have "w < of_nat r - of_nat ?A" using w(2) r(2) by (simp add: word_less_nat_alt)
    then have "s' = ?s" using run unfolding nf_recvAck_def d w(1) by simp
    then show ?thesis using I by simp
  next
    case False
    have "(of_nat r :: appInt16) - of_nat ?A = of_nat (r - ?A)" using False by simp
    moreover have le: "r - ?A \<le> unat w" "r - ?A < 65536"
      using r(1) w(2,4) O by (auto simp: out_inv_def)
    ultimately have u: "unat ((of_nat r :: appInt16) - of_nat ?A) = r - ?A"
      by (simp only:) (intro unat_of_nat_small, simp)
    then have "\<not> w < of_nat r - of_nat ?A" using le(1) by (simp add: word_less_nat_alt)
    then have s': "s' = ?s\<lparr> ackedUpto := of_nat r - 1, remoteFreeWindow := remoteFreeWindow ?s + (r - ?A) \<rparr>"
      using run u unfolding nf_recvAck_def d w(1) by (simp add: Let_def)
    then have k: "unat (ackedUpto s' - ackedUpto ?s) = r - ?A" using u by (simp add: w(3))
    show ?thesis unfolding k
      by (rule pipe_out [OF I, where s' = s' and ps = "[]" and v = "pp_written P" and k = "?A + (r - ?A)"])
        (use s' O False r(1) in \<open>auto simp: out_inv_def out_fin_def\<close>)
  qed
qed

section \<open>Steps of the channel\<close>

lemma pipe_link:
  assumes I: "pipe_inv fid w P" and L: "link_inv L" and P': "P' = P\<lparr> pp_link := L, pp_ord := pp_ord P @ ns \<rparr>"
    and got: "lk_got L = lk_got (pp_link P) @ gs" and acc: "accepted P' = accepted P @ qs" and ord_: "ord_inv fid P'"
  shows "pipe_inv fid w P'"
proof -
  note D = pipe_invD [OF I]
  have S: "pp_out P' = pp_out P" "pp_link P' = L" "pp_in P' = pp_in P" "pp_up P' = pp_up P" "pp_written P' = pp_written P"
    "pp_read P' = pp_read P" "pp_got P' = pp_got P" "pp_acked P' = pp_acked P" "out_data P' = out_data P" "out_fin P' = out_fin P"
    by (simp_all add: P' out_data_def out_fin_def fun_eq_iff)
  have "pp_ord P' ! (lk_got L ! i) = pp_ord P ! (lk_got (pp_link P) ! i)" if "i < pp_up P" for i
    using got_less [OF I that] by (simp add: P' got nth_append)
  then have "arrivals P' = arrivals P" by (auto simp: arrivals_def S)
  then have "in_inv P'" using D(4) unfolding in_inv_def S acc by auto
  moreover have "out_inv fid w P'" using D(2) by (simp add: out_inv_def S)
  ultimately show ?thesis using L ord_ by (simp add: pipe_inv_def S)
qed

lemma link_step_grows:
  assumes "link_inv L" "link_step L L'"
  obtains gs qs where "lk_got L' = lk_got L @ gs" "ch_out (lk_rcv L') = ch_out (lk_rcv L) @ qs"
  using assms(2)
proof cases
  case (Data env n p upad ts c')
  obtain c1 q es where c1: "pktRecv_list env [arrived upad ts p] (lk_rcv L) = Inr c1"
    "ch_out c1 = ch_out (lk_rcv L) @ es @ [Ev_ProcPacket q]"
    by (rule data_arrival [OF assms(1) Data(2-4), of upad ts])
  then have "ch_out c' = ch_out (lk_rcv L) @ es @ [Ev_ProcPacket q]" using Data(5) by simp
  then show ?thesis by (intro that) (simp_all add: Data(1) took_def Let_def)
qed (use that [of "[]" "[]"] in \<open>simp_all add: queue_packet_def\<close>)

lemma net_step:
  assumes I: "pipe_inv fid w P" and step: "link_step (pp_link P) L'" and q: "lk_queue L' = lk_queue (pp_link P)"
  shows "pipe_inv fid w (P\<lparr> pp_link := L' \<rparr>)"
proof -
  note D = pipe_invD [OF I]
  obtain gs qs where g: "lk_got L' = lk_got (pp_link P) @ gs" "ch_out (lk_rcv L') = ch_out (lk_rcv (pp_link P)) @ qs"
    by (rule link_step_grows [OF D(1) step])
  show ?thesis
  proof (rule pipe_link [OF I link_step_inv [OF D(1) step] _ g(1)])
    show "P\<lparr> pp_link := L' \<rparr> = P\<lparr> pp_link := L', pp_ord := pp_ord P @ [] \<rparr>" by simp
    show "accepted (P\<lparr> pp_link := L' \<rparr>) = accepted P @ filter p_accepted (processed qs)" by (simp add: accepted_def g(2) processed_append)
    show "ord_inv fid (P\<lparr> pp_link := L' \<rparr>)" using D(3) by (subst ord_inv_same [of _ P]) (simp_all add: q)
  qed
qed

lemma give_step:
  assumes I: "pipe_inv fid w P" and up: "net_up env" and flag: "\<not> has_flag (h_flag (p_header pkt)) FLAG_CHF"
    and run: "sendPacket env pkt (lk_snd (pp_link P)) = Inr (r, c')"
    and new: "case n of None \<Rightarrow> h_flowId (p_header pkt) \<noteq> fid
      | Some k \<Rightarrow> k < length (nf_out (pp_out P)) \<and> Some k \<notin> set (pp_ord P) \<and>
          like (enqueued (lk_snd (pp_link P)) pkt) (nf_out (pp_out P) ! k)"
  shows "pipe_inv fid w (give env pkt r c' n P)"
proof -
  let ?L = "pp_link P" and ?P = "give env pkt r c' n P"
  let ?L' = "moved c' (queue_packet env pkt r ?L)" and ?e = "enqueued (lk_snd ?L) pkt"
  note D = pipe_invD [OF I]
  note inv = send_step [OF D(1) up flag run]
  show ?thesis
  proof (rule pipe_link [OF I inv])
    show "?P = P\<lparr> pp_link := ?L', pp_ord := pp_ord P @ (if r = 0 then [n] else []) \<rparr>" by (simp add: give_def)
    show "lk_got ?L' = lk_got ?L @ []" "accepted ?P = accepted P @ []"
      by (simp_all add: queue_packet_def accepted_def give_def)
    have len: "length (pp_ord P) = length (lk_queue ?L)" using D(3) by (simp add: ord_inv_def)
    have fl: "h_flowId (p_header ?e) = h_flowId (p_header pkt)" by (simp add: enqueued_def)
    have uniq: "Some k \<notin> set (pp_ord P) \<Longrightarrow> m < length (pp_ord P) \<Longrightarrow> pp_ord P ! m \<noteq> Some k" for k m
      by (metis nth_mem)
    show "ord_inv fid ?P"
    proof (cases "r = 0")
      case False
      then show ?thesis using D(3) by (subst ord_inv_same [of _ P]) (simp_all add: give_def queue_packet_def)
    next
      case True
      have S: "pp_ord ?P = pp_ord P @ [n]" "lk_queue (pp_link ?P) = lk_queue ?L @ [?e]" "pp_out ?P = pp_out P"
        using True by (simp_all add: give_def queue_packet_def)
      show ?thesis
        using D(3) new uniq unfolding ord_inv_def S
        by (auto simp: nth_append less_Suc_eq len fl split: option.splits)
    qed
  qed
qed

lemma has_flag_or: "has_flag (a OR b) f \<longleftrightarrow> has_flag a f \<or> has_flag b f"
  by (simp add: has_flag_def word_ao_dist or_eq_0_iff)

lemma handed_like:
  assumes "flow_pkt fid n p"
  shows "like (enqueued c (handed fp p)) p" "\<not> has_flag (h_flag (p_header (handed fp p))) FLAG_CHF"
proof -
  have bits: "has_flag FLAG_DAT FLAG_DAT" "\<not> has_flag FLAG_DAT FLAG_CHF" "\<not> has_flag FLAG_DAT FLAG_FFN"
    "\<not> has_flag FLAG_FFN FLAG_CHF" "\<not> has_flag FLAG_CHS FLAG_CHF" "\<not> has_flag FLAG_CHS FLAG_FFN"
    by code_simp+
  have "body (enqueued c (handed fp p)) = body p" by (simp add: enqueued_def handed_def)
  moreover have "h_flag (p_header p) = 0 \<or> h_flag (p_header p) = FLAG_FFN" using assms by (auto simp: flow_pkt_def)
  ultimately show "like (enqueued c (handed fp p)) p" "\<not> has_flag (h_flag (p_header (handed fp p))) FLAG_CHF"
    using bits by (auto simp: like_def enqueued_def handed_def has_flag_or)
qed

section \<open>Steps of the reader\<close>

lemma arrival_copy:
  assumes I: "pipe_inv fid w P" and q: "pp_up P < length (accepted P)" "q = accepted P ! pp_up P"
    and m: "m = lk_got (pp_link P) ! pp_up P"
  shows "m < length (pp_ord P)" "h_flowId (p_header q) = h_flowId (p_header (lk_queue (pp_link P) ! m))"
    "pp_ord P ! m = Some n \<Longrightarrow> h_flowId (p_header q) = fid \<and> n \<notin> arrivals P \<and> copy_of (out_data P) (out_fin P) n q"
proof -
  let ?L = "pp_link P" and ?p = "lk_queue (pp_link P) ! m"
  note D = pipe_invD [OF I]
  note A = accepted_got [OF D(1)]
  have i: "pp_up P < length (lk_got ?L)" using q(1) A(1) by simp
  then have "m \<in> set (lk_got ?L)" by (simp add: m)
  then have "m < length (lk_queue ?L)" using A(3) by blast
  then show lt: "m < length (pp_ord P)" using D(3) by (simp add: ord_inv_def)
  have "payload q = payload ?p" and wire: "off_wire q" using A(4) [OF q(1)] by (simp_all add: q(2) m)
  then have pl: "(p_header q)\<lparr> h_sentTS := 0, h_ifcsrc := 0, h_ifcdst := 0, h_OHLen := 0 \<rparr> =
      (p_header ?p)\<lparr> h_sentTS := 0, h_ifcsrc := 0, h_ifcdst := 0, h_OHLen := 0 \<rparr>" and bd: "body q = body ?p"
    by (simp_all add: payload_def)
  have hdr: "h_flag (p_header q) = h_flag (p_header ?p)" "h_flowId (p_header q) = h_flowId (p_header ?p)"
    "h_flowSeqNo (p_header q) = h_flowSeqNo (p_header ?p)"
    using arg_cong [OF pl, of h_flag] arg_cong [OF pl, of h_flowId] arg_cong [OF pl, of h_flowSeqNo] by simp_all
  show "h_flowId (p_header q) = h_flowId (p_header ?p)" by (fact hdr(2))
  assume n: "pp_ord P ! m = Some n"
  note N = ord_SomeD [OF D(3) lt n]
  have fp: "flow_pkt fid n (nf_out (pp_out P) ! n)" using D(2) N(1) by (simp add: out_inv_def)
  have "n \<notin> arrivals P"
  proof
    assume "n \<in> arrivals P"
    then obtain j where j: "j < pp_up P" "pp_ord P ! (lk_got ?L ! j) = Some n" by (auto simp: arrivals_def)
    have "lk_got ?L ! j = m" by (rule ord_unique [OF D(3) got_less(1) [OF I j(1)] lt j(2) n])
    then show False using A(2) i j(1) by (simp add: m nth_eq_iff_index_eq)
  qed
  moreover have "copy_of (out_data P) (out_fin P) n q"
    using N fp wire bd hdr
    by (auto simp: copy_of_def out_data_def out_fin_def like_def flow_pkt_def off_wire_def MAX_PACKET_SENT_DATA_SIZE_def)
  ultimately show "h_flowId (p_header q) = fid \<and> n \<notin> arrivals P \<and> copy_of (out_data P) (out_fin P) n q"
    using N(2) fp hdr(2) by (simp add: like_def flow_pkt_def)
qed

text \<open>The reader's flow takes every packet it is given: none is a duplicate, none outside its range.\<close>

lemma up_taken:
  assumes I: "pipe_inv fid w P" and q: "pp_up P < length (accepted P)" "q = accepted P ! pp_up P" "h_flowId (p_header q) = fid"
  shows "\<exists>s'. nf_recvPacketFrom accept_all q (pp_in P) = Inr (0, s') \<and> pipe_inv fid w (P\<lparr> pp_in := s', pp_up := Suc (pp_up P) \<rparr>)"
proof -
  let ?m = "lk_got (pp_link P) ! pp_up P"
  note D = pipe_invD [OF I]
  note C = arrival_copy [OF I q(1,2) refl]
  obtain n where n: "pp_ord P ! ?m = Some n"
    using ord_NoneD [OF D(3) C(1)] C(2) q(3) by (cases "pp_ord P ! ?m") auto
  have new: "n \<notin> arrivals P" and cp: "copy_of (out_data P) (out_fin P) n q" using C(3) [OF n] by simp_all
  obtain a R where R: "flow_rel (out_data P) (out_fin P) (pp_read P) a R (pp_in P)" "{..<pp_read P} \<union> R = arrivals P"
      "flow_live (out_fin P) (pp_read P) a R (pp_in P)"
    using D(4) by (auto simp: in_inv_def)
  have out: "\<not> n < pp_read P" "n \<notin> R" using new R(2) by auto
  have less: "n < length (nf_out (pp_out P))" using ord_SomeD(1) [OF D(3) C(1) n] .
  then have win: "n \<le> pp_read P + 32768" "pp_read P < n + 16384"
    using window_left(2) [OF D(2)] D(2) out(1) by (auto simp: out_inv_def)
  have par: "\<forall>p. accept_all p = 0" by (simp add: accept_all_def)
  have arr: "arrivals (P\<lparr> pp_in := s', pp_up := Suc (pp_up P) \<rparr>) = insert n (arrivals P)" for s'
    using n by (auto simp: arrivals_def less_Suc_eq)
  have inv: "pipe_inv fid w (P\<lparr> pp_in := s', pp_up := Suc (pp_up P) \<rparr>)"
    if s': "flow_rel (out_data P) (out_fin P) (pp_read P) a' (insert n R) s'"
      "flow_live (out_fin P) (pp_read P) a' (insert n R) s'" for s' a'
  proof -
    let ?P = "P\<lparr> pp_in := s', pp_up := Suc (pp_up P) \<rparr>"
    have S: "out_data ?P = out_data P" "out_fin ?P = out_fin P" "accepted ?P = accepted P"
      by (simp_all add: out_data_def out_fin_def accepted_def fun_eq_iff)
    have "{..<pp_read P} \<union> insert n R = arrivals ?P" using R(2) arr by auto
    then have "in_inv ?P" using D(4) s' q(1) unfolding in_inv_def S by auto
    moreover have "ord_inv fid ?P" using D(3) by (subst ord_inv_same [of _ P]) simp_all
    ultimately show ?thesis using D by (simp add: pipe_inv_def out_inv_def)
  qed
  have "a \<notin> insert n R" if "nf_closed (pp_in P)"
  proof -
    have "0 < a \<and> out_fin P (a - 1)" by (rule flow_live_closed [OF R(3) that])
    then have "a = length (nf_out (pp_out P))" using D(2) by (auto simp: out_inv_def)
    then show ?thesis using less arrivals_less [OF I] R(2) by auto
  qed
  then have pre: "flow_live (out_fin P) (pp_read P) a R (pp_in P) \<and> (nf_closed (pp_in P) \<longrightarrow> a \<notin> insert n R)"
    using R(3) by simp
  from recv_ok [OF R(1) cp par win] pre out obtain s' a' where
    "nf_recvPacketFrom accept_all q (pp_in P) = Inr (0, s')" "flow_rel (out_data P) (out_fin P) (pp_read P) a' (insert n R) s'"
    "flow_live (out_fin P) (pp_read P) a' (insert n R) s'" by auto
  then show ?thesis using inv by blast
qed

lemma skip_step:
  assumes I: "pipe_inv fid w P" and q: "pp_up P < length (accepted P)" "h_flowId (p_header (accepted P ! pp_up P)) \<noteq> fid"
  shows "pipe_inv fid w (P\<lparr> pp_up := Suc (pp_up P) \<rparr>)"
proof -
  let ?m = "lk_got (pp_link P) ! pp_up P" and ?P = "P\<lparr> pp_up := Suc (pp_up P) \<rparr>"
  note D = pipe_invD [OF I]
  have "pp_ord P ! ?m = None"
    using arrival_copy(3) [OF I q(1) refl refl] q(2) by (cases "pp_ord P ! ?m") auto
  then have "arrivals ?P = arrivals P" by (auto simp: arrivals_def less_Suc_eq)
  moreover have "out_data ?P = out_data P" "out_fin ?P = out_fin P" "accepted ?P = accepted P"
    by (simp_all add: out_data_def out_fin_def accepted_def fun_eq_iff)
  ultimately have "in_inv ?P" using D(4) q(1) by (simp add: in_inv_def)
  moreover have "ord_inv fid ?P" using D(3) by (subst ord_inv_same [of _ P]) simp_all
  ultimately show ?thesis using D by (simp add: pipe_inv_def out_inv_def)
qed

lemma read_taken:
  assumes I: "pipe_inv fid w P"
  shows "readData bufsize (pp_in P) = Inl Blocked \<and> pp_read P \<notin> arrivals P \<or>
    (\<exists>ret bs s'. readData bufsize (pp_in P) = Inr (ret, bs, s') \<and>
      pipe_inv fid w (P\<lparr> pp_in := s', pp_got := pp_got P @ bs,
        pp_read := (if readUpto s' = readUpto (pp_in P) then pp_read P else Suc (pp_read P)) \<rparr>) \<and>
      (MAX_PACKET_SENT_DATA_SIZE \<le> bufsize \<longrightarrow>
        readUpto s' \<noteq> readUpto (pp_in P) \<and> pp_read P \<in> arrivals P \<and> bs = body (nf_out (pp_out P) ! pp_read P)))"
proof -
  note D = pipe_invD [OF I]
  let ?r = "pp_read P"
  obtain a R where R: "flow_rel (out_data P) (out_fin P) ?r a R (pp_in P)" "{..<?r} \<union> R = arrivals P"
      "flow_live (out_fin P) ?r a R (pp_in P)"
    using D(4) by (auto simp: in_inv_def)
  have got: "pp_got P = concat (map body (take ?r (nf_out (pp_out P))))" using D(4) by (simp add: in_inv_def)
  have less: "?r < length (nf_out (pp_out P))" if "?r \<in> R" using arrivals_less [OF I] R(2) that by auto
  have inv: "pipe_inv fid w (P\<lparr> pp_in := s', pp_got := pp_got P @ bs,
        pp_read := (if readUpto s' = readUpto (pp_in P) then ?r else Suc ?r) \<rparr>) \<and>
      (r' = Suc ?r \<longrightarrow> readUpto s' \<noteq> readUpto (pp_in P) \<and> ?r \<in> arrivals P \<and> bs = body (nf_out (pp_out P) ! ?r))"
    if s': "flow_rel (out_data P) (out_fin P) r' a R' s'" "flow_live (out_fin P) r' a R' s'"
      "r' = ?r \<and> bs = [] \<and> R' = R \<or> r' = Suc ?r \<and> bs = out_data P ?r \<and> ?r \<in> R \<and> R' = R - {?r}" for bs s' r' R'
  proof -
    have up: "readUpto (pp_in P) = of_nat ?r - 1" "readUpto s' = of_nat r' - 1" using R(1) s'(1) by (simp_all add: flow_rel_def)
    have r': "(if readUpto s' = readUpto (pp_in P) then ?r else Suc ?r) = r'" using s'(3) by (auto simp: up)
    have tail: "r' = Suc ?r \<longrightarrow> readUpto s' \<noteq> readUpto (pp_in P) \<and> ?r \<in> arrivals P \<and> bs = body (nf_out (pp_out P) ! ?r)"
    proof
      assume r: "r' = Suc ?r"
      then have "bs = out_data P ?r" "?r \<in> R" using s'(3) by simp_all
      moreover have "R \<subseteq> arrivals P" using R(2) by blast
      ultimately show "readUpto s' \<noteq> readUpto (pp_in P) \<and> ?r \<in> arrivals P \<and> bs = body (nf_out (pp_out P) ! ?r)"
        using less r by (auto simp: up out_data_def)
    qed
    let ?P = "P\<lparr> pp_in := s', pp_got := pp_got P @ bs, pp_read := r' \<rparr>"
    have S: "out_data ?P = out_data P" "out_fin ?P = out_fin P" "accepted ?P = accepted P" "arrivals ?P = arrivals P"
      by (simp_all add: out_data_def out_fin_def accepted_def arrivals_def fun_eq_iff)
    have "pp_got P @ bs = concat (map body (take r' (nf_out (pp_out P)))) \<and> {..<r'} \<union> R' = arrivals P"
      using s'(3)
    proof
      assume "r' = Suc ?r \<and> bs = out_data P ?r \<and> ?r \<in> R \<and> R' = R - {?r}"
      then show ?thesis using less R(2) by (auto simp: got out_data_def take_Suc_conv_app_nth lessThan_Suc)
    qed (use R(2) got in simp)
    then have "in_inv ?P" using D(4) s'(1,2) unfolding in_inv_def S by auto
    moreover have "?r \<le> r' \<and> r' \<le> length (nf_out (pp_out P))"
      using s'(3) less D(2) by (auto simp: out_inv_def simp del: not_less_iff_gr_or_eq)
    then have "out_inv fid w ?P" using D(2) unfolding out_inv_def S by simp
    moreover have "ord_inv fid ?P" using D(3) by (subst ord_inv_same [of _ P]) simp_all
    ultimately have "pipe_inv fid w ?P" using D(1) by (simp add: pipe_inv_def)
    then show ?thesis unfolding r' using tail by (intro conjI) assumption+
  qed
  from read_ok [OF R(1), of bufsize] show ?thesis
  proof
    assume b: "readData bufsize (pp_in P) = Inl Blocked \<and> readSem (pp_in P) = 0"
    have "?r \<notin> R"
    proof
      assume r: "?r \<in> R"
      have "a = ?r" using R(1,3) b by (simp add: flow_rel_def flow_live_def flow_open_def)
      then have "nf_closed (pp_in P)" using R(3) r by (simp add: flow_live_def)
      then have "0 < a \<and> out_fin P (a - 1)" by (rule flow_live_closed [OF R(3)])
      then have "a = length (nf_out (pp_out P))" using D(2) by (auto simp: out_inv_def)
      then show False using less [OF r] \<open>a = ?r\<close> by simp
    qed
    then show ?thesis using b R(2) by auto
  next
    assume "\<exists>ret bs s' r' R'. readData bufsize (pp_in P) = Inr (ret, bs, s') \<and> flow_rel (out_data P) (out_fin P) r' a R' s' \<and>
      (r' = ?r \<and> bs = [] \<and> R' = R \<or> r' = Suc ?r \<and> bs = out_data P ?r \<and> ?r \<in> R \<and> R' = R - {?r}) \<and>
      (flow_live (out_fin P) ?r a R (pp_in P) \<longrightarrow> flow_live (out_fin P) r' a R' s' \<and> (MAX_PACKET_SENT_DATA_SIZE \<le> bufsize \<longrightarrow> r' = Suc ?r))"
    then obtain ret bs s' r' R' where e: "readData bufsize (pp_in P) = Inr (ret, bs, s')"
      "flow_rel (out_data P) (out_fin P) r' a R' s'" "flow_live (out_fin P) r' a R' s'"
      "r' = ?r \<and> bs = [] \<and> R' = R \<or> r' = Suc ?r \<and> bs = out_data P ?r \<and> ?r \<in> R \<and> R' = R - {?r}"
      "MAX_PACKET_SENT_DATA_SIZE \<le> bufsize \<longrightarrow> r' = Suc ?r"
      using R(3) by (elim exE conjE) (rule that, assumption+, simp_all)
    show ?thesis using e(1,5) inv [OF e(2-4)] by (intro disjI2 exI [of _ ret] exI [of _ bs] exI [of _ s']) simp
  qed
qed

section \<open>Reachable states\<close>

lemma pipe_inv_init:
  assumes "0 < w" "unat w \<le> 32768"
  shows "pipe_inv fid w (pipe_init env env' src dst fid w)"
proof -
  let ?P = "pipe_init env env' src dst fid w"
  have m: "(65535 :: appInt16) = - 1" using minus_one_16 [of "- 1"] by simp
  have "flow_rel (out_data ?P) (out_fin ?P) 0 0 {} (init_new_flow fid w)"
    by (simp add: flow_rel_def init_new_flow_def new_BitField_wf m)
  moreover have S: "pp_read ?P = 0" "pp_in ?P = init_new_flow fid w" "pp_up ?P = 0" "pp_got ?P = []" "pp_link ?P = link_init env env' src dst"
    "pp_out ?P = init_new_flow fid w" "pp_ord ?P = []" "pp_written ?P = []" "pp_acked ?P = 0"
    by (simp_all add: pipe_init_def)
  moreover have "arrivals ?P = {}" by (simp add: arrivals_def S)
  moreover have "flow_live (out_fin ?P) 0 0 {} (init_new_flow fid w)"
    using assms(1) by (simp add: flow_live_def flow_open_def init_new_flow_def word_greater_zero_iff unat_gt_0)
  ultimately have "in_inv ?P" unfolding in_inv_def S by auto
  moreover have "out_inv fid w ?P" using assms unfolding out_inv_def out_fin_def S by (simp add: init_new_flow_def new_BitField_wf m)
  moreover have "ord_inv fid ?P" unfolding ord_inv_def S by (simp add: link_init_def)
  ultimately show ?thesis using link_inv_init [of env env' src dst] by (simp add: pipe_inv_def S)
qed

lemma pipe_step_inv:
  assumes "pipe_inv fid w P" "pipe_step fid P P'"
  shows "pipe_inv fid w P'"
  using assms(2)
proof cases
  case (Down n env fp r c')
  have "flow_pkt fid n (nf_out (pp_out P) ! n)" using pipe_invD(2) [OF assms(1)] Down(2) by (simp add: out_inv_def)
  note H = handed_like [OF this, where fp = fp]
  show ?thesis unfolding Down(1)
    by (rule give_step [OF assms(1) Down(4) H(2) Down(5)]) (use Down(2,3) H(1) in simp)
next
  case (Write c ret s')
  show ?thesis unfolding Write(1) by (rule write_step [OF assms(1) Write(2-4)])
next
  case (Other env pkt r c')
  show ?thesis unfolding Other(1) by (rule give_step [OF assms(1) Other(2,3,5)]) (use Other(4) in simp)
next
  case (Up q ret s')
  then show ?thesis using up_taken [OF assms(1) Up(2,3)] by auto
next
  case (Read bufsize ret bs s')
  then show ?thesis using read_taken [OF assms(1), of bufsize] by auto
qed (auto intro: write_step close_step report_step net_step skip_step assms(1))

lemma pipe_reach_inv:
  assumes "pipe_reach env env' src dst fid w P" "0 < w" "unat w \<le> 32768"
  shows "pipe_inv fid w P"
  using assms by (induction rule: pipe_reach.induct) (auto intro: pipe_inv_init pipe_step_inv)

end
