(* ===== verification/PipeDelivery.thy ===== *)
theory PipeDelivery
  imports PipeProps
begin

text \<open>
  The promise of the whole stack, from one application to the other: over a
  network that loses, repeats and reorders datagrams the reader gets the bytes
  of the writer in order, each once, and nothing that has arrived is held back.
\<close>

section \<open>From writer to reader\<close>

text \<open>
  C1: the byte stream is delivered intact from end to end.  In every reachable
  state of a writer's flow, a channel over a network that loses, repeats and
  reorders datagrams, and the reader's flow, what the reader has got is a prefix
  of what the writer has written, and all of it once the reader has consumed
  every packet; and the writer is never more than the receive window ahead of
  the reader, whatever reports are late or repeated.
\<close>

theorem pipe_delivers:
  assumes "pipe_reach env env' src dst fid w P" "0 < w" "unat w \<le> 32768"
  shows "(\<exists>rest. pp_written P = pp_got P @ rest \<and> (pp_read P = length (nf_out (pp_out P)) \<longrightarrow> rest = [])) \<and>
    pp_read P \<le> length (nf_out (pp_out P)) \<and> length (nf_out (pp_out P)) \<le> pp_read P + unat w"
proof (intro conjI)
  note D = pipe_invD [OF pipe_reach_inv [OF assms]]
  let ?ps = "nf_out (pp_out P)"
  have w: "pp_written P = concat (map body ?ps)" using D(2) by (simp add: out_inv_def)
  have g: "pp_got P = concat (map body (take (pp_read P) ?ps))" using D(4) by (simp add: in_inv_def)
  have "concat (map body ?ps) = concat (map body (take (pp_read P) ?ps @ drop (pp_read P) ?ps))"
    by (simp only: append_take_drop_id)
  then have "pp_written P = pp_got P @ concat (map body (drop (pp_read P) ?ps))"
    unfolding w g by (simp only: map_append concat_append)
  then show "\<exists>rest. pp_written P = pp_got P @ rest \<and> (pp_read P = length ?ps \<longrightarrow> rest = [])"
    by (intro exI conjI) (assumption, simp)
  show "pp_read P \<le> length ?ps" using D(2) by (simp add: out_inv_def)
  show "length ?ps \<le> pp_read P + unat w" by (rule window_left(2) [OF D(2)])
qed

text \<open>
  C4: nothing that has arrived is held back and nothing makes the reader's flow
  fail.  In every reachable state the next packet of the flow that the channel
  has accepted is taken, not refused as a duplicate, not outside the range the
  code asserts, and without the flow blocking; and \<open>readData\<close> with a large
  enough buffer returns the data of the reader's next packet exactly when this
  packet has arrived, and waits otherwise.
\<close>

theorem pipe_progress:
  assumes "pipe_reach env env' src dst fid w P" "0 < w" "unat w \<le> 32768"
  shows "(pp_up P < length (accepted P) \<and> h_flowId (p_header (accepted P ! pp_up P)) = fid \<longrightarrow>
      (\<exists>s'. nf_recvPacketFrom accept_all (accepted P ! pp_up P) (pp_in P) = Inr (0, s'))) \<and>
    (MAX_PACKET_SENT_DATA_SIZE \<le> bufsize \<longrightarrow>
      (if pp_read P \<in> arrivals P
       then \<exists>ret s'. readData bufsize (pp_in P) = Inr (ret, body (nf_out (pp_out P) ! pp_read P), s')
       else readData bufsize (pp_in P) = Inl Blocked))"
proof (intro conjI impI)
  note I = pipe_reach_inv [OF assms]
  assume "pp_up P < length (accepted P) \<and> h_flowId (p_header (accepted P ! pp_up P)) = fid"
  then show "\<exists>s'. nf_recvPacketFrom accept_all (accepted P ! pp_up P) (pp_in P) = Inr (0, s')"
    using up_taken [OF I _ refl] by auto
next
  assume "MAX_PACKET_SENT_DATA_SIZE \<le> bufsize"
  then show "if pp_read P \<in> arrivals P
      then \<exists>ret s'. readData bufsize (pp_in P) = Inr (ret, body (nf_out (pp_out P) ! pp_read P), s')
      else readData bufsize (pp_in P) = Inl Blocked"
    using read_taken [OF pipe_reach_inv [OF assms], of bufsize] by auto
qed

section \<open>A first message\<close>

lemma first_chunk:
  assumes "c \<noteq> []" "length c \<le> MAX_PACKET_SENT_DATA_SIZE"
  obtains P where "pipe_reach env0 env0 1 2 5 500 P" "pp_written P = c" "pp_got P = []" "pp_read P = 0" "pp_up P = 0"
    "lk_got (pp_link P) = [0]" "pp_ord P = [Some 0]" "length (nf_out (pp_out P)) = 1"
proof -
  let ?P0 = "pipe_init env0 env0 1 2 5 500" and ?s0 = "init_new_flow 5 500"
  have m: "(65535 :: appInt16) = - 1" using minus_one_16 [of "- 1"] by simp
  have s0: "window_ok ?s0" "wf_BitField (ackedBitField ?s0)" "\<not> closeInitiated ?s0" "\<not> nf_closed ?s0" "remoteFreeWindow ?s0 \<noteq> 0"
    "nextSeqNumber ?s0 + 1 = 0" "nf_out ?s0 = []"
    by (simp_all add: window_ok_def outstanding_def init_new_flow_def new_BitField_wf m)
  have par: "\<forall>p. accept_all p = 0" by (simp add: accept_all_def)
  let ?d = "(data_packet c 0)\<lparr> p_header := reinit_header\<lparr> h_flowSeqNo := 0, h_flowId := nf_flowId ?s0 \<rparr> \<rparr>"
  from send_chunk_ok [OF s0(1-4) par, of c] s0(5-7) obtain s1 where
    s1: "send_chunk accept_all c ?s0 = Inr (0, s1)" "nf_out s1 = [?d]" by auto
  let ?P1 = "?P0\<lparr> pp_out := s1, pp_written := pp_written ?P0 @ (if (0 :: int) = 0 then c else []) \<rparr>"
  have P0: "pp_out ?P0 = ?s0" "pp_link ?P0 = link_init env0 env0 1 2" "pp_written ?P0 = []" "pp_got ?P0 = []" "pp_read ?P0 = 0"
    "pp_up ?P0 = 0" "pp_ord ?P0 = []"
    by (simp_all add: pipe_init_def)
  have "pipe_step 5 ?P0 ?P1" by (rule pipe_step.Write [OF assms]) (simp add: P0 s1)
  then have r1: "pipe_reach env0 env0 1 2 5 500 ?P1" by (rule pipe_reach.Step [OF pipe_reach.Init])
  let ?pkt = "handed 9 ?d"
  have flag: "\<not> has_flag (h_flag (p_header ?pkt)) FLAG_CHF"
  proof -
    have "\<not> has_flag FLAG_DAT FLAG_CHF" by code_simp
    then show ?thesis by (simp add: handed_def has_flag_or reinit_header_def)
  qed
  obtain c1 L p where L: "sendPacket env0 ?pkt (init_new_channel env0 1 2) = Inr (0, c1)"
    "L = moved c1 (queue_packet env0 ?pkt 0 (link_init env0 env0 1 2))" "link_reach env0 env0 1 2 L" "lk_data L = [(0, p)]"
    "lk_queue L = [enqueued (init_new_channel env0 1 2) ?pkt]"
    "lk_rcv L = init_new_channel env0 2 1" "lk_got L = []" "lk_acks L = []"
    by (rule first_send [OF flag])
  let ?P2 = "give env0 ?pkt 0 c1 (Some 0) ?P1"
  have snd0: "lk_snd (link_init env0 env0 1 2) = init_new_channel env0 1 2" by (simp add: link_init_def)
  have "pipe_step 5 ?P1 (give env0 (handed 9 (nf_out (pp_out ?P1) ! 0)) 0 c1 (Some 0) ?P1)"
    by (rule pipe_step.Down [OF _ _ net_up_env0]) (simp_all add: P0 s1 snd0 L(1))
  then have "pipe_step 5 ?P1 ?P2" by (simp add: s1)
  then have r2: "pipe_reach env0 env0 1 2 5 500 ?P2" by (rule pipe_reach.Step [OF r1])
  have P2: "pp_link ?P2 = L" "pp_ord ?P2 = [Some 0]" "pp_out ?P2 = s1" "pp_written ?P2 = c" "pp_got ?P2 = []" "pp_read ?P2 = 0"
    "pp_up ?P2 = 0"
    by (simp_all add: give_def P0 L(2))
  have "unstamp p = unstamp (enqueued (init_new_channel env0 1 2) ?pkt)"
    using link_reach_inv [OF L(3)] by (simp add: link_inv_def net_inv_def L(4,5))
  note H = unstamp_header [OF this]
  have q: "h_seqNo (p_header p) = 0" "has_flag (h_flag (p_header p)) FLAG_CHS" "\<not> has_flag (h_flag (p_header p)) FLAG_CHF"
    using snd_inv_queue [of L 0] link_reach_inv [OF L(3)] enqueued_first [of ?pkt] H by (simp_all add: link_inv_def L(5))
  obtain c2 a where c2: "pktRecv_list env0 [arrived 0 0 p] (lk_rcv L) = Inr c2" "lk_got (took 0 c2 L) = [0]"
    by (rule first_arrival [OF L(6-8) q])
  let ?P3 = "?P2\<lparr> pp_link := took 0 c2 L \<rparr>"
  have "link_step L (took 0 c2 L)"
    by (rule link_step.Data [OF net_up_env0 _ _ c2(1)]) (simp_all add: L(4) lk_exp_def L(7))
  then have "pipe_step 5 ?P2 ?P3"
    unfolding P2(1) [symmetric] by (rule pipe_step.Net) (simp add: took_def Let_def P2)
  then have "pipe_reach env0 env0 1 2 5 500 ?P3" by (rule pipe_reach.Step [OF r2])
  then show thesis by (rule that) (simp_all add: c2(2) s1 give_def P0)
qed

text \<open>Any message of one packet reaches the reader.\<close>

lemma first_message:
  assumes "c \<noteq> []" "length c \<le> MAX_PACKET_SENT_DATA_SIZE"
  shows "\<exists>P. pipe_reach env0 env0 1 2 5 500 P \<and> pp_written P = c \<and> pp_got P = c"
proof -
  obtain P where P: "pipe_reach env0 env0 1 2 5 500 P" "pp_written P = c" "pp_got P = []" "pp_read P = 0" "pp_up P = 0"
    "lk_got (pp_link P) = [0]" "pp_ord P = [Some 0]" "length (nf_out (pp_out P)) = 1"
    by (rule first_chunk [OF assms])
  have w: "(0 :: appInt16) < 500" "unat (500 :: appInt16) \<le> 32768" by simp_all
  note I = pipe_reach_inv [OF P(1) w]
  have n: "pp_up P < length (accepted P)" using accepted_got(1) [OF pipe_invD(1) [OF I]] by (simp add: P)
  have fl: "h_flowId (p_header (accepted P ! pp_up P)) = 5"
    using arrival_copy(3) [OF I n refl refl, of 0] by (simp add: P)
  obtain s' where s': "nf_recvPacketFrom accept_all (accepted P ! pp_up P) (pp_in P) = Inr (0, s')"
    using up_taken [OF I n refl fl] by blast
  let ?P1 = "P\<lparr> pp_in := s', pp_up := Suc (pp_up P) \<rparr>"
  have r1: "pipe_reach env0 env0 1 2 5 500 ?P1"
    by (rule pipe_reach.Step [OF P(1) pipe_step.Up [OF n refl fl s']])
  note I1 = pipe_reach_inv [OF r1 w]
  have "pp_read ?P1 \<in> arrivals ?P1" by (auto simp: arrivals_def P)
  then obtain ret bs s2 where s2: "readData 2048 (pp_in ?P1) = Inr (ret, bs, s2)" "readUpto s2 \<noteq> readUpto (pp_in ?P1)"
    using read_taken [OF I1, of 2048] by (auto simp: MAX_PACKET_SENT_DATA_SIZE_def)
  let ?P2 = "?P1\<lparr> pp_in := s2, pp_got := pp_got ?P1 @ bs,
      pp_read := (if readUpto s2 = readUpto (pp_in ?P1) then pp_read ?P1 else Suc (pp_read ?P1)) \<rparr>"
  have r2: "pipe_reach env0 env0 1 2 5 500 ?P2" by (rule pipe_reach.Step [OF r1 pipe_step.Read [OF s2(1)]])
  note D = pipe_invD [OF pipe_reach_inv [OF r2 w]]
  have rd: "pp_read ?P2 = 1" "nf_out (pp_out ?P2) = nf_out (pp_out P)" "pp_written ?P2 = c" using s2(2) by (simp_all add: P)
  have "pp_got ?P2 = concat (map body (take 1 (nf_out (pp_out P))))" using D(4) rd by (simp add: in_inv_def)
  also have "\<dots> = concat (map body (nf_out (pp_out P)))" using P(8) by simp
  also have "\<dots> = c" using D(2) rd by (simp add: out_inv_def)
  finally show ?thesis using r2 rd(3) by blast
qed

lemma pipe_delivers_witness:
  "\<exists>P rest. pipe_reach env0 env0 1 2 5 500 P \<and> pp_written P = [104, 105] \<and> pp_got P = [104, 105] \<and>
     pp_written P = pp_got P @ rest \<and> length (nf_out (pp_out P)) \<le> pp_read P + 500"
proof -
  obtain P where P: "pipe_reach env0 env0 1 2 5 500 P" "pp_written P = [104, 105]" "pp_got P = [104, 105]"
    using first_message [of "[104, 105]"] by (auto simp: MAX_PACKET_SENT_DATA_SIZE_def)
  have "(0 :: appInt16) < 500" "unat (500 :: appInt16) \<le> 32768" by simp_all
  from pipe_delivers [OF P(1) this] show ?thesis
    by (elim exE conjE) (intro exI conjI, rule P(1), rule P(2), rule P(3), assumption, simp)
qed

lemma pipe_progress_witness:
  "\<exists>P s'. pipe_reach env0 env0 1 2 5 500 P \<and>
     nf_recvPacketFrom accept_all (accepted P ! 0) (pp_in P) = Inr (0, s') \<and> readData 2048 (pp_in P) = Inl Blocked"
proof -
  obtain P where P: "pipe_reach env0 env0 1 2 5 500 P" "pp_read P = 0" "pp_up P = 0" "lk_got (pp_link P) = [0]" "pp_ord P = [Some 0]"
    using first_chunk [of "[104, 105]"] by (auto simp: MAX_PACKET_SENT_DATA_SIZE_def)
  have w: "(0 :: appInt16) < 500" "unat (500 :: appInt16) \<le> 32768" by simp_all
  note I = pipe_reach_inv [OF P(1) w]
  have n: "pp_up P < length (accepted P)" using accepted_got(1) [OF pipe_invD(1) [OF I]] by (simp add: P)
  have fl: "h_flowId (p_header (accepted P ! pp_up P)) = 5"
    using arrival_copy(3) [OF I n refl refl, of 0] by (simp add: P)
  have "pp_read P \<notin> arrivals P" by (simp add: arrivals_def P)
  then show ?thesis using pipe_progress [OF P(1) w, of 2048] n fl P(1,3) by (auto simp: MAX_PACKET_SENT_DATA_SIZE_def)
qed

end
