(* ===== verification/Spec2Isabelle.thy ===== *)
theory Spec2Isabelle
  imports PacketCodec NewChannelAck NewChannelRecv NewChannelFaults NewChannelTimeout SchedulerProps
    SchedulerDeadlock NewFlowProps Addresses StreamProps MuxProps BasicProps LLQueue Sync ThreadPool LinuxMath Common CircularBuffer
    Handshake CubicProps SearchMac ObjPool EventHandler PipeDelivery
begin

text \<open>
  Viscous: a tunnel over several network interfaces.

  The program (paths below are relative to src/src) carries the flows of an
  application between a client and a server over every pair of interfaces that
  reach each other.  Its layers, from the application down:

  \<^item> \<open>ClientConnection\<close>, and \<open>ServerConnection\<close> with one \<open>Client4Server\<close> per
    client, own a tunnel: handshake, closing, a thread that takes received
    packets from a queue (TunnelLib/ClientConnection.cc, ServerConnection.cc,
    ServerConnectionClientDetail.cc).
  \<^item> \<open>Multiplexer\<close> holds the flows of a tunnel by fingerprint and flow number
    and reports to the other side what was read (TunnelLib/multiplexer.cc).
  \<^item> A flow cuts data into packets and puts them together again:
    \<open>NewFlowHandler\<close> by blocking calls, \<open>StreamHandler\<close> by a callback
    (TunnelLib/FlowHandler).
  \<^item> \<open>NewChannelScheculer\<close> queues the packets of all flows and gives each to the
    channel with room and the smallest round trip time
    (TunnelLib/ChannelScheduler).
  \<^item> A channel is one pair of interfaces with a sliding window, acknowledgements,
    retransmission and a congestion window: \<open>NewChannelHandler\<close>, which the
    Makefile selects by \<open>-DNEW_CHANNEL_HANDLE\<close>, over
    \<open>SackNewRenoChannelHandler\<close> over \<open>BasicChannelHandler\<close>
    (TunnelLib/ChannelHandler).
  \<^item> \<open>SendThroughInterface\<close> makes the frame of a packet with its IP and UDP
    headers, \<open>SendingSocket\<close> sends it, \<open>InterfaceMonitor\<close> knows the interfaces
    (TunnelLib/InterfaceController); \<open>Connection\<close> receives.

  A received packet goes the other way: decoded by \<open>Connection\<close>, queued by the
  connection, read by its thread, given to the channel it arrived on, by the
  channel back to the thread's queue marked as processed, and from there through
  the multiplexer to its flow.
\<close>

text \<open>
  Theories and sources.

  \<^item> \<open>Prelude\<close>: integer types (common_lib/header/common.h), results and faults.
    A result is \<open>Inr\<close> the value or \<open>Inl\<close> a fault: a failed assertion, a memory
    error, a blocked thread, a loop that used up its fuel.  Every \<open>APP_ASSERT\<close> of
    the code is an \<open>app_assert\<close> of the model, every access the code does not
    guard a \<open>check\<close>.
  \<^item> \<open>Packet\<close>, \<open>PacketCodec\<close>: Packet.h, Packet.cc, PacketPool.cc; packets as a
    record, the optional headers as a datatype with one constructor per class,
    the codec as functions on bytes.
  \<^item> \<open>BitField\<close>, \<open>RecvWindow\<close>, \<open>SendBuffer\<close>, \<open>Channel\<close>, \<open>Float32\<close>: what the
    channel handlers share (util/BitField.hh, BasicChannelHandler.hh,
    ChannelHandler.cc), the congestion window as a rational rounded to a float.
  \<^item> \<open>BasicChannel\<close>, \<open>SackChannel\<close>, \<open>SackHandler\<close>, \<open>NewChannel\<close>: the three
    channel handlers.  The base class is the record \<open>chan\<close>; what a handler calls
    of its parent is a call on a list of events \<open>chan_event\<close>, which the layer
    above interprets.
  \<^item> \<open>NewChannelSend\<close>, \<open>NewChannelTimeout\<close>, \<open>NewChannelAck\<close>, \<open>NewChannelRecv\<close>,
    \<open>NewChannelFaults\<close>, \<open>BasicProps\<close>: their correctness.
  \<^item> \<open>Link\<close>, \<open>LinkProps\<close>, \<open>LinkDelivery\<close>: two ends of a channel composed over a
    network that loses, repeats and reorders datagrams; the steps are
    \<open>sendPacket\<close>, \<open>timeoutEvent\<close> and \<open>ackRecv\<close> of the sender and \<open>pktRecv\<close> of
    the receiver, and a datagram arrives as the codec reads it back.
  \<^item> \<open>Pipe\<close>, \<open>PipeProps\<close>, \<open>PipeDelivery\<close>: the flow of a writer, such a link and
    the flow of a reader; the steps are \<open>send_chunk\<close>, \<open>closeFlow\<close> and \<open>nf_recvAck\<close>
    of the writer, those of the link, \<open>nf_recvPacketFrom\<close> and \<open>readData\<close> of the
    reader.
  \<^item> \<open>Cubic\<close>, \<open>CubicProps\<close>: the handler with the CUBIC window
    (ChannelHandler/CubicChannelHandler.cc), which the Makefile leaves out; its
    cube root is a parameter.
  \<^item> \<open>Scheduler\<close>, \<open>SchedulerProps\<close>, \<open>SchedulerDeadlock\<close>: the scheduler, its
    queues as lists and its semaphores as counters.
  \<^item> \<open>NewFlow\<close>, \<open>NewFlowProps\<close>, \<open>Stream\<close>, \<open>StreamProps\<close>: the flow handlers.
  \<^item> \<open>OrderedMap\<close>, \<open>Mux\<close>, \<open>MuxProps\<close>: the multiplexer; \<open>std::map\<close> as an
    association list in the order of its keys.
  \<^item> \<open>Addresses\<close>, \<open>Datagram\<close>, \<open>IfcMonitor\<close>, \<open>SearchMac\<close>: addresses, frames,
    interfaces and the reading of their hardware addresses.
  \<^item> \<open>Tunnel\<close>, \<open>Client\<close>, \<open>ClientProps\<close>, \<open>Server\<close>, \<open>ServerProps\<close>, \<open>Handshake\<close>:
    the two ends of a tunnel and their composition over the wire.
  \<^item> \<open>EventHandler\<close>: the threads that receive and that drive the timers
    (PacketEventHandler.cc) as a step relation.
  \<^item> \<open>LLQueue\<close>, \<open>Sync\<close>, \<open>ThreadPool\<close>, \<open>ObjPool\<close>, \<open>CircularBuffer\<close>,
    \<open>LinuxMath\<close>, \<open>Common\<close>: the utilities (util, CommonHeaders.hh, CommonHeaderImpl.cc).
\<close>

text \<open>
  What the lemmas show.

  \<^item> Sending: \<open>chan_inv\<close> relates the window of a channel to its cells, its timers
    and the packets in flight; every operation of a live channel preserves it,
    packets leave in the order of their numbers and never beyond the window, the
    timeout handler ends and resends the due packets once each, an honest
    acknowledgement releases each packet once.  Numbers are 16 bits wide
    throughout and wrap; the proofs count distances on \<open>unat\<close> of differences.
  \<^item> Receiving: the window of the receiver refines a set of received numbers, a
    number is delivered once and acknowledged in order.
  \<^item> Link: with both ends composed, the parent of the receiver gets packets that
    were accepted for sending, unchanged and each once; the acknowledgements the
    sender reports are of packets delivered, each once; and what either end puts
    on the wire is what the lemmas on the other end ask of their input (an
    acknowledgement within its lifetime is \<open>honest_ack\<close> or ignored), so that
    neither can make the other fail.  The history kept for this (packets
    accepted, packets taken, packets acknowledged for good) counts in natural
    numbers; sequence numbers are their remainders.
  \<^item> Pipe: what the reader has got is a prefix of what the writer has written,
    the writer is never more than a receive window ahead, every accepted packet
    is taken and every packet that arrived can be read when its turn comes; that
    packets stay inside the windows, which the lemmas on the flows assume, is
    proved here from the flow control.  One channel carries the packets, in any
    order; the packets of other flows may be among them.
  \<^item> Scheduling: tokens and queues agree, no packet is lost when a channel takes
    it or dies, the chosen channel is minimal.
  \<^item> Flows: for every order and duplication of arrivals the reader sees a prefix
    of what was sent.
  \<^item> Codec and frames: decoding the frame built for a packet gives the packet, and
    its checksums are valid.
  \<^item> Connections: the tables of the server are inverse to each other in every
    reachable state, packets reach the client they name, a handshake over the
    wire connects both ends, an unanswered client gives up.
  \<^item> Utilities: the linked queue and the circular buffer refine a list, the
    waiting protocols wake their threads in orderly runs, identifiers of living
    objects differ.
  \<^item> What goes wrong: inputs that abort the process, the deadlock of the scheduler
    when the network is down, the fingerprint all clients of a server share.
\<close>

text \<open>
  Fuel.  The loops that walk a window of 16-bit numbers (\<open>drain\<close>, \<open>avail_loop\<close>,
  \<open>deliver_loop\<close>) empty a slot per round and are given 65537 rounds, one more
  than there are slots; their lemmas show that this is enough.  The timeout loops
  take their fuel as an argument and one more than the number of running timers
  is enough; \<open>grow\<close> doubles a capacity and needs as many rounds as the request
  has bits; \<open>getNextChildId\<close> needs one round; \<open>sendto\<close> is tried ten times by the
  code itself.  A loop that does use up its fuel is the fault of a loop that does
  not end, never a result.

  Threads.  What one thread does under one lock is one operation; the threads that
  wait for one another (\<open>Sync\<close>, \<open>ThreadPool\<close>) are step relations whose steps are
  the parts between two lock operations.  A semaphore is its counter; waiting at
  zero is the fault \<open>Blocked\<close>, which leaves the state unchanged.  Where the code
  takes a lock it already holds the model says so (\<open>SchedulerDeadlock\<close>).

  Parameters.  What the code asks of the system is an argument: the clock, the
  bytes the allocator leaves in a fresh buffer, the answers of \<open>sendto\<close>, the
  routing table, the list of addresses.  Operations of code that is not under src
  are not defined.
\<close>

text \<open>
  Not modelled: the wrappers of threads and mutexes (AppThread, AppMutex, libev),
  the C library wrappers of common_lib, the reading of the kernel's neighbour
  table (arpResolv) and the netlink listener that is never called, the profiler
  and the logger, and the evaluation programs: all of them are calls of the
  operating system.  Handlers that the Makefile does not compile
  (CongestionHandler, InterfaceScheduler, StopNWait) and containers without a
  caller (BinaryHeap, DynamicArray, PendingAcks) are left out.  In the modelled
  components the creation of sockets and threads, the destructors and
  \<open>getWorker\<close> are left out.
\<close>

end
